(* ===== verification/Prelude.thy ===== *)
theory Prelude
  imports Main "HOL-Library.Word" "HOL-Library.Monad_Syntax"
begin

text \<open>
  The shared vocabulary of the development: the machine types of the i386 kernel, the
  little-endian layout of integers in memory and on disk, byte buffers that C code updates
  in place, and the search loops the kernel's static pools are built from.

  The convention of every component: a C function that changes state takes the state and
  returns it updated. Where the C code may not return at all (a call through a null function
  pointer, a write outside a buffer, a loop that never ends) the model's result type is an
  \<open>option\<close> and \<open>None\<close> is that outcome; an error the code reports is an ordinary value (\<open>-1\<close>).
\<close>

unbundle bit_operations_syntax

type_synonym u8 = "8 word"
type_synonym u16 = "16 word"
type_synonym u32 = "32 word"

named_theorems buf_simps \<open>reading and writing byte buffers\<close>
named_theorems codec_simps \<open>little-endian encoding and decoding\<close>

section \<open>Search loops\<close>

text \<open>
  \<open>for (i = 0; i < n; i++) if (P(i)) return i;\<close> is \<open>find P [0..<n]\<close>: the least index below
  \<open>n\<close> that satisfies \<open>P\<close>, if there is one.
\<close>

lemma find_append:
  "find P (xs @ ys) = (case find P xs of None \<Rightarrow> find P ys | Some x \<Rightarrow> Some x)"
  by (induction xs) simp_all

lemma find_upt_Some_iff:
  "find P [0..<n] = Some i \<longleftrightarrow> i < n \<and> P i \<and> (\<forall>j<i. \<not> P j)"
  by (auto simp: find_Some_iff)

lemma find_upt_None_iff: "find P [0..<n] = None \<longleftrightarrow> (\<forall>i<n. \<not> P i)"
  by (auto simp: find_None_iff)

lemma find_upt_SomeD:
  assumes "find P [0..<n] = Some i"
  shows "i < n" and "P i" and "\<And>j. j < i \<Longrightarrow> \<not> P j"
  using assms by (auto simp: find_upt_Some_iff)

lemma find_upt_ex: "i < n \<Longrightarrow> P i \<Longrightarrow> \<exists>j. find P [0..<n] = Some j \<and> j \<le> i"
  by (metis find_upt_None_iff find_upt_Some_iff not_None_eq not_le_imp_less)

section \<open>Bits of a byte\<close>

lemma bit_or_push: "k < 8 \<Longrightarrow> j < 8 \<Longrightarrow> bit ((w :: u8) OR push_bit k 1) j \<longleftrightarrow> bit w j \<or> j = k"
  by (auto simp: bit_simps)

lemma bit_and_not_push:
  "k < 8 \<Longrightarrow> j < 8 \<Longrightarrow> bit ((w :: u8) AND NOT (push_bit k 1)) j \<longleftrightarrow> bit w j \<and> j \<noteq> k"
  by (auto simp: bit_simps)

section \<open>What C code relies on\<close>

definition must :: "bool \<Rightarrow> unit option" where
  \<comment> \<open>an index inside its array, a divisor that is not zero; \<open>None\<close> if it is violated\<close>
  "must b = (if b then Some () else None)"

lemma must_simps [simp]: "must True = Some ()" "must False = None"
  by (simp_all add: must_def)

lemma must_bind_eq_Some: "must b \<bind> f = Some x \<longleftrightarrow> b \<and> f () = Some x"
  by (simp add: must_def)

section \<open>Signed return values\<close>

lemma sint_small:
  assumes "unat (n :: u32) < 2 ^ 31"
  shows "sint n = int (unat n)"
proof -
  have u: "uint n = int (unat n)" by simp
  have "int (unat n) < int (2 ^ 31)" using assms by (simp only: of_nat_less_iff)
  then have "uint n < 2 ^ 31" by simp
  moreover have "- (2 ^ 31) \<le> uint n" using order_trans [of "- (2 ^ 31)" 0 "uint n"] by simp
  ultimately have "signed_take_bit 31 (uint n) = uint n" 
    by (rule signed_take_bit_int_eq_self [rotated])
  then have "sint n = uint n" by (simp add: sint_uint)
  then show ?thesis by simp
qed

section \<open>Byte buffers\<close>

text \<open>
  \<open>get_bytes off n buf\<close> are the \<open>n\<close> bytes at offset \<open>off\<close>; \<open>put_bytes off bs buf\<close> is the buffer
  after \<open>memcpy(buf + off, bs, length bs)\<close>. Both are used inside the buffer only: where C code
  could run past its end the model checks the bound first.
\<close>

definition get_bytes :: "nat \<Rightarrow> nat \<Rightarrow> 'a list \<Rightarrow> 'a list" where
  "get_bytes off n buf = take n (drop off buf)"

definition put_bytes :: "nat \<Rightarrow> 'a list \<Rightarrow> 'a list \<Rightarrow> 'a list" where
  "put_bytes off bs buf = take off buf @ bs @ drop (off + length bs) buf"

lemma length_get_bytes [buf_simps]:
  "off + n \<le> length buf \<Longrightarrow> length (get_bytes off n buf) = n"
  by (simp add: get_bytes_def)

lemma length_put_bytes [buf_simps]:
  "off + length bs \<le> length buf \<Longrightarrow> length (put_bytes off bs buf) = length buf"
  by (simp add: put_bytes_def)

lemma get_put_same [buf_simps]:
  "off + length bs \<le> length buf \<Longrightarrow> n = length bs \<Longrightarrow> get_bytes off n (put_bytes off bs buf) = bs"
  by (simp add: get_bytes_def put_bytes_def)

lemma nth_put_bytes [buf_simps]:
  "off + length bs \<le> length buf \<Longrightarrow> i < length buf \<Longrightarrow>
   put_bytes off bs buf ! i = (if off \<le> i \<and> i < off + length bs then bs ! (i - off) else buf ! i)"
  by (auto simp: put_bytes_def nth_append min_def)

lemma nth_get_bytes [buf_simps]:
  "off + n \<le> length buf \<Longrightarrow> i < n \<Longrightarrow> get_bytes off n buf ! i = buf ! (off + i)"
  by (simp add: get_bytes_def)

lemma get_put_disjoint [buf_simps]:
  assumes "off + length bs \<le> length buf" and "off' + n \<le> length buf"
    and "off' + n \<le> off \<or> off + length bs \<le> off'"
  shows "get_bytes off' n (put_bytes off bs buf) = get_bytes off' n buf"
  using assms by (intro nth_equalityI) (auto simp: buf_simps)

lemma put_bytes_whole [buf_simps]: "length bs = length buf \<Longrightarrow> put_bytes 0 bs buf = bs"
  by (simp add: put_bytes_def)

lemma put_bytes_Nil [simp]: "put_bytes off [] buf = buf"
  by (simp add: put_bytes_def)

lemma get_bytes_whole [simp]: "get_bytes 0 (length buf) buf = buf"
  by (simp add: get_bytes_def)

section \<open>Little-endian integers\<close>

definition le16 :: "u16 \<Rightarrow> u8 list" where
  "le16 w = [ucast w, ucast (drop_bit 8 w)]"

definition le32 :: "u32 \<Rightarrow> u8 list" where
  "le32 w = [ucast w, ucast (drop_bit 8 w), ucast (drop_bit 16 w), ucast (drop_bit 24 w)]"

definition of_le16 :: "u8 list \<Rightarrow> u16" where
  "of_le16 bs = ucast (bs ! 0) OR push_bit 8 (ucast (bs ! 1))"

definition of_le32 :: "u8 list \<Rightarrow> u32" where
  "of_le32 bs = ucast (bs ! 0) OR push_bit 8 (ucast (bs ! 1)) OR
     push_bit 16 (ucast (bs ! 2)) OR push_bit 24 (ucast (bs ! 3))"

lemma length_le16 [simp]: "length (le16 w) = 2"
  by (simp add: le16_def)

lemma length_le32 [simp]: "length (le32 w) = 4"
  by (simp add: le32_def)

lemma of_le16_le16 [codec_simps]: "of_le16 (le16 w) = w"
  unfolding of_le16_def le16_def
  by (rule bit_word_eqI) (auto simp: bit_simps)

lemma of_le32_le32 [codec_simps]: "of_le32 (le32 w) = w"
proof (rule bit_word_eqI)
  fix n
  assume "n < LENGTH(32)"
  then consider "n < 8" | "8 \<le> n" "n < 16" | "16 \<le> n" "n < 24" | "24 \<le> n" "n < 32"
    by fastforce
  then show "bit (of_le32 (le32 w)) n \<longleftrightarrow> bit w n"
    by cases (auto simp: of_le32_def le32_def bit_simps)
qed

section \<open>C strings\<close>

text \<open>
  A C string is the \<open>string\<close> of its characters before the terminating zero byte. On disk it is the
  list of its bytes.
\<close>

definition str_bytes :: "string \<Rightarrow> u8 list" where
  "str_bytes s = map (\<lambda>c. of_nat (of_char c)) s"

definition bytes_str :: "u8 list \<Rightarrow> string" where
  "bytes_str bs = map (\<lambda>b. char_of (unat b)) bs"

definition c_str :: "string \<Rightarrow> string" where
  \<comment> \<open>the string a character array holds\<close>
  "c_str s = takeWhile (\<lambda>c. c \<noteq> CHR 0x00) s"

lemma length_str_bytes [simp]: "length (str_bytes s) = length s"
  by (simp add: str_bytes_def)

lemma bytes_str_str_bytes [simp]: "bytes_str (str_bytes s) = s"
proof -
  have "unat (of_nat (of_char c) :: u8) = of_char c" for c :: char
  proof -
    have "of_char c < (256 :: nat)" using nat_of_char_less_256 by simp
    then show ?thesis by (simp add: unat_of_nat)
  qed
  then show ?thesis by (simp add: bytes_str_def str_bytes_def comp_def)
qed

lemma str_bytes_eq_iff [simp]: "str_bytes s = str_bytes t \<longleftrightarrow> s = t"
  by (metis bytes_str_str_bytes)

end
