(* ===== verification/Interfaces.thy ===== *)
theory Interfaces
  imports Prelude
begin

text \<open>
  The contracts that several components of the kernel share, as locales: a bounded first-in
  first-out buffer (the ring of a pipe, the ring of the keyboard driver), a pool of
  statically allocated slots searched from index 0 (pipes, page frames), and a structure
  stored in a byte buffer (superblock, group descriptors, inodes, partition entries). Each
  component interprets the contract on its own definitions.
\<close>

section \<open>Bounded first-in first-out buffers\<close>

locale fifo =
  fixes contents :: "'q \<Rightarrow> 'a list"
    and capacity :: nat
    and push :: "'a \<Rightarrow> 'q \<Rightarrow> 'q"
    and pop :: "'q \<Rightarrow> ('a \<times> 'q) option"
    and invar :: "'q \<Rightarrow> bool"
  assumes contents_push:
      "invar q \<Longrightarrow> length (contents q) < capacity \<Longrightarrow> contents (push x q) = contents q @ [x]"
    and invar_push: "invar q \<Longrightarrow> length (contents q) < capacity \<Longrightarrow> invar (push x q)"
    and pop_None_iff: "invar q \<Longrightarrow> pop q = None \<longleftrightarrow> contents q = []"
    and contents_pop: "invar q \<Longrightarrow> pop q = Some (x, q') \<Longrightarrow> contents q = x # contents q'"
    and invar_pop: "invar q \<Longrightarrow> pop q = Some (x, q') \<Longrightarrow> invar q'"
begin

fun pop_upto :: "nat \<Rightarrow> 'q \<Rightarrow> 'a list \<times> 'q" where
  "pop_upto 0 q = ([], q)"
| "pop_upto (Suc n) q =
     (case pop q of None \<Rightarrow> ([], q)
      | Some (x, q') \<Rightarrow> (let (xs, r) = pop_upto n q' in (x # xs, r)))"

lemma fold_push:
  assumes "invar q" and "length (contents q) + length xs \<le> capacity"
  shows "contents (fold push xs q) = contents q @ xs \<and> invar (fold push xs q)"
  using assms
proof (induction xs arbitrary: q)
  case Nil
  then show ?case by simp
next
  case (Cons x xs)
  then have room: "length (contents q) < capacity" by simp
  have "contents (push x q) = contents q @ [x]" and "invar (push x q)"
    using Cons.prems(1) room by (auto intro: contents_push invar_push)
  with Cons.IH [of "push x q"] Cons.prems(2) show ?case by simp
qed

lemma pop_upto_take:
  assumes "invar q"
  shows "fst (pop_upto n q) = take n (contents q) \<and>
    contents (snd (pop_upto n q)) = drop n (contents q) \<and> invar (snd (pop_upto n q))"
  using assms
proof (induction n arbitrary: q)
  case 0
  then show ?case by simp
next
  case (Suc n)
  show ?case
  proof (cases "pop q")
    case None
    with Suc.prems have "contents q = []" by (simp add: pop_None_iff [symmetric])
    with None Suc.prems show ?thesis by simp
  next
    case (Some p)
    obtain x q' where p: "p = (x, q')" by (cases p)
    with Some Suc.prems have "contents q = x # contents q'" and "invar q'"
      by (auto dest: contents_pop invar_pop)
    with Suc.IH [of q'] Some p show ?thesis
      by (cases "pop_upto n q'") auto
  qed
qed

lemma push_then_pop:
  assumes "invar q" and "contents q = []" and "length xs \<le> capacity"
  shows "fst (pop_upto (length xs) (fold push xs q)) = xs"
proof -
  have "contents (fold push xs q) = xs" and inv: "invar (fold push xs q)"
    using fold_push [of q xs] assms by auto
  with pop_upto_take [OF inv, of "length xs"] show ?thesis by simp
qed

end

text \<open>Positions of a ring buffer that lie less than a full turn apart are distinct.\<close>

lemma ring_index_neq:
  assumes "i < n" and "n < N"
  shows "(r + i) mod N \<noteq> (r + n) mod (N :: nat)"
proof
  assume "(r + i) mod N = (r + n) mod N"
  then have "N dvd (r + n) - (r + i)" using assms mod_eq_dvd_iff_nat [of "r + i" "r + n" N] by simp
  then have "N dvd n - i" by simp
  then show False using assms nat_dvd_not_less [of "n - i" N] by simp
qed

section \<open>Slot pools\<close>

text \<open>
  A pool has \<open>size\<close> slots; \<open>alloc\<close> hands out the lowest free one, or none; \<open>free\<close> gives a slot
  back. \<open>used\<close> says which slots are handed out.
\<close>

locale slot_pool =
  fixes used :: "'s \<Rightarrow> nat \<Rightarrow> bool"
    and size :: nat
    and alloc :: "'s \<Rightarrow> nat option \<times> 's"
    and free :: "nat \<Rightarrow> 's \<Rightarrow> 's"
    and invar :: "'s \<Rightarrow> bool"
  assumes alloc_find: "invar s \<Longrightarrow> fst (alloc s) = find (\<lambda>i. \<not> used s i) [0..<size]"
    and used_alloc:
      "invar s \<Longrightarrow> used (snd (alloc s)) j \<longleftrightarrow> used s j \<or> fst (alloc s) = Some j"
    and used_free: "invar s \<Longrightarrow> i < size \<Longrightarrow> used (free i s) j \<longleftrightarrow> used s j \<and> j \<noteq> i"
    and invar_alloc: "invar s \<Longrightarrow> invar (snd (alloc s))"
    and invar_free: "invar s \<Longrightarrow> i < size \<Longrightarrow> invar (free i s)"
begin

lemma alloc_fresh:
  assumes "invar s" and "alloc s = (Some i, s')"
  shows "i < size \<and> \<not> used s i \<and> used s' i \<and> (\<forall>j. j \<noteq> i \<longrightarrow> used s' j = used s j)"
proof -
  have "find (\<lambda>i. \<not> used s i) [0..<size] = Some i"
    using alloc_find [OF assms(1)] assms(2) by simp
  then have "i < size" and "\<not> used s i"
    by (simp_all add: find_upt_Some_iff)
  moreover have "used s' j \<longleftrightarrow> used s j \<or> i = j" for j
    using used_alloc [OF assms(1), of j] assms(2) by simp
  ultimately show ?thesis by simp
qed

lemma alloc_full: "invar s \<Longrightarrow> fst (alloc s) = None \<longleftrightarrow> (\<forall>i < size. used s i)"
  by (simp add: alloc_find find_upt_None_iff)

lemma alloc_twice_distinct:
  assumes "invar s" and "alloc s = (Some i, s')" and "alloc s' = (Some j, s'')"
  shows "i \<noteq> j"
proof -
  have "used s' i" using alloc_fresh assms(1,2) by blast
  moreover have "invar s'" using invar_alloc [OF assms(1)] assms(2) by simp
  then have "\<not> used s' j" using alloc_fresh assms(3) by blast
  ultimately show ?thesis by auto
qed

lemma free_then_alloc:
  assumes "invar s" and "alloc s = (Some i, s')"
  shows "fst (alloc (free i s')) = Some i"
proof -
  have inv': "invar s'" using invar_alloc [OF assms(1)] assms(2) by simp
  have i: "i < size" and u: "used (free i s') j = used s j" for j
    using alloc_fresh [OF assms] used_free [OF inv', of i j] by (cases "j = i"; auto)+
  have "invar (free i s')" using invar_free [OF inv' i] .
  then have "fst (alloc (free i s')) = find (\<lambda>k. \<not> used s k) [0..<size]"
    by (simp add: alloc_find u)
  also have "\<dots> = Some i" using alloc_find [OF assms(1)] assms(2) by simp
  finally show ?thesis .
qed

lemma alloc_decreases_free:
  assumes "invar s" and "alloc s = (Some i, s')"
  shows "card {j. j < size \<and> \<not> used s j} = Suc (card {j. j < size \<and> \<not> used s' j})"
proof -
  have "{j. j < size \<and> \<not> used s j} = insert i {j. j < size \<and> \<not> used s' j}"
    and "i \<notin> {j. j < size \<and> \<not> used s' j}"
    using alloc_fresh [OF assms] by auto
  then show ?thesis by simp
qed

end

section \<open>Sector stores\<close>

text \<open>
  What a file system relies on in the device below it: over a range of sector addresses, a sector
  reads back as it was last written, and writing one sector does not change another.
\<close>

locale sector_store =
  fixes rd :: "'d \<Rightarrow> u32 \<Rightarrow> u8 list option"
    and wr :: "u32 \<Rightarrow> u8 list \<Rightarrow> 'd \<Rightarrow> 'd option"
    and in_range :: "u32 \<Rightarrow> bool"
    and wf :: "'d \<Rightarrow> bool"
  assumes rd_length: "wf d \<Longrightarrow> rd d l = Some bs \<Longrightarrow> length bs = 512"
    and wr_None: "wr l bs d = None \<longleftrightarrow> rd d l = None"
    and rd_wr: "in_range l \<Longrightarrow> in_range l' \<Longrightarrow> wr l bs d = Some d' \<Longrightarrow>
                rd d' l' = (if l' = l then Some bs else rd d l')"
    and wf_wr: "wf d \<Longrightarrow> length bs = 512 \<Longrightarrow> wr l bs d = Some d' \<Longrightarrow> wf d'"
begin

fun rd_many :: "'d \<Rightarrow> u32 \<Rightarrow> nat \<Rightarrow> u8 list option" where
  "rd_many d l 0 = Some []"
| "rd_many d l (Suc n) =
     (case rd d l of
        None \<Rightarrow> None
      | Some bs \<Rightarrow> map_option (\<lambda>rest. bs @ rest) (rd_many d (l + 1) n))"

fun wr_many :: "u32 \<Rightarrow> nat \<Rightarrow> u8 list \<Rightarrow> 'd \<Rightarrow> 'd option" where
  "wr_many l 0 data d = Some d"
| "wr_many l (Suc n) data d =
     (case wr l (take 512 data) d of
        None \<Rightarrow> None
      | Some d' \<Rightarrow> wr_many (l + 1) n (drop 512 data) d')"

abbreviation run_ok :: "u32 \<Rightarrow> nat \<Rightarrow> bool" where
  \<comment> \<open>a run of sectors that does not wrap around and is in range\<close>
  "run_ok l n \<equiv> unat l + n \<le> 2 ^ 32 \<and> (\<forall>i < n. in_range (l + of_nat i))"

lemma run_ok_Suc:
  assumes "run_ok l (Suc n)"
  shows "in_range l" and "n \<noteq> 0 \<Longrightarrow> run_ok (l + 1) n" and "n \<noteq> 0 \<Longrightarrow> unat (l + 1) = unat l + 1"
proof -
  have all: "in_range (l + of_nat i)" if "i < Suc n" for i using assms that by blast
  show "in_range l" using all [of 0] by simp
  assume "n \<noteq> 0"
  then have "unat l + 1 < 2 ^ 32" using conjunct1 [OF assms] by simp
  then show u: "unat (l + 1) = unat l + 1" by (simp add: unat_word_ariths)
  have "in_range (l + 1 + of_nat i)" if "i < n" for i
    using all [of "Suc i"] that by (simp add: add_ac)
  then show "run_ok (l + 1) n" using conjunct1 [OF assms] u by auto
qed

lemma rd_wr_many_outside:
  assumes "run_ok l n" and "wr_many l n data d = Some d'" and "in_range k"
    and "unat k < unat l \<or> unat l + n \<le> unat k"
  shows "rd d' k = rd d k"
  using assms
proof (induction n arbitrary: l data d)
  case 0
  then show ?case by simp
next
  case (Suc n)
  obtain d1 where d1: "wr l (take 512 data) d = Some d1" "wr_many (l + 1) n (drop 512 data) d1 = Some d'"
    using Suc.prems(2) by (auto split: option.splits)
  have ne: "k \<noteq> l" using Suc.prems(4) by auto
  have 1: "rd d1 k = rd d k"
    using rd_wr [OF run_ok_Suc(1) [OF Suc.prems(1)] Suc.prems(3) d1(1)] ne by simp
  show ?case
  proof (cases "n = 0")
    case True
    then show ?thesis using d1 1 by simp
  next
    case False
    then show ?thesis
      using Suc.IH [OF run_ok_Suc(2) [OF Suc.prems(1)] d1(2) Suc.prems(3)]
        run_ok_Suc(3) [OF Suc.prems(1)] Suc.prems(4) 1 by auto
  qed
qed

lemma rd_many_cong:
  assumes "run_ok l n"
    and "\<And>k. in_range k \<Longrightarrow> unat l \<le> unat k \<Longrightarrow> unat k < unat l + n \<Longrightarrow> rd d' k = rd d k"
  shows "rd_many d' l n = rd_many d l n"
  using assms
proof (induction n arbitrary: l)
  case (Suc n)
  have "rd d' l = rd d l" using Suc.prems(2) run_ok_Suc(1) [OF Suc.prems(1)] by simp
  moreover have "rd_many d' (l + 1) n = rd_many d (l + 1) n"
  proof (cases "n = 0")
    case False
    then show ?thesis
      using run_ok_Suc(2,3) [OF Suc.prems(1)] Suc.prems(2) by (intro Suc.IH) auto
  qed simp
  ultimately show ?case by (simp split: option.split)
qed simp

lemma rd_many_wr_many:
  assumes "run_ok l n" and "length data = 512 * n" and "wr_many l n data d = Some d'"
  shows "rd_many d' l n = Some data"
  using assms
proof (induction n arbitrary: l data d)
  case (Suc n)
  obtain d1 where d1: "wr l (take 512 data) d = Some d1" "wr_many (l + 1) n (drop 512 data) d1 = Some d'"
    using Suc.prems(3) by (auto split: option.splits)
  have ir: "in_range l" using run_ok_Suc(1) [OF Suc.prems(1)] .
  have "rd d1 l = Some (take 512 data)" using rd_wr [OF ir ir d1(1)] by simp
  moreover have "rd d' l = rd d1 l \<and> rd_many d' (l + 1) n = Some (drop 512 data)"
  proof (cases "n = 0")
    case True
    then show ?thesis using d1 Suc.prems(2) by simp
  next
    case False
    note r = run_ok_Suc(2,3) [OF Suc.prems(1) False]
    have "rd d' l = rd d1 l" using rd_wr_many_outside [OF r(1) d1(2) ir] r(2) by simp
    moreover have "rd_many d' (l + 1) n = Some (drop 512 data)"
      using Suc.IH [OF r(1) _ d1(2)] Suc.prems(2) by simp
    ultimately show ?thesis ..
  qed
  ultimately show ?case by simp
qed simp

lemma rd_many_wr_many_outside:
  assumes "run_ok l n" and "wr_many l n data d = Some d'" and "run_ok k m"
    and "unat k + m \<le> unat l \<or> unat l + n \<le> unat k"
  shows "rd_many d' k m = rd_many d k m"
  using assms by (intro rd_many_cong rd_wr_many_outside [OF assms(1,2)]) auto

lemma wf_wr_many:
  assumes "wf d" and "length data = 512 * n" and "wr_many l n data d = Some d'"
  shows "wf d'"
  using assms
proof (induction n arbitrary: l data d)
  case (Suc n)
  obtain d1 where d1: "wr l (take 512 data) d = Some d1" "wr_many (l + 1) n (drop 512 data) d1 = Some d'"
    using Suc.prems(3) by (auto split: option.splits)
  have "wf d1" using wf_wr [OF Suc.prems(1) _ d1(1)] Suc.prems(2) by simp
  then show ?case using Suc.IH [OF _ _ d1(2)] Suc.prems(2) by simp
qed simp

lemma length_rd_many: "wf d \<Longrightarrow> rd_many d l n = Some bs \<Longrightarrow> length bs = 512 * n"
  by (induction n arbitrary: l bs) (auto dest: rd_length split: option.splits)

lemma wr_many_total:
  assumes "run_ok l n" and "rd_many d l n \<noteq> None"
  shows "wr_many l n data d \<noteq> None"
  using assms
proof (induction n arbitrary: l data d)
  case (Suc n)
  then obtain d1 where d1: "wr l (take 512 data) d = Some d1"
    using wr_None [of l "take 512 data" d] by (auto split: option.splits)
  have tail: "rd_many d (l + 1) n \<noteq> None" using Suc.prems(2) by (auto split: option.splits)
  show ?case
  proof (cases "n = 0")
    case False
    note r = run_ok_Suc(2,3) [OF Suc.prems(1) False]
    have "rd_many d1 (l + 1) n = rd_many d (l + 1) n"
      using rd_wr [OF run_ok_Suc(1) [OF Suc.prems(1)] _ d1] r by (intro rd_many_cong) auto
    then show ?thesis using Suc.IH [OF r(1)] tail d1 by simp
  qed (simp add: d1)
qed simp

end

section \<open>Structures in byte buffers\<close>

text \<open>
  A packed C structure occupies \<open>width\<close> bytes; reading it back from where it was written gives
  the structure, and writing it does not disturb the structure next to it.
\<close>

locale packed_struct =
  fixes encode :: "'a \<Rightarrow> u8 list"
    and decode :: "u8 list \<Rightarrow> 'a"
    and width :: nat
    and wf :: "'a \<Rightarrow> bool"
  assumes length_encode: "wf x \<Longrightarrow> length (encode x) = width"
    and decode_encode: "wf x \<Longrightarrow> decode (encode x) = x"
begin

lemma read_written:
  "wf x \<Longrightarrow> off + width \<le> length buf \<Longrightarrow>
     decode (get_bytes off width (put_bytes off (encode x) buf)) = x"
  by (simp add: get_put_same length_encode decode_encode)

lemma length_written:
  "wf x \<Longrightarrow> off + width \<le> length buf \<Longrightarrow> length (put_bytes off (encode x) buf) = length buf"
  by (simp add: length_put_bytes length_encode)

lemma read_other_slot:
  assumes "wf x" and "off + width \<le> length buf" and "off' + n \<le> length buf"
    and "off' + n \<le> off \<or> off + width \<le> off'"
  shows "get_bytes off' n (put_bytes off (encode x) buf) = get_bytes off' n buf"
  using assms by (intro get_put_disjoint) (auto simp: length_encode)

end

end
