(* ===== verification/Ext2_Layout.thy ===== *)
theory Ext2_Layout
  imports Prelude Interfaces
begin

text \<open>
  The on-disk structures of \<open>kernel/ext2.h\<close> as records, and the bytes of their packed layout.
  The code reads and writes them by casting a pointer into its block buffer; \<open>decode_*\<close> and
  \<open>encode_*\<close> are what such a cast reads and stores on the little-endian i386.
\<close>

definition EXT2_MAGIC :: u16 where "EXT2_MAGIC = 0xEF53"
definition EXT2_ROOT_INO :: u32 where "EXT2_ROOT_INO = 2"
definition EXT2_GOOD_OLD_INODE_SIZE :: u32 where "EXT2_GOOD_OLD_INODE_SIZE = 128"

subsection \<open>Arrays of words\<close>

definition le32s :: "u32 list \<Rightarrow> u8 list" where
  "le32s ws = concat (map le32 ws)"

definition of_le32s :: "nat \<Rightarrow> u8 list \<Rightarrow> u32 list" where
  "of_le32s n bs = map (\<lambda>i. of_le32 (get_bytes (4 * i) 4 bs)) [0..<n]"

lemma length_le32s [simp]: "length (le32s ws) = 4 * length ws"
  by (induction ws) (simp_all add: le32s_def)

lemma get_bytes_Suc_le32s: "get_bytes (4 * Suc i) 4 (le32 w @ bs) = get_bytes (4 * i) 4 bs"
  by (simp add: get_bytes_def)

lemma of_le32s_le32s [codec_simps]: "n = length ws \<Longrightarrow> of_le32s n (le32s ws) = ws"
proof (induction ws arbitrary: n)
  case (Cons w ws)
  have "of_le32s (Suc (length ws)) (le32 w @ le32s ws)
      = of_le32 (get_bytes 0 4 (le32 w @ le32s ws)) # of_le32s (length ws) (le32s ws)"
    unfolding of_le32s_def by (simp only: upt_conv_Cons map_Suc_upt [symmetric] list.map
        zero_less_Suc map_map comp_def get_bytes_Suc_le32s mult_0_right)
  then show ?case using Cons by (simp add: le32s_def get_bytes_def codec_simps)
qed (simp add: of_le32s_def le32s_def)

subsection \<open>The super block\<close>

record ext2_sb =
  sb_inodes_count :: u32
  sb_blocks_count :: u32
  sb_r_blocks_count :: u32
  sb_free_blocks_count :: u32
  sb_free_inodes_count :: u32
  sb_first_data_block :: u32
  sb_log_block_size :: u32
  sb_log_frag_size :: u32
  sb_blocks_per_group :: u32
  sb_frags_per_group :: u32
  sb_inodes_per_group :: u32
  sb_mtime :: u32
  sb_wtime :: u32
  sb_mnt_count :: u16
  sb_max_mnt_count :: u16
  sb_magic :: u16
  sb_state :: u16
  sb_errors :: u16
  sb_minor_rev :: u16
  sb_lastcheck :: u32
  sb_checkinterval :: u32
  sb_creator_os :: u32
  sb_rev_level :: u32
  sb_def_resuid :: u16
  sb_def_resgid :: u16
  sb_first_ino :: u32
  sb_inode_size :: u16
  sb_block_group_nr :: u16
  sb_feature_compat :: u32
  sb_feature_incompat :: u32
  sb_feature_ro_compat :: u32
  sb_uuid :: "u8 list"
  sb_volume_name :: "u8 list"

definition SB_SIZE :: nat where "SB_SIZE = 136"

definition wf_sb :: "ext2_sb \<Rightarrow> bool" where
  "wf_sb s \<longleftrightarrow> length (sb_uuid s) = 16 \<and> length (sb_volume_name s) = 16"

definition encode_sb :: "ext2_sb \<Rightarrow> u8 list" where
  "encode_sb s =
     le32s [sb_inodes_count s, sb_blocks_count s, sb_r_blocks_count s, sb_free_blocks_count s,
            sb_free_inodes_count s, sb_first_data_block s, sb_log_block_size s, sb_log_frag_size s,
            sb_blocks_per_group s, sb_frags_per_group s, sb_inodes_per_group s, sb_mtime s, sb_wtime s] @
     le16 (sb_mnt_count s) @ le16 (sb_max_mnt_count s) @ le16 (sb_magic s) @ le16 (sb_state s) @
     le16 (sb_errors s) @ le16 (sb_minor_rev s) @
     le32s [sb_lastcheck s, sb_checkinterval s, sb_creator_os s, sb_rev_level s] @
     le16 (sb_def_resuid s) @ le16 (sb_def_resgid s) @
     le32 (sb_first_ino s) @ le16 (sb_inode_size s) @ le16 (sb_block_group_nr s) @
     le32s [sb_feature_compat s, sb_feature_incompat s, sb_feature_ro_compat s] @
     sb_uuid s @ sb_volume_name s"

definition decode_sb :: "u8 list \<Rightarrow> ext2_sb" where
  "decode_sb bs =
     (let w = (\<lambda>off. of_le32 (get_bytes off 4 bs)); h = (\<lambda>off. of_le16 (get_bytes off 2 bs)) in
      \<lparr>sb_inodes_count = w 0, sb_blocks_count = w 4, sb_r_blocks_count = w 8, sb_free_blocks_count = w 12,
       sb_free_inodes_count = w 16, sb_first_data_block = w 20, sb_log_block_size = w 24,
       sb_log_frag_size = w 28, sb_blocks_per_group = w 32, sb_frags_per_group = w 36,
       sb_inodes_per_group = w 40, sb_mtime = w 44, sb_wtime = w 48,
       sb_mnt_count = h 52, sb_max_mnt_count = h 54, sb_magic = h 56, sb_state = h 58,
       sb_errors = h 60, sb_minor_rev = h 62,
       sb_lastcheck = w 64, sb_checkinterval = w 68, sb_creator_os = w 72, sb_rev_level = w 76,
       sb_def_resuid = h 80, sb_def_resgid = h 82,
       sb_first_ino = w 84, sb_inode_size = h 88, sb_block_group_nr = h 90,
       sb_feature_compat = w 92, sb_feature_incompat = w 96, sb_feature_ro_compat = w 100,
       sb_uuid = get_bytes 104 16 bs, sb_volume_name = get_bytes 120 16 bs\<rparr>)"

subsection \<open>Group descriptors\<close>

record ext2_bgdesc =
  bg_block_bitmap :: u32
  bg_inode_bitmap :: u32
  bg_inode_table :: u32
  bg_free_blocks_count :: u16
  bg_free_inodes_count :: u16
  bg_used_dirs_count :: u16
  bg_pad :: u16
  bg_reserved :: "u32 list"

definition BGDESC_SIZE :: nat where "BGDESC_SIZE = 32"

definition wf_bgdesc :: "ext2_bgdesc \<Rightarrow> bool" where
  "wf_bgdesc g \<longleftrightarrow> length (bg_reserved g) = 3"

definition encode_bgdesc :: "ext2_bgdesc \<Rightarrow> u8 list" where
  "encode_bgdesc g =
     le32s [bg_block_bitmap g, bg_inode_bitmap g, bg_inode_table g] @
     le16 (bg_free_blocks_count g) @ le16 (bg_free_inodes_count g) @ le16 (bg_used_dirs_count g) @
     le16 (bg_pad g) @ le32s (bg_reserved g)"

definition decode_bgdesc :: "u8 list \<Rightarrow> ext2_bgdesc" where
  "decode_bgdesc bs =
     (let w = (\<lambda>off. of_le32 (get_bytes off 4 bs)); h = (\<lambda>off. of_le16 (get_bytes off 2 bs)) in
      \<lparr>bg_block_bitmap = w 0, bg_inode_bitmap = w 4, bg_inode_table = w 8,
       bg_free_blocks_count = h 12, bg_free_inodes_count = h 14, bg_used_dirs_count = h 16, bg_pad = h 18,
       bg_reserved = of_le32s 3 (get_bytes 20 12 bs)\<rparr>)"

subsection \<open>Inodes\<close>

record ext2_inode =
  di_mode :: u16
  di_uid :: u16
  di_size :: u32
  di_atime :: u32
  di_ctime :: u32
  di_mtime :: u32
  di_dtime :: u32
  di_gid :: u16
  di_links :: u16
  di_blocks :: u32
  di_flags :: u32
  di_osd1 :: u32
  di_block :: "u32 list"
  di_generation :: u32
  di_file_acl :: u32
  di_dir_acl :: u32
  di_faddr :: u32
  di_osd2 :: "u32 list"

definition INODE_SIZE :: nat where "INODE_SIZE = 128"

definition wf_ext2_inode :: "ext2_inode \<Rightarrow> bool" where
  "wf_ext2_inode n \<longleftrightarrow> length (di_block n) = 15 \<and> length (di_osd2 n) = 3"

definition encode_ext2_inode :: "ext2_inode \<Rightarrow> u8 list" where
  "encode_ext2_inode n =
     le16 (di_mode n) @ le16 (di_uid n) @
     le32s [di_size n, di_atime n, di_ctime n, di_mtime n, di_dtime n] @
     le16 (di_gid n) @ le16 (di_links n) @
     le32s [di_blocks n, di_flags n, di_osd1 n] @ le32s (di_block n) @
     le32s [di_generation n, di_file_acl n, di_dir_acl n, di_faddr n] @ le32s (di_osd2 n)"

definition decode_ext2_inode :: "u8 list \<Rightarrow> ext2_inode" where
  "decode_ext2_inode bs =
     (let w = (\<lambda>off. of_le32 (get_bytes off 4 bs)); h = (\<lambda>off. of_le16 (get_bytes off 2 bs)) in
      \<lparr>di_mode = h 0, di_uid = h 2, di_size = w 4, di_atime = w 8, di_ctime = w 12, di_mtime = w 16,
       di_dtime = w 20, di_gid = h 24, di_links = h 26, di_blocks = w 28, di_flags = w 32, di_osd1 = w 36,
       di_block = of_le32s 15 (get_bytes 40 60 bs),
       di_generation = w 100, di_file_acl = w 104, di_dir_acl = w 108, di_faddr = w 112,
       di_osd2 = of_le32s 3 (get_bytes 116 12 bs)\<rparr>)"

definition zero_inode :: ext2_inode where
  \<comment> \<open>after \<open>memset(&new_raw, 0, sizeof(new_raw))\<close>\<close>
  "zero_inode =
     \<lparr>di_mode = 0, di_uid = 0, di_size = 0, di_atime = 0, di_ctime = 0, di_mtime = 0, di_dtime = 0,
      di_gid = 0, di_links = 0, di_blocks = 0, di_flags = 0, di_osd1 = 0, di_block = replicate 15 0,
      di_generation = 0, di_file_acl = 0, di_dir_acl = 0, di_faddr = 0, di_osd2 = replicate 3 0\<rparr>"

subsection \<open>Directory entries\<close>

record ext2_dirent =
  de_inode :: u32
  de_rec_len :: u16
  de_name_len :: u8
  de_file_type :: u8

definition DIRENT_SIZE :: nat where "DIRENT_SIZE = 8"

definition encode_dirent :: "ext2_dirent \<Rightarrow> u8 list" where
  "encode_dirent d = le32 (de_inode d) @ le16 (de_rec_len d) @ [de_name_len d, de_file_type d]"

definition decode_dirent :: "u8 list \<Rightarrow> ext2_dirent" where
  "decode_dirent bs =
     \<lparr>de_inode = of_le32 (get_bytes 0 4 bs), de_rec_len = of_le16 (get_bytes 4 2 bs),
      de_name_len = bs ! 6, de_file_type = bs ! 7\<rparr>"

subsection \<open>Reading back what was written\<close>

lemma get_bytes_skip: "length xs \<le> off \<Longrightarrow> get_bytes off n (xs @ ys) = get_bytes (off - length xs) n ys"
  by (simp add: get_bytes_def)

lemma get_bytes_here: "length xs = n \<Longrightarrow> get_bytes 0 n (xs @ ys) = xs"
  by (simp add: get_bytes_def)

lemma get_bytes_all: "length xs = n \<Longrightarrow> get_bytes 0 n xs = xs"
  by (simp add: get_bytes_def)

lemma le32s_Cons: "le32s (w # ws) = le32 w @ le32s ws"
  by (simp add: le32s_def)

lemma le32s_Nil: "le32s [] = []"
  by (simp add: le32s_def)

lemmas layout_simps = get_bytes_skip get_bytes_here get_bytes_all le32s_Cons le32s_Nil codec_simps Let_def

lemma decode_encode_sb: "wf_sb s \<Longrightarrow> decode_sb (encode_sb s) = s"
  unfolding decode_sb_def encode_sb_def wf_sb_def
  by (cases s) (simp add: layout_simps)

lemma decode_encode_bgdesc: "wf_bgdesc g \<Longrightarrow> decode_bgdesc (encode_bgdesc g) = g"
  unfolding decode_bgdesc_def encode_bgdesc_def wf_bgdesc_def
  by (cases g) (simp add: layout_simps)

lemma decode_encode_ext2_inode: "wf_ext2_inode n \<Longrightarrow> decode_ext2_inode (encode_ext2_inode n) = n"
  unfolding decode_ext2_inode_def encode_ext2_inode_def wf_ext2_inode_def
  by (cases n) (simp add: layout_simps)

lemma decode_encode_dirent: "decode_dirent (encode_dirent d) = d"
  unfolding decode_dirent_def encode_dirent_def
  by (cases d) (simp add: layout_simps nth_append)

interpretation sb: packed_struct encode_sb decode_sb SB_SIZE wf_sb
  by unfold_locales (simp_all add: decode_encode_sb, simp add: encode_sb_def wf_sb_def SB_SIZE_def)

interpretation bgdesc: packed_struct encode_bgdesc decode_bgdesc BGDESC_SIZE wf_bgdesc
  by unfold_locales (simp_all add: decode_encode_bgdesc, simp add: encode_bgdesc_def wf_bgdesc_def BGDESC_SIZE_def)

interpretation dinode: packed_struct encode_ext2_inode decode_ext2_inode INODE_SIZE wf_ext2_inode
  by unfold_locales (simp_all add: decode_encode_ext2_inode,
      simp add: encode_ext2_inode_def wf_ext2_inode_def INODE_SIZE_def)

interpretation dirent: packed_struct encode_dirent decode_dirent DIRENT_SIZE "\<lambda>_. True"
  by unfold_locales (simp_all add: decode_encode_dirent, simp add: encode_dirent_def DIRENT_SIZE_def)

lemma wf_zero_inode [simp]: "wf_ext2_inode zero_inode"
  by (simp add: wf_ext2_inode_def zero_inode_def)

lemma wf_decode_ext2_inode [simp]: "wf_ext2_inode (decode_ext2_inode bs)"
  by (simp add: wf_ext2_inode_def decode_ext2_inode_def of_le32s_def Let_def)

lemma wf_decode_bgdesc [simp]: "wf_bgdesc (decode_bgdesc bs)"
  by (simp add: wf_bgdesc_def decode_bgdesc_def of_le32s_def Let_def)

lemma wf_decode_sb: "136 \<le> length bs \<Longrightarrow> wf_sb (decode_sb bs)"
  by (simp add: wf_sb_def decode_sb_def Let_def buf_simps)

end
