(* ===== verification/Vfs_Types.thy ===== *)
theory Vfs_Types
  imports Prelude Interfaces
begin

text \<open>
  The types of \<open>kernel/vfs.h\<close> and the inode pool of \<open>kernel/vfs.c\<close> that every file system
  allocates from. A \<open>struct vfs_inode *\<close> into the static pool is its index. An \<open>ops\<close> table is
  the tag of the table the pointer points to, and \<open>private_data\<close> carries what kind of structure
  the pointer leads to, so that a cast to another kind shows up as a missing case.
\<close>

subsection \<open>Constants\<close>

definition VFS_MAX_INODES :: nat where "VFS_MAX_INODES = 256"
definition VFS_MAX_OPEN_FILES :: nat where "VFS_MAX_OPEN_FILES = 16"
definition VFS_MAX_MOUNTS :: nat where "VFS_MAX_MOUNTS = 8"

datatype i_type = VFS_IFILE | VFS_IDIR | VFS_ISYMLINK | VFS_IFCHR | VFS_IFBLK

definition S_IFMT :: u16 where "S_IFMT = 0xF000"
definition S_IFDIR :: u16 where "S_IFDIR = 0x4000"
definition S_IFREG :: u16 where "S_IFREG = 0x8000"
definition S_IFLNK :: u16 where "S_IFLNK = 0xA000"
definition S_IFCHR :: u16 where "S_IFCHR = 0x2000"
definition S_IFBLK :: u16 where "S_IFBLK = 0x6000"
definition S_IPERM :: u16 where "S_IPERM = 0x0FFF"
definition S_IRWXU :: u16 where "S_IRWXU = 0x1C0"
definition S_IRUSR :: u16 where "S_IRUSR = 0x100"
definition S_IWUSR :: u16 where "S_IWUSR = 0x80"
definition S_IRWXG :: u16 where "S_IRWXG = 0x38"
definition S_IRGRP :: u16 where "S_IRGRP = 0x20"
definition S_IXGRP :: u16 where "S_IXGRP = 0x8"
definition S_IRWXO :: u16 where "S_IRWXO = 0x7"
definition S_IROTH :: u16 where "S_IROTH = 0x4"
definition S_IXOTH :: u16 where "S_IXOTH = 0x1"

lemmas mode_bits = S_IFMT_def S_IFDIR_def S_IFREG_def S_IFLNK_def S_IFCHR_def S_IFBLK_def S_IPERM_def
  S_IRWXU_def S_IRUSR_def S_IWUSR_def S_IRWXG_def S_IRGRP_def S_IXGRP_def S_IRWXO_def S_IROTH_def S_IXOTH_def

subsection \<open>Inodes\<close>

datatype dir_ref = Root_Data | Dev_Data | Mnt_Data | Devmount_Root | Pool_Dir nat
  \<comment> \<open>the \<open>struct devtmpfs_dir\<close> objects\<close>

datatype vfs_inode_ops =
    Ext2_File_Ops | Ext2_Dir_Ops | Ext2_Symlink_Ops
  | Devtmpfs_Dir_Ops | Devtmpfs_Vfs_Inode_Ops | Devtmpfs_Dev_Null_Ops
  | Hello_File_Ops | Null_File_Ops | Tty_File_Ops

datatype private_data =
    No_Data
  | Ext2_Data nat      \<comment> \<open>entry of \<open>ext2_data_pool\<close>\<close>
  | Dir_Data dir_ref
  | Target_Data nat    \<comment> \<open>entry of \<open>devtmpfs_symlink_targets\<close>\<close>
  | Device_Data nat    \<comment> \<open>entry of \<open>devtmpfs_devices\<close>\<close>

record vfs_inode =
  i_no :: u32
  i_size :: u32
  i_type :: i_type
  i_mode :: u16
  i_ops :: "vfs_inode_ops option"
  i_private :: private_data
  i_rdev :: u32

record vfs_dirent =
  d_ino :: u32
  d_name :: "u8 list"
  d_type :: u8

subsection \<open>Open files\<close>

datatype file_ops = Vfs_File_Ops | Pipe_Read_Ops | Pipe_Write_Ops

datatype file_private = No_File_Data | Inode_Data nat | Pipe_Data nat

record open_file =
  f_ops :: "file_ops option"
  f_private :: file_private
  f_pos :: u32
  f_refcount :: int
  f_flags :: u32

subsection \<open>The state of the VFS\<close>

record vfs_state =
  vfs_inodes :: "nat \<Rightarrow> vfs_inode"
  vfs_next_ino :: u32
  vfs_open_files :: "nat \<Rightarrow> open_file"
  vfs_root :: "nat option"
  vfs_mounts :: "(nat \<times> nat) list"   \<comment> \<open>\<open>mount_point\<close> and \<open>root\<close>, up to \<open>vfs_mount_count\<close>\<close>

abbreviation inode :: "'a vfs_state_scheme \<Rightarrow> nat \<Rightarrow> vfs_inode" where
  "inode st i \<equiv> vfs_inodes st i"

definition upd_inode :: "nat \<Rightarrow> (vfs_inode \<Rightarrow> vfs_inode) \<Rightarrow> 'a vfs_state_scheme \<Rightarrow> 'a vfs_state_scheme" where
  \<comment> \<open>an assignment through a \<open>struct vfs_inode *\<close>\<close>
  "upd_inode i f st = st\<lparr>vfs_inodes := (vfs_inodes st)(i := f (vfs_inodes st i))\<rparr>"

definition vfs_inode_init :: "'a vfs_state_scheme \<Rightarrow> 'a vfs_state_scheme" where
  "vfs_inode_init st =
     st\<lparr>vfs_inodes := \<lambda>i. if i < VFS_MAX_INODES then (vfs_inodes st i)\<lparr>i_no := 0\<rparr> else vfs_inodes st i,
        vfs_next_ino := 1, vfs_root := None\<rparr>"

definition vfs_alloc_inode :: "'a vfs_state_scheme \<Rightarrow> nat option \<times> 'a vfs_state_scheme" where
  "vfs_alloc_inode st =
     (case find (\<lambda>i. i_no (vfs_inodes st i) = 0) [0..<VFS_MAX_INODES] of
        None \<Rightarrow> (None, st)
      | Some i \<Rightarrow> (Some i,
          st\<lparr>vfs_inodes := (vfs_inodes st)(i :=
               \<lparr>i_no = vfs_next_ino st, i_size = 0, i_type = VFS_IFILE, i_mode = 0, i_ops = None,
                i_private = No_Data, i_rdev = 0\<rparr>),
             vfs_next_ino := vfs_next_ino st + 1\<rparr>))"

definition vfs_free_inode :: "nat \<Rightarrow> 'a vfs_state_scheme \<Rightarrow> 'a vfs_state_scheme" where
  "vfs_free_inode i st = upd_inode i (\<lambda>n. n\<lparr>i_no := 0\<rparr>) st"

definition vfs_set_root_inode :: "nat option \<Rightarrow> 'a vfs_state_scheme \<Rightarrow> 'a vfs_state_scheme" where
  "vfs_set_root_inode i st = st\<lparr>vfs_root := i\<rparr>"

definition vfs_root_inode :: "'a vfs_state_scheme \<Rightarrow> nat option" where
  "vfs_root_inode st = vfs_root st"

subsection \<open>Opening and closing files\<close>

definition upd_file :: "nat \<Rightarrow> (open_file \<Rightarrow> open_file) \<Rightarrow> 'a vfs_state_scheme \<Rightarrow> 'a vfs_state_scheme" where
  "upd_file f g st = st\<lparr>vfs_open_files := (vfs_open_files st)(f := g (vfs_open_files st f))\<rparr>"

definition vfs_alloc_file :: "'a vfs_state_scheme \<Rightarrow> nat option \<times> 'a vfs_state_scheme" where
  "vfs_alloc_file st =
     (case find (\<lambda>i. f_ops (vfs_open_files st i) = None) [0..<VFS_MAX_OPEN_FILES] of
        None \<Rightarrow> (None, st)
      | Some i \<Rightarrow> (Some i, upd_file i (\<lambda>f. \<lparr>f_ops = None, f_private = No_File_Data, f_pos = 0,
                                            f_refcount = 1, f_flags = 0\<rparr>) st))"

definition vfs_open_file_flags :: "nat option \<Rightarrow> u32 \<Rightarrow> 'a vfs_state_scheme \<Rightarrow> nat option \<times> 'a vfs_state_scheme" where
  "vfs_open_file_flags ino flags st =
     (case ino of
        None \<Rightarrow> (None, st)
      | Some n \<Rightarrow>
          (case find (\<lambda>i. f_ops (vfs_open_files st i) = None) [0..<VFS_MAX_OPEN_FILES] of
             None \<Rightarrow> (None, st)
           | Some i \<Rightarrow> (Some i, upd_file i (\<lambda>f. \<lparr>f_ops = Some Vfs_File_Ops, f_private = Inode_Data n,
                                                 f_pos = 0, f_refcount = 1, f_flags = flags\<rparr>) st)))"

definition vfs_open_file :: "nat option \<Rightarrow> 'a vfs_state_scheme \<Rightarrow> nat option \<times> 'a vfs_state_scheme" where
  "vfs_open_file ino st = vfs_open_file_flags ino 0 st"

subsection \<open>Mounts\<close>

definition vfs_mount_create :: "nat option \<Rightarrow> nat option \<Rightarrow> 'a vfs_state_scheme \<Rightarrow> nat option \<times> 'a vfs_state_scheme" where
  \<comment> \<open>the result is the index of the mount\<close>
  "vfs_mount_create mp fs_root st =
     (case (mp, fs_root) of
        (Some m, Some r) \<Rightarrow>
          if length (vfs_mounts st) \<ge> VFS_MAX_MOUNTS then (None, st)
          else (Some (length (vfs_mounts st)), st\<lparr>vfs_mounts := vfs_mounts st @ [(m, r)]\<rparr>)
      | _ \<Rightarrow> (None, st))"

definition vfs_mount_destroy :: "nat \<Rightarrow> 'a vfs_state_scheme \<Rightarrow> 'a vfs_state_scheme" where
  \<comment> \<open>the last mount takes the place of the destroyed one\<close>
  "vfs_mount_destroy k st =
     (if k < length (vfs_mounts st)
      then st\<lparr>vfs_mounts := butlast ((vfs_mounts st)[k := last (vfs_mounts st)])\<rparr>
      else st)"

definition vfs_resolve_mount :: "'a vfs_state_scheme \<Rightarrow> nat \<Rightarrow> nat" where
  "vfs_resolve_mount st n =
     (case find (\<lambda>(mp, r). i_no (inode st mp) = i_no (inode st n) \<and> i_ops (inode st mp) = i_ops (inode st n))
             (vfs_mounts st) of
        None \<Rightarrow> n
      | Some (mp, r) \<Rightarrow> r)"

subsection \<open>Allocation of inodes\<close>

lemma vfs_alloc_inode_SomeD:
  assumes "vfs_alloc_inode st = (Some i, st')"
  shows "i < VFS_MAX_INODES" and "i_no (inode st i) = 0"
    and "st' = st\<lparr>vfs_inodes := (vfs_inodes st)(i :=
               \<lparr>i_no = vfs_next_ino st, i_size = 0, i_type = VFS_IFILE, i_mode = 0, i_ops = None,
                i_private = No_Data, i_rdev = 0\<rparr>),
             vfs_next_ino := vfs_next_ino st + 1\<rparr>"
  using assms by (auto simp: vfs_alloc_inode_def find_upt_Some_iff split: option.splits)

lemma vfs_alloc_inode_total:
  "i < VFS_MAX_INODES \<Longrightarrow> i_no (inode st i) = 0 \<Longrightarrow> \<exists>j st'. vfs_alloc_inode st = (Some j, st')"
  using find_upt_ex [of i VFS_MAX_INODES "\<lambda>i. i_no (vfs_inodes st i) = 0"]
  by (auto simp: vfs_alloc_inode_def)

end
