(* ===== verification/Block.thy ===== *)
theory Block
  imports Prelude Interfaces
begin

text \<open>
  Block devices: the registry of \<open>kernel/block.c\<close>, the ATA driver's sector transfers
  (\<open>drivers/ata/ata.c\<close>), and the partitions and device files of \<open>kernel/part.c\<close>.

  The disks are the hardware below the model: a value of type \<open>disks\<close> gives, for an ATA channel
  (by its base port), the drive-select bit and a 28-bit sector address, the 512 bytes stored there,
  or \<^const>\<open>None\<close> if the drive does not raise DRQ before the driver's timeout. The code reaches a
  sector through the task-file registers it writes, and the model goes through them as well. A
  \<open>struct block_device\<close> carries its \<open>ops\<close> table and private data as one tagged value.
\<close>

subsection \<open>Devices\<close>

definition BLOCK_SECTOR_SIZE :: nat where "BLOCK_SECTOR_SIZE = 512"
definition BLOCK_MAX_DEVICES :: nat where "BLOCK_MAX_DEVICES = 20"
definition BLOCK_NAME_LEN :: nat where "BLOCK_NAME_LEN = 16"

datatype block_device =
    Block_Device (bd_name: string) (block_size: u32) (num_blocks: u32) (bd_ops: block_device_ops)
and block_device_ops =
    No_Ops
  | Ata_Ops (ata_base: u16) (ata_slave: u8)
  | Part_Ops (part_parent: block_device) (start_lba: u32)

type_synonym disks = "u16 \<Rightarrow> bool \<Rightarrow> u32 \<Rightarrow> u8 list option"

definition disks_wf :: "disks \<Rightarrow> bool" where
  "disks_wf ds \<longleftrightarrow> (\<forall>b s l bs. ds b s l = Some bs \<longrightarrow> length bs = BLOCK_SECTOR_SIZE)"

subsection \<open>ATA transfers\<close>

record task_file =
  tf_drive :: u8
  tf_lba_lo :: u8
  tf_lba_mid :: u8
  tf_lba_hi :: u8

definition ata_task_file :: "u8 \<Rightarrow> u32 \<Rightarrow> task_file" where
  \<comment> \<open>the values the driver writes to the drive and LBA registers\<close>
  "ata_task_file slave lba =
     \<lparr>tf_drive = ucast ((0xE0 :: u32) OR push_bit 4 (ucast slave) OR (drop_bit 24 lba AND 0x0F)),
      tf_lba_lo = ucast (lba AND 0xFF),
      tf_lba_mid = ucast (drop_bit 8 lba AND 0xFF),
      tf_lba_hi = ucast (drop_bit 16 lba AND 0xFF)\<rparr>"

definition tf_slave :: "task_file \<Rightarrow> bool" where
  \<comment> \<open>the drive a task file selects, by the ATA standard\<close>
  "tf_slave tf \<longleftrightarrow> bit (tf_drive tf) 4"

definition tf_sector :: "task_file \<Rightarrow> u32" where
  \<comment> \<open>the 28-bit sector it addresses\<close>
  "tf_sector tf = ucast (tf_lba_lo tf) OR push_bit 8 (ucast (tf_lba_mid tf)) OR
     push_bit 16 (ucast (tf_lba_hi tf)) OR push_bit 24 (ucast (tf_drive tf AND 0x0F))"

definition ata_read_sector :: "disks \<Rightarrow> u16 \<Rightarrow> u8 \<Rightarrow> u32 \<Rightarrow> u8 list option" where
  \<comment> \<open>the bytes read, or \<open>None\<close> for the return value -1\<close>
  "ata_read_sector ds base slave lba =
     (let tf = ata_task_file slave lba in ds base (tf_slave tf) (tf_sector tf))"

definition ata_write_sector :: "u16 \<Rightarrow> u8 \<Rightarrow> u32 \<Rightarrow> u8 list \<Rightarrow> disks \<Rightarrow> disks option" where
  "ata_write_sector base slave lba data ds =
     (let tf = ata_task_file slave lba in
      case ds base (tf_slave tf) (tf_sector tf) of
        None \<Rightarrow> None
      | Some _ \<Rightarrow> Some (\<lambda>b s l. if b = base \<and> s = tf_slave tf \<and> l = tf_sector tf
                              then Some data else ds b s l))"

subsection \<open>Sectors of a device\<close>

fun read_sector :: "disks \<Rightarrow> block_device \<Rightarrow> u32 \<Rightarrow> u8 list option" where
  \<comment> \<open>\<open>dev->ops->read_sector(dev, lba, buf)\<close>; a partition forwards to its parent\<close>
  "read_sector ds (Block_Device nm bs nb No_Ops) lba = None"
| "read_sector ds (Block_Device nm bs nb (Ata_Ops base slave)) lba = ata_read_sector ds base slave lba"
| "read_sector ds (Block_Device nm bs nb (Part_Ops parent start)) lba = read_sector ds parent (start + lba)"

fun write_sector :: "block_device \<Rightarrow> u32 \<Rightarrow> u8 list \<Rightarrow> disks \<Rightarrow> disks option" where
  "write_sector (Block_Device nm bs nb No_Ops) lba data ds = None"
| "write_sector (Block_Device nm bs nb (Ata_Ops base slave)) lba data ds = ata_write_sector base slave lba data ds"
| "write_sector (Block_Device nm bs nb (Part_Ops parent start)) lba data ds =
     write_sector parent (start + lba) data ds"

fun read_sectors :: "disks \<Rightarrow> block_device \<Rightarrow> u32 \<Rightarrow> nat \<Rightarrow> int \<times> u8 list" where
  \<comment> \<open>the return value, and the bytes stored to the start of the buffer, a failure half-way included\<close>
  "read_sectors ds dev lba 0 = (0, [])"
| "read_sectors ds dev lba (Suc n) =
     (case read_sector ds dev lba of
        None \<Rightarrow> (-1, [])
      | Some bs \<Rightarrow> (let (r, rest) = read_sectors ds dev (lba + 1) n in (r, bs @ rest)))"

fun write_sectors :: "block_device \<Rightarrow> u32 \<Rightarrow> nat \<Rightarrow> u8 list \<Rightarrow> disks \<Rightarrow> int \<times> disks" where
  "write_sectors dev lba 0 data ds = (0, ds)"
| "write_sectors dev lba (Suc n) data ds =
     (case write_sector dev lba (take BLOCK_SECTOR_SIZE data) ds of
        None \<Rightarrow> (-1, ds)
      | Some ds' \<Rightarrow> write_sectors dev (lba + 1) n (drop BLOCK_SECTOR_SIZE data) ds')"

definition block_read :: "disks \<Rightarrow> block_device option \<Rightarrow> u32 \<Rightarrow> u32 \<Rightarrow> int \<times> u8 list" where
  "block_read ds dev lba count =
     (case dev of
        None \<Rightarrow> (-1, [])
      | Some d \<Rightarrow> if bd_ops d = No_Ops then (-1, []) else read_sectors ds d lba (unat count))"

definition block_write :: "block_device option \<Rightarrow> u32 \<Rightarrow> u32 \<Rightarrow> u8 list \<Rightarrow> disks \<Rightarrow> int \<times> disks" where
  "block_write dev lba count data ds =
     (case dev of
        None \<Rightarrow> (-1, ds)
      | Some d \<Rightarrow> if bd_ops d = No_Ops then (-1, ds) else write_sectors d lba (unat count) data ds)"

subsection \<open>The registry\<close>

definition block_register_device ::
    "block_device option \<Rightarrow> block_device list \<Rightarrow> int \<times> block_device list" where
  \<comment> \<open>\<open>block_devices\<close> up to \<open>block_device_count\<close>\<close>
  "block_register_device dev devs =
     (case dev of
        None \<Rightarrow> (-1, devs)
      | Some d \<Rightarrow> if length devs \<ge> BLOCK_MAX_DEVICES then (-1, devs) else (0, devs @ [d]))"

definition strncmp_eq :: "nat \<Rightarrow> string \<Rightarrow> string \<Rightarrow> bool" where
  \<comment> \<open>\<open>strncmp(a, b, n) == 0\<close>\<close>
  "strncmp_eq n a b \<longleftrightarrow> take n a = take n b"

definition block_find_device :: "string option \<Rightarrow> block_device list \<Rightarrow> block_device option" where
  "block_find_device nm devs =
     (case nm of
        None \<Rightarrow> None
      | Some nm \<Rightarrow> find (\<lambda>d. strncmp_eq (BLOCK_NAME_LEN - 1) (bd_name d) nm) devs)"

subsection \<open>Partition tables\<close>

definition MAX_PARTITIONS :: nat where "MAX_PARTITIONS = 16"
definition MBR_PART_TABLE_OFFSET :: nat where "MBR_PART_TABLE_OFFSET = 446"
definition MBR_SIGNATURE_OFFSET :: nat where "MBR_SIGNATURE_OFFSET = 510"
definition MBR_SIGNATURE :: u16 where "MBR_SIGNATURE = 0xAA55"

record mbr_entry =
  me_status :: u8
  me_chs_start :: "u8 list"
  me_type :: u8
  me_chs_end :: "u8 list"
  me_lba_start :: u32
  me_sector_count :: u32

definition decode_mbr_entry :: "u8 list \<Rightarrow> mbr_entry" where
  "decode_mbr_entry bs =
     \<lparr>me_status = bs ! 0, me_chs_start = get_bytes 1 3 bs, me_type = bs ! 4, me_chs_end = get_bytes 5 3 bs,
      me_lba_start = of_le32 (get_bytes 8 4 bs), me_sector_count = of_le32 (get_bytes 12 4 bs)\<rparr>"

record part_state =
  block_devices :: "block_device list"
  part_bdevs :: "block_device list"

definition part_name :: "string \<Rightarrow> nat \<Rightarrow> string" where
  "part_name parent i = take (BLOCK_NAME_LEN - 3) parent @ [char_of (48 + (i + 1))]"

definition parse_mbr_entry :: "block_device \<Rightarrow> u8 list \<Rightarrow> nat \<Rightarrow> part_state \<Rightarrow> part_state" where
  \<comment> \<open>one round of the loop; once \<open>part_count\<close> is at its limit no later round does anything, as after
      the \<open>break\<close>\<close>
  "parse_mbr_entry parent mbr i st =
     (let e = decode_mbr_entry (get_bytes (MBR_PART_TABLE_OFFSET + 16 * i) 16 mbr) in
      if me_type e = 0 \<or> me_sector_count e = 0 then st
      else if length (part_bdevs st) \<ge> MAX_PARTITIONS then st
      else
        (let bdev = Block_Device (part_name (bd_name parent) i) 512 (me_sector_count e)
                      (Part_Ops parent (me_lba_start e));
             (r, devs) = block_register_device (Some bdev) (block_devices st)
         in if r = 0 then st\<lparr>block_devices := devs, part_bdevs := part_bdevs st @ [bdev]\<rparr> else st))"

definition parse_mbr :: "disks \<Rightarrow> block_device \<Rightarrow> part_state \<Rightarrow> part_state" where
  "parse_mbr ds parent st =
     (if block_size parent < 512 then st
      else
        (let (r, mbr) = block_read ds (Some parent) 0 1 in
         if r < 0 then st
         else
           (let sig = (ucast (mbr ! MBR_SIGNATURE_OFFSET) OR
                       push_bit 8 (ucast (mbr ! (MBR_SIGNATURE_OFFSET + 1))) :: u16)
            in if sig \<noteq> MBR_SIGNATURE then st
               else fold (parse_mbr_entry parent mbr) [0..<4] st)))"

subsection \<open>Block devices as files\<close>

lemma unat_sub_512: "512 \<le> (todo :: u32) \<Longrightarrow> unat (todo - 512) = unat todo - 512"
  by (simp add: unat_sub)

function file_read_whole ::
    "disks \<Rightarrow> block_device \<Rightarrow> u32 \<Rightarrow> u32 \<Rightarrow> u32 \<Rightarrow> bool \<times> u32 \<times> u32 \<times> u8 list" where
  \<comment> \<open>the loop over whole sectors: whether it got through, \<open>total\<close>, \<open>todo\<close>, and the bytes read\<close>
  "file_read_whole ds dev offset cnt todo =
     (if 512 \<le> todo then
        (let (r, bs) = block_read ds (Some dev) (offset div 512 + cnt div 512) 1 in
         if r < 0 then (False, cnt, todo, [])
         else (let (ok, cnt', todo', rest) = file_read_whole ds dev offset (cnt + 512) (todo - 512)
               in (ok, cnt', todo', bs @ rest)))
      else (True, cnt, todo, []))"
  by pat_completeness auto

termination file_read_whole
proof (relation "measure (\<lambda>(ds, dev, offset, cnt, todo). unat todo)")
qed (simp_all add: unat_sub_512 word_le_nat_alt)

definition block_file_read :: "disks \<Rightarrow> block_device \<Rightarrow> u32 \<Rightarrow> u32 \<Rightarrow> int \<times> u8 list" where
  \<comment> \<open>\<open>offset\<close> is the file position; the result is the return value and the bytes stored to \<open>buf\<close>\<close>
  "block_file_read ds dev offset nbyte0 =
     (let dev_bytes = num_blocks dev * 512 in
      if offset \<ge> dev_bytes then (0, [])
      else
        (let nbyte = (if offset + nbyte0 > dev_bytes then dev_bytes - offset else nbyte0);
             skip = offset mod 512;
             chunk = (if 512 - skip > nbyte then nbyte else 512 - skip);
             (r, sector) = block_read ds (Some dev) (offset div 512) 1;
             first = (if skip \<noteq> 0 then get_bytes (unat skip) (unat chunk) sector else []);
             cnt = (if skip \<noteq> 0 then chunk else 0)
         in if skip \<noteq> 0 \<and> r < 0 then (-1, [])
            else
              (let (ok, cnt1, todo1, whole) = file_read_whole ds dev offset cnt (nbyte - cnt) in
               if \<not> ok then (sint cnt1, first @ whole)
               else if todo1 > 0 then
                 (let (r2, last_sector) = block_read ds (Some dev) (offset div 512 + cnt1 div 512) 1 in
                  if r2 < 0 then (sint cnt1, first @ whole)
                  else (sint (cnt1 + todo1), first @ whole @ take (unat todo1) last_sector))
               else (sint cnt1, first @ whole))))"

function file_write_whole ::
    "block_device \<Rightarrow> u32 \<Rightarrow> u32 \<Rightarrow> u32 \<Rightarrow> u8 list \<Rightarrow> disks \<Rightarrow> bool \<times> u32 \<times> u32 \<times> u8 list \<times> disks" where
  "file_write_whole dev offset cnt todo src ds =
     (if 512 \<le> todo then
        (let (r, ds') = block_write (Some dev) (offset div 512 + cnt div 512) 1 src ds in
         if r < 0 then (False, cnt, todo, src, ds')
         else file_write_whole dev offset (cnt + 512) (todo - 512) (drop 512 src) ds')
      else (True, cnt, todo, src, ds))"
  by pat_completeness auto

termination file_write_whole
proof (relation "measure (\<lambda>(dev, offset, cnt, todo, src, ds). unat todo)")
qed (simp_all add: unat_sub_512 word_le_nat_alt)

definition file_write_first ::
    "block_device \<Rightarrow> u32 \<Rightarrow> u32 \<Rightarrow> u8 list \<Rightarrow> disks \<Rightarrow> bool \<times> disks" where
  \<comment> \<open>the read-modify-write of the partial first sector\<close>
  "file_write_first dev offset chunk src ds =
     (let (r, sector) = block_read ds (Some dev) (offset div 512) 1 in
      if r < 0 then (False, ds)
      else (let (r2, ds') = block_write (Some dev) (offset div 512) 1
                  (put_bytes (unat (offset mod 512)) (take (unat chunk) src) sector) ds
            in (\<not> r2 < 0, ds')))"

definition block_file_write :: "block_device \<Rightarrow> u32 \<Rightarrow> u32 \<Rightarrow> u8 list \<Rightarrow> disks \<Rightarrow> int \<times> disks" where
  "block_file_write dev offset nbyte0 src ds =
     (let dev_bytes = num_blocks dev * 512 in
      if offset \<ge> dev_bytes then (0, ds)
      else
        (let nbyte = (if offset + nbyte0 > dev_bytes then dev_bytes - offset else nbyte0);
             skip = offset mod 512;
             chunk = (if 512 - skip > nbyte then nbyte else 512 - skip);
             (ok0, ds1) = (if skip \<noteq> 0 then file_write_first dev offset chunk src ds else (True, ds));
             cnt = (if skip \<noteq> 0 then chunk else 0)
         in if \<not> ok0 then (-1, ds1)
            else
              (let (ok, cnt1, todo1, src1, ds2) =
                     file_write_whole dev offset cnt (nbyte - cnt) (drop (unat cnt) src) ds1
               in if \<not> ok then (sint cnt1, ds2)
                  else if todo1 > 0 then
                    (let lba = offset div 512 + cnt1 div 512;
                         (r, sector) = block_read ds2 (Some dev) lba 1
                     in if r < 0 then (sint cnt1, ds2)
                        else (let (r2, ds3) = block_write (Some dev) lba 1
                                    (put_bytes 0 (take (unat todo1) src1) sector) ds2
                              in if r2 < 0 then (sint cnt1, ds3) else (sint (cnt1 + todo1), ds3)))
                  else (sint cnt1, ds2))))"

declare file_read_whole.simps [simp del] file_write_whole.simps [simp del]

subsection \<open>A device is a sector store\<close>

lemma tf_sector_task_file: "tf_sector (ata_task_file slave lba) = take_bit 28 lba"
proof (rule bit_eqI)
  fix n :: nat
  assume "possible_bit TYPE(u32) n"
  then have n: "n < 32" by simp
  have m: "(0xFF :: u32) = mask 8" "(0x0F :: u32) = mask 4" "(0x0F :: u8) = mask 4"
    by (simp_all add: mask_eq_exp_minus_1)
  consider "n < 8" | "8 \<le> n" "n < 16" | "16 \<le> n" "n < 24" | "n = 24" | "n = 25" | "n = 26" | "n = 27" | "28 \<le> n"
    by linarith
  then show "bit (tf_sector (ata_task_file slave lba)) n = bit (take_bit 28 lba) n"
    unfolding tf_sector_def ata_task_file_def task_file.select_convs m
    using n by cases (auto simp: bit_simps)
qed

lemma tf_slave_task_file: "tf_slave (ata_task_file slave lba) = bit slave 0"
proof -
  have m: "(0x0F :: u32) = mask 4" by (simp add: mask_eq_exp_minus_1)
  have "\<not> bit (0xE0 :: u32) 4" by (simp add: bit_simps)
  then show ?thesis
    unfolding tf_slave_def ata_task_file_def task_file.select_convs m by (simp add: bit_simps)
qed

fun dev_root :: "block_device \<Rightarrow> (u16 \<times> u8) option" where
  \<comment> \<open>the drive at the bottom of a device\<close>
  "dev_root (Block_Device nm bs nb No_Ops) = None"
| "dev_root (Block_Device nm bs nb (Ata_Ops base slave)) = Some (base, slave)"
| "dev_root (Block_Device nm bs nb (Part_Ops parent start)) = dev_root parent"

fun dev_off :: "block_device \<Rightarrow> nat" where
  \<comment> \<open>the first sector of a device on that drive\<close>
  "dev_off (Block_Device nm bs nb (Part_Ops parent start)) = dev_off parent + unat start"
| "dev_off (Block_Device nm bs nb os) = 0"

definition dev_range :: "block_device \<Rightarrow> u32 \<Rightarrow> bool" where
  \<comment> \<open>the sector is within reach of a 28-bit address\<close>
  "dev_range dev lba \<longleftrightarrow> dev_off dev + unat lba < 2 ^ 28"

lemma read_sector_phys:
  "read_sector ds dev lba =
    (case dev_root dev of
       None \<Rightarrow> None
     | Some (base, slave) \<Rightarrow> ds base (bit slave 0) (take_bit 28 (of_nat (dev_off dev) + lba)))"
  by (induction dev arbitrary: lba rule: dev_root.induct)
    (simp_all add: ata_read_sector_def tf_sector_task_file tf_slave_task_file add_ac split: option.split)

lemma write_sector_phys:
  "write_sector dev lba data ds =
    (case dev_root dev of
       None \<Rightarrow> None
     | Some (base, slave) \<Rightarrow>
        (let a = take_bit 28 (of_nat (dev_off dev) + lba) in
         case ds base (bit slave 0) a of
           None \<Rightarrow> None
         | Some _ \<Rightarrow> Some (\<lambda>b s l. if b = base \<and> s = bit slave 0 \<and> l = a then Some data else ds b s l)))"
  by (induction dev arbitrary: lba rule: dev_root.induct)
    (simp_all add: ata_write_sector_def tf_sector_task_file tf_slave_task_file Let_def add_ac split: option.split)

lemma dev_range_unat:
  assumes "dev_range dev x"
  shows "unat (take_bit 28 (of_nat (dev_off dev) + x) :: u32) = dev_off dev + unat x"
proof -
  have lt: "dev_off dev + unat x < 2 ^ 28" using assms by (simp add: dev_range_def)
  then have "unat (of_nat (dev_off dev) :: u32) = dev_off dev" by (simp only: unat_of_nat) simp
  then have "unat (of_nat (dev_off dev) + x) = dev_off dev + unat x"
    using lt by (simp add: unat_word_ariths(1))
  then show ?thesis using lt by (simp only: unsigned_take_bit_eq) (simp add: take_bit_eq_mod)
qed

lemma dev_range_inj:
  assumes "dev_range dev l" and "dev_range dev k"
    and "take_bit 28 (of_nat (dev_off dev) + l) = take_bit 28 (of_nat (dev_off dev) + k)"
  shows "l = k"
  using dev_range_unat [OF assms(1)] dev_range_unat [OF assms(2)] assms(3) by (simp add: word_unat_eq_iff)

interpretation dev: sector_store "\<lambda>ds. read_sector ds dev" "write_sector dev" "dev_range dev" disks_wf
  for dev
proof unfold_locales
  fix ds ds' :: disks and l l' bs
  show "disks_wf ds \<Longrightarrow> read_sector ds dev l = Some bs \<Longrightarrow> length bs = 512"
    by (auto simp: read_sector_phys disks_wf_def BLOCK_SECTOR_SIZE_def split: option.splits)
  show "(write_sector dev l bs ds = None) = (read_sector ds dev l = None)"
    by (auto simp: read_sector_phys write_sector_phys Let_def split: option.splits)
  show "dev_range dev l \<Longrightarrow> dev_range dev l' \<Longrightarrow> write_sector dev l bs ds = Some ds' \<Longrightarrow>
        read_sector ds' dev l' = (if l' = l then Some bs else read_sector ds dev l')"
    using dev_range_inj [of dev l' l]
    by (auto simp: read_sector_phys write_sector_phys Let_def split: option.splits)
  show "disks_wf ds \<Longrightarrow> length bs = 512 \<Longrightarrow> write_sector dev l bs ds = Some ds' \<Longrightarrow> disks_wf ds'"
    by (auto simp: write_sector_phys disks_wf_def BLOCK_SECTOR_SIZE_def Let_def split: option.splits if_splits)
qed

lemma read_sectors_many:
  "case dev.rd_many dev ds lba n of
     None \<Rightarrow> fst (read_sectors ds dev lba n) = -1
   | Some bs \<Rightarrow> read_sectors ds dev lba n = (0, bs)"
proof (induction n arbitrary: lba)
  case (Suc n)
  show ?case
    using Suc.IH [of "lba + 1"]
    by (cases "dev.rd_many dev ds (lba + 1) n"; cases "read_sectors ds dev (lba + 1) n")
      (auto split: option.split)
qed simp

lemma write_sectors_many:
  "case dev.wr_many dev lba n data ds of
     None \<Rightarrow> fst (write_sectors dev lba n data ds) = -1
   | Some ds' \<Rightarrow> write_sectors dev lba n data ds = (0, ds')"
proof (induction n arbitrary: lba data ds)
  case (Suc n)
  show ?case
  proof (cases "write_sector dev lba (take BLOCK_SECTOR_SIZE data) ds")
    case (Some ds1)
    then show ?thesis
      using Suc.IH [of "lba + 1" "drop BLOCK_SECTOR_SIZE data" ds1]
      by (simp add: BLOCK_SECTOR_SIZE_def split: option.splits)
  qed (simp add: BLOCK_SECTOR_SIZE_def)
qed simp

lemma read_sectors_outside:
  assumes "dev.run_ok dev l n" and "dev.wr_many dev l n data ds = Some ds'" and "dev.run_ok dev k m"
    and "unat k + m \<le> unat l \<or> unat l + n \<le> unat k"
  shows "read_sectors ds' dev k m = read_sectors ds dev k m"
  using assms(3,4)
proof (induction m arbitrary: k)
  case (Suc m)
  have ir: "dev_range dev k" using dev.run_ok_Suc(1) [OF Suc.prems(1)] .
  have same: "read_sector ds' dev k = read_sector ds dev k"
    using dev.rd_wr_many_outside [OF assms(1,2) ir] Suc.prems(2) by auto
  have "read_sectors ds' dev (k + 1) m = read_sectors ds dev (k + 1) m"
  proof (cases "m = 0")
    case False
    then show ?thesis
      using Suc.IH [OF dev.run_ok_Suc(2) [OF Suc.prems(1)]] dev.run_ok_Suc(3) [OF Suc.prems(1)] Suc.prems(2)
      by auto
  qed simp
  then show ?case using same by (simp split: option.split)
qed simp

subsection \<open>Writes confined to a device\<close>



definition confined :: "(u16 \<times> bool \<times> u32) set \<Rightarrow> disks \<Rightarrow> disks \<Rightarrow> bool" where
  \<comment> \<open>no sector outside \<open>S\<close> has changed\<close>
  "confined S ds ds' \<longleftrightarrow> (\<forall>b s l. (b, s, l) \<notin> S \<longrightarrow> ds' b s l = ds b s l)"

lemma confined_refl [simp]: "confined S ds ds"
  by (simp add: confined_def)









subsection \<open>Reads of another device\<close>





lemma write_sectors_succeed:
  assumes "\<forall>i < n. read_sector ds dev (lba + of_nat i) \<noteq> None"
  shows "fst (write_sectors dev lba n data ds) = 0"
  using assms
proof (induction n arbitrary: lba data ds)
  case (Suc n)
  have "read_sector ds dev lba \<noteq> None" using Suc.prems by force
  then obtain ds1 where w: "write_sector dev lba (take BLOCK_SECTOR_SIZE data) ds = Some ds1"
    using dev.wr_None [of dev lba "take BLOCK_SECTOR_SIZE data" ds] by auto
  then have "read_sector ds1 dev x \<noteq> None" if "read_sector ds dev x \<noteq> None" for x
    using that by (auto simp: read_sector_phys write_sector_phys Let_def split: option.splits)
  moreover have "read_sector ds dev (lba + 1 + of_nat i) \<noteq> None" if "i < n" for i
    using Suc.prems that by (auto simp: add.assoc dest!: spec [of _ "Suc i"])
  ultimately show ?case using Suc.IH [of ds1 "lba + 1"] w by simp
qed simp

lemma block_write_many:
  assumes "block_write (Some dev) lba count data ds = (0, ds')"
  shows "dev.wr_many dev lba (unat count) data ds = Some ds'"
proof -
  have "write_sectors dev lba (unat count) data ds = (0, ds')"
    using assms by (auto simp: block_write_def split: if_splits)
  then show ?thesis
    using write_sectors_many [where dev = dev and lba = lba and n = "unat count" and data = data and ds = ds]
    by (cases "dev.wr_many dev lba (unat count) data ds") auto
qed

lemma block_write_read_back:
  assumes "dev.run_ok dev lba (unat count)" and "length data = 512 * unat count"
    and "block_write (Some dev) lba count data ds = (0, ds')"
  shows "block_read ds' (Some dev) lba count = (0, data)"
proof -
  have "bd_ops dev \<noteq> No_Ops" using assms(3) by (auto simp: block_write_def split: if_splits)
  then show ?thesis
    using dev.rd_many_wr_many [OF assms(1,2) block_write_many [OF assms(3)]]
      read_sectors_many [where dev = dev and ds = ds' and lba = lba and n = "unat count"]
    by (simp add: block_read_def)
qed

lemma write_sectors_next_partition:
  "write_sectors (Block_Device nm1 bs1 n1 (Part_Ops parent st)) (n1 + k) n data ds =
   write_sectors (Block_Device nm2 bs2 n2 (Part_Ops parent (st + n1))) k n data ds"
  by (induction n arbitrary: k data ds) (simp_all add: add.assoc split: option.split)

subsection \<open>Properties\<close>

definition demo_disk :: block_device where
  "demo_disk = Block_Device ''hda'' 512 2048 (Ata_Ops 0x1F0 0)"

definition demo_disks :: disks where
  \<comment> \<open>one drive of 2048 sectors; every byte of sector \<open>n\<close> is \<open>n\<close>\<close>
  "demo_disks = (\<lambda>b s l. if b = 0x1F0 \<and> \<not> s \<and> l < 2048 then Some (replicate 512 (ucast l)) else None)"

lemma demo_disks_wf: "disks_wf demo_disks"
  by (auto simp: disks_wf_def demo_disks_def BLOCK_SECTOR_SIZE_def split: if_splits)

lemma demo_disk_read: "l < 2048 \<Longrightarrow> read_sector demo_disks demo_disk l = Some (replicate 512 (ucast l))"
proof -
  assume l: "l < 2048"
  then have "unat (take_bit 28 l) = unat l"
    by (simp only: unsigned_take_bit_eq) (simp add: take_bit_eq_mod word_less_nat_alt)
  then have "take_bit 28 l = l" by (simp only: word_unat_eq_iff)
  then show ?thesis using l by (simp add: read_sector_phys demo_disk_def demo_disks_def)
qed

lemma demo_disk_range: "l < 2048 \<Longrightarrow> dev_range demo_disk l"
  by (simp add: dev_range_def demo_disk_def word_less_nat_alt)

text \<open>
  C15. Storage. What \<open>block_write\<close> wrote, to a disk or to a partition of one, \<open>block_read\<close> returns,
  and every run of sectors that does not overlap it reads as before; as long as the sectors are in
  reach of the 28-bit addresses the driver can form.
\<close>
theorem block_write_read:
  assumes "dev.run_ok dev lba (unat count)" and "length data = 512 * unat count"
    and "block_write (Some dev) lba count data ds = (0, ds')"
  shows "block_read ds' (Some dev) lba count = (0, data) \<and>
    (\<forall>k n. dev.run_ok dev k (unat n) \<longrightarrow> unat k + unat n \<le> unat lba \<or> unat lba + unat count \<le> unat k \<longrightarrow>
       block_read ds' (Some dev) k n = block_read ds (Some dev) k n)"
proof -
  have ops: "bd_ops dev \<noteq> No_Ops" using assms(3) by (auto simp: block_write_def split: if_splits)
  show ?thesis
    using ops block_write_read_back [OF assms] read_sectors_outside [OF assms(1) block_write_many [OF assms(3)]]
    by (auto simp: block_read_def)
qed

theorem block_write_read_witness:
  "\<exists>ds'. block_write (Some demo_disk) 7 1 (replicate 512 99) demo_disks = (0, ds') \<and>
    block_read ds' (Some demo_disk) 7 1 = (0, replicate 512 99) \<and>
    block_read ds' (Some demo_disk) 8 1 = block_read demo_disks (Some demo_disk) 8 1"
proof -
  have "write_sector demo_disk 7 (replicate 512 99) demo_disks \<noteq> None"
    using dev.wr_None [of demo_disk 7 "replicate 512 99" demo_disks] demo_disk_read [of 7] by simp
  then obtain ds' where w: "block_write (Some demo_disk) 7 1 (replicate 512 99) demo_disks = (0, ds')"
    by (auto simp: block_write_def demo_disk_def BLOCK_SECTOR_SIZE_def)
  have ok: "dev.run_ok demo_disk k (unat 1)" if "k < 2000" for k
  proof -
    have "k < 2048" using that by (rule order_less_trans) simp
    then have "unat k < 2048" by (simp add: word_less_nat_alt)
    then show ?thesis using demo_disk_range [OF \<open>k < 2048\<close>] by simp
  qed
  show ?thesis
    using block_write_read [OF ok _ w] ok [of 8] w by auto
qed


definition demo_hda1 :: block_device where
  "demo_hda1 = Block_Device ''hda1'' 512 100 (Part_Ops demo_disk 63)"

definition demo_hda2 :: block_device where
  "demo_hda2 = Block_Device ''hda2'' 512 100 (Part_Ops demo_disk 163)"


text \<open>
  C38. Below the device files nothing bounds a write. \<open>block_write\<close> on a partition, with a sector number past
  the number of sectors of the partition, reports success and overwrites the partition that follows it,
  which then reads as the data written; the device file of the partition refuses the same offset.
\<close>
theorem block_write_past_partition_end:
  assumes hda1: "hda1 = Block_Device nm1 bs1 n1 (Part_Ops parent st)"
    and hda2: "hda2 = Block_Device nm2 bs2 n2 (Part_Ops parent (st + n1))"
    and run: "dev.run_ok hda2 k (unat count)" and len: "length data = 512 * unat count"
    and there: "\<forall>i < unat count. read_sector ds hda2 (k + of_nat i) \<noteq> None"
  shows "\<exists>ds'. block_write (Some hda1) (n1 + k) count data ds = (0, ds') \<and>
      block_read ds' (Some hda2) k count = (0, data) \<and>
      (n1 * 512 \<le> offset \<longrightarrow> block_file_write hda1 offset nbyte src ds = (0, ds))"
proof -
  have eq: "block_write (Some hda1) (n1 + k) count data ds = block_write (Some hda2) k count data ds"
    using write_sectors_next_partition by (simp add: block_write_def hda1 hda2)
  have "fst (block_write (Some hda2) k count data ds) = 0"
    using write_sectors_succeed [OF there] by (simp add: block_write_def hda2)
  then obtain ds' where w: "block_write (Some hda2) k count data ds = (0, ds')" by (metis prod.collapse)
  have "block_read ds' (Some hda2) k count = (0, data)" by (rule block_write_read_back [OF run len w])
  then show ?thesis using eq w by (simp add: block_file_write_def hda1)
qed

theorem block_write_past_partition_end_witness:
  "\<exists>ds'. block_write (Some demo_hda1) 105 1 (replicate 512 99) demo_disks = (0, ds') \<and>
    block_read ds' (Some demo_hda2) 5 1 = (0, replicate 512 99) \<and>
    block_file_write demo_hda1 51200 1 [7] demo_disks = (0, demo_disks)"
proof -
  have "dev.run_ok demo_hda2 5 (unat 1)" by (simp add: dev_range_def demo_hda2_def demo_disk_def)
  moreover have "\<forall>i < unat (1 :: u32). read_sector demo_disks demo_hda2 (5 + of_nat i) \<noteq> None"
    using demo_disk_read [of 168] by (simp add: demo_hda2_def)
  moreover have "demo_hda2 = Block_Device ''hda2'' 512 100 (Part_Ops demo_disk (63 + 100))" by (simp add: demo_hda2_def)
  ultimately show ?thesis
    using block_write_past_partition_end [OF demo_hda1_def, where k = 5 and count = 1 and data = "replicate 512 99"
        and ds = demo_disks and offset = 51200 and nbyte = 1 and src = "[7]"]
    by fastforce
qed

subsection \<open>Reading a device file\<close>

definition dev_byte :: "disks \<Rightarrow> block_device \<Rightarrow> nat \<Rightarrow> u8" where
  \<comment> \<open>byte \<open>i\<close> of a device\<close>
  "dev_byte ds dev i = the (read_sector ds dev (of_nat (i div 512))) ! (i mod 512)"

definition dev_readable :: "disks \<Rightarrow> block_device \<Rightarrow> nat \<Rightarrow> bool" where
  "dev_readable ds dev n \<longleftrightarrow> bd_ops dev \<noteq> No_Ops \<and>
     (\<forall>k. k * 512 < n \<longrightarrow> read_sector ds dev (of_nat k) \<noteq> None)"

lemma block_read_1:
  assumes "bd_ops dev \<noteq> No_Ops" and "read_sector ds dev lba = Some bs"
  shows "block_read ds (Some dev) lba 1 = (0, bs)"
  using assms by (simp add: block_read_def)

lemma sector_bytes:
  assumes "disks_wf ds" and "read_sector ds dev (of_nat k) = Some bs" and "n \<le> 512"
  shows "take n bs = map (dev_byte ds dev) [512 * k..<512 * k + n]"
proof (rule nth_equalityI)
  have len: "length bs = 512" using dev.rd_length [OF assms(1,2)] .
  then show "length (take n bs) = length (map (dev_byte ds dev) [512 * k..<512 * k + n])"
    using assms(3) by simp
  fix i assume i: "i < length (take n bs)"
  then have "(512 * k + i) div 512 = k" "(512 * k + i) mod 512 = i" using assms(3) len by simp_all
  then show "take n bs ! i = map (dev_byte ds dev) [512 * k..<512 * k + n] ! i"
    using i len assms(2,3) by (simp add: dev_byte_def)
qed

lemma upt_split: "a \<le> b \<Longrightarrow> b \<le> c \<Longrightarrow> [a..<b] @ [b..<c] = [a..<c :: nat]"
  by (metis le_Suc_ex upt_add_eq_append)

lemma lba_sum:
  assumes "unat (off :: u32) mod 512 = 0"
  shows "off div 512 + cnt div 512 = of_nat ((unat off + unat cnt) div 512)"
proof -
  have "unat off div 512 + unat cnt div 512 = (unat off + unat cnt) div 512"
    using assms by (auto simp: div_add1_eq)
  moreover have "x div 512 = of_nat (unat x div 512)" for x :: u32
  proof -
    have "unat (x div 512) = unat x div 512" by (simp add: unat_div)
    moreover have "of_nat (unat (x div 512)) = x div 512" by simp
    ultimately show ?thesis by simp
  qed
  ultimately show ?thesis by (metis of_nat_add)
qed

lemma file_read_whole_aligned:
  assumes wf: "disks_wf ds" and rdb: "dev_readable ds dev (unat off + unat cnt + unat todo)"
    and al: "unat off mod 512 = 0" "unat cnt mod 512 = 0"
    and fit: "unat off + unat cnt + unat todo < 2 ^ 32"
  shows "file_read_whole ds dev off cnt todo =
    (True, cnt + of_nat (512 * (unat todo div 512)), of_nat (unat todo mod 512),
     map (dev_byte ds dev) [unat off + unat cnt..<unat off + unat cnt + 512 * (unat todo div 512)])"
  using rdb al(2) fit
proof (induction "unat todo div 512" arbitrary: cnt todo)
  case 0
  then have lt: "unat todo < 512" by simp
  then have "\<not> 512 \<le> todo" by (simp add: word_le_nat_alt)
  then show ?case using lt by (subst file_read_whole.simps) simp
next
  case (Suc n)
  from Suc.hyps(2) have ge: "512 \<le> unat todo" by linarith
  then have cond: "512 \<le> todo" by (simp add: word_le_nat_alt)
  define k where "k = (unat off + unat cnt) div 512"
  have k: "unat off + unat cnt = 512 * k"
    using al(1) Suc.prems(2) by (auto simp: k_def)
  have lba: "off div 512 + cnt div 512 = of_nat k"
    unfolding k_def using lba_sum [OF al(1)] .
  have "k * 512 < unat off + unat cnt + unat todo" using k ge by simp
  then obtain bs where bs: "read_sector ds dev (of_nat k) = Some bs"
    using Suc.prems(1) by (auto simp: dev_readable_def)
  have rd: "block_read ds (Some dev) (off div 512 + cnt div 512) 1 = (0, bs)"
    using block_read_1 Suc.prems(1) bs by (simp add: lba dev_readable_def)
  have bytes: "bs = map (dev_byte ds dev) [512 * k..<512 * k + 512]"
    using sector_bytes [OF wf bs, of 512] dev.rd_length [OF wf bs] by simp
  have uc: "unat (cnt + 512) = unat cnt + 512"
    using Suc.prems(3) ge by (simp add: unat_word_ariths(1))
  have ut: "unat (todo - 512) = unat todo - 512" using unat_sub_512 [OF cond] .
  have sum: "unat off + unat (cnt + 512) + unat (todo - 512) = unat off + unat cnt + unat todo"
    using uc ut ge by simp
  have IH: "file_read_whole ds dev off (cnt + 512) (todo - 512) =
    (True, cnt + 512 + of_nat (512 * (unat (todo - 512) div 512)), of_nat (unat (todo - 512) mod 512),
     map (dev_byte ds dev) [unat off + unat (cnt + 512)..<
       unat off + unat (cnt + 512) + 512 * (unat (todo - 512) div 512)])"
  proof (rule Suc.hyps(1))
    show "n = unat (todo - 512) div 512" using Suc.hyps(2) ge by (simp add: ut le_div_geq)
    show "dev_readable ds dev (unat off + unat (cnt + 512) + unat (todo - 512))"
      unfolding sum using Suc.prems(1) .
    show "unat (cnt + 512) mod 512 = 0" using Suc.prems(2) by (simp add: uc)
    show "unat off + unat (cnt + 512) + unat (todo - 512) < 2 ^ 32" unfolding sum using Suc.prems(3) .
  qed
  have dm: "(unat todo - 512) div 512 = n" "unat todo div 512 = Suc n" "(unat todo - 512) mod 512 = unat todo mod 512"
    using Suc.hyps(2) ge by (simp_all add: le_div_geq le_mod_geq)
  have cat: "bs @ map (dev_byte ds dev) [unat off + unat cnt + 512..<unat off + unat cnt + 512 + 512 * n] =
    map (dev_byte ds dev) [unat off + unat cnt..<unat off + unat cnt + 512 * Suc n]"
    using upt_split [of "512 * k" "512 * k + 512" "512 * k + 512 + 512 * n"]
    by (simp add: bytes k add.assoc flip: map_append)
  show ?case
    using cond rd IH cat by (subst file_read_whole.simps) (simp add: uc ut dm add.assoc)
qed

lemma unat_div_mod_512:
  fixes x :: u32
  shows "unat (x mod 512) = unat x mod 512" "unat (x div 512) = unat x div 512"
  by (simp_all add: unat_mod unat_div)

text \<open>
  C17. Reading a block device at a sector boundary. If the request lies within the device and its
  sectors can be read, \<open>block_file_read\<close> returns the number of bytes asked for, and the bytes are
  the bytes of the device from that offset on.
\<close>
theorem block_file_read_aligned:
  assumes "disks_wf ds" and "dev_readable ds dev (unat off + unat n)"
    and "off mod 512 = 0" and "unat off + unat n \<le> unat (num_blocks dev * 512)"
    and "off < num_blocks dev * 512" and "unat n < 2 ^ 31"
  shows "block_file_read ds dev off n =
    (int (unat n), map (dev_byte ds dev) [unat off..<unat off + unat n])"
proof -
  have al: "unat off mod 512 = 0" using assms(3) unat_div_mod_512(1) [of off] by simp
  have fit: "unat off + unat n < 2 ^ 32"
    using assms(4) unsigned_less [of "num_blocks dev * 512", where 'a = nat] by simp
  have nw: "\<not> num_blocks dev * 512 < off + n"
  proof -
    have "unat (off + n) = unat off + unat n" using fit by (simp add: unat_word_ariths(1))
    then show ?thesis using assms(4) by (simp add: word_less_nat_alt)
  qed
  let ?q = "512 * (unat n div 512)" and ?r = "unat n mod 512"
  have qr: "?q + ?r = unat n" by simp
  have whole: "file_read_whole ds dev off 0 n = (True, of_nat ?q, of_nat ?r, map (dev_byte ds dev) [unat off..<unat off + ?q])"
    using file_read_whole_aligned [OF assms(1), of dev off 0 n] assms(2) al fit by simp
  have uq: "unat (of_nat ?q :: u32) = ?q" "unat (of_nat ?r :: u32) = ?r"
  proof -
    have "?q < 2 ^ 32" "?r < 2 ^ 32" using qr fit by linarith+
    then show "unat (of_nat ?q :: u32) = ?q" "unat (of_nat ?r :: u32) = ?r"
      by (simp_all only: unat_of_nat) simp_all
  qed
  have "(of_nat (?q + ?r) :: u32) = n" unfolding qr by simp
  then have n: "(of_nat ?q :: u32) + of_nat ?r = n" by (simp only: of_nat_add)
  have sint_n: "sint n = int (unat n)"
    using sint_small [OF assms(6)] .
  note defs = block_file_read_def Let_def
  have notge: "\<not> num_blocks dev * 512 \<le> off" using assms(5) by (simp add: not_le)
  show ?thesis
  proof (cases "?r = 0")
    case True
    then have "(of_nat ?r :: u32) = 0" "?q = unat n" "(of_nat ?q :: u32) = n" using qr n by simp_all
    then show ?thesis using whole notge nw assms(3) sint_n by (simp add: defs)
  next
    case False
    define k where "k = (unat off + ?q) div 512"
    have k: "unat off + ?q = 512 * k" using al by (auto simp: k_def)
    have "k * 512 < unat off + unat n" using k qr False by linarith
    then obtain bs where bs: "read_sector ds dev (of_nat k) = Some bs"
      using assms(2) by (auto simp: dev_readable_def)
    have "off div 512 + of_nat ?q div 512 = of_nat k"
      using lba_sum [OF al, of "of_nat ?q"] by (simp only: uq k_def)
    moreover have "bd_ops dev \<noteq> No_Ops" using assms(2) by (simp add: dev_readable_def)
    ultimately have rd: "block_read ds (Some dev) (off div 512 + of_nat ?q div 512) 1 = (0, bs)"
      using block_read_1 [OF _ bs] by metis
    have pos: "(of_nat ?r :: u32) > 0" using uq(2) False by (simp add: word_less_nat_alt)
    have "take ?r bs = map (dev_byte ds dev) [unat off + ?q..<unat off + ?q + ?r]"
      using sector_bytes [OF assms(1) bs, of ?r] k by simp
    then have cat: "map (dev_byte ds dev) [unat off..<unat off + ?q] @ take ?r bs =
        map (dev_byte ds dev) [unat off..<unat off + unat n]"
      using upt_split [of "unat off" "unat off + ?q" "unat off + ?q + ?r"] qr
      by (simp add: add.assoc flip: map_append)
    show ?thesis
      using whole notge nw assms(3) sint_n rd pos cat n uq(2)
      by (simp only: defs) (simp add: rd)
  qed
qed

theorem block_file_read_aligned_witness:
  "block_file_read demo_disks demo_disk 512 700 =
    (int (unat (700 :: u32)), map (dev_byte demo_disks demo_disk) [unat (512 :: u32)..<unat (512 :: u32) + unat (700 :: u32)])"
proof (rule block_file_read_aligned [OF demo_disks_wf])
  show "dev_readable demo_disks demo_disk (unat (512 :: u32) + unat (700 :: u32))"
    unfolding dev_readable_def
  proof (intro conjI allI impI)
    fix k :: nat
    assume "k * 512 < unat (512 :: u32) + unat (700 :: u32)"
    then have "k < 3" by simp
    then consider "k = 0" | "k = 1" | "k = 2" by linarith
    then have "(of_nat k :: u32) < 2048" by cases simp_all
    then show "read_sector demo_disks demo_disk (of_nat k) \<noteq> None" using demo_disk_read by simp
  qed (simp add: demo_disk_def)
qed (simp_all add: demo_disk_def)

text \<open>
  C18. Reading a block device from the middle of a sector goes wrong. After the partial first sector
  the loop computes the next sector number from the truncated byte counts, and reads the first
  sector a second time: a request that should end with the sector after it ends with the same sector
  again.
\<close>
theorem block_file_read_unaligned_repeats:
  assumes "read_sector ds dev (off div 512) = Some bs" and "bd_ops dev \<noteq> No_Ops"
    and "off mod 512 \<noteq> 0" and "length bs = 512"
    and "unat n = 1024 - unat (off mod 512)" and "unat off + unat n \<le> unat (num_blocks dev * 512)"
  shows "block_file_read ds dev off n = (int (unat n), drop (unat (off mod 512)) bs @ bs)"
proof -
  let ?skip = "off mod 512"
  have "unat ?skip \<noteq> 0" using assms(3) by (simp only: unat_eq_0) simp
  moreover have "unat ?skip < 512" using unat_div_mod_512(1) [of off] by simp
  ultimately have sk: "unat ?skip < 512" "unat ?skip \<noteq> 0" by blast+
  have u1: "unat (512 - ?skip) = 512 - unat ?skip"
    using sk by (subst unat_sub) (simp_all add: word_le_nat_alt)
  have chunk: "\<not> n < 512 - ?skip" using assms(5) sk u1 by (simp add: word_less_nat_alt)
  have todo: "n - (512 - ?skip) = 512"
  proof -
    have "unat (n - (512 - ?skip)) = unat n - unat (512 - ?skip)"
      using chunk by (intro unat_sub) (simp add: not_less)
    then have "unat (n - (512 - ?skip)) = unat (512 :: u32)" using assms(5) u1 sk by simp
    then show ?thesis by (simp only: word_unat_eq_iff)
  qed
  have fit: "unat off + unat n < 2 ^ 32"
    using assms(6) unsigned_less [of "num_blocks dev * 512", where 'a = nat] by simp
  have "unat (off + n) = unat off + unat n" using fit by (simp add: unat_word_ariths(1))
  then have nw: "\<not> num_blocks dev * 512 < off + n" "\<not> num_blocks dev * 512 \<le> off"
    using assms(5,6) sk by (simp_all add: word_less_nat_alt word_le_nat_alt)
  have z: "(512 - ?skip) div 512 = 0"
  proof -
    have "unat ((512 - ?skip) div 512) = 0" using u1 sk by (simp add: unat_div)
    then show ?thesis by (simp only: unat_eq_0)
  qed
  note rd = block_read_1 [OF assms(2,1)]
  have end_loop: "file_read_whole ds dev off c 0 = (True, c, 0, [])" for c
    by (subst file_read_whole.simps) simp
  have loop: "file_read_whole ds dev off (512 - ?skip) 512 = (True, 512 - ?skip + 512, 0, bs)"
    using rd z by (subst file_read_whole.simps) (simp add: end_loop)
  have cnt: "512 - ?skip + 512 = n" using todo by (metis add.commute diff_add_cancel)
  have "unat n < 2 ^ 31" using assms(5) by simp
  note sint_n = sint_small [OF this]
  have first: "get_bytes (unat ?skip) (512 - unat ?skip) bs = drop (unat ?skip) bs"
    using assms(4) by (simp add: get_bytes_def)
  have loop': "file_read_whole ds dev off (512 - ?skip) (n - (512 - ?skip)) = (True, n, 0, bs)"
    using loop by (simp only: todo cnt)
  show ?thesis
    using nw chunk assms(3) rd loop' sint_n first u1 by (simp add: block_file_read_def Let_def)
qed

theorem block_file_read_unaligned_repeats_witness:
  "block_file_read demo_disks demo_disk 100 924 =
    (int (unat (924 :: u32)), drop (unat ((100 :: u32) mod 512)) (replicate 512 0) @ replicate 512 0) \<and>
   dev_byte demo_disks demo_disk 512 = 1"
proof
  have rd: "read_sector demo_disks demo_disk ((100 :: u32) div 512) = Some (replicate 512 0)"
    using demo_disk_read [of 0] by simp
  show "block_file_read demo_disks demo_disk 100 924 =
    (int (unat (924 :: u32)), drop (unat ((100 :: u32) mod 512)) (replicate 512 0) @ replicate 512 0)"
    by (rule block_file_read_unaligned_repeats [OF rd]) (simp_all add: demo_disk_def)
  show "dev_byte demo_disks demo_disk 512 = 1"
    using demo_disk_read [of 1] by (simp add: dev_byte_def)
qed

subsection \<open>Partition tables\<close>

definition mbr_nth :: "u8 list \<Rightarrow> nat \<Rightarrow> mbr_entry" where
  "mbr_nth mbr i = decode_mbr_entry (get_bytes (MBR_PART_TABLE_OFFSET + 16 * i) 16 mbr)"

definition mbr_device :: "block_device \<Rightarrow> u8 list \<Rightarrow> nat \<Rightarrow> block_device" where
  "mbr_device parent mbr i = Block_Device (part_name (bd_name parent) i) 512 (me_sector_count (mbr_nth mbr i))
     (Part_Ops parent (me_lba_start (mbr_nth mbr i)))"

definition mbr_in_use :: "u8 list \<Rightarrow> nat \<Rightarrow> bool" where
  "mbr_in_use mbr i \<longleftrightarrow> me_type (mbr_nth mbr i) \<noteq> 0 \<and> me_sector_count (mbr_nth mbr i) \<noteq> 0"

lemma parse_mbr_entries:
  assumes "length (part_bdevs st) + length is \<le> MAX_PARTITIONS"
    and "length (block_devices st) + length is \<le> BLOCK_MAX_DEVICES"
  shows "fold (parse_mbr_entry parent mbr) is st =
    st\<lparr>block_devices := block_devices st @ map (mbr_device parent mbr) (filter (mbr_in_use mbr) is),
       part_bdevs := part_bdevs st @ map (mbr_device parent mbr) (filter (mbr_in_use mbr) is)\<rparr>"
  using assms
proof (induction "is" arbitrary: st)
  case (Cons i "is")
  let ?d = "mbr_device parent mbr i"
  have "parse_mbr_entry parent mbr i st =
    (if mbr_in_use mbr i then st\<lparr>block_devices := block_devices st @ [?d], part_bdevs := part_bdevs st @ [?d]\<rparr> else st)"
    using Cons.prems
    by (simp add: parse_mbr_entry_def mbr_in_use_def mbr_device_def block_register_device_def Let_def
        mbr_nth_def [symmetric])
  then show ?case using Cons by simp
qed simp

text \<open>
  C19. A valid partition table is registered as it stands. If the first sector can be read and ends
  with the signature 55 AA, and there is room for four more devices, \<open>parse_mbr\<close> registers exactly
  the entries that have a type and a size, in table order, each as a device named after the disk and
  its number with the start and length of the entry; without the signature it registers nothing.
\<close>
theorem parse_mbr_registers_table:
  assumes "block_read ds (Some parent) 0 1 = (0, mbr)" and "\<not> block_size parent < 512"
    and "length (part_bdevs st) + 4 \<le> MAX_PARTITIONS" and "length (block_devices st) + 4 \<le> BLOCK_MAX_DEVICES"
  shows "parse_mbr ds parent st =
    (if (ucast (mbr ! 510) OR push_bit 8 (ucast (mbr ! 511)) :: u16) = 0xAA55
     then st\<lparr>block_devices := block_devices st @ map (mbr_device parent mbr) (filter (mbr_in_use mbr) [0..<4]),
             part_bdevs := part_bdevs st @ map (mbr_device parent mbr) (filter (mbr_in_use mbr) [0..<4])\<rparr>
     else st)"
  using assms parse_mbr_entries [of st "[0..<4]" parent mbr]
  by (simp add: parse_mbr_def MBR_SIGNATURE_def MBR_SIGNATURE_OFFSET_def)

definition demo_mbr :: "u8 list" where
  \<comment> \<open>one partition of type 0x83: 1000 sectors from sector 63\<close>
  "demo_mbr = replicate 446 0 @ [0, 0, 0, 0, 0x83, 0, 0, 0] @ le32 63 @ le32 1000 @ replicate 48 0 @ [0x55, 0xAA]"

theorem parse_mbr_registers_table_witness:
  "parse_mbr (\<lambda>b s l. Some demo_mbr) demo_disk \<lparr>block_devices = [demo_disk], part_bdevs = []\<rparr> =
    (if (ucast (demo_mbr ! 510) OR push_bit 8 (ucast (demo_mbr ! 511)) :: u16) = 0xAA55
     then \<lparr>block_devices = [demo_disk] @ map (mbr_device demo_disk demo_mbr) (filter (mbr_in_use demo_mbr) [0..<4]),
           part_bdevs = [] @ map (mbr_device demo_disk demo_mbr) (filter (mbr_in_use demo_mbr) [0..<4])\<rparr>
     else \<lparr>block_devices = [demo_disk], part_bdevs = []\<rparr>)"
proof -
  have rd: "block_read (\<lambda>b s l. Some demo_mbr) (Some demo_disk) 0 1 = (0, demo_mbr)"
    by (rule block_read_1) (simp_all add: demo_disk_def ata_read_sector_def Let_def)
  show ?thesis
    using parse_mbr_registers_table [OF rd, of "\<lparr>block_devices = [demo_disk], part_bdevs = []\<rparr>"]
    by (simp add: demo_disk_def MAX_PARTITIONS_def BLOCK_MAX_DEVICES_def)
qed

end
