(* ===== verification/Ext2_Alloc.thy ===== *)
theory Ext2_Alloc
  imports Ext2_Layout Vfs_Types Block
begin

text \<open>
  The lower half of \<open>kernel/ext2.c\<close>: block transfers through the shared buffer \<open>ext2_buf\<close>, the super
  block and group descriptors, the block and inode bitmaps, and the inode table. \<open>EXT2_MAX_FS\<close> is
  1, so every \<open>struct ext2_fs *\<close> points to the one entry of \<open>fs_pool\<close>, the field \<open>fs\<close> of the state.

  The buffer is 4096 bytes. A block size above that makes a transfer run past its end, and a
  division by a zero size field traps; both are the result \<^const>\<open>None\<close>. Whatever an operation
  leaves in the buffer stays there, as in the code, where later operations may store it.
\<close>

subsection \<open>State\<close>

record ext2_fs =
  fs_dev :: "block_device option"
  fs_sb :: ext2_sb
  fs_block_size :: u32
  bgdesc_block :: u32
  bgdesc_count :: u32

record ext2_state = vfs_state +
  ext2_disks :: disks
  ext2_buf :: "u8 list"
  fs :: ext2_fs
  fs_pool_next :: nat
  ext2_data_pool :: "nat \<Rightarrow> u32"   \<comment> \<open>the \<open>inode_no\<close> of each \<open>struct ext2_inode_data\<close>\<close>
  ext2_data_pool_next :: nat

definition EXT2_BUF_SIZE :: nat where "EXT2_BUF_SIZE = 4096"

abbreviation bsize :: "'a ext2_state_scheme \<Rightarrow> u32" where
  "bsize st \<equiv> fs_block_size (fs st)"

abbreviation sb :: "'a ext2_state_scheme \<Rightarrow> ext2_sb" where
  "sb st \<equiv> fs_sb (fs st)"

definition upd_sb :: "(ext2_sb \<Rightarrow> ext2_sb) \<Rightarrow> 'a ext2_state_scheme \<Rightarrow> 'a ext2_state_scheme" where
  "upd_sb f st = st\<lparr>fs := (fs st)\<lparr>fs_sb := f (fs_sb (fs st))\<rparr>\<rparr>"

subsection \<open>Block transfers\<close>

definition ext2_read_block :: "u32 \<Rightarrow> 'a ext2_state_scheme \<Rightarrow> (int \<times> 'a ext2_state_scheme) option" where
  \<comment> \<open>every caller reads into \<open>ext2_buf\<close>\<close>
  "ext2_read_block block_nr st =
     (let sectors_per_block = bsize st div 512;
          (r, bytes) = block_read (ext2_disks st) (fs_dev (fs st)) (block_nr * sectors_per_block) sectors_per_block
      in if length bytes > EXT2_BUF_SIZE then None
         else Some (r, st\<lparr>ext2_buf := put_bytes 0 bytes (ext2_buf st)\<rparr>))"

definition ext2_write_block :: "u32 \<Rightarrow> u8 list \<Rightarrow> 'a ext2_state_scheme \<Rightarrow> (int \<times> 'a ext2_state_scheme) option" where
  "ext2_write_block block_nr buf st =
     (let sectors_per_block = bsize st div 512 in
      if 512 * unat sectors_per_block > length buf then None
      else
        (let (r, ds) = block_write (fs_dev (fs st)) (block_nr * sectors_per_block) sectors_per_block buf (ext2_disks st)
         in Some (r, st\<lparr>ext2_disks := ds\<rparr>)))"

definition write_buf :: "u32 \<Rightarrow> 'a ext2_state_scheme \<Rightarrow> (int \<times> 'a ext2_state_scheme) option" where
  \<comment> \<open>\<open>ext2_write_block(fs, block_nr, ext2_buf)\<close>\<close>
  "write_buf block_nr st = ext2_write_block block_nr (ext2_buf st) st"

definition set_buf :: "nat \<Rightarrow> u8 list \<Rightarrow> 'a ext2_state_scheme \<Rightarrow> 'a ext2_state_scheme option" where
  \<comment> \<open>a store of \<open>bs\<close> at \<open>ext2_buf + off\<close>\<close>
  "set_buf off bs st =
     (if off + length bs \<le> EXT2_BUF_SIZE then Some (st\<lparr>ext2_buf := put_bytes off bs (ext2_buf st)\<rparr>) else None)"

subsection \<open>Super block and group descriptors\<close>

definition ext2_write_sb :: "'a ext2_state_scheme \<Rightarrow> (int \<times> 'a ext2_state_scheme) option" where
  "ext2_write_sb st = do {
     let sb_block = (if bsize st = 1024 then 1 else 0);
     st \<leftarrow> set_buf 0 (encode_sb (sb st)) st;
     write_buf sb_block st
   }"

definition bgdesc_pos :: "u32 \<Rightarrow> 'a ext2_state_scheme \<Rightarrow> (u32 \<times> nat) option" where
  \<comment> \<open>the block that holds a descriptor and the descriptor's offset in it\<close>
  "bgdesc_pos bg_idx st = do {
     must (bsize st \<noteq> 0);
     let offset = bg_idx * 32;
     Some (bgdesc_block (fs st) + offset div bsize st, unat (offset mod bsize st))
   }"

definition ext2_write_bgdesc :: "u32 \<Rightarrow> ext2_bgdesc \<Rightarrow> 'a ext2_state_scheme \<Rightarrow> (int \<times> 'a ext2_state_scheme) option" where
  "ext2_write_bgdesc bg_idx bgd st = do {
     (block_nr, offset) \<leftarrow> bgdesc_pos bg_idx st;
     (r, st) \<leftarrow> ext2_read_block block_nr st;
     if r < 0 then Some (-1, st)
     else do {
       st \<leftarrow> set_buf offset (encode_bgdesc bgd) st;
       write_buf block_nr st
     }
   }"

definition ext2_read_bgdesc :: "u32 \<Rightarrow> 'a ext2_state_scheme \<Rightarrow> (ext2_bgdesc option \<times> 'a ext2_state_scheme) option" where
  \<comment> \<open>the inner \<open>None\<close> is the return value -1\<close>
  "ext2_read_bgdesc bg_idx st = do {
     (block_nr, offset) \<leftarrow> bgdesc_pos bg_idx st;
     (r, st) \<leftarrow> ext2_read_block block_nr st;
     if r < 0 then Some (None, st)
     else do {
       must (offset + BGDESC_SIZE \<le> EXT2_BUF_SIZE);
       Some (Some (decode_bgdesc (get_bytes offset BGDESC_SIZE (ext2_buf st))), st)
     }
   }"

subsection \<open>Bitmaps\<close>

definition buf_bit :: "u8 list \<Rightarrow> nat \<Rightarrow> bool" where
  "buf_bit buf i \<longleftrightarrow> bit (buf ! (i div 8)) (i mod 8)"

definition buf_bit_set :: "nat \<Rightarrow> u8 list \<Rightarrow> u8 list" where
  "buf_bit_set i buf = buf[i div 8 := buf ! (i div 8) OR push_bit (i mod 8) 1]"

definition buf_bit_clear :: "nat \<Rightarrow> u8 list \<Rightarrow> u8 list" where
  "buf_bit_clear i buf = buf[i div 8 := buf ! (i div 8) AND NOT (push_bit (i mod 8) 1)]"

definition scan_bitmap :: "u8 list \<Rightarrow> nat \<Rightarrow> nat option option" where
  \<comment> \<open>the loop over \<open>i < max_bits\<close>; the outer \<open>None\<close> is a scan that leaves the buffer\<close>
  "scan_bitmap buf max_bits =
     (case find (\<lambda>i. \<not> buf_bit buf i) [0..<min max_bits (8 * EXT2_BUF_SIZE)] of
        Some i \<Rightarrow> Some (Some i)
      | None \<Rightarrow> if max_bits > 8 * EXT2_BUF_SIZE then None else Some None)"

subsection \<open>Blocks\<close>

definition take_block :: "u32 \<Rightarrow> ext2_bgdesc \<Rightarrow> nat \<Rightarrow> 'a ext2_state_scheme \<Rightarrow> (u32 \<times> 'a ext2_state_scheme) option" where
  \<comment> \<open>bit \<open>i\<close> of the bitmap in the buffer is free: allocate it\<close>
  "take_block bg bgd i st0 = do {
     let st = st0\<lparr>ext2_buf := buf_bit_set i (ext2_buf st0)\<rparr>;
     (r, st) \<leftarrow> write_buf (bg_block_bitmap bgd) st;
     if r < 0 then Some (0, st)
     else do {
       (r, st) \<leftarrow> ext2_write_bgdesc bg (bgd\<lparr>bg_free_blocks_count := bg_free_blocks_count bgd - 1\<rparr>) st;
       if r < 0 then Some (0, st)
       else do {
         (_, st) \<leftarrow> ext2_write_sb (upd_sb (\<lambda>s. s\<lparr>sb_free_blocks_count := sb_free_blocks_count s - 1\<rparr>) st);
         Some (bg * sb_blocks_per_group (sb st) + of_nat i, st)
       }
     }
   }"

fun alloc_block_groups :: "nat list \<Rightarrow> 'a ext2_state_scheme \<Rightarrow> (u32 \<times> 'a ext2_state_scheme) option" where
  \<comment> \<open>the loop over the groups still to try\<close>
  "alloc_block_groups [] st = Some (0, st)"
| "alloc_block_groups (bg # bgs) st = do {
     (d, st) \<leftarrow> ext2_read_bgdesc (of_nat bg) st;
     case d of
       None \<Rightarrow> alloc_block_groups bgs st
     | Some bgd \<Rightarrow>
         if bg_free_blocks_count bgd = 0 then alloc_block_groups bgs st
         else do {
           (r, st) \<leftarrow> ext2_read_block (bg_block_bitmap bgd) st;
           if r < 0 then alloc_block_groups bgs st
           else do {
             let max_bits = (if of_nat bg = bgdesc_count (fs st) - 1
                             then sb_blocks_count (sb st) - of_nat bg * sb_blocks_per_group (sb st)
                             else sb_blocks_per_group (sb st));
             hit \<leftarrow> scan_bitmap (ext2_buf st) (unat max_bits);
             case hit of
               None \<Rightarrow> alloc_block_groups bgs st
             | Some i \<Rightarrow> take_block (of_nat bg) bgd i st
           }
         }
   }"

definition ext2_alloc_block :: "'a ext2_state_scheme \<Rightarrow> (u32 \<times> 'a ext2_state_scheme) option" where
  "ext2_alloc_block st = alloc_block_groups [0..<unat (bgdesc_count (fs st))] st"

definition ext2_free_block :: "u32 \<Rightarrow> 'a ext2_state_scheme \<Rightarrow> 'a ext2_state_scheme option" where
  "ext2_free_block block_nr st = do {
     must (sb_blocks_per_group (sb st) \<noteq> 0);
     let bg = block_nr div sb_blocks_per_group (sb st);
     let offset = unat (block_nr mod sb_blocks_per_group (sb st));
     (d, st) \<leftarrow> ext2_read_bgdesc bg st;
     case d of
       None \<Rightarrow> Some st
     | Some bgd \<Rightarrow> do {
         (r, st) \<leftarrow> ext2_read_block (bg_block_bitmap bgd) st;
         if r < 0 then Some st
         else do {
           must (offset div 8 < EXT2_BUF_SIZE);
           let st = st\<lparr>ext2_buf := buf_bit_clear offset (ext2_buf st)\<rparr>;
           (_, st) \<leftarrow> write_buf (bg_block_bitmap bgd) st;
           (_, st) \<leftarrow> ext2_write_bgdesc bg (bgd\<lparr>bg_free_blocks_count := bg_free_blocks_count bgd + 1\<rparr>) st;
           (_, st) \<leftarrow> ext2_write_sb (upd_sb (\<lambda>s. s\<lparr>sb_free_blocks_count := sb_free_blocks_count s + 1\<rparr>) st);
           Some st
         }
       }
   }"

subsection \<open>Inode numbers\<close>

definition take_inode :: "u32 \<Rightarrow> ext2_bgdesc \<Rightarrow> nat \<Rightarrow> 'a ext2_state_scheme \<Rightarrow> (u32 \<times> 'a ext2_state_scheme) option" where
  "take_inode bg bgd i st0 = do {
     let st = st0\<lparr>ext2_buf := buf_bit_set i (ext2_buf st0)\<rparr>;
     (r, st) \<leftarrow> write_buf (bg_inode_bitmap bgd) st;
     if r < 0 then Some (0, st)
     else do {
       (_, st) \<leftarrow> ext2_write_bgdesc bg (bgd\<lparr>bg_free_inodes_count := bg_free_inodes_count bgd - 1\<rparr>) st;
       (_, st) \<leftarrow> ext2_write_sb (upd_sb (\<lambda>s. s\<lparr>sb_free_inodes_count := sb_free_inodes_count s - 1\<rparr>) st);
       Some (bg * sb_inodes_per_group (sb st) + of_nat i + 1, st)
     }
   }"

fun alloc_inode_groups :: "nat list \<Rightarrow> 'a ext2_state_scheme \<Rightarrow> (u32 \<times> 'a ext2_state_scheme) option" where
  "alloc_inode_groups [] st = Some (0, st)"
| "alloc_inode_groups (bg # bgs) st = do {
     (d, st) \<leftarrow> ext2_read_bgdesc (of_nat bg) st;
     case d of
       None \<Rightarrow> alloc_inode_groups bgs st
     | Some bgd \<Rightarrow>
         if bg_free_inodes_count bgd = 0 then alloc_inode_groups bgs st
         else do {
           (r, st) \<leftarrow> ext2_read_block (bg_inode_bitmap bgd) st;
           if r < 0 then alloc_inode_groups bgs st
           else do {
             let max_bits = (if of_nat bg = bgdesc_count (fs st) - 1
                             then sb_inodes_count (sb st) - of_nat bg * sb_inodes_per_group (sb st)
                             else sb_inodes_per_group (sb st));
             hit \<leftarrow> scan_bitmap (ext2_buf st) (unat max_bits);
             case hit of
               None \<Rightarrow> alloc_inode_groups bgs st
             | Some i \<Rightarrow> take_inode (of_nat bg) bgd i st
           }
         }
   }"

definition ext2_alloc_inode :: "'a ext2_state_scheme \<Rightarrow> (u32 \<times> 'a ext2_state_scheme) option" where
  "ext2_alloc_inode st = alloc_inode_groups [0..<unat (bgdesc_count (fs st))] st"

definition ext2_free_inode :: "u32 \<Rightarrow> 'a ext2_state_scheme \<Rightarrow> 'a ext2_state_scheme option" where
  "ext2_free_inode inode_no st =
     (if inode_no = 0 then Some st
      else do {
        must (sb_inodes_per_group (sb st) \<noteq> 0);
        let bg = (inode_no - 1) div sb_inodes_per_group (sb st);
        let offset = unat ((inode_no - 1) mod sb_inodes_per_group (sb st));
        (d, st) \<leftarrow> ext2_read_bgdesc bg st;
        case d of
          None \<Rightarrow> Some st
        | Some bgd \<Rightarrow> do {
            (r, st) \<leftarrow> ext2_read_block (bg_inode_bitmap bgd) st;
            if r < 0 then Some st
            else do {
              must (offset div 8 < EXT2_BUF_SIZE);
              let st = st\<lparr>ext2_buf := buf_bit_clear offset (ext2_buf st)\<rparr>;
              (_, st) \<leftarrow> write_buf (bg_inode_bitmap bgd) st;
              (_, st) \<leftarrow> ext2_write_bgdesc bg (bgd\<lparr>bg_free_inodes_count := bg_free_inodes_count bgd + 1\<rparr>) st;
              (_, st) \<leftarrow> ext2_write_sb (upd_sb (\<lambda>s. s\<lparr>sb_free_inodes_count := sb_free_inodes_count s + 1\<rparr>) st);
              Some st
            }
          }
      })"

subsection \<open>The inode table\<close>

definition fs_inode_size :: "'a ext2_state_scheme \<Rightarrow> u32" where
  "fs_inode_size st =
     (if sb_inode_size (sb st) = 0 then EXT2_GOOD_OLD_INODE_SIZE else ucast (sb_inode_size (sb st)))"

definition inode_pos :: "u32 \<Rightarrow> u32 \<Rightarrow> 'a ext2_state_scheme \<Rightarrow> u32 \<times> nat" where
  \<comment> \<open>the block of the table, which starts at \<open>table_block\<close>, that holds an inode, and its offset\<close>
  "inode_pos inode_no table_block st =
     (let byte_offset = ((inode_no - 1) mod sb_inodes_per_group (sb st)) * fs_inode_size st
      in (table_block + byte_offset div bsize st, unat (byte_offset mod bsize st)))"

definition ext2_write_inode :: "u32 \<Rightarrow> ext2_inode \<Rightarrow> 'a ext2_state_scheme \<Rightarrow> (int \<times> 'a ext2_state_scheme) option" where
  "ext2_write_inode inode_no raw st =
     (if inode_no = 0 \<or> inode_no > sb_inodes_count (sb st) then Some (-1, st)
      else do {
        must (sb_inodes_per_group (sb st) \<noteq> 0);
        (d, st) \<leftarrow> ext2_read_bgdesc ((inode_no - 1) div sb_inodes_per_group (sb st)) st;
        case d of
          None \<Rightarrow> Some (-1, st)
        | Some bgd \<Rightarrow> do {
            let (block_nr, byte_offset) = inode_pos inode_no (bg_inode_table bgd) st;
            (r, st) \<leftarrow> ext2_read_block block_nr st;
            if r < 0 then Some (-1, st)
            else do {
              st \<leftarrow> set_buf byte_offset (encode_ext2_inode raw) st;
              write_buf block_nr st
            }
          }
      })"

definition ext2_read_inode :: "u32 \<Rightarrow> 'a ext2_state_scheme \<Rightarrow> (ext2_inode option \<times> 'a ext2_state_scheme) option" where
  "ext2_read_inode inode_no st =
     (if inode_no = 0 \<or> inode_no > sb_inodes_count (sb st) then Some (None, st)
      else do {
        must (sb_inodes_per_group (sb st) \<noteq> 0);
        (d, st) \<leftarrow> ext2_read_bgdesc ((inode_no - 1) div sb_inodes_per_group (sb st)) st;
        case d of
          None \<Rightarrow> Some (None, st)
        | Some bgd \<Rightarrow> do {
            let (block_nr, byte_offset) = inode_pos inode_no (bg_inode_table bgd) st;
            (r, st) \<leftarrow> ext2_read_block block_nr st;
            if r < 0 then Some (None, st)
            else do {
              must (byte_offset + INODE_SIZE \<le> EXT2_BUF_SIZE);
              Some (Some (decode_ext2_inode (get_bytes byte_offset INODE_SIZE (ext2_buf st))), st)
            }
          }
      })"

end
