(* ===== verification/Ext2_File.thy ===== *)
theory Ext2_File
  imports Ext2_Alloc
begin

text \<open>
  The file half of \<open>kernel/ext2.c\<close>: block pointers, reading, writing and truncating the data of an
  inode. A C buffer argument is the list of the bytes the call may access; \<open>raw\<close> is the function's
  local copy of the on-disk inode.
\<close>

definition ext2_ino :: "nat \<Rightarrow> 'a ext2_state_scheme \<Rightarrow> u32 option option" where
  \<comment> \<open>\<open>data->inode_no\<close> for \<open>data = inode->private_data\<close>; \<open>Some None\<close> if that pointer is null, \<open>None\<close> if it
      leads to a structure of another file system\<close>
  "ext2_ino n st =
     (case i_private (inode st n) of
        No_Data \<Rightarrow> Some None
      | Ext2_Data d \<Rightarrow> Some (Some (ext2_data_pool st d))
      | _ \<Rightarrow> None)"

definition buf_u32 :: "u32 \<Rightarrow> 'a ext2_state_scheme \<Rightarrow> u32 option" where
  \<comment> \<open>\<open>((uint32_t *)ext2_buf)[i]\<close>\<close>
  "buf_u32 i st =
     (if 4 * unat i + 4 \<le> EXT2_BUF_SIZE then Some (of_le32 (get_bytes (4 * unat i) 4 (ext2_buf st))) else None)"

subsection \<open>Block pointers\<close>

definition ext2_inode_bmap :: "ext2_inode \<Rightarrow> u32 \<Rightarrow> 'a ext2_state_scheme \<Rightarrow> (u32 \<times> 'a ext2_state_scheme) option" where
  "ext2_inode_bmap raw block_idx st =
     (let ptrs_per_block = bsize st div 4; direct_count = 12 in
      if block_idx < direct_count then Some (di_block raw ! unat block_idx, st)
      else
        (let block_idx = block_idx - direct_count in
         if block_idx < ptrs_per_block then do {
           (r, st) \<leftarrow> ext2_read_block (di_block raw ! 12) st;
           if r < 0 then Some (0, st) else do { p \<leftarrow> buf_u32 block_idx st; Some (p, st) }
         }
         else
           (let block_idx = block_idx - ptrs_per_block;
                singly_count = ptrs_per_block;
                doubly_count = ptrs_per_block * singly_count
            in
            if block_idx < doubly_count then do {
              let indirect_idx = block_idx div singly_count;
              let indirect2_idx = block_idx mod singly_count;
              (r, st) \<leftarrow> ext2_read_block (di_block raw ! 13) st;
              if r < 0 then Some (0, st)
              else do {
                p \<leftarrow> buf_u32 indirect_idx st;
                (r, st) \<leftarrow> ext2_read_block p st;
                if r < 0 then Some (0, st) else do { p \<leftarrow> buf_u32 indirect2_idx st; Some (p, st) }
              }
            }
            else
              (let block_idx = block_idx - doubly_count in
               if block_idx < ptrs_per_block * ptrs_per_block * ptrs_per_block then do {
                 must (singly_count * singly_count \<noteq> 0);
                 let indirect_idx = block_idx div (singly_count * singly_count);
                 let block_idx = block_idx mod (singly_count * singly_count);
                 let indirect2_idx = block_idx div singly_count;
                 let indirect3_idx = block_idx mod singly_count;
                 (r, st) \<leftarrow> ext2_read_block (di_block raw ! 14) st;
                 if r < 0 then Some (0, st)
                 else do {
                   p \<leftarrow> buf_u32 indirect_idx st;
                   (r, st) \<leftarrow> ext2_read_block p st;
                   if r < 0 then Some (0, st)
                   else do {
                     p \<leftarrow> buf_u32 indirect2_idx st;
                     (r, st) \<leftarrow> ext2_read_block p st;
                     if r < 0 then Some (0, st) else do { p \<leftarrow> buf_u32 indirect3_idx st; Some (p, st) }
                   }
                 }
               }
               else Some (0, st)))))"

definition set_indirect :: "u32 \<Rightarrow> u32 \<Rightarrow> u32 \<Rightarrow> 'a ext2_state_scheme \<Rightarrow> (int \<times> 'a ext2_state_scheme) option" where
  \<comment> \<open>the read-modify-write of one pointer of the indirect block\<close>
  "set_indirect indir_block block_idx phys_block st = do {
     (r, st) \<leftarrow> ext2_read_block indir_block st;
     if r < 0 then Some (-1, st)
     else do {
       st \<leftarrow> set_buf (4 * unat block_idx) (le32 phys_block) st;
       write_buf indir_block st
     }
   }"

definition ext2_set_bmap ::
    "ext2_inode \<Rightarrow> u32 \<Rightarrow> u32 \<Rightarrow> 'a ext2_state_scheme \<Rightarrow> (int \<times> ext2_inode \<times> 'a ext2_state_scheme) option" where
  \<comment> \<open>the inode is an in-out parameter\<close>
  "ext2_set_bmap raw block_idx phys_block st =
     (let ptrs_per_block = bsize st div 4 in
      if block_idx < 12 then Some (0, raw\<lparr>di_block := (di_block raw)[unat block_idx := phys_block]\<rparr>, st)
      else
        (let block_idx = block_idx - 12 in
         if block_idx < ptrs_per_block then
           (if di_block raw ! 12 = 0 then
              (if phys_block = 0 then Some (0, raw, st)
               else do {
                 (indir_block, st) \<leftarrow> ext2_alloc_block st;
                 if indir_block = 0 then Some (-1, raw, st)
                 else do {
                   let raw = raw\<lparr>di_block := (di_block raw)[12 := indir_block]\<rparr>;
                   (r, st) \<leftarrow> set_indirect indir_block block_idx phys_block st;
                   Some (r, raw, st)
                 }
               })
            else do {
              (r, st) \<leftarrow> set_indirect (di_block raw ! 12) block_idx phys_block st;
              Some (r, raw, st)
            })
         else Some (-1, raw, st)))"

subsection \<open>Freeing the blocks of a file\<close>

definition block_count_of :: "u32 \<Rightarrow> u32 \<Rightarrow> u32" where
  \<comment> \<open>\<open>(size + block_size - 1) / block_size\<close>\<close>
  "block_count_of sz bs = (sz + bs - 1) div bs"

fun free_file_blocks :: "nat list \<Rightarrow> ext2_inode \<Rightarrow> 'a ext2_state_scheme \<Rightarrow> (ext2_inode \<times> 'a ext2_state_scheme) option" where
  \<comment> \<open>the loop over the block indices \<open>i\<close> to release\<close>
  "free_file_blocks [] raw st = Some (raw, st)"
| "free_file_blocks (i # is) raw st = do {
     (b, st) \<leftarrow> ext2_inode_bmap raw (of_nat i) st;
     if b \<noteq> 0 then do {
       (_, raw, st) \<leftarrow> ext2_set_bmap raw (of_nat i) 0 st;
       st \<leftarrow> ext2_free_block b st;
       free_file_blocks is raw st
     }
     else free_file_blocks is raw st
   }"

definition set_i_size :: "nat \<Rightarrow> u32 \<Rightarrow> 'a vfs_state_scheme \<Rightarrow> 'a vfs_state_scheme" where
  "set_i_size n sz st = upd_inode n (\<lambda>i. i\<lparr>i_size := sz\<rparr>) st"

subsection \<open>Writing\<close>

definition chunk_len :: "u32 \<Rightarrow> u32 \<Rightarrow> nat \<Rightarrow> nat" where
  \<comment> \<open>how much of \<open>sz\<close> bytes at file position \<open>pos\<close> lies in one block: \<open>to_copy\<close>\<close>
  "chunk_len bs pos sz = min (unat (bs - pos mod bs)) sz"

definition map_block ::
    "ext2_inode \<Rightarrow> u32 \<Rightarrow> 'a ext2_state_scheme \<Rightarrow> (u32 \<times> ext2_inode \<times> 'a ext2_state_scheme) option" where
  \<comment> \<open>the block behind \<open>block_idx\<close>, allocated if there is none; 0 is the \<open>break\<close>\<close>
  "map_block raw block_idx st = do {
     (phys_block, st) \<leftarrow> ext2_inode_bmap raw block_idx st;
     if phys_block \<noteq> 0 then Some (phys_block, raw, st)
     else do {
       (phys_block, st) \<leftarrow> ext2_alloc_block st;
       if phys_block = 0 then Some (0, raw, st)
       else do {
         (r, raw, st) \<leftarrow> ext2_set_bmap raw block_idx phys_block st;
         if r < 0 then do { st \<leftarrow> ext2_free_block phys_block st; Some (0, raw, st) }
         else Some (phys_block, raw, st)
       }
     }
   }"

definition write_chunk :: "u32 \<Rightarrow> u32 \<Rightarrow> u32 \<Rightarrow> u8 list \<Rightarrow> 'a ext2_state_scheme \<Rightarrow> (int \<times> 'a ext2_state_scheme) option" where
  \<comment> \<open>store the part of \<open>src\<close> that belongs to \<open>phys_block\<close>; a negative result is the \<open>break\<close>\<close>
  "write_chunk bs phys_block pos src st =
     (let block_offset = pos mod bs in
      if block_offset = 0 \<and> length src \<ge> unat bs then ext2_write_block phys_block src st
      else do {
        (r, st) \<leftarrow> ext2_read_block phys_block st;
        if r < 0 then Some (r, st)
        else do {
          st \<leftarrow> set_buf (unat block_offset) (take (chunk_len bs pos (length src)) src) st;
          write_buf phys_block st
        }
      })"

lemma chunk_len_pos: "0 < bs \<Longrightarrow> 0 < n \<Longrightarrow> 0 < chunk_len bs pos n"
proof -
  assume "0 < bs" and "0 < n"
  then have "pos mod bs < bs" using word_mod_less_divisor by blast
  then have "bs - pos mod bs \<noteq> 0" by auto
  then have "0 < unat (bs - pos mod bs)" by (metis gr0I unat_0 word_unat_eq_iff)
  with \<open>0 < n\<close> show ?thesis by (simp add: chunk_len_def)
qed

function write_loop ::
    "u32 \<Rightarrow> ext2_inode \<Rightarrow> u32 \<Rightarrow> u8 list \<Rightarrow> 'a ext2_state_scheme \<Rightarrow> (u32 \<times> ext2_inode \<times> 'a ext2_state_scheme) option" where
  \<comment> \<open>\<open>while (size > 0)\<close>: \<open>src\<close> are the bytes still to write, from position \<open>pos\<close> on\<close>
  "write_loop bs raw pos src st =
     (if src = [] then Some (pos, raw, st)
      else if bs = 0 then None
      else do {
        (phys_block, raw, st) \<leftarrow> map_block raw (pos div bs) st;
        if phys_block = 0 then Some (pos, raw, st)
        else do {
          (r, st) \<leftarrow> write_chunk bs phys_block pos src st;
          if r < 0 then Some (pos, raw, st)
          else
            (let to_copy = chunk_len bs pos (length src)
             in write_loop bs raw (pos + of_nat to_copy) (drop to_copy src) st)
        }
      })"
  by pat_completeness auto

termination write_loop
proof (relation "measure (\<lambda>(bs, raw, pos, src, st). length src)")
qed (auto simp: chunk_len_pos word_neq_0_conv)

declare write_loop.simps [simp del]

definition ext2_inode_write :: "nat \<Rightarrow> u32 \<Rightarrow> u8 list \<Rightarrow> 'a ext2_state_scheme \<Rightarrow> (int \<times> 'a ext2_state_scheme) option" where
  \<comment> \<open>\<open>src\<close> are the \<open>size\<close> bytes at \<open>buf\<close>\<close>
  "ext2_inode_write n offset src st =
     (if i_type (inode st n) = VFS_IFCHR \<or> i_type (inode st n) = VFS_IFBLK then Some (-1, st)
      else do {
        data \<leftarrow> ext2_ino n st;
        case data of
          None \<Rightarrow> Some (-1, st)
        | Some inode_no \<Rightarrow> do {
            (raw, st) \<leftarrow> ext2_read_inode inode_no st;
            case raw of
              None \<Rightarrow> Some (-1, st)
            | Some raw \<Rightarrow>
                if offset = 0 \<and> src = [] then do {
                  must (bsize st \<noteq> 0);
                  let old_blocks = block_count_of (di_size raw) (bsize st);
                  (raw, st) \<leftarrow> free_file_blocks [0..<unat old_blocks] raw st;
                  (_, st) \<leftarrow> ext2_write_inode inode_no (raw\<lparr>di_size := 0, di_blocks := 0\<rparr>) st;
                  Some (0, set_i_size n 0 st)
                }
                else do {
                  let bs = bsize st;
                  (pos, raw, st) \<leftarrow> write_loop bs raw offset src st;
                  let written = pos - offset;
                  if written > 0 then do {
                    let sz = (if pos > di_size raw then pos else di_size raw);
                    let raw = raw\<lparr>di_size := sz,
                                  di_blocks := block_count_of sz bs * (bs div 512)\<rparr>;
                    (_, st) \<leftarrow> ext2_write_inode inode_no raw st;
                    Some (sint written, set_i_size n (di_size raw) st)
                  }
                  else Some (sint written, st)
                }
          }
      })"

subsection \<open>Reading\<close>

function read_loop ::
    "u32 \<Rightarrow> ext2_inode \<Rightarrow> u32 \<Rightarrow> nat \<Rightarrow> 'a ext2_state_scheme \<Rightarrow> (u32 \<times> u8 list \<times> 'a ext2_state_scheme) option" where
  \<comment> \<open>\<open>sz\<close> bytes are still to read; the result lists the bytes stored to \<open>dst\<close>\<close>
  "read_loop bs raw pos sz st =
     (if sz = 0 then Some (pos, [], st)
      else if bs = 0 then None
      else do {
        (phys_block, st) \<leftarrow> ext2_inode_bmap raw (pos div bs) st;
        (r, st) \<leftarrow> (if phys_block = 0 then
                        do { st \<leftarrow> set_buf 0 (replicate (unat bs) 0) st; Some (0, st) }
                      else ext2_read_block phys_block st);
        if r < 0 then Some (pos, [], st)
        else
          (let to_copy = chunk_len bs pos sz;
               bytes = get_bytes (unat (pos mod bs)) to_copy (ext2_buf st)
           in do {
             (pos', rest, st) \<leftarrow> read_loop bs raw (pos + of_nat to_copy) (sz - to_copy) st;
             Some (pos', bytes @ rest, st)
           })
      })"
  by pat_completeness auto

termination read_loop
proof (relation "measure (\<lambda>(bs, raw, pos, sz, st). sz)")
qed (auto simp: chunk_len_pos word_neq_0_conv)

declare read_loop.simps [simp del]

definition ext2_inode_read :: "nat \<Rightarrow> u32 \<Rightarrow> u32 \<Rightarrow> 'a ext2_state_scheme \<Rightarrow> (int \<times> u8 list \<times> 'a ext2_state_scheme) option" where
  \<comment> \<open>the return value and the bytes stored at \<open>buf\<close>\<close>
  "ext2_inode_read n offset sz st =
     (if i_type (inode st n) = VFS_IFCHR \<or> i_type (inode st n) = VFS_IFBLK then Some (-1, [], st)
      else do {
        data \<leftarrow> ext2_ino n st;
        case data of
          None \<Rightarrow> Some (-1, [], st)
        | Some inode_no \<Rightarrow> do {
            (raw, st) \<leftarrow> ext2_read_inode inode_no st;
            case raw of
              None \<Rightarrow> Some (-1, [], st)
            | Some raw \<Rightarrow>
                if offset \<ge> di_size raw then Some (0, [], st)
                else do {
                  let sz = (if offset + sz > di_size raw then di_size raw - offset else sz);
                  (pos, bytes, st) \<leftarrow> read_loop (bsize st) raw offset (unat sz) st;
                  Some (sint (pos - offset), bytes, st)
                }
          }
      })"

subsection \<open>Truncation\<close>

definition ext2_truncate :: "nat \<Rightarrow> u32 \<Rightarrow> 'a ext2_state_scheme \<Rightarrow> (int \<times> 'a ext2_state_scheme) option" where
  "ext2_truncate n len st =
     (if i_type (inode st n) = VFS_IFCHR \<or> i_type (inode st n) = VFS_IFBLK then Some (-1, st)
      else do {
        data \<leftarrow> ext2_ino n st;
        case data of
          None \<Rightarrow> Some (-1, st)
        | Some inode_no \<Rightarrow> do {
            (raw, st) \<leftarrow> ext2_read_inode inode_no st;
            case raw of
              None \<Rightarrow> Some (-1, st)
            | Some raw \<Rightarrow> do {
                let bs = bsize st;
                must (bs \<noteq> 0);
                if len \<ge> di_size raw then do {
                  let raw = raw\<lparr>di_size := len,
                                di_blocks := block_count_of len bs * (bs div 512)\<rparr>;
                  (_, st) \<leftarrow> ext2_write_inode inode_no raw st;
                  Some (0, set_i_size n len st)
                }
                else do {
                  let old_block_count = block_count_of (di_size raw) bs;
                  let new_block_count = (if len \<noteq> 0 then block_count_of len bs else 0);
                  (raw, st) \<leftarrow> free_file_blocks [unat new_block_count..<unat old_block_count] raw st;
                  let raw = raw\<lparr>di_size := len, di_blocks := new_block_count * (bs div 512)\<rparr>;
                  (_, st) \<leftarrow> ext2_write_inode inode_no raw st;
                  Some (0, set_i_size n len st)
                }
              }
          }
      })"

definition ext2_alloc_data :: "'a ext2_state_scheme \<Rightarrow> nat option \<times> 'a ext2_state_scheme" where
  "ext2_alloc_data st =
     (if ext2_data_pool_next st \<ge> 64 then (None, st)
      else (Some (ext2_data_pool_next st), st\<lparr>ext2_data_pool_next := ext2_data_pool_next st + 1\<rparr>))"

end
