(* ===== verification/Ext2_Dir.thy ===== *)
theory Ext2_Dir
  imports Ext2_File
begin

text \<open>
  Directories of \<open>kernel/ext2.c\<close>. The functions \<open>ext2_readdir\<close>, \<open>ext2_lookup\<close>, \<open>ext2_add_entry\<close>,
  \<open>ext2_remove_entry\<close>, \<open>ext2_unlink\<close> and \<open>ext2_rmdir\<close> each write out the same pair of loops over
  the entries of a directory and differ in what they look for; here the loops are \<open>dir_walk\<close> and
  \<open>scan_entries\<close>, with the test of the inner loop as an argument.

  The outer loop does not end on a directory with a zero \<open>rec_len\<close>: the inner loop leaves at that
  entry without having moved past it, and the outer loop comes back to it. \<open>dir_walk\<close> is therefore a
  \<open>partial_function\<close>, with \<^const>\<open>None\<close> for a walk that does not return.
\<close>

subsection \<open>Walking a directory\<close>

datatype 's step = Hit | Next 's

function scan_entries ::
    "(u8 list \<Rightarrow> nat \<Rightarrow> ext2_dirent \<Rightarrow> 's \<Rightarrow> 's step option) \<Rightarrow> u8 list \<Rightarrow> nat \<Rightarrow> nat \<Rightarrow> u32 \<Rightarrow> 's \<Rightarrow>
     (ext2_dirent option \<times> nat \<times> u32 \<times> 's) option" where
  \<comment> \<open>\<open>while (block_off < block_size)\<close>; the result is the entry the loop stopped at, if it found one, with
      the final \<open>block_off\<close> and \<open>offset\<close>\<close>
  "scan_entries test buf bs block_off offset s =
     (if \<not> block_off < bs then Some (None, block_off, offset, s)
      else if block_off + 6 > EXT2_BUF_SIZE then None
      else
        (let de = decode_dirent (get_bytes block_off DIRENT_SIZE buf) in
         if de_rec_len de = 0 then Some (None, block_off, offset, s)
         else if block_off + DIRENT_SIZE > EXT2_BUF_SIZE then None
         else do {
           t \<leftarrow> test buf block_off de s;
           case t of
             Hit \<Rightarrow> Some (Some de, block_off, offset, s)
           | Next s' \<Rightarrow>
               scan_entries test buf bs (block_off + unat (de_rec_len de)) (offset + ucast (de_rec_len de)) s'
         }))"
  by pat_completeness auto

termination scan_entries
proof (relation "measure (\<lambda>(test, buf, bs, block_off, offset, s). bs - block_off)")
  fix buf :: "u8 list" and block_off bs :: nat and de
  assume "\<not> \<not> block_off < bs" and "de = decode_dirent (get_bytes block_off DIRENT_SIZE buf)"
    and "de_rec_len de \<noteq> 0"
  then have "0 < unat (de_rec_len de)" by (simp add: unat_gt_0)
  then show "((test, buf, bs, block_off + unat (de_rec_len de), offset + ucast (de_rec_len de), x2),
              test, buf, bs, block_off, offset, s)
      \<in> measure (\<lambda>(test, buf, bs, block_off, offset, s). bs - block_off)"
    for test :: "u8 list \<Rightarrow> nat \<Rightarrow> ext2_dirent \<Rightarrow> 's \<Rightarrow> 's step option" and offset s x2
    using \<open>\<not> \<not> block_off < bs\<close> by simp
qed simp

declare scan_entries.simps [simp del]

datatype 's walk = Walk_Error | Not_Found | Found (w_block: u32) (w_off: nat) (w_entry: ext2_dirent)
    (w_index: 's)

partial_function (option) dir_walk ::
    "u32 \<Rightarrow> ext2_inode \<Rightarrow> (u8 list \<Rightarrow> nat \<Rightarrow> ext2_dirent \<Rightarrow> 's \<Rightarrow> 's step option) \<Rightarrow> u32 \<Rightarrow> 's \<Rightarrow>
     'a ext2_state_scheme \<Rightarrow> ('s walk \<times> 'a ext2_state_scheme) option" where
  \<comment> \<open>\<open>while (offset < raw.size)\<close>; on a hit the block is left in \<open>ext2_buf\<close>\<close>
  [code]: "dir_walk bs raw test offset s st =
     (if \<not> offset < di_size raw then Some (Not_Found, st)
      else if bs = 0 then None
      else do {
        (phys_block, st) \<leftarrow> ext2_inode_bmap raw (offset div bs) st;
        if phys_block = 0 then dir_walk bs raw test (offset + (bs - offset mod bs)) s st
        else do {
          (r, st) \<leftarrow> ext2_read_block phys_block st;
          if r < 0 then Some (Walk_Error, st)
          else do {
            (hit, block_off, offset', s') \<leftarrow>
              scan_entries test (ext2_buf st) (unat bs) (unat (offset mod bs)) offset s;
            case hit of
              Some de \<Rightarrow> Some (Found phys_block block_off de s', st)
            | None \<Rightarrow>
                dir_walk bs raw test
                  (if block_off \<ge> unat bs then (offset div bs + 1) * bs else offset') s' st
          }
        }
      })"

subsection \<open>Finding a name\<close>

definition name_test :: "string \<Rightarrow> u8 list \<Rightarrow> nat \<Rightarrow> ext2_dirent \<Rightarrow> unit \<Rightarrow> unit step option" where
  "name_test name buf off de _ =
     (if de_inode de = 0 \<or> unat (de_name_len de) \<noteq> length name then Some (Next ())
      else do {
        must (off + DIRENT_SIZE + length name \<le> EXT2_BUF_SIZE);
        Some (if get_bytes (off + DIRENT_SIZE) (length name) buf = str_bytes name then Hit else Next ())
      })"

subsection \<open>Reading a directory\<close>

definition index_test :: "u8 list \<Rightarrow> nat \<Rightarrow> ext2_dirent \<Rightarrow> u32 \<Rightarrow> u32 step option" where
  \<comment> \<open>the entry number \<open>index\<close> of those in use\<close>
  "index_test buf off de index =
     Some (if de_inode de = 0 then Next index else if index = 0 then Hit else Next (index - 1))"

definition ext2_readdir :: "nat \<Rightarrow> u32 \<Rightarrow> 'a ext2_state_scheme \<Rightarrow> (vfs_dirent option \<times> 'a ext2_state_scheme) option" where
  \<comment> \<open>the inner \<open>None\<close> is the return value -1\<close>
  "ext2_readdir dir index st = do {
     data \<leftarrow> ext2_ino dir st;
     case data of
       None \<Rightarrow> Some (None, st)
     | Some inode_no \<Rightarrow> do {
         (raw, st) \<leftarrow> ext2_read_inode inode_no st;
         case raw of
           None \<Rightarrow> Some (None, st)
         | Some raw \<Rightarrow> do {
             (w, st) \<leftarrow> dir_walk (bsize st) raw index_test 0 index st;
             case w of
               Found phys_block off de _ \<Rightarrow> do {
                 let name_len = (if unat (de_name_len de) > 63 then 63 else unat (de_name_len de));
                 must (off + DIRENT_SIZE + name_len \<le> EXT2_BUF_SIZE);
                 Some (Some \<lparr>d_ino = de_inode de, d_name = get_bytes (off + DIRENT_SIZE) name_len (ext2_buf st),
                             d_type = (if de_file_type de = 2 then 4 else 8)\<rparr>, st)
               }
             | _ \<Rightarrow> Some (None, st)
           }
       }
   }"

subsection \<open>Looking up a name\<close>

definition set_data :: "nat \<Rightarrow> u32 \<Rightarrow> 'a ext2_state_scheme \<Rightarrow> 'a ext2_state_scheme" where
  \<comment> \<open>\<open>child_data->inode_no = inode_no\<close>\<close>
  "set_data d inode_no st = st\<lparr>ext2_data_pool := (ext2_data_pool st)(d := inode_no)\<rparr>"

definition fill_inode :: "u32 \<Rightarrow> ext2_inode \<Rightarrow> nat \<Rightarrow> vfs_inode \<Rightarrow> vfs_inode" where
  \<comment> \<open>the fields of the VFS inode for the on-disk inode \<open>raw\<close>\<close>
  "fill_inode inode_no raw d child =
     (let child = child\<lparr>i_no := inode_no, i_private := Ext2_Data d, i_size := di_size raw, i_mode := di_mode raw\<rparr>;
          fmt = di_mode raw AND S_IFMT
      in if fmt = S_IFDIR then child\<lparr>i_type := VFS_IDIR, i_ops := Some Ext2_Dir_Ops\<rparr>
         else if fmt = S_IFLNK then child\<lparr>i_type := VFS_ISYMLINK, i_ops := Some Ext2_Symlink_Ops\<rparr>
         else if fmt = S_IFCHR then
           child\<lparr>i_type := VFS_IFCHR, i_ops := Some Ext2_File_Ops, i_rdev := di_block raw ! 0\<rparr>
         else if fmt = S_IFBLK then
           child\<lparr>i_type := VFS_IFBLK, i_ops := Some Ext2_File_Ops, i_rdev := di_block raw ! 0\<rparr>
         else child\<lparr>i_type := VFS_IFILE, i_ops := Some Ext2_File_Ops\<rparr>)"

definition make_child :: "u32 \<Rightarrow> 'a ext2_state_scheme \<Rightarrow> (nat option \<times> 'a ext2_state_scheme) option" where
  \<comment> \<open>the VFS inode of a directory entry that was found\<close>
  "make_child found_inode st = do {
     (raw_child, st) \<leftarrow> ext2_read_inode found_inode st;
     case raw_child of
       None \<Rightarrow> Some (None, st)
     | Some raw_child \<Rightarrow>
         (case ext2_alloc_data st of
            (None, st) \<Rightarrow> Some (None, st)
          | (Some d, st) \<Rightarrow>
              (case vfs_alloc_inode st of
                 (None, st) \<Rightarrow> Some (None, st)
               | (Some child, st) \<Rightarrow>
                   Some (Some child, upd_inode child (fill_inode found_inode raw_child d) (set_data d found_inode st))))
   }"

definition ext2_lookup :: "nat \<Rightarrow> string \<Rightarrow> 'a ext2_state_scheme \<Rightarrow> (nat option \<times> 'a ext2_state_scheme) option" where
  "ext2_lookup dir name st = do {
     data \<leftarrow> ext2_ino dir st;
     case data of
       None \<Rightarrow> Some (None, st)
     | Some inode_no \<Rightarrow> do {
         (raw, st) \<leftarrow> ext2_read_inode inode_no st;
         case raw of
           None \<Rightarrow> Some (None, st)
         | Some raw \<Rightarrow> do {
             (w, st) \<leftarrow> dir_walk (bsize st) raw (name_test name) 0 () st;
             case w of
               Found phys_block off de _ \<Rightarrow> make_child (de_inode de) st
             | _ \<Rightarrow> Some (None, st)
           }
       }
   }"

subsection \<open>Adding an entry\<close>

definition need_rec_len :: "string \<Rightarrow> nat" where
  "need_rec_len name = (let n = (DIRENT_SIZE + length name + 3) div 4 * 4 in if n < 12 then 12 else n)"

definition back_entry :: "nat \<Rightarrow> 'a ext2_state_scheme \<Rightarrow> (bool \<times> 'a ext2_state_scheme) option" where
  \<comment> \<open>allocate an inode on disk for an entry that has none; \<open>False\<close> is the early \<open>return -1\<close>\<close>
  "back_entry e st =
     (if i_private (inode st e) \<noteq> No_Data then Some (True, st)
      else do {
        (new_inode_no, st) \<leftarrow> ext2_alloc_inode st;
        if new_inode_no = 0 then Some (False, st)
        else do {
          (r, st) \<leftarrow> ext2_write_inode new_inode_no (zero_inode\<lparr>di_mode := i_mode (inode st e), di_links := 1\<rparr>) st;
          if r < 0 then do { st \<leftarrow> ext2_free_inode new_inode_no st; Some (False, st) }
          else
            (case ext2_alloc_data st of
               (None, st) \<Rightarrow> do { st \<leftarrow> ext2_free_inode new_inode_no st; Some (False, st) }
             | (Some d, st) \<Rightarrow>
                 Some (True, upd_inode e (\<lambda>i. i\<lparr>i_private := Ext2_Data d, i_no := new_inode_no,
                                               i_ops := Some Ext2_File_Ops\<rparr>)
                               (set_data d new_inode_no st)))
        }
      })"

definition used_len :: "ext2_dirent \<Rightarrow> u32" where
  "used_len de = (8 + ucast (de_name_len de) + 3) AND NOT 3"

definition slack_of :: "ext2_dirent \<Rightarrow> u32" where
  \<comment> \<open>unsigned, so an entry shorter than its name has a huge one\<close>
  "slack_of de = ucast (de_rec_len de) - used_len de"

definition add_test :: "nat \<Rightarrow> u8 list \<Rightarrow> nat \<Rightarrow> ext2_dirent \<Rightarrow> unit \<Rightarrow> unit step option" where
  \<comment> \<open>the two kinds of entry with room for a new one\<close>
  "add_test need buf off de _ =
     Some (if de_inode de = 0 \<and> slack_of de \<ge> of_nat need then Hit
           else if unat (de_rec_len de) > need \<and> de_inode de \<noteq> 0
                   \<and> \<not> sint (slack_of de) < int need then Hit
           else Next ())"

definition fill_free_entry ::
    "u32 \<Rightarrow> string \<Rightarrow> nat \<Rightarrow> nat \<Rightarrow> ext2_dirent \<Rightarrow> 'a ext2_state_scheme \<Rightarrow> 'a ext2_state_scheme option" where
  "fill_free_entry entry_inode name need off de st = do {
     let de' = de\<lparr>de_inode := entry_inode, de_name_len := of_nat (length name), de_file_type := 1\<rparr>;
     st \<leftarrow> set_buf off (encode_dirent de') st;
     st \<leftarrow> set_buf (off + DIRENT_SIZE) (str_bytes name) st;
     if slack_of de > of_nat need then do {
       st \<leftarrow> set_buf (off + need) (le32 0 @ le16 (de_rec_len de - of_nat need) @ [0]) st;
       set_buf off (encode_dirent (de'\<lparr>de_rec_len := of_nat need\<rparr>)) st
     }
     else Some st
   }"

definition split_entry ::
    "u32 \<Rightarrow> string \<Rightarrow> nat \<Rightarrow> ext2_dirent \<Rightarrow> 'a ext2_state_scheme \<Rightarrow> 'a ext2_state_scheme option" where
  "split_entry entry_inode name off de st = do {
     let used = used_len de;
     st \<leftarrow> set_buf off (encode_dirent (de\<lparr>de_rec_len := ucast used\<rparr>)) st;
     st \<leftarrow> set_buf (off + unat used)
            (encode_dirent \<lparr>de_inode = entry_inode, de_rec_len = de_rec_len de - ucast used,
                            de_name_len = of_nat (length name), de_file_type = 1\<rparr>) st;
     set_buf (off + unat used + DIRENT_SIZE) (str_bytes name) st
   }"

definition grow_dir :: "u32 \<Rightarrow> u32 \<Rightarrow> ext2_inode \<Rightarrow> ext2_inode" where
  "grow_dir bs n raw =
     (let sz = di_size raw + n
      in raw\<lparr>di_size := sz, di_blocks := block_count_of sz bs * (bs div 512)\<rparr>)"

definition insert_entry ::
    "nat \<Rightarrow> u32 \<Rightarrow> ext2_inode \<Rightarrow> u32 \<Rightarrow> string \<Rightarrow> u32 \<Rightarrow> nat \<Rightarrow> ext2_dirent \<Rightarrow> 'a ext2_state_scheme \<Rightarrow>
     (int \<times> 'a ext2_state_scheme) option" where
  \<comment> \<open>the walk stopped at \<open>de\<close>, which has room\<close>
  "insert_entry dir dir_ino raw entry_inode name phys_block off de st = do {
     let need = need_rec_len name;
     let raw = grow_dir (bsize st) (of_nat need) raw;
     if de_inode de = 0 then do {
       st \<leftarrow> fill_free_entry entry_inode name need off de st;
       let st = set_i_size dir (di_size raw) st;
       (r, st) \<leftarrow> write_buf phys_block st;
       if r < 0 then Some (-1, st) else ext2_write_inode dir_ino raw st
     }
     else do {
       st \<leftarrow> split_entry entry_inode name off de st;
       (r, st) \<leftarrow> write_buf phys_block st;
       if r < 0 then Some (r, st) else ext2_write_inode dir_ino raw (set_i_size dir (di_size raw) st)
     }
   }"

definition new_dir_block ::
    "nat \<Rightarrow> u32 \<Rightarrow> ext2_inode \<Rightarrow> u32 \<Rightarrow> string \<Rightarrow> 'a ext2_state_scheme \<Rightarrow> (int \<times> 'a ext2_state_scheme) option" where
  \<comment> \<open>no entry has room: allocate a block for the directory\<close>
  "new_dir_block dir dir_ino raw entry_inode name st = do {
     let bs = bsize st;
     must (bs \<noteq> 0);
     let block_idx = di_size raw div bs;
     (phys_block, st) \<leftarrow> ext2_alloc_block st;
     if phys_block = 0 then Some (-1, st)
     else do {
       (r, raw, st) \<leftarrow> ext2_set_bmap raw block_idx phys_block st;
       if r < 0 then do { st \<leftarrow> ext2_free_block phys_block st; Some (-1, st) }
       else do {
         st \<leftarrow> set_buf 0 (replicate (unat bs) 0) st;
         st \<leftarrow> set_buf 0 (encode_dirent \<lparr>de_inode = entry_inode, de_rec_len = ucast bs,
                                         de_name_len = of_nat (length name), de_file_type = 1\<rparr>) st;
         st \<leftarrow> set_buf DIRENT_SIZE (str_bytes name) st;
         (r, st) \<leftarrow> write_buf phys_block st;
         if r < 0 then Some (-1, st)
         else do {
           let raw = grow_dir bs bs raw;
           let st = set_i_size dir (di_size raw) st;
           (_, st) \<leftarrow> ext2_write_inode dir_ino raw st;
           Some (0, st)
         }
       }
     }
   }"

definition ext2_add_entry ::
    "nat \<Rightarrow> string \<Rightarrow> nat \<Rightarrow> 'a ext2_state_scheme \<Rightarrow> (int \<times> 'a ext2_state_scheme) option" where
  "ext2_add_entry dir name e st = do {
     data \<leftarrow> ext2_ino dir st;
     case data of
       None \<Rightarrow> Some (-1, st)
     | Some dir_ino \<Rightarrow> do {
         (raw, st) \<leftarrow> ext2_read_inode dir_ino st;
         case raw of
           None \<Rightarrow> Some (-1, st)
         | Some raw \<Rightarrow> do {
             (ok, st) \<leftarrow> back_entry e st;
             if \<not> ok then Some (-1, st)
             else do {
               ed \<leftarrow> ext2_ino e st;
               entry_inode \<leftarrow> ed;
               (w, st) \<leftarrow> dir_walk (bsize st) raw (add_test (need_rec_len name)) 0 () st;
               case w of
                 Walk_Error \<Rightarrow> Some (-1, st)
               | Found phys_block off de _ \<Rightarrow>
                   insert_entry dir dir_ino raw entry_inode name phys_block off de st
               | Not_Found \<Rightarrow> new_dir_block dir dir_ino raw entry_inode name st
             }
           }
       }
   }"

subsection \<open>Removing an entry\<close>

definition ext2_remove_entry :: "nat \<Rightarrow> string \<Rightarrow> 'a ext2_state_scheme \<Rightarrow> (int \<times> 'a ext2_state_scheme) option" where
  "ext2_remove_entry dir name st = do {
     data \<leftarrow> ext2_ino dir st;
     case data of
       None \<Rightarrow> Some (-1, st)
     | Some inode_no \<Rightarrow> do {
         (raw, st) \<leftarrow> ext2_read_inode inode_no st;
         case raw of
           None \<Rightarrow> Some (-1, st)
         | Some raw \<Rightarrow> do {
             (w, st) \<leftarrow> dir_walk (bsize st) raw (name_test name) 0 () st;
             case w of
               Found phys_block off de _ \<Rightarrow> do {
                 st \<leftarrow> set_buf off (le32 0) st;
                 write_buf phys_block st
               }
             | _ \<Rightarrow> Some (-1, st)
           }
       }
   }"

end
