(* ===== verification/Ext2_Store.thy ===== *)
theory Ext2_Store
  imports Ext2_Dir
begin

text \<open>
  What the ext2 driver sees of a healthy volume: an array of blocks. Under \<open>vol_ok\<close> (a sane block
  size, a device whose sectors all answer) a block transfer reads or replaces one element of
  \<open>blk st\<close> and fails never; the lemmas about the driver's operations rest on this view.
\<close>

definition NB :: "'a ext2_state_scheme \<Rightarrow> nat" where
  "NB st = unat (sb_blocks_count (sb st))"

definition spb :: "'a ext2_state_scheme \<Rightarrow> nat" where
  "spb st = unat (bsize st div 512)"

abbreviation nbs :: "'a ext2_state_scheme \<Rightarrow> nat" where
  "nbs st \<equiv> unat (bsize st)"

definition blk :: "'a ext2_state_scheme \<Rightarrow> u32 \<Rightarrow> u8 list" where
  "blk st n = snd (block_read (ext2_disks st) (fs_dev (fs st)) (n * (bsize st div 512)) (bsize st div 512))"

definition vol_dev :: "'a ext2_state_scheme \<Rightarrow> block_device" where
  "vol_dev st = the (fs_dev (fs st))"

definition vol_ok :: "'a ext2_state_scheme \<Rightarrow> bool" where
  "vol_ok st \<longleftrightarrow>
     fs_dev (fs st) \<noteq> None \<and> bd_ops (vol_dev st) \<noteq> No_Ops \<and>
     bsize st \<in> {1024, 2048, 4096} \<and> length (ext2_buf st) = EXT2_BUF_SIZE \<and> wf_sb (sb st) \<and>
     disks_wf (ext2_disks st) \<and> dev_off (vol_dev st) + NB st * spb st \<le> 2 ^ 28 \<and>
     (\<forall>l. unat l < NB st * spb st \<longrightarrow> read_sector (ext2_disks st) (vol_dev st) l \<noteq> None)"

lemma vol_okD:
  assumes "vol_ok st"
  shows "fs_dev (fs st) = Some (vol_dev st)" and "bd_ops (vol_dev st) \<noteq> No_Ops"
    and "length (ext2_buf st) = EXT2_BUF_SIZE" and "disks_wf (ext2_disks st)" and "wf_sb (sb st)"
    and "bsize st \<in> {1024, 2048, 4096}"
  using assms by (auto simp: vol_ok_def vol_dev_def)

lemma vol_ok_size:
  assumes "vol_ok st"
  shows "nbs st = 512 * spb st" and "nbs st \<le> EXT2_BUF_SIZE" and "1024 \<le> nbs st" and "0 < spb st"
    and "bsize st \<noteq> 0" and "SB_SIZE \<le> nbs st" and "spb st \<le> 8"
  using vol_okD(6) [OF assms]
  by (auto simp: spb_def EXT2_BUF_SIZE_def SB_SIZE_def)

lemma unat_lba:
  assumes "vol_ok st" and "unat n < NB st"
  shows "unat (n * (bsize st div 512)) = unat n * spb st"
    and "unat n * spb st + spb st \<le> NB st * spb st"
proof -
  have 1: "unat n * spb st + spb st \<le> NB st * spb st"
    using assms(2) by (metis Suc_leI add.commute mult_Suc mult_le_mono1)
  have "NB st * spb st \<le> 2 ^ 28" using assms(1) by (simp add: vol_ok_def)
  then have "unat n * spb st < 2 ^ 32" using 1 by simp
  then show "unat (n * (bsize st div 512)) = unat n * spb st"
    by (simp add: unat_word_ariths spb_def)
  show "unat n * spb st + spb st \<le> NB st * spb st" by (rule 1)
qed

lemma unat_lba_plus:
  assumes "vol_ok st" and "unat n < NB st" and "i < spb st"
  shows "unat (n * (bsize st div 512) + of_nat i) = unat n * spb st + i"
proof -
  have "i < 2 ^ 32" using assms(3) vol_ok_size(7) [OF assms(1)] by simp
  then have i: "unat (of_nat i :: u32) = i" by (simp add: unat_of_nat)
  have "unat n * spb st + i < NB st * spb st" using unat_lba(2) [OF assms(1,2)] assms(3) by simp
  moreover have "NB st * spb st \<le> 2 ^ 28" using assms(1) by (simp add: vol_ok_def)
  ultimately have "unat n * spb st + i < 2 ^ 32" by simp
  then show ?thesis using unat_lba(1) [OF assms(1,2)] i by (simp add: unat_word_ariths)
qed

lemma block_run_ok:
  assumes "vol_ok st" and "unat n < NB st"
  shows "dev.run_ok (vol_dev st) (n * (bsize st div 512)) (spb st)"
proof -
  have lt: "unat n * spb st + spb st \<le> NB st * spb st" by (rule unat_lba(2) [OF assms])
  have le: "dev_off (vol_dev st) + NB st * spb st \<le> 2 ^ 28" using assms(1) by (simp add: vol_ok_def)
  have "dev_range (vol_dev st) (n * (bsize st div 512) + of_nat i)" if "i < spb st" for i
    using lt le that by (simp add: dev_range_def unat_lba_plus [OF assms that])
  moreover have "unat (n * (bsize st div 512)) + spb st \<le> 2 ^ 32" using lt le unat_lba(1) [OF assms] by simp
  ultimately show ?thesis by simp
qed

lemma rd_many_total:
  assumes "\<And>i. i < n \<Longrightarrow> rd (l + of_nat i) \<noteq> None"
    and "\<And>l. rd l = read_sector ds d l"
  shows "dev.rd_many d ds l n \<noteq> None"
  using assms(1)
proof (induction n arbitrary: l)
  case (Suc n)
  have "rd l \<noteq> None" using Suc.prems [of 0] by simp
  moreover have "dev.rd_many d ds (l + 1) n \<noteq> None"
    using Suc.prems [of "Suc i" for i] by (intro Suc.IH) (auto simp: add_ac)
  ultimately show ?case using assms(2) by (auto split: option.split)
qed simp

lemma blk_rd_many:
  assumes "vol_ok st" and "unat n < NB st"
  shows "dev.rd_many (vol_dev st) (ext2_disks st) (n * (bsize st div 512)) (spb st) = Some (blk st n)"
    and "block_read (ext2_disks st) (fs_dev (fs st)) (n * (bsize st div 512)) (bsize st div 512) = (0, blk st n)"
    and "length (blk st n) = nbs st"
proof -
  let ?l = "n * (bsize st div 512)"
  have "read_sector (ext2_disks st) (vol_dev st) (?l + of_nat i) \<noteq> None" if "i < spb st" for i
    using assms(1) that unat_lba_plus [OF assms that] unat_lba(2) [OF assms] by (simp add: vol_ok_def)
  then obtain bs where bs: "dev.rd_many (vol_dev st) (ext2_disks st) ?l (spb st) = Some bs"
    using rd_many_total [of "spb st" "read_sector (ext2_disks st) (vol_dev st)" ?l "ext2_disks st" "vol_dev st"]
    by auto
  have "block_read (ext2_disks st) (fs_dev (fs st)) ?l (bsize st div 512) = (0, bs)"
    using read_sectors_many [where dev = "vol_dev st" and ds = "ext2_disks st" and lba = ?l and n = "spb st"] bs
      vol_okD(1,2) [OF assms(1)] by (simp add: block_read_def spb_def)
  moreover from this have "blk st n = bs" by (simp add: blk_def)
  ultimately show "dev.rd_many (vol_dev st) (ext2_disks st) ?l (spb st) = Some (blk st n)"
    and "block_read (ext2_disks st) (fs_dev (fs st)) ?l (bsize st div 512) = (0, blk st n)"
    and "length (blk st n) = nbs st"
    using bs dev.length_rd_many [OF vol_okD(4) [OF assms(1)] bs] vol_ok_size(1) [OF assms(1)] by simp_all
qed

subsection \<open>Transfers\<close>

definition load :: "u32 \<Rightarrow> 'a ext2_state_scheme \<Rightarrow> 'a ext2_state_scheme" where
  \<comment> \<open>the state after a block was read\<close>
  "load n st = st\<lparr>ext2_buf := put_bytes 0 (blk st n) (ext2_buf st)\<rparr>"

lemma read_block_ok:
  assumes "vol_ok st" and "unat n < NB st"
  shows "ext2_read_block n st = Some (0, load n st)"
  using blk_rd_many(2,3) [OF assms] vol_ok_size(2) [OF assms(1)]
  by (simp add: ext2_read_block_def load_def Let_def)

lemma blk_buf_upd [simp]: "blk (st\<lparr>ext2_buf := b\<rparr>) n = blk st n"
  by (simp add: blk_def)

lemma vol_ok_buf: "vol_ok st \<Longrightarrow> length b = EXT2_BUF_SIZE \<Longrightarrow> vol_ok (st\<lparr>ext2_buf := b\<rparr>)"
  by (simp add: vol_ok_def vol_dev_def NB_def spb_def)

lemma length_load:
  assumes "vol_ok st" and "unat n < NB st"
  shows "length (ext2_buf (load n st)) = EXT2_BUF_SIZE"
  using blk_rd_many(3) [OF assms] vol_ok_size(2) [OF assms(1)] vol_okD(3) [OF assms(1)]
  by (simp add: load_def length_put_bytes)

lemma vol_ok_load: "vol_ok st \<Longrightarrow> unat n < NB st \<Longrightarrow> vol_ok (load n st)"
  using length_load [of st n] by (simp add: load_def vol_ok_buf)

lemma load_simps [simp]:
  "fs (load n st) = fs st" "ext2_disks (load n st) = ext2_disks st" "blk (load n st) = blk st"
  "NB (load n st) = NB st" "spb (load n st) = spb st" "vfs_inodes (load n st) = vfs_inodes st"
  "ext2_data_pool (load n st) = ext2_data_pool st"
  "ext2_data_pool_next (load n st) = ext2_data_pool_next st"
  by (simp_all add: load_def NB_def spb_def fun_eq_iff)

lemma take_load:
  assumes "vol_ok st" and "unat n < NB st"
  shows "take (nbs st) (ext2_buf (load n st)) = blk st n"
  using blk_rd_many(3) [OF assms] by (simp add: load_def put_bytes_def)

lemma get_load:
  assumes "vol_ok st" and "unat n < NB st" and "off + k \<le> nbs st"
  shows "get_bytes off k (ext2_buf (load n st)) = get_bytes off k (blk st n)"
  using blk_rd_many(3) [OF assms(1,2)] assms(3)
  by (simp add: load_def put_bytes_def get_bytes_def)

lemma write_sectors_take: "write_sectors d l k data ds = write_sectors d l k (take (512 * k) data) ds"
proof (induction k arbitrary: l data ds)
  case (Suc k)
  have "take 512 (take (512 * Suc k) data) = take 512 data"
    and "drop 512 (take (512 * Suc k) data) = take (512 * k) (drop 512 data)"
    by (simp_all add: min_def drop_take)
  then show ?case using Suc.IH [of "l + 1" "drop 512 data"] by (simp add: BLOCK_SECTOR_SIZE_def split: option.split)
qed simp

lemma rd_many_each: "dev.rd_many d ds l k = Some bs \<Longrightarrow> i < k \<Longrightarrow> read_sector ds d (l + of_nat i) \<noteq> None"
proof (induction k arbitrary: l bs i)
  case (Suc k)
  then show ?case
    by (cases i) (auto split: option.splits simp: add_ac dest!: Suc.IH [where i = "i - 1"])
qed simp

lemma written_run_readable:
  assumes "vol_ok st" and "unat n < NB st" and "length data = 512 * spb st"
    and "dev.wr_many (vol_dev st) (n * (bsize st div 512)) (spb st) data (ext2_disks st) = Some ds"
    and "unat l < NB st * spb st"
  shows "read_sector ds (vol_dev st) l \<noteq> None"
proof -
  let ?l = "n * (bsize st div 512)"
  note run = block_run_ok [OF assms(1,2)]
  have dr: "dev_range (vol_dev st) l" using assms(1,5) by (auto simp: dev_range_def vol_ok_def)
  have old: "read_sector (ext2_disks st) (vol_dev st) l \<noteq> None" using assms(1,5) by (simp add: vol_ok_def)
  show ?thesis
  proof (cases "unat l < unat ?l \<or> unat ?l + spb st \<le> unat l")
    case True
    then show ?thesis using dev.rd_wr_many_outside [OF run assms(4) dr] old by simp
  next
    case False
    then obtain i where i: "i < spb st" "unat l = unat ?l + i"
      by (metis add_less_cancel_left le_add_diff_inverse not_le)
    then have "l = ?l + of_nat i"
      using unat_lba_plus [OF assms(1,2) i(1)] unat_lba(1) [OF assms(1,2)] by (simp add: word_unat_eq_iff)
    then show ?thesis using rd_many_each [OF dev.rd_many_wr_many [OF run assms(3,4)] i(1)] by blast
  qed
qed

lemma blk_after_write:
  assumes "vol_ok st" and "unat n < NB st" and "length data = 512 * spb st"
    and "dev.wr_many (vol_dev st) (n * (bsize st div 512)) (spb st) data (ext2_disks st) = Some ds"
    and "vol_ok (st\<lparr>ext2_disks := ds\<rparr>)" and "unat m < NB st"
  shows "blk (st\<lparr>ext2_disks := ds\<rparr>) m = (if m = n then data else blk st m)"
proof -
  let ?d = "vol_dev st" and ?l = "\<lambda>n. n * (bsize st div 512)" and ?k = "spb st"
  note run = block_run_ok [OF assms(1,2)]
  have m': "unat m < NB (st\<lparr>ext2_disks := ds\<rparr>)" using assms(6) by (simp add: NB_def)
  have new: "dev.rd_many ?d ds (?l m) ?k = Some (blk (st\<lparr>ext2_disks := ds\<rparr>) m)"
    using blk_rd_many(1) [OF assms(5) m'] by (simp add: vol_dev_def spb_def)
  show ?thesis
  proof (cases "m = n")
    case True
    then show ?thesis using new dev.rd_many_wr_many [OF run assms(3,4)] by simp
  next
    case False
    then have "unat m < unat n \<or> unat n < unat m" by (metis linorder_neqE_nat word_unat_eq_iff)
    then have "unat m * ?k + ?k \<le> unat n * ?k \<or> unat n * ?k + ?k \<le> unat m * ?k"
      by (metis Suc_leI add.commute mult_Suc mult_le_mono1)
    then have "dev.rd_many ?d ds (?l m) ?k = dev.rd_many ?d (ext2_disks st) (?l m) ?k"
      using dev.rd_many_wr_many_outside [OF run assms(4) block_run_ok [OF assms(1,6)]]
        unat_lba(1) [OF assms(1,2)] unat_lba(1) [OF assms(1,6)] by simp
    then show ?thesis using new blk_rd_many(1) [OF assms(1,6)] False by simp
  qed
qed

lemma write_block_ok:
  assumes "vol_ok st" and "unat n < NB st" and "nbs st \<le> length data"
  obtains ds where "ext2_write_block n data st = Some (0, st\<lparr>ext2_disks := ds\<rparr>)"
    and "vol_ok (st\<lparr>ext2_disks := ds\<rparr>)"
    and "\<And>m. unat m < NB st \<Longrightarrow>
           blk (st\<lparr>ext2_disks := ds\<rparr>) m = (if m = n then take (nbs st) data else blk st m)"
proof -
  let ?d = "vol_dev st" and ?l = "n * (bsize st div 512)" and ?k = "spb st" and ?data = "take (nbs st) data"
  have ld: "length ?data = 512 * ?k" using assms(3) vol_ok_size(1) [OF assms(1)] by simp
  have "dev.wr_many ?d ?l ?k ?data (ext2_disks st) \<noteq> None"
    using dev.wr_many_total [OF block_run_ok [OF assms(1,2)]] blk_rd_many(1) [OF assms(1,2)] by simp
  then obtain ds where wr: "dev.wr_many ?d ?l ?k ?data (ext2_disks st) = Some ds" by blast
  have "write_sectors ?d ?l ?k data (ext2_disks st) = (0, ds)"
    using write_sectors_many [where dev = ?d and lba = ?l and n = ?k and data = ?data and ds = "ext2_disks st"]
      wr write_sectors_take [where k = ?k and data = data] vol_ok_size(1) [OF assms(1)] by simp
  then have "block_write (fs_dev (fs st)) ?l (bsize st div 512) data (ext2_disks st) = (0, ds)"
    using vol_okD(1,2) [OF assms(1)] by (simp add: block_write_def spb_def)
  then have wb: "ext2_write_block n data st = Some (0, st\<lparr>ext2_disks := ds\<rparr>)"
    using assms(3) vol_ok_size(1) [OF assms(1)] by (simp add: ext2_write_block_def Let_def spb_def)
  have "disks_wf ds" by (rule dev.wf_wr_many [OF vol_okD(4) [OF assms(1)] ld wr])
  then have vol: "vol_ok (st\<lparr>ext2_disks := ds\<rparr>)"
    using assms(1) written_run_readable [OF assms(1,2) ld wr] by (simp add: vol_ok_def vol_dev_def NB_def spb_def)
  show thesis using that [OF wb vol] blk_after_write [OF assms(1,2) ld wr vol] by blast
qed

end
