(* ===== verification/Ext2_Table.thy ===== *)
theory Ext2_Table
  imports Ext2_Store
begin

text \<open>
  The group descriptors and the inode table of a healthy volume: where an inode is stored, and
  that \<open>ext2_read_inode\<close> returns what \<open>ext2_write_inode\<close> stored.
\<close>

subsection \<open>Storing a block\<close>

definition stored :: "u32 \<Rightarrow> u8 list \<Rightarrow> 'a ext2_state_scheme \<Rightarrow> 'a ext2_state_scheme \<Rightarrow> bool" where
  \<comment> \<open>\<open>st'\<close> differs from \<open>st\<close> in block \<open>n\<close> only, up to the contents of the buffer\<close>
  "stored n data st st' \<longleftrightarrow>
     vol_ok st' \<and> (\<exists>ds b. st' = st\<lparr>ext2_disks := ds, ext2_buf := b\<rparr>) \<and>
     (\<forall>m. unat m < NB st \<longrightarrow> blk st' m = (if m = n then data else blk st m))"

lemma storedD:
  assumes "stored n data st st'"
  shows "vol_ok st'" and "fs st' = fs st" and "NB st' = NB st" and "vfs_inodes st' = vfs_inodes st"
    and "ext2_data_pool st' = ext2_data_pool st" and "ext2_data_pool_next st' = ext2_data_pool_next st"
    and "unat m < NB st \<Longrightarrow> blk st' m = (if m = n then data else blk st m)"
    and "vfs_next_ino st' = vfs_next_ino st"
  using assms by (auto simp: stored_def NB_def)

lemma write_buf_stored:
  assumes "vol_ok st" and "unat n < NB st"
  obtains st' where "write_buf n st = Some (0, st')"
    and "stored n (take (nbs st) (ext2_buf st)) st st'" and "ext2_buf st' = ext2_buf st"
proof -
  have "nbs st \<le> length (ext2_buf st)" using vol_ok_size(2) [OF assms(1)] vol_okD(3) [OF assms(1)] by simp
  from write_block_ok [OF assms this]
  obtain ds where ds: "ext2_write_block n (ext2_buf st) st = Some (0, st\<lparr>ext2_disks := ds\<rparr>)"
    "vol_ok (st\<lparr>ext2_disks := ds\<rparr>)"
    "\<And>m. unat m < NB st \<Longrightarrow>
       blk (st\<lparr>ext2_disks := ds\<rparr>) m = (if m = n then take (nbs st) (ext2_buf st) else blk st m)" by blast
  have "\<exists>ds' b. st\<lparr>ext2_disks := ds\<rparr> = st\<lparr>ext2_disks := ds', ext2_buf := b\<rparr>"
    by (rule exI [of _ ds], rule exI [of _ "ext2_buf st"]) simp
  then have "stored n (take (nbs st) (ext2_buf st)) st (st\<lparr>ext2_disks := ds\<rparr>)"
    unfolding stored_def using ds(2,3) by blast
  then show thesis using that [of "st\<lparr>ext2_disks := ds\<rparr>"] ds(1) by (simp add: write_buf_def)
qed

lemma stored_buf:
  assumes "stored n data (st\<lparr>ext2_buf := b0\<rparr>) st'"
  shows "stored n data st st'"
proof -
  obtain ds b where st': "st' = st\<lparr>ext2_buf := b0, ext2_disks := ds, ext2_buf := b\<rparr>"
    using assms unfolding stored_def by blast
  note st = assms [unfolded stored_def]
  show ?thesis
    unfolding stored_def
  proof (intro conjI exI)
    show "vol_ok st'" by (rule conjunct1 [OF st])
    show "st' = st\<lparr>ext2_disks := ds, ext2_buf := b\<rparr>" unfolding st' by simp
    show "\<forall>m. unat m < NB st \<longrightarrow> blk st' m = (if m = n then data else blk st m)"
      using conjunct2 [OF conjunct2 [OF st]] by (simp add: NB_def)
  qed
qed

lemma stored_load: "stored n data (load m st) st' \<Longrightarrow> stored n data st st'"
  unfolding load_def by (rule stored_buf)

lemma take_put_bytes:
  "off + length bs \<le> n \<Longrightarrow> n \<le> length buf \<Longrightarrow> take n (put_bytes off bs buf) = put_bytes off bs (take n buf)"
  by (intro nth_equalityI) (simp_all add: buf_simps)

lemma set_buf_ok: "off + length bs \<le> EXT2_BUF_SIZE \<Longrightarrow> set_buf off bs st = Some (st\<lparr>ext2_buf := put_bytes off bs (ext2_buf st)\<rparr>)"
  by (simp add: set_buf_def)

text \<open>The read-modify-write that every update of a metadata block is.\<close>

lemma modify_block:
  assumes "vol_ok st" and "unat n < NB st" and "off + length bs \<le> nbs st"
  obtains st' where
    "set_buf off bs (load n st) = Some (st\<lparr>ext2_buf := put_bytes off bs (ext2_buf (load n st))\<rparr>)"
    and "write_buf n (st\<lparr>ext2_buf := put_bytes off bs (ext2_buf (load n st))\<rparr>) = Some (0, st')"
    and "stored n (put_bytes off bs (blk st n)) st st'"
proof -
  let ?b = "put_bytes off bs (ext2_buf (load n st))" and ?st1 = "st\<lparr>ext2_buf := put_bytes off bs (ext2_buf (load n st))\<rparr>"
  have lb: "length (ext2_buf (load n st)) = EXT2_BUF_SIZE" by (rule length_load [OF assms(1,2)])
  have off: "off + length bs \<le> EXT2_BUF_SIZE" using assms(3) vol_ok_size(2) [OF assms(1)] by simp
  have sb: "set_buf off bs (load n st) = Some ?st1" using off by (simp add: set_buf_ok load_def)
  have l1: "length ?b = EXT2_BUF_SIZE" using lb off by (simp add: length_put_bytes)
  have vol1: "vol_ok ?st1" using vol_ok_buf [OF assms(1) l1] .
  have n1: "unat n < NB ?st1" using assms(2) by (simp add: NB_def)
  obtain st' where w: "write_buf n ?st1 = Some (0, st')" and s: "stored n (take (nbs ?st1) (ext2_buf ?st1)) ?st1 st'"
    using write_buf_stored [OF vol1 n1] by blast
  have "take (nbs st) ?b = put_bytes off bs (blk st n)"
    using take_put_bytes [OF assms(3)] take_load [OF assms(1,2)] lb vol_ok_size(2) [OF assms(1)] by simp
  then have "stored n (put_bytes off bs (blk st n)) st st'" using stored_buf [OF s] by simp
  then show thesis using that sb w by blast
qed

subsection \<open>Group descriptors\<close>

definition desc_block :: "'a ext2_state_scheme \<Rightarrow> u32 \<Rightarrow> u32" where
  "desc_block st g = bgdesc_block (fs st) + (g * 32) div bsize st"

definition desc_off :: "'a ext2_state_scheme \<Rightarrow> u32 \<Rightarrow> nat" where
  "desc_off st g = unat ((g * 32) mod bsize st)"

definition bgd :: "'a ext2_state_scheme \<Rightarrow> u32 \<Rightarrow> ext2_bgdesc" where
  "bgd st g = decode_bgdesc (get_bytes (desc_off st g) BGDESC_SIZE (blk st (desc_block st g)))"

lemma desc_off_fits:
  assumes "vol_ok st"
  shows "desc_off st g + BGDESC_SIZE \<le> nbs st"
proof -
  have "32 dvd unat (g * 32)"
  proof -
    have "unat (g * 32) = (unat g * 32) mod 2 ^ 32" by (simp add: unat_word_ariths)
    moreover have "(32 :: nat) dvd 2 ^ 32" by (simp add: power_eq_if)
    ultimately show ?thesis by (metis dvd_mod dvd_triv_right)
  qed
  moreover have "32 dvd nbs st" and "32 \<le> nbs st" using vol_okD(6) [OF assms] by auto
  ultimately have "32 dvd desc_off st g" and "desc_off st g < nbs st"
    using vol_ok_size(3) [OF assms] by (auto simp: desc_off_def unat_mod intro: dvd_mod)
  with \<open>32 dvd nbs st\<close> show ?thesis unfolding BGDESC_SIZE_def by (auto elim!: dvdE)
qed

lemma bgdesc_pos_ok: "vol_ok st \<Longrightarrow> bgdesc_pos g st = Some (desc_block st g, desc_off st g)"
  using vol_ok_size(5) [of st] by (simp add: bgdesc_pos_def desc_block_def desc_off_def Let_def)

lemma read_bgdesc_ok:
  assumes "vol_ok st" and "unat (desc_block st g) < NB st"
  shows "ext2_read_bgdesc g st = Some (Some (bgd st g), load (desc_block st g) st)"
  using bgdesc_pos_ok [OF assms(1)] read_block_ok [OF assms] desc_off_fits [OF assms(1), of g]
    vol_ok_size(2) [OF assms(1)] get_load [OF assms desc_off_fits [OF assms(1)]]
  by (simp add: ext2_read_bgdesc_def bgd_def must_def)

lemma write_bgdesc_ok:
  assumes "vol_ok st" and "unat (desc_block st g) < NB st" and "wf_bgdesc d"
  obtains st' where "ext2_write_bgdesc g d st = Some (0, st')"
    and "stored (desc_block st g) (put_bytes (desc_off st g) (encode_bgdesc d) (blk st (desc_block st g))) st st'"
proof -
  have "desc_off st g + length (encode_bgdesc d) \<le> nbs st"
    using desc_off_fits [OF assms(1), of g] bgdesc.length_encode [OF assms(3)] by simp
  from modify_block [OF assms(1,2) this]
  obtain st' where m: "set_buf (desc_off st g) (encode_bgdesc d) (load (desc_block st g) st)
        = Some (st\<lparr>ext2_buf := put_bytes (desc_off st g) (encode_bgdesc d) (ext2_buf (load (desc_block st g) st))\<rparr>)"
      "write_buf (desc_block st g)
         (st\<lparr>ext2_buf := put_bytes (desc_off st g) (encode_bgdesc d) (ext2_buf (load (desc_block st g) st))\<rparr>)
        = Some (0, st')"
      "stored (desc_block st g) (put_bytes (desc_off st g) (encode_bgdesc d) (blk st (desc_block st g))) st st'" by blast
  then have "ext2_write_bgdesc g d st = Some (0, st')"
    using bgdesc_pos_ok [OF assms(1)] read_block_ok [OF assms(1,2)] by (simp add: ext2_write_bgdesc_def)
  then show thesis using that m(3) by blast
qed

subsection \<open>Inodes\<close>

definition group_of :: "'a ext2_state_scheme \<Rightarrow> u32 \<Rightarrow> u32" where
  "group_of st ino = (ino - 1) div sb_inodes_per_group (sb st)"

definition slot :: "'a ext2_state_scheme \<Rightarrow> u32 \<Rightarrow> u32 \<times> nat" where
  "slot st ino = inode_pos ino (bg_inode_table (bgd st (group_of st ino))) st"

definition inode_ok :: "'a ext2_state_scheme \<Rightarrow> u32 \<Rightarrow> bool" where
  \<comment> \<open>the number is valid and its descriptor and slot lie in the volume, in different blocks\<close>
  "inode_ok st ino \<longleftrightarrow>
     ino \<noteq> 0 \<and> ino \<le> sb_inodes_count (sb st) \<and> sb_inodes_per_group (sb st) \<noteq> 0 \<and>
     unat (desc_block st (group_of st ino)) < NB st \<and> unat (fst (slot st ino)) < NB st \<and>
     snd (slot st ino) + INODE_SIZE \<le> nbs st \<and> fst (slot st ino) \<noteq> desc_block st (group_of st ino)"

definition dinode :: "'a ext2_state_scheme \<Rightarrow> u32 \<Rightarrow> ext2_inode" where
  "dinode st ino = decode_ext2_inode (get_bytes (snd (slot st ino)) INODE_SIZE (blk st (fst (slot st ino))))"

lemma inode_okD:
  assumes "inode_ok st ino"
  shows "ino \<noteq> 0" and "\<not> sb_inodes_count (sb st) < ino" and "sb_inodes_per_group (sb st) \<noteq> 0"
  using assms by (auto simp: inode_ok_def not_less)

lemma inode_pos_load [simp]: "inode_pos ino t (load n st) = inode_pos ino t st"
  by (simp add: inode_pos_def fs_inode_size_def)

lemma read_inode_ok:
  assumes "vol_ok st" and "inode_ok st ino"
  shows "ext2_read_inode ino st
    = Some (Some (dinode st ino), load (fst (slot st ino)) (load (desc_block st (group_of st ino)) st))"
proof -
  let ?g = "group_of st ino" and ?st1 = "load (desc_block st (group_of st ino)) st"
  have d: "unat (desc_block st ?g) < NB st" and s: "unat (fst (slot st ino)) < NB st"
    and f: "snd (slot st ino) + INODE_SIZE \<le> nbs st"
    using assms(2) by (auto simp: inode_ok_def)
  have v1: "vol_ok ?st1" and s1: "unat (fst (slot st ino)) < NB ?st1"
    using vol_ok_load [OF assms(1) d] s by simp_all
  have g: "get_bytes (snd (slot st ino)) INODE_SIZE (ext2_buf (load (fst (slot st ino)) ?st1))
      = get_bytes (snd (slot st ino)) INODE_SIZE (blk st (fst (slot st ino)))"
    using get_load [OF v1 s1] f by simp
  have pos: "inode_pos ino (bg_inode_table (bgd st ?g)) st = (fst (slot st ino), snd (slot st ino))"
    by (simp add: slot_def)
  have fit: "snd (slot st ino) + INODE_SIZE \<le> EXT2_BUF_SIZE" using f vol_ok_size(2) [OF assms(1)] by simp
  show ?thesis
    using inode_okD [OF assms(2)] read_bgdesc_ok [OF assms(1) d] read_block_ok [OF v1 s1] g fit
    by (simp add: ext2_read_inode_def group_of_def [symmetric] pos dinode_def case_prod_beta)
qed

lemma write_inode_ok:
  assumes "vol_ok st" and "inode_ok st ino" and "wf_ext2_inode raw"
  obtains st' where "ext2_write_inode ino raw st = Some (0, st')"
    and "stored (fst (slot st ino)) (put_bytes (snd (slot st ino)) (encode_ext2_inode raw) (blk st (fst (slot st ino)))) st st'"
proof -
  let ?g = "group_of st ino" and ?st1 = "load (desc_block st (group_of st ino)) st" and ?n = "fst (slot st ino)"
  let ?off = "snd (slot st ino)" and ?e = "encode_ext2_inode raw"
  have d: "unat (desc_block st ?g) < NB st" and s: "unat ?n < NB st" and f: "?off + INODE_SIZE \<le> nbs st"
    using assms(2) by (auto simp: inode_ok_def)
  have v1: "vol_ok ?st1" and s1: "unat ?n < NB ?st1" and f1: "?off + length ?e \<le> nbs ?st1"
    using vol_ok_load [OF assms(1) d] s f dinode.length_encode [OF assms(3)] by simp_all
  from modify_block [OF v1 s1 f1]
  obtain st' where m: "set_buf ?off ?e (load ?n ?st1) = Some (?st1\<lparr>ext2_buf := put_bytes ?off ?e (ext2_buf (load ?n ?st1))\<rparr>)"
    "write_buf ?n (?st1\<lparr>ext2_buf := put_bytes ?off ?e (ext2_buf (load ?n ?st1))\<rparr>) = Some (0, st')"
    "stored ?n (put_bytes ?off ?e (blk ?st1 ?n)) ?st1 st'" by blast
  have pos: "inode_pos ino (bg_inode_table (bgd st ?g)) st = (?n, ?off)" by (simp add: slot_def)
  have "ext2_write_inode ino raw st = Some (0, st')"
    using inode_okD [OF assms(2)] read_bgdesc_ok [OF assms(1) d] read_block_ok [OF v1 s1] m(1,2)
    by (simp add: ext2_write_inode_def group_of_def [symmetric] pos case_prod_beta)
  moreover have "stored ?n (put_bytes ?off ?e (blk st ?n)) st st'" using stored_load [OF m(3)] by simp
  ultimately show thesis using that by blast
qed

lemma bgd_stored:
  assumes "stored n data st st'" and "unat (desc_block st g) < NB st" and "desc_block st g \<noteq> n"
  shows "bgd st' g = bgd st g" and "desc_block st' g = desc_block st g" and "desc_off st' g = desc_off st g"
proof -
  show "desc_block st' g = desc_block st g" and "desc_off st' g = desc_off st g"
    using storedD(2) [OF assms(1)] by (simp_all add: desc_block_def desc_off_def)
  then show "bgd st' g = bgd st g"
    using storedD(7) [OF assms(1,2)] assms(3) by (simp add: bgd_def)
qed

lemma slot_stored:
  assumes "stored n data st st'" and "inode_ok st ino" and "desc_block st (group_of st ino) \<noteq> n"
  shows "slot st' ino = slot st ino" and "inode_ok st' ino"
proof -
  have d: "unat (desc_block st (group_of st ino)) < NB st" using assms(2) by (simp add: inode_ok_def)
  have g: "group_of st' ino = group_of st ino" using storedD(2) [OF assms(1)] by (simp add: group_of_def)
  show s: "slot st' ino = slot st ino"
    using bgd_stored [OF assms(1) d assms(3)] storedD(2) [OF assms(1)]
    by (simp add: slot_def g inode_pos_def fs_inode_size_def)
  show "inode_ok st' ino"
    using assms(2) bgd_stored [OF assms(1) d assms(3)] storedD(2,3) [OF assms(1)]
    by (simp add: inode_ok_def s g)
qed

text \<open>Two slots of a table do not overlap.\<close>

definition slots_apart :: "'a ext2_state_scheme \<Rightarrow> u32 \<Rightarrow> u32 \<Rightarrow> bool" where
  "slots_apart st i j \<longleftrightarrow>
     fst (slot st i) \<noteq> fst (slot st j) \<or> snd (slot st i) + INODE_SIZE \<le> snd (slot st j) \<or>
     snd (slot st j) + INODE_SIZE \<le> snd (slot st i)"

lemma dinode_write:
  assumes "vol_ok st" and "inode_ok st ino" and "wf_ext2_inode raw"
    and "stored (fst (slot st ino)) (put_bytes (snd (slot st ino)) (encode_ext2_inode raw) (blk st (fst (slot st ino)))) st st'"
  shows "dinode st' ino = raw"
    and "inode_ok st j \<Longrightarrow> slots_apart st ino j \<Longrightarrow> desc_block st (group_of st j) \<noteq> fst (slot st ino) \<Longrightarrow>
         dinode st' j = dinode st j"
proof -
  let ?n = "fst (slot st ino)" and ?off = "snd (slot st ino)"
  have n: "unat ?n < NB st" and f: "?off + INODE_SIZE \<le> nbs st" and dn: "desc_block st (group_of st ino) \<noteq> ?n"
    using assms(2) by (auto simp: inode_ok_def)
  have len: "length (blk st ?n) = nbs st" by (rule blk_rd_many(3) [OF assms(1) n])
  show "dinode st' ino = raw"
    using slot_stored(1) [OF assms(4,2) dn] storedD(7) [OF assms(4) n] dinode.read_written [OF assms(3), of ?off "blk st ?n"] f len
    by (simp add: dinode_def)
  assume j: "inode_ok st j" and ap: "slots_apart st ino j" and dj: "desc_block st (group_of st j) \<noteq> ?n"
  have nj: "unat (fst (slot st j)) < NB st" and fj: "snd (slot st j) + INODE_SIZE \<le> nbs st"
    using j by (auto simp: inode_ok_def)
  show "dinode st' j = dinode st j"
  proof (cases "fst (slot st j) = ?n")
    case False
    then show ?thesis using slot_stored(1) [OF assms(4) j dj] storedD(7) [OF assms(4) nj] by (simp add: dinode_def)
  next
    case True
    then have "get_bytes (snd (slot st j)) INODE_SIZE (put_bytes ?off (encode_ext2_inode raw) (blk st ?n))
        = get_bytes (snd (slot st j)) INODE_SIZE (blk st ?n)"
      using ap f fj len by (intro dinode.read_other_slot [OF assms(3)]) (auto simp: slots_apart_def)
    then show ?thesis
      using slot_stored(1) [OF assms(4) j dj] storedD(7) [OF assms(4) nj] True by (simp add: dinode_def)
  qed
qed

end
