(* ===== verification/Ext2_Example.thy ===== *)
theory Ext2_Example
  imports Ext2_Table
begin

text \<open>
  A small volume for concrete instances: 64 blocks of 1 KiB on the first ATA drive, one block
  group, the group descriptor in block 2, the block bitmap in block 3, the inode bitmap in block 4,
  an inode table of 16 inodes in blocks 5 and 6. The contents of the blocks are a parameter.
\<close>

definition disk_image :: "(u32 \<Rightarrow> u8 list) \<Rightarrow> disks" where
  "disk_image img =
     (\<lambda>b s l. if b = 0x1F0 \<and> \<not> s \<and> l < 2048 then Some (get_bytes (512 * unat (l mod 2)) 512 (img (l div 2))) else None)"

definition demo_sb :: ext2_sb where
  "demo_sb = (decode_sb (replicate 136 0))\<lparr>
     sb_inodes_count := 16, sb_blocks_count := 64, sb_free_blocks_count := 20, sb_free_inodes_count := 5,
     sb_first_data_block := 1, sb_blocks_per_group := 8192, sb_inodes_per_group := 16, sb_magic := EXT2_MAGIC\<rparr>"

definition demo_vol :: ext2_fs where
  "demo_vol = \<lparr>fs_dev = Some demo_disk, fs_sb = demo_sb, fs_block_size = 1024, bgdesc_block = 2, bgdesc_count = 1\<rparr>"

definition demo_bgd :: ext2_bgdesc where
  "demo_bgd = \<lparr>bg_block_bitmap = 3, bg_inode_bitmap = 4, bg_inode_table = 5, bg_free_blocks_count = 20,
     bg_free_inodes_count = 5, bg_used_dirs_count = 1, bg_pad = 0, bg_reserved = [0, 0, 0]\<rparr>"

definition with_desc :: "(u32 \<Rightarrow> u8 list) \<Rightarrow> u32 \<Rightarrow> u8 list" where
  \<comment> \<open>an image with the descriptor in place\<close>
  "with_desc img = img(2 := put_bytes 0 (encode_bgdesc demo_bgd) (replicate 1024 0))"

definition empty_image :: "u32 \<Rightarrow> u8 list" where
  "empty_image = (\<lambda>_. replicate 1024 0)"

definition on_demo :: "(u32 \<Rightarrow> u8 list) \<Rightarrow> 'a ext2_state_scheme \<Rightarrow> bool" where
  \<comment> \<open>the state has the volume mounted, on a disk with these blocks\<close>
  "on_demo img st \<longleftrightarrow>
     fs st = demo_vol \<and> ext2_disks st = disk_image img \<and> length (ext2_buf st) = EXT2_BUF_SIZE \<and>
     (\<forall>n. length (img n) = 1024)"

lemma demo_sb_simps [simp]:
  "sb_inodes_count demo_sb = 16" "sb_blocks_count demo_sb = 64" "sb_inodes_per_group demo_sb = 16"
  "sb_blocks_per_group demo_sb = 8192" "sb_inode_size demo_sb = 0" "sb_first_data_block demo_sb = 1"
  "sb_free_blocks_count demo_sb = 20" "wf_sb demo_sb"
  by (simp_all add: demo_sb_def decode_sb_def wf_sb_def of_le16_def get_bytes_def)

lemma on_demo_sizes:
  assumes "on_demo img st"
  shows "bsize st = 1024" and "NB st = 64" and "spb st = 2" and "vol_dev st = demo_disk" and "sb st = demo_sb"
    and "fs_dev (fs st) = Some demo_disk" and "bgdesc_block (fs st) = 2" and "bgdesc_count (fs st) = 1"
  using assms by (simp_all add: on_demo_def demo_vol_def NB_def spb_def vol_dev_def)

lemma demo_read_sector:
  assumes "l < 2048"
  shows "read_sector (disk_image img) demo_disk l = Some (get_bytes (512 * unat (l mod 2)) 512 (img (l div 2)))"
proof -
  have "unat (take_bit 28 l) = unat l"
    using assms by (simp only: unsigned_take_bit_eq) (simp add: take_bit_eq_mod word_less_nat_alt)
  then have "take_bit 28 l = l" by (simp only: word_unat_eq_iff)
  then show ?thesis using assms by (simp add: read_sector_phys demo_disk_def disk_image_def)
qed

lemma on_demo_vol_ok:
  assumes "on_demo img st"
  shows "vol_ok st"
proof -
  have "read_sector (ext2_disks st) (vol_dev st) l \<noteq> None" if "unat l < 64 * 2" for l
  proof -
    have "l < 2048" using that by (simp add: word_less_nat_alt)
    then show ?thesis using assms on_demo_sizes(4) [OF assms] by (simp add: on_demo_def demo_read_sector)
  qed
  moreover have "disks_wf (ext2_disks st)"
  proof -
    have "length (get_bytes (512 * unat (l mod 2)) 512 (img (l div 2))) = 512" for l :: u32
    proof -
      have "unat (l mod 2) < 2" by (simp add: unat_mod)
      then show ?thesis using assms by (simp add: length_get_bytes on_demo_def)
    qed
    then show ?thesis
      using assms by (auto simp: on_demo_def disks_wf_def disk_image_def BLOCK_SECTOR_SIZE_def split: if_splits)
  qed
  ultimately show ?thesis
    using assms on_demo_sizes [OF assms] by (simp add: vol_ok_def on_demo_def demo_disk_def)
qed

lemma on_demo_blk:
  assumes "on_demo img st" and "unat n < 64"
  shows "blk st n = img n"
proof -
  have u: "unat (n * 2) = unat n * 2" "unat (n * 2 + 1) = unat n * 2 + 1"
    using assms(2) by (simp_all add: unat_word_ariths)
  have lt: "n * 2 < 2048" "n * 2 + 1 < 2048" using u assms(2) by (simp_all add: word_less_nat_alt)
  have d: "n * 2 div 2 = n" "(n * 2 + 1) div 2 = n" "n * 2 mod 2 = 0" "(n * 2 + 1) mod 2 = 1"
    using u by (simp_all add: word_unat_eq_iff unat_div unat_mod) presburger
  have len: "length (img n) = 1024" using assms(1) by (simp add: on_demo_def)
  have "img n = get_bytes 0 512 (img n) @ get_bytes 512 512 (img n)"
    using len by (simp add: get_bytes_def)
  moreover have "read_sectors (disk_image img) demo_disk (n * 2) 2
      = (0, get_bytes 0 512 (img n) @ get_bytes 512 512 (img n))"
    using demo_read_sector [OF lt(1), of img] demo_read_sector [OF lt(2), of img] d by (simp add: numeral_2_eq_2)
  ultimately show ?thesis
    using assms(1) on_demo_sizes [OF assms(1)] by (simp add: blk_def block_read_def on_demo_def demo_disk_def)
qed

lemma with_desc_length: "(\<And>n. length (img n) = 1024) \<Longrightarrow> length (with_desc img n) = 1024"
  by (simp add: with_desc_def length_put_bytes encode_bgdesc_def demo_bgd_def)

lemma demo_bgd:
  assumes "on_demo (with_desc img) st"
  shows "bgd st 0 = demo_bgd" and "desc_block st 0 = 2" and "desc_off st 0 = 0"
proof -
  show d: "desc_block st 0 = 2" "desc_off st 0 = 0"
    using on_demo_sizes [OF assms] by (simp_all add: desc_block_def desc_off_def)
  have "get_bytes 0 BGDESC_SIZE (put_bytes 0 (encode_bgdesc demo_bgd) (replicate 1024 0)) = encode_bgdesc demo_bgd"
    by (simp add: get_put_same encode_bgdesc_def demo_bgd_def BGDESC_SIZE_def)
  moreover have "wf_bgdesc demo_bgd" by (simp add: demo_bgd_def wf_bgdesc_def)
  ultimately show "bgd st 0 = demo_bgd"
    using d on_demo_blk [OF assms, of 2] by (simp add: bgd_def with_desc_def bgdesc.decode_encode)
qed

text \<open>The inode with number \<open>k\<close> below 9 is in block 5, at offset \<open>128 * (k - 1)\<close>.\<close>

lemma demo_slot:
  assumes "on_demo (with_desc img) st" and "0 < ino" and "ino \<le> 8"
  shows "slot st ino = (5, 128 * (unat ino - 1))" and "group_of st ino = 0" and "inode_ok st ino"
proof -
  define k where "k = ino - 1"
  have bounds: "unat ino \<le> 8" "0 < unat ino" using assms(2,3) by (simp_all add: word_le_nat_alt word_less_nat_alt)
  then have u1: "unat k = unat ino - 1" by (simp add: k_def unat_sub word_le_nat_alt)
  then have k: "unat k < 8" using bounds by simp
  have m: "k mod 16 = k" "k div 16 = 0" using k by (simp_all add: word_unat_eq_iff unat_mod unat_div)
  have u2: "unat (k * 128) = 128 * unat k" using k by (simp add: unat_word_ariths)
  have q: "k * 128 div 1024 = 0" "unat (k * 128 mod 1024) = 128 * unat k"
    using u2 k by (simp_all add: word_unat_eq_iff unat_mod unat_div)
  show g: "group_of st ino = 0"
    using on_demo_sizes(5) [OF assms(1)] m by (simp add: group_of_def k_def [symmetric])
  show s: "slot st ino = (5, 128 * (unat ino - 1))"
    using g demo_bgd(1) [OF assms(1)] on_demo_sizes [OF assms(1)] m q u1
    by (simp add: slot_def inode_pos_def fs_inode_size_def EXT2_GOOD_OLD_INODE_SIZE_def demo_bgd_def Let_def
        k_def [symmetric])
  have "ino \<le> 16" "ino \<noteq> 0" "unat ino - Suc 0 \<le> 7" using bounds by (auto simp: word_le_nat_alt)
  then show "inode_ok st ino"
    using s g demo_bgd [OF assms(1)] on_demo_sizes [OF assms(1)]
    by (simp add: inode_ok_def INODE_SIZE_def)
qed

definition demo_vfs_inode :: vfs_inode where
  "demo_vfs_inode = \<lparr>i_no = 0, i_size = 0, i_type = VFS_IFILE, i_mode = 0, i_ops = None, i_private = No_Data, i_rdev = 0\<rparr>"

definition demo_ext2 :: "(u32 \<Rightarrow> u8 list) \<Rightarrow> ext2_state" where
  "demo_ext2 img =
     \<lparr>vfs_inodes = \<lambda>_. demo_vfs_inode, vfs_next_ino = 1,
      vfs_open_files = \<lambda>_. \<lparr>f_ops = None, f_private = No_File_Data, f_pos = 0, f_refcount = 0, f_flags = 0\<rparr>,
      vfs_root = None, vfs_mounts = [],
      ext2_disks = disk_image (with_desc img), ext2_buf = replicate EXT2_BUF_SIZE 0, fs = demo_vol, fs_pool_next = 1,
      ext2_data_pool = \<lambda>_. 0, ext2_data_pool_next = 0\<rparr>"

lemma on_demo_ext2: "(\<And>n. length (img n) = 1024) \<Longrightarrow> on_demo (with_desc img) (demo_ext2 img)"
  using with_desc_length [of img] by (simp add: on_demo_def demo_ext2_def)

end
