(* ===== verification/Ext2_Meta.thy ===== *)
theory Ext2_Meta
  imports Ext2_Example
begin

text \<open>
  Properties of the ext2 driver's metadata: the inode table reads back what was written, and the
  block allocator.
\<close>

subsection \<open>The inode table\<close>

lemma slot_arith:
  assumes "a \<noteq> (b :: nat)" and "128 * a div n = 128 * b div n"
  shows "128 * a mod n + 128 \<le> 128 * b mod n \<or> 128 * b mod n + 128 \<le> 128 * a mod n"
proof -
  have "128 * a = n * (128 * b div n) + 128 * a mod n" using assms(2) mult_div_mod_eq [of n "128 * a"] by simp
  moreover have "128 * b = n * (128 * b div n) + 128 * b mod n" by simp
  moreover have "a + 1 \<le> b \<or> b + 1 \<le> a" using assms(1) by linarith
  ultimately show ?thesis by linarith
qed

lemma slots_apart_same_group:
  assumes "inode_ok st i" and "inode_ok st j" and "group_of st i = group_of st j" and "i \<noteq> j"
    and "fs_inode_size st = 128" and "unat (sb_inodes_per_group (sb st)) < 2 ^ 25"
  shows "slots_apart st i j"
proof -
  let ?p = "sb_inodes_per_group (sb st)" and ?t = "bg_inode_table (bgd st (group_of st i))"
  let ?a = "(i - 1) mod ?p" and ?b = "(j - 1) mod ?p"
  have p: "?p \<noteq> 0" using assms(1) by (rule inode_okD)
  have ne: "?a \<noteq> ?b"
  proof
    assume "?a = ?b"
    moreover have "(i - 1) div ?p = (j - 1) div ?p" using assms(3) unfolding group_of_def .
    ultimately have "i - 1 = j - 1" by (metis div_mult_mod_eq)
    then show False using assms(4) by simp
  qed
  have lt: "unat (x mod ?p) < 2 ^ 25" for x
  proof -
    have "0 < unat ?p" using p by (simp add: unat_gt_0)
    then have "unat x mod unat ?p < unat ?p" by (rule mod_less_divisor)
    then show ?thesis using assms(6) unfolding unat_mod by (rule less_trans)
  qed
  have u: "unat (x mod ?p * 128) = 128 * unat (x mod ?p)" for x
    using lt [of x] by (simp add: unat_word_ariths)
  have si: "slot st i = (?t + ?a * 128 div bsize st, unat (?a * 128 mod bsize st))"
    unfolding slot_def inode_pos_def Let_def assms(5) ..
  have sj: "slot st j = (?t + ?b * 128 div bsize st, unat (?b * 128 mod bsize st))"
    unfolding slot_def inode_pos_def Let_def assms(3,5) ..
  show ?thesis
  proof (cases "fst (slot st i) = fst (slot st j)")
    case True
    then have "?a * 128 div bsize st = ?b * 128 div bsize st" unfolding si sj fst_conv add_left_cancel .
    then have "unat (?a * 128 div bsize st) = unat (?b * 128 div bsize st)" by (rule arg_cong)
    then have q: "128 * unat ?a div nbs st = 128 * unat ?b div nbs st" unfolding unat_div u .
    have off: "snd (slot st i) = 128 * unat ?a mod nbs st" "snd (slot st j) = 128 * unat ?b mod nbs st"
      unfolding si sj snd_conv unat_mod [of _ "bsize st"] u by (rule refl)+
    have "unat ?a \<noteq> unat ?b" using ne by (simp add: word_unat_eq_iff)
    then show ?thesis using slot_arith [OF _ q] off by (simp add: slots_apart_def INODE_SIZE_def)
  next
    case False
    then show ?thesis by (simp add: slots_apart_def)
  qed
qed

text \<open>
  C20. The inode table. On a healthy volume writing an inode succeeds, reading the same number
  afterwards returns it, and every other inode of the group reads as before.
\<close>
theorem ext2_inode_table_roundtrip:
  assumes "vol_ok st" and "inode_ok st ino" and "wf_ext2_inode raw"
  shows "\<exists>st'. ext2_write_inode ino raw st = Some (0, st') \<and> vol_ok st' \<and>
    (\<exists>st''. ext2_read_inode ino st' = Some (Some raw, st'')) \<and>
    (\<forall>j. inode_ok st j \<and> j \<noteq> ino \<and> group_of st j = group_of st ino \<and> fs_inode_size st = 128 \<and>
         unat (sb_inodes_per_group (sb st)) < 2 ^ 25 \<longrightarrow>
       map_option fst (ext2_read_inode j st') = map_option fst (ext2_read_inode j st))"
proof -
  from write_inode_ok [OF assms]
  obtain st' where w: "ext2_write_inode ino raw st = Some (0, st')"
    and s: "stored (fst (slot st ino)) (put_bytes (snd (slot st ino)) (encode_ext2_inode raw) (blk st (fst (slot st ino)))) st st'"
    by blast
  have d: "desc_block st (group_of st ino) \<noteq> fst (slot st ino)" using assms(2) by (auto simp: inode_ok_def)
  have r: "map_option fst (ext2_read_inode j st') = map_option fst (ext2_read_inode j st)"
    if j: "inode_ok st j" "j \<noteq> ino" "group_of st j = group_of st ino" "fs_inode_size st = 128"
      "unat (sb_inodes_per_group (sb st)) < 2 ^ 25" for j
  proof -
    have ap: "slots_apart st ino j"
      using slots_apart_same_group [OF assms(2) j(1) _ _ j(4,5)] j(2,3) by simp
    have "dinode st' j = dinode st j" using dinode_write(2) [OF assms s j(1) ap] d j(3) by simp
    then show ?thesis
      using read_inode_ok [OF assms(1) j(1)] read_inode_ok [OF storedD(1) [OF s] slot_stored(2) [OF s j(1)]] d j(3) by simp
  qed
  have rd: "ext2_read_inode ino st' = Some (Some raw, load (fst (slot st' ino)) (load (desc_block st' (group_of st' ino)) st'))"
    using read_inode_ok [OF storedD(1) [OF s] slot_stored(2) [OF s assms(2) d]] dinode_write(1) [OF assms s] by simp
  show ?thesis
  proof (intro exI conjI allI impI)
    show "ext2_write_inode ino raw st = Some (0, st')" by (rule w)
    show "vol_ok st'" by (rule storedD(1) [OF s])
    show "ext2_read_inode ino st' = Some (Some raw, load (fst (slot st' ino)) (load (desc_block st' (group_of st' ino)) st'))"
      by (rule rd)
  qed (use r in simp)
qed

theorem ext2_inode_table_roundtrip_witness:
  "\<exists>st' st''. ext2_write_inode 2 (zero_inode\<lparr>di_mode := 0x41ED, di_links := 3\<rparr>) (demo_ext2 empty_image) = Some (0, st') \<and>
     ext2_read_inode 2 st' = Some (Some (zero_inode\<lparr>di_mode := 0x41ED, di_links := 3\<rparr>), st'') \<and>
     map_option fst (ext2_read_inode 3 st') = map_option fst (ext2_read_inode 3 (demo_ext2 empty_image))"
proof -
  let ?st = "demo_ext2 empty_image" and ?raw = "zero_inode\<lparr>di_mode := 0x41ED, di_links := 3\<rparr>"
  have od: "on_demo (with_desc empty_image) ?st" by (rule on_demo_ext2) (simp add: empty_image_def)
  have i: "inode_ok ?st 2" "inode_ok ?st 3" "group_of ?st 3 = group_of ?st 2"
    using demo_slot(2,3) [OF od, of 2] demo_slot(2,3) [OF od, of 3] by simp_all
  have sz: "fs_inode_size ?st = 128" "unat (sb_inodes_per_group (sb ?st)) < 2 ^ 25"
    using on_demo_sizes(5) [OF od] by (simp_all add: fs_inode_size_def EXT2_GOOD_OLD_INODE_SIZE_def)
  have "wf_ext2_inode ?raw" by (simp add: wf_ext2_inode_def zero_inode_def)
  from ext2_inode_table_roundtrip [OF on_demo_vol_ok [OF od] i(1) this]
  obtain st' st'' where w: "ext2_write_inode 2 ?raw ?st = Some (0, st')"
    and r: "ext2_read_inode 2 st' = Some (Some ?raw, st'')"
    and o: "\<And>j. inode_ok ?st j \<and> j \<noteq> 2 \<and> group_of ?st j = group_of ?st 2 \<and> fs_inode_size ?st = 128 \<and>
         unat (sb_inodes_per_group (sb ?st)) < 2 ^ 25 \<Longrightarrow>
       map_option fst (ext2_read_inode j st') = map_option fst (ext2_read_inode j ?st)" by blast
  have "map_option fst (ext2_read_inode 3 st') = map_option fst (ext2_read_inode 3 ?st)"
    using i(2,3) sz by (intro o) simp
  then show ?thesis using w r by blast
qed

end
