(* ===== verification/Ext2_Bitmap.thy ===== *)
theory Ext2_Bitmap
  imports Ext2_Meta
begin

text \<open>
  The block allocator on a healthy volume: it takes the lowest clear bit of the first group that has
  one, sets exactly that bit, and counts it. The super block goes to where the code puts it, which is
  its place only for 1 KiB blocks.
\<close>

subsection \<open>Bits of a bitmap\<close>

lemma length_buf_bit_set [simp]: "length (buf_bit_set i buf) = length buf"
  by (simp add: buf_bit_set_def)

lemma buf_bit_set_iff:
  assumes "i div 8 < length buf"
  shows "buf_bit (buf_bit_set i buf) j \<longleftrightarrow> buf_bit buf j \<or> j = i"
proof (cases "j div 8 = i div 8")
  case True
  then have "buf_bit (buf_bit_set i buf) j \<longleftrightarrow> bit (buf ! (i div 8) OR push_bit (i mod 8) 1) (j mod 8)"
    using assms by (simp add: buf_bit_def buf_bit_set_def)
  also have "\<dots> \<longleftrightarrow> buf_bit buf j \<or> j mod 8 = i mod 8" 
    using True bit_or_push [of "i mod 8" "j mod 8" "buf ! (i div 8)"] by (simp add: buf_bit_def)
  also have "j mod 8 = i mod 8 \<longleftrightarrow> j = i" using True by (metis div_mult_mod_eq)
  finally show ?thesis .
next
  case False
  then show ?thesis by (auto simp: buf_bit_def buf_bit_set_def)
qed

lemma buf_bit_take: "i < 8 * n \<Longrightarrow> n \<le> length buf \<Longrightarrow> buf_bit (take n buf) i = buf_bit buf i"
  by (simp add: buf_bit_def less_mult_imp_div_less mult.commute)

lemma take_buf_bit_set:
  assumes "i < 8 * n" and "n \<le> length buf"
  shows "take n (buf_bit_set i buf) = buf_bit_set i (take n buf)"
proof -
  have "i div 8 < n" using assms(1) by (simp add: less_mult_imp_div_less mult.commute)
  then show ?thesis by (simp add: buf_bit_set_def take_update_swap)
qed

lemma scan_bitmap_ok:
  assumes "m \<le> 8 * n" and "n \<le> EXT2_BUF_SIZE" and "n \<le> length buf"
  shows "scan_bitmap buf m = Some (find (\<lambda>i. \<not> buf_bit (take n buf) i) [0..<m])"
proof -
  have "min m (8 * EXT2_BUF_SIZE) = m" and "\<not> m > 8 * EXT2_BUF_SIZE" using assms(1,2) by auto
  moreover have "find (\<lambda>i. \<not> buf_bit buf i) [0..<m] = find (\<lambda>i. \<not> buf_bit (take n buf) i) [0..<m]"
    using assms by (intro find_cong) (auto simp: buf_bit_take)
  ultimately show ?thesis by (simp add: scan_bitmap_def split: option.split)
qed

subsection \<open>The super block\<close>

definition sb_block :: "'a ext2_state_scheme \<Rightarrow> u32" where
  "sb_block st = (if bsize st = 1024 then 1 else 0)"

lemma write_sb_ok:
  assumes "vol_ok st" and "unat (sb_block st) < NB st"
  obtains st' where "ext2_write_sb st = Some (0, st')"
    and "stored (sb_block st) (put_bytes 0 (encode_sb (sb st)) (take (nbs st) (ext2_buf st))) st st'"
proof -
  let ?e = "encode_sb (sb st)" and ?st1 = "st\<lparr>ext2_buf := put_bytes 0 (encode_sb (sb st)) (ext2_buf st)\<rparr>"
  have le: "length ?e = SB_SIZE" using sb.length_encode vol_okD(5) [OF assms(1)] by blast
  have fit: "0 + length ?e \<le> EXT2_BUF_SIZE" "0 + length ?e \<le> nbs st" "nbs st \<le> length (ext2_buf st)"
    using le vol_ok_size [OF assms(1)] vol_okD(3) [OF assms(1)] by simp_all
  have v1: "vol_ok ?st1"
    using vol_okD(3) [OF assms(1)] fit by (intro vol_ok_buf [OF assms(1)]) (simp add: length_put_bytes)
  have n1: "unat (sb_block st) < NB ?st1" using assms(2) by (simp add: NB_def)
  obtain st' where w: "write_buf (sb_block st) ?st1 = Some (0, st')"
    and s: "stored (sb_block st) (take (nbs ?st1) (ext2_buf ?st1)) ?st1 st'"
    using write_buf_stored [OF v1 n1] by blast
  have "ext2_write_sb st = Some (0, st')"
    using w set_buf_ok [OF fit(1), of st] by (simp add: ext2_write_sb_def sb_block_def [symmetric])
  moreover have "stored (sb_block st) (put_bytes 0 ?e (take (nbs st) (ext2_buf st))) st st'"
    using stored_buf [OF s] take_put_bytes [OF fit(2,3)] by simp
  ultimately show thesis using that by blast
qed

lemma upd_sb_simps [simp]:
  "ext2_disks (upd_sb f st) = ext2_disks st" "ext2_buf (upd_sb f st) = ext2_buf st" "bsize (upd_sb f st) = bsize st"
  "sb (upd_sb f st) = f (sb st)" "fs_dev (fs (upd_sb f st)) = fs_dev (fs st)"
  "bgdesc_block (fs (upd_sb f st)) = bgdesc_block (fs st)" "bgdesc_count (fs (upd_sb f st)) = bgdesc_count (fs st)"
  "vol_dev (upd_sb f st) = vol_dev st" "blk (upd_sb f st) = blk st" "sb_block (upd_sb f st) = sb_block st"
  "vfs_inodes (upd_sb f st) = vfs_inodes st" "ext2_data_pool (upd_sb f st) = ext2_data_pool st"
  by (simp_all add: upd_sb_def vol_dev_def blk_def sb_block_def fun_eq_iff)

definition count_block :: "ext2_sb \<Rightarrow> ext2_sb" where
  \<comment> \<open>\<open>fs->sb.free_blocks_count--\<close>\<close>
  "count_block s = s\<lparr>sb_free_blocks_count := sb_free_blocks_count s - 1\<rparr>"

lemma count_block_simps [simp]:
  "sb_blocks_count (count_block s) = sb_blocks_count s" "sb_blocks_per_group (count_block s) = sb_blocks_per_group s"
  "wf_sb (count_block s) = wf_sb s"
  by (simp_all add: count_block_def wf_sb_def)

lemma vol_ok_count_block: "vol_ok st \<Longrightarrow> vol_ok (upd_sb count_block st)" "NB (upd_sb count_block st) = NB st"
  by (simp_all add: vol_ok_def NB_def spb_def)

subsection \<open>Taking a block\<close>

definition group_ok :: "'a ext2_state_scheme \<Rightarrow> u32 \<Rightarrow> bool" where
  \<comment> \<open>descriptor, bitmap and super block are three different blocks of the volume\<close>
  "group_ok st g \<longleftrightarrow>
     unat (desc_block st g) < NB st \<and> unat (bg_block_bitmap (bgd st g)) < NB st \<and> unat (sb_block st) < NB st \<and>
     desc_block st g \<noteq> bg_block_bitmap (bgd st g) \<and> sb_block st \<noteq> desc_block st g \<and>
     sb_block st \<noteq> bg_block_bitmap (bgd st g)"

definition bitmap :: "'a ext2_state_scheme \<Rightarrow> u32 \<Rightarrow> u8 list" where
  "bitmap st g = blk st (bg_block_bitmap (bgd st g))"

definition taken :: "u32 \<Rightarrow> nat \<Rightarrow> 'a ext2_state_scheme \<Rightarrow> 'a ext2_state_scheme \<Rightarrow> bool" where
  \<comment> \<open>\<open>st'\<close> is \<open>st\<close> with block \<open>i\<close> of group \<open>g\<close> allocated\<close>
  "taken g i st st' \<longleftrightarrow>
     vol_ok st' \<and> fs st' = (fs st)\<lparr>fs_sb := count_block (sb st)\<rparr> \<and>
     vfs_inodes st' = vfs_inodes st \<and> ext2_data_pool st' = ext2_data_pool st \<and>
     bgd st' g = (bgd st g)\<lparr>bg_free_blocks_count := bg_free_blocks_count (bgd st g) - 1\<rparr> \<and>
     bitmap st' g = buf_bit_set i (bitmap st g) \<and>
     (\<forall>m. unat m < NB st \<and> m \<noteq> desc_block st g \<and> m \<noteq> bg_block_bitmap (bgd st g) \<and> m \<noteq> sb_block st \<longrightarrow>
          blk st' m = blk st m) \<and>
     get_bytes 0 SB_SIZE (blk st' (sb_block st)) = encode_sb (count_block (sb st))"

lemma set_bit_stored:
  assumes "vol_ok st" and "group_ok st g" and "i < 8 * nbs st" and "take (nbs st) (ext2_buf st) = bitmap st g"
  obtains st1 where
    "write_buf (bg_block_bitmap (bgd st g)) (st\<lparr>ext2_buf := buf_bit_set i (ext2_buf st)\<rparr>) = Some (0, st1)"
    and "stored (bg_block_bitmap (bgd st g)) (buf_bit_set i (bitmap st g)) st st1"
proof -
  let ?n = "bg_block_bitmap (bgd st g)" and ?st = "st\<lparr>ext2_buf := buf_bit_set i (ext2_buf st)\<rparr>"
  have len: "length (ext2_buf st) = EXT2_BUF_SIZE" by (rule vol_okD(3) [OF assms(1)])
  have v: "vol_ok ?st" using len by (intro vol_ok_buf [OF assms(1)]) simp
  have n: "unat ?n < NB ?st" using assms(2) by (simp add: group_ok_def NB_def)
  obtain st1 where w: "write_buf ?n ?st = Some (0, st1)" and s: "stored ?n (take (nbs ?st) (ext2_buf ?st)) ?st st1"
    using write_buf_stored [OF v n] by blast
  have "take (nbs st) (buf_bit_set i (ext2_buf st)) = buf_bit_set i (bitmap st g)"
    using take_buf_bit_set [OF assms(3)] assms(4) vol_ok_size(2) [OF assms(1)] len by simp
  then show thesis using that [OF w] stored_buf [OF s] by simp
qed

lemma take_block_ok:
  assumes "vol_ok st" and "group_ok st g" and "i < 8 * nbs st" and "take (nbs st) (ext2_buf st) = bitmap st g"
  obtains st' where "take_block g (bgd st g) i st = Some (g * sb_blocks_per_group (sb st) + of_nat i, st')"
    and "taken g i st st'"
proof -
  let ?n = "bg_block_bitmap (bgd st g)" and ?k = "desc_block st g" and ?s = "sb_block st"
  let ?d = "(bgd st g)\<lparr>bg_free_blocks_count := bg_free_blocks_count (bgd st g) - 1\<rparr>"
  have g: "unat ?k < NB st" "unat ?n < NB st" "unat ?s < NB st" "?k \<noteq> ?n" "?s \<noteq> ?k" "?s \<noteq> ?n"
    using assms(2) by (auto simp: group_ok_def)
  obtain st1 where w1: "write_buf ?n (st\<lparr>ext2_buf := buf_bit_set i (ext2_buf st)\<rparr>) = Some (0, st1)"
    and s1: "stored ?n (buf_bit_set i (bitmap st g)) st st1" using set_bit_stored [OF assms] by blast
  note b1 = bgd_stored [OF s1 g(1,4)]
  have wf: "wf_bgdesc ?d" unfolding bgd_def using wf_decode_bgdesc by (simp add: wf_bgdesc_def)
  have k1: "unat (desc_block st1 g) < NB st1" using b1(2) storedD(3) [OF s1] g(1) by simp
  obtain st2 where w2: "ext2_write_bgdesc g ?d st1 = Some (0, st2)"
    and s2: "stored ?k (put_bytes (desc_off st g) (encode_bgdesc ?d) (blk st1 ?k)) st1 st2"
    using write_bgdesc_ok [OF storedD(1) [OF s1] k1 wf] b1 by metis
  let ?st3 = "upd_sb count_block st2"
  have f2: "fs st2 = fs st" "NB st2 = NB st" using storedD(2,3) [OF s1] storedD(2,3) [OF s2] by simp_all
  have v3: "vol_ok ?st3" "NB ?st3 = NB st" "sb_block ?st3 = ?s"
    using vol_ok_count_block [of st2] storedD(1) [OF s2] f2 by (simp_all add: sb_block_def)
  obtain st' where w3: "ext2_write_sb ?st3 = Some (0, st')"
    and s3: "stored ?s (put_bytes 0 (encode_sb (sb ?st3)) (take (nbs ?st3) (ext2_buf ?st3))) ?st3 st'"
    using write_sb_ok [OF v3(1)] v3 g(3) by metis
  have res: "take_block g (bgd st g) i st = Some (g * sb_blocks_per_group (sb st) + of_nat i, st')"
    using w1 w2 w3 storedD(2) [OF s3] f2 by (simp add: take_block_def count_block_def [abs_def])
  have B: "unat m < NB st \<Longrightarrow> blk st' m = (if m = ?s then put_bytes 0 (encode_sb (sb ?st3)) (take (nbs ?st3) (ext2_buf ?st3))
      else if m = ?k then put_bytes (desc_off st g) (encode_bgdesc ?d) (blk st ?k)
      else if m = ?n then buf_bit_set i (bitmap st g) else blk st m)" for m
    using storedD(7) [OF s3, of m] storedD(7) [OF s2, of m] storedD(7) [OF s1, of m] storedD(7) [OF s1 g(1)] g(4)
      v3(2) f2(2) storedD(3) [OF s1] by simp
  have fs': "fs st' = (fs st)\<lparr>fs_sb := count_block (sb st)\<rparr>"
    using storedD(2) [OF s3] f2 by (simp add: upd_sb_def)
  have pos: "desc_block st' g = ?k" "desc_off st' g = desc_off st g" using fs' by (simp_all add: desc_block_def desc_off_def)
  have d': "bgd st' g = ?d"
    using B [OF g(1)] g(5) bgdesc.read_written [OF wf, of "desc_off st g" "blk st ?k"] desc_off_fits [OF assms(1), of g]
      blk_rd_many(3) [OF assms(1) g(1)] unfolding bgd_def [of st'] pos by simp
  have bm: "bitmap st' g = buf_bit_set i (bitmap st g)"
    using B [OF g(2)] g(4,6) d' by (simp add: bitmap_def)
  have sbs: "get_bytes 0 SB_SIZE (blk st' ?s) = encode_sb (count_block (sb st))"
  proof -
    have "length (encode_sb (sb ?st3)) = SB_SIZE" using sb.length_encode vol_okD(5) [OF v3(1)] by blast
    moreover have "SB_SIZE \<le> nbs ?st3" "nbs ?st3 \<le> length (ext2_buf ?st3)"
      using vol_ok_size [OF v3(1)] vol_okD(3) [OF v3(1)] by simp_all
    ultimately show ?thesis using B [OF g(3)] f2 by (simp add: get_put_same)
  qed
  have "taken g i st st'"
    using storedD(1) [OF s3] fs' d' bm B storedD(4,5) [OF s1] storedD(4,5) [OF s2] storedD(4,5) [OF s3] sbs
    unfolding taken_def by auto
  then show thesis using that res by blast
qed

subsection \<open>The search over the groups\<close>

definition group_bits :: "'a ext2_state_scheme \<Rightarrow> nat \<Rightarrow> nat" where
  "group_bits st g =
     unat (if of_nat g = bgdesc_count (fs st) - 1
           then sb_blocks_count (sb st) - of_nat g * sb_blocks_per_group (sb st)
           else sb_blocks_per_group (sb st))"

definition free_bit :: "'a ext2_state_scheme \<Rightarrow> nat \<Rightarrow> nat option" where
  \<comment> \<open>the lowest free block of a group whose descriptor counts one\<close>
  "free_bit st g =
     (if bg_free_blocks_count (bgd st (of_nat g)) = 0 then None
      else find (\<lambda>i. \<not> buf_bit (bitmap st (of_nat g)) i) [0..<group_bits st g])"

fun first_free :: "'a ext2_state_scheme \<Rightarrow> nat list \<Rightarrow> (nat \<times> nat) option" where
  "first_free st [] = None"
| "first_free st (g # gs) = (case free_bit st g of None \<Rightarrow> first_free st gs | Some i \<Rightarrow> Some (g, i))"

definition groups_ok :: "'a ext2_state_scheme \<Rightarrow> nat list \<Rightarrow> bool" where
  "groups_ok st gs \<longleftrightarrow> (\<forall>g \<in> set gs. group_ok st (of_nat g) \<and> group_bits st g \<le> 8 * nbs st)"

lemma views_buf [simp]:
  "desc_block (st\<lparr>ext2_buf := b\<rparr>) g = desc_block st g" "desc_off (st\<lparr>ext2_buf := b\<rparr>) g = desc_off st g"
  "bgd (st\<lparr>ext2_buf := b\<rparr>) g = bgd st g" "bitmap (st\<lparr>ext2_buf := b\<rparr>) g = bitmap st g"
  "NB (st\<lparr>ext2_buf := b\<rparr>) = NB st" "sb_block (st\<lparr>ext2_buf := b\<rparr>) = sb_block st"
  "group_bits (st\<lparr>ext2_buf := b\<rparr>) k = group_bits st k" "free_bit (st\<lparr>ext2_buf := b\<rparr>) k = free_bit st k"
  "first_free (st\<lparr>ext2_buf := b\<rparr>) gs = first_free st gs"
proof -
  show d: "desc_block (st\<lparr>ext2_buf := b\<rparr>) g = desc_block st g" "desc_off (st\<lparr>ext2_buf := b\<rparr>) g = desc_off st g" for g
    by (simp_all add: desc_block_def desc_off_def)
  show g: "bgd (st\<lparr>ext2_buf := b\<rparr>) g = bgd st g" for g by (simp add: bgd_def d)
  show m: "bitmap (st\<lparr>ext2_buf := b\<rparr>) g = bitmap st g" for g by (simp add: bitmap_def g)
  show "NB (st\<lparr>ext2_buf := b\<rparr>) = NB st" "sb_block (st\<lparr>ext2_buf := b\<rparr>) = sb_block st"
    by (simp_all add: NB_def sb_block_def)
  show k: "group_bits (st\<lparr>ext2_buf := b\<rparr>) k = group_bits st k" for k by (simp add: group_bits_def)
  show f: "free_bit (st\<lparr>ext2_buf := b\<rparr>) k = free_bit st k" for k by (simp add: free_bit_def k m g)
  show "first_free (st\<lparr>ext2_buf := b\<rparr>) gs = first_free st gs" by (induction gs) (simp_all add: f split: option.split)
qed

lemma groups_ok_buf [simp]: "groups_ok (st\<lparr>ext2_buf := b\<rparr>) gs = groups_ok st gs"
  by (simp add: groups_ok_def group_ok_def)

lemma taken_buf [simp]: "taken g i (st\<lparr>ext2_buf := b\<rparr>) st' = taken g i st st'"
  by (simp add: taken_def)

lemma load_buf: "load n (st\<lparr>ext2_buf := b\<rparr>) = st\<lparr>ext2_buf := put_bytes 0 (blk st n) b\<rparr>"
  by (simp add: load_def)

lemma group_step:
  \<comment> \<open>what one round of the loop reads\<close>
  assumes "vol_ok st" and "group_ok st g" and "group_bits st k \<le> 8 * nbs st" and "g = of_nat k"
  obtains b where "length b = EXT2_BUF_SIZE" and "take (nbs st) b = bitmap st g"
    and "load (bg_block_bitmap (bgd st g)) (load (desc_block st g) st) = st\<lparr>ext2_buf := b\<rparr>"
    and "ext2_read_bgdesc g st = Some (Some (bgd st g), load (desc_block st g) st)"
    and "ext2_read_block (bg_block_bitmap (bgd st g)) (load (desc_block st g) st) = Some (0, st\<lparr>ext2_buf := b\<rparr>)"
    and "scan_bitmap b (group_bits st k) = Some (find (\<lambda>i. \<not> buf_bit (bitmap st g) i) [0..<group_bits st k])"
proof -
  let ?n = "bg_block_bitmap (bgd st g)" and ?st1 = "load (desc_block st g) st"
  have d: "unat (desc_block st g) < NB st" and n: "unat ?n < NB st" using assms(2) by (auto simp: group_ok_def)
  have v1: "vol_ok ?st1" and n1: "unat ?n < NB ?st1" using vol_ok_load [OF assms(1) d] n by simp_all
  define b where "b = ext2_buf (load ?n ?st1)"
  have l: "load ?n ?st1 = st\<lparr>ext2_buf := b\<rparr>" by (simp add: b_def load_def)
  have len: "length b = EXT2_BUF_SIZE" unfolding b_def by (rule length_load [OF v1 n1])
  have t: "take (nbs st) b = bitmap st g" using take_load [OF v1 n1] by (simp add: b_def bitmap_def)
  have "scan_bitmap b (group_bits st k) = Some (find (\<lambda>i. \<not> buf_bit (bitmap st g) i) [0..<group_bits st k])"
    using scan_bitmap_ok [OF assms(3) vol_ok_size(2) [OF assms(1)], of b] len t vol_ok_size(2) [OF assms(1)] by simp
  then show thesis
    using that len t l read_bgdesc_ok [OF assms(1) d] read_block_ok [OF v1 n1] by metis
qed

lemma alloc_block_groups_ok:
  assumes "vol_ok st" and "groups_ok st gs"
  shows "case first_free st gs of
      None \<Rightarrow> \<exists>b. alloc_block_groups gs st = Some (0, st\<lparr>ext2_buf := b\<rparr>) \<and> length b = EXT2_BUF_SIZE
    | Some (g, i) \<Rightarrow> i < group_bits st g \<and> (\<exists>st'. taken (of_nat g) i st st' \<and>
        alloc_block_groups gs st = Some (of_nat g * sb_blocks_per_group (sb st) + of_nat i, st'))"
  using assms
proof (induction gs arbitrary: st)
  case Nil
  then have "alloc_block_groups [] st = Some (0, st\<lparr>ext2_buf := ext2_buf st\<rparr>)" by simp
  then show ?case using vol_okD(3) [OF Nil.prems(1)] by (auto intro: exI [of _ "ext2_buf st"])
next
  case (Cons k gs)
  let ?g = "of_nat k :: u32"
  have ok: "group_ok st ?g" "group_bits st k \<le> 8 * nbs st" and tail: "groups_ok st gs"
    using Cons.prems(2) by (auto simp: groups_ok_def)
  obtain b where b: "length b = EXT2_BUF_SIZE" "take (nbs st) b = bitmap st ?g"
      "ext2_read_bgdesc ?g st = Some (Some (bgd st ?g), load (desc_block st ?g) st)"
      "ext2_read_block (bg_block_bitmap (bgd st ?g)) (load (desc_block st ?g) st) = Some (0, st\<lparr>ext2_buf := b\<rparr>)"
      "scan_bitmap b (group_bits st k) = Some (find (\<lambda>i. \<not> buf_bit (bitmap st ?g) i) [0..<group_bits st k])"
    using group_step [OF Cons.prems(1) ok refl] by metis
  have rest: "length c = EXT2_BUF_SIZE \<Longrightarrow> case first_free st gs of
      None \<Rightarrow> \<exists>b. alloc_block_groups gs (st\<lparr>ext2_buf := c\<rparr>) = Some (0, st\<lparr>ext2_buf := b\<rparr>) \<and> length b = EXT2_BUF_SIZE
    | Some (g, i) \<Rightarrow> i < group_bits st g \<and> (\<exists>st'. taken (of_nat g) i st st' \<and>
        alloc_block_groups gs (st\<lparr>ext2_buf := c\<rparr>) = Some (of_nat g * sb_blocks_per_group (sb st) + of_nat i, st'))" for c
    using Cons.IH [of "st\<lparr>ext2_buf := c\<rparr>"] vol_ok_buf [OF Cons.prems(1)] tail
    by (simp cong: option.case_cong prod.case_cong)
  show ?case
  proof (cases "bg_free_blocks_count (bgd st ?g) = 0")
    case True
    have "length (ext2_buf (load (desc_block st ?g) st)) = EXT2_BUF_SIZE"
      using length_load [OF Cons.prems(1)] ok(1) by (simp add: group_ok_def)
    then show ?thesis using rest b(3) True
      by (simp add: free_bit_def load_def cong: option.case_cong prod.case_cong)
  next
    case False
    then have fb: "free_bit st k = find (\<lambda>i. \<not> buf_bit (bitmap st ?g) i) [0..<group_bits st k]"
      by (simp add: free_bit_def)
    show ?thesis
    proof (cases "free_bit st k")
      case None
      then show ?thesis using rest [OF b(1)] b(3,4,5) False fb
        by (simp add: group_bits_def [symmetric] cong: option.case_cong prod.case_cong)
    next
      case (Some i)
      then have i: "i < group_bits st k" using fb by (simp add: find_upt_Some_iff)
      let ?st = "st\<lparr>ext2_buf := b\<rparr>"
      have "vol_ok ?st" "group_ok ?st ?g" "i < 8 * nbs ?st" "take (nbs ?st) (ext2_buf ?st) = bitmap ?st ?g"
        using vol_ok_buf [OF Cons.prems(1) b(1)] ok i b(2) by (simp_all add: group_ok_def)
      from take_block_ok [OF this]
      obtain st' where "take_block ?g (bgd st ?g) i ?st = Some (?g * sb_blocks_per_group (sb st) + of_nat i, st')"
        "taken ?g i st st'" by auto
      then show ?thesis using b(3,4) b(5) [folded fb, unfolded Some] False Some i
        by (simp add: group_bits_def [symmetric])
    qed
  qed
qed

subsection \<open>Properties of the allocator\<close>

lemma length_bitmap: "vol_ok st \<Longrightarrow> group_ok st g \<Longrightarrow> length (bitmap st g) = nbs st"
  unfolding bitmap_def by (rule blk_rd_many(3)) (auto simp: group_ok_def)

lemma first_free_mem: "first_free st gs = Some (g, i) \<Longrightarrow> g \<in> set gs \<and> free_bit st g = Some i"
  by (induction gs) (auto split: option.splits)

lemma free_bitD:
  assumes "free_bit st g = Some i"
  shows "i < group_bits st g" and "\<not> buf_bit (bitmap st (of_nat g)) i"
    and "j < i \<Longrightarrow> buf_bit (bitmap st (of_nat g)) j" and "bg_free_blocks_count (bgd st (of_nat g)) \<noteq> 0"
  using assms by (auto simp: free_bit_def find_upt_Some_iff split: if_splits)

text \<open>
  C21. Block allocation. On a healthy volume \<open>ext2_alloc_block\<close> always returns. If no group has a
  free block the result is 0 and the volume is unchanged; otherwise it takes the lowest clear bit of
  the first group that counts a free block, sets that bit and no other, takes one off the counters of
  the group and of the super block, and leaves every block but those three as it was.
\<close>
theorem ext2_alloc_block_correct:
  assumes "vol_ok st" and "groups_ok st [0..<unat (bgdesc_count (fs st))]"
  shows "(first_free st [0..<unat (bgdesc_count (fs st))] = None \<longrightarrow>
            (\<exists>b. ext2_alloc_block st = Some (0, st\<lparr>ext2_buf := b\<rparr>))) \<and>
         (\<forall>k i. first_free st [0..<unat (bgdesc_count (fs st))] = Some (k, i) \<longrightarrow>
            (\<exists>st'. ext2_alloc_block st = Some (of_nat k * sb_blocks_per_group (sb st) + of_nat i, st') \<and> vol_ok st' \<and>
               \<not> buf_bit (bitmap st (of_nat k)) i \<and>
               (\<forall>j. buf_bit (bitmap st' (of_nat k)) j \<longleftrightarrow> buf_bit (bitmap st (of_nat k)) j \<or> j = i) \<and>
               bg_free_blocks_count (bgd st' (of_nat k)) = bg_free_blocks_count (bgd st (of_nat k)) - 1 \<and>
               sb_free_blocks_count (sb st') = sb_free_blocks_count (sb st) - 1 \<and>
               (\<forall>m. unat m < NB st \<and> m \<notin> {desc_block st (of_nat k), bg_block_bitmap (bgd st (of_nat k)), sb_block st} \<longrightarrow>
                    blk st' m = blk st m)))"
proof (cases "first_free st [0..<unat (bgdesc_count (fs st))]")
  case None
  then show ?thesis using alloc_block_groups_ok [OF assms] by (auto simp: ext2_alloc_block_def)
next
  case (Some p)
  obtain k i where p: "p = (k, i)" by (cases p)
  note ff = first_free_mem [OF Some [unfolded p]]
  obtain st' where t: "taken (of_nat k) i st st'"
    and a: "ext2_alloc_block st = Some (of_nat k * sb_blocks_per_group (sb st) + of_nat i, st')"
    using alloc_block_groups_ok [OF assms] Some p by (auto simp: ext2_alloc_block_def)
  have gk: "group_ok st (of_nat k)" "group_bits st k \<le> 8 * nbs st" using assms(2) ff by (auto simp: groups_ok_def)
  have "i div 8 < length (bitmap st (of_nat k))"
    using free_bitD(1) [OF conjunct2 [OF ff]] gk length_bitmap [OF assms(1) gk(1)] by simp
  then have bits: "buf_bit (bitmap st' (of_nat k)) j \<longleftrightarrow> buf_bit (bitmap st (of_nat k)) j \<or> j = i" for j
    using t buf_bit_set_iff by (simp add: taken_def)
  have "vol_ok st' \<and> \<not> buf_bit (bitmap st (of_nat k)) i \<and>
     (\<forall>j. buf_bit (bitmap st' (of_nat k)) j \<longleftrightarrow> buf_bit (bitmap st (of_nat k)) j \<or> j = i) \<and>
     bg_free_blocks_count (bgd st' (of_nat k)) = bg_free_blocks_count (bgd st (of_nat k)) - 1 \<and>
     sb_free_blocks_count (sb st') = sb_free_blocks_count (sb st) - 1 \<and>
     (\<forall>m. unat m < NB st \<and> m \<notin> {desc_block st (of_nat k), bg_block_bitmap (bgd st (of_nat k)), sb_block st} \<longrightarrow>
          blk st' m = blk st m)"
    using t bits free_bitD(2) [OF conjunct2 [OF ff]] by (simp add: taken_def count_block_def)
  then show ?thesis using a Some p by auto
qed

definition bitmap_image :: "u32 \<Rightarrow> u8 list" where
  \<comment> \<open>a bitmap whose bits 0 to 6 are set: with 1 KiB blocks, blocks 1 to 7 are in use and block 8 is free\<close>
  "bitmap_image = (empty_image)(3 := 0x7F # replicate 1023 0)"

lemma on_demo_bitmap: "on_demo (with_desc bitmap_image) (demo_ext2 bitmap_image)"
  by (rule on_demo_ext2) (simp add: bitmap_image_def empty_image_def)

lemma demo_bitmap:
  "bitmap (demo_ext2 bitmap_image) 0 = 0x7F # replicate 1023 0"
  "groups_ok (demo_ext2 bitmap_image) [0..<unat (bgdesc_count (fs (demo_ext2 bitmap_image)))]"
  "first_free (demo_ext2 bitmap_image) [0..<unat (bgdesc_count (fs (demo_ext2 bitmap_image)))] = Some (0, 7)"
proof -
  let ?st = "demo_ext2 bitmap_image"
  note od = on_demo_bitmap
  note sz = on_demo_sizes [OF od] and bd = demo_bgd [OF od]
  show bm: "bitmap ?st 0 = 0x7F # replicate 1023 0"
    using on_demo_blk [OF od, of 3] bd(1) by (simp add: bitmap_def demo_bgd_def with_desc_def bitmap_image_def)
  have bits: "group_bits ?st 0 = 64" using sz by (simp add: group_bits_def)
  show "groups_ok ?st [0..<unat (bgdesc_count (fs ?st))]"
    using sz bd bits by (simp add: groups_ok_def group_ok_def demo_bgd_def sb_block_def)
  have up: "[0..<64] = [0, 1, 2, 3, 4, 5, 6, 7] @ [8..<(64 :: nat)]" by (simp add: upt_rec)
  have "find (\<lambda>i. \<not> buf_bit (bitmap ?st 0) i) [0..<64] = Some 7"
    unfolding up find_append bm by (simp add: buf_bit_def bit_simps)
  then have "free_bit ?st 0 = Some 7" using bits bd(1) by (simp add: free_bit_def demo_bgd_def)
  then show "first_free ?st [0..<unat (bgdesc_count (fs ?st))] = Some (0, 7)" using sz by simp
qed

theorem ext2_alloc_block_correct_witness:
  "\<exists>st'. ext2_alloc_block (demo_ext2 bitmap_image) = Some (7, st') \<and>
     (\<forall>j. buf_bit (bitmap st' 0) j \<longleftrightarrow> buf_bit (0x7F # replicate 1023 0) j \<or> j = 7)"
  using ext2_alloc_block_correct [OF on_demo_vol_ok [OF on_demo_bitmap] demo_bitmap(2)] demo_bitmap(1,3)
  by auto

definition block_in_use :: "'a ext2_state_scheme \<Rightarrow> u32 \<Rightarrow> bool" where
  \<comment> \<open>what the bitmap says of a block: in the ext2 format bit \<open>i\<close> of group \<open>g\<close> stands for block
      \<open>first_data_block + g * blocks_per_group + i\<close>\<close>
  "block_in_use st b \<longleftrightarrow>
     b < sb_first_data_block (sb st) \<or>
     (let r = b - sb_first_data_block (sb st) in
      buf_bit (bitmap st (r div sb_blocks_per_group (sb st))) (unat (r mod sb_blocks_per_group (sb st))))"

text \<open>
  C22. Allocation on 1 KiB blocks. The file systems the build creates have 1 KiB blocks, for which
  \<open>first_data_block\<close> is 1. There \<open>ext2_alloc_block\<close>, which takes bit \<open>i\<close> for block
  \<open>bg * blocks_per_group + i\<close>, hands out a block that the bitmap marks as in use: the one just below
  the free block whose bit it sets.
\<close>
theorem ext2_alloc_block_hands_out_used_block:
  assumes "vol_ok st" and "groups_ok st [0..<unat (bgdesc_count (fs st))]" and "sb_first_data_block (sb st) = 1"
    and "first_free st [0..<unat (bgdesc_count (fs st))] = Some (0, i)" and "i < unat (sb_blocks_per_group (sb st))"
  shows "\<exists>st'. ext2_alloc_block st = Some (of_nat i, st') \<and> block_in_use st (of_nat i)"
proof -
  have a: "\<exists>st'. ext2_alloc_block st = Some (of_nat i, st')"
    using alloc_block_groups_ok [OF assms(1,2)] assms(4) by (auto simp: ext2_alloc_block_def)
  let ?b = "of_nat i :: u32" and ?p = "sb_blocks_per_group (sb st)"
  have ui: "unat ?b = i" using assms(5) by (metis le_unat_uoi less_imp_le)
  show ?thesis
  proof (cases "i = 0")
    case True
    then show ?thesis using a assms(3) by (auto simp: block_in_use_def)
  next
    case False
    then have u1: "unat (?b - 1) = i - 1" using ui by (simp add: unat_sub word_le_nat_alt)
    have "(?b - 1) div ?p = 0" "unat ((?b - 1) mod ?p) = i - 1"
      using u1 assms(5) by (simp_all add: word_unat_eq_iff unat_div unat_mod)
    moreover have "buf_bit (bitmap st 0) (i - 1)"
      using free_bitD(3) [of st 0 i "i - 1"] first_free_mem [OF assms(4)] False by simp
    ultimately have "block_in_use st ?b" using assms(3) by (simp add: block_in_use_def Let_def)
    then show ?thesis using a by blast
  qed
qed

theorem ext2_alloc_block_hands_out_used_block_witness:
  "\<exists>st'. ext2_alloc_block (demo_ext2 bitmap_image) = Some (7, st') \<and> block_in_use (demo_ext2 bitmap_image) 7"
proof -
  have "sb_first_data_block (sb (demo_ext2 bitmap_image)) = 1"
    and "7 < unat (sb_blocks_per_group (sb (demo_ext2 bitmap_image)))"
    using on_demo_sizes(5) [OF on_demo_bitmap] by simp_all
  from ext2_alloc_block_hands_out_used_block [OF on_demo_vol_ok [OF on_demo_bitmap] demo_bitmap(2) this(1) demo_bitmap(3) this(2)]
  show ?thesis by simp
qed

lemma rd_many_sector:
  "dev.rd_many d ds l m = Some bs \<Longrightarrow> disks_wf ds \<Longrightarrow> j < m \<Longrightarrow>
     read_sector ds d (l + of_nat j) = Some (get_bytes (512 * j) 512 bs)"
proof (induction m arbitrary: l bs j)
  case (Suc m)
  then obtain x rest where x: "read_sector ds d l = Some x" "dev.rd_many d ds (l + 1) m = Some rest" "bs = x @ rest"
    by (auto split: option.splits)
  have lx: "length x = 512" by (rule dev.rd_length [OF Suc.prems(2) x(1)])
  show ?case
  proof (cases j)
    case 0
    then show ?thesis using x lx by (simp add: get_bytes_def)
  next
    case j: (Suc j')
    then show ?thesis
      using Suc.IH [OF x(2) Suc.prems(2), of j'] Suc.prems(3) x(3) lx by (simp add: get_bytes_def add_ac)
  qed
qed simp

text \<open>
  C23. The super block of larger blocks. Where the block size is not 1 KiB, \<open>ext2_write_sb\<close> stores the
  super block at the start of block 0 and not at byte 1024, where \<open>ext2_mount\<close> reads it; and what a
  later mount finds there is whatever the last transfer left at that place of the shared buffer.
\<close>
theorem ext2_write_sb_misplaced:
  assumes "vol_ok st" and "bsize st \<noteq> 1024" and "0 < NB st"
  shows "\<exists>st'. ext2_write_sb st = Some (0, st') \<and>
    block_read (ext2_disks st') (fs_dev (fs st')) 2 1 = (0, get_bytes 1024 512 (ext2_buf st))"
proof -
  have z: "sb_block st = 0" using assms(2) by (simp add: sb_block_def)
  then obtain st' where w: "ext2_write_sb st = Some (0, st')"
    and s: "stored 0 (put_bytes 0 (encode_sb (sb st)) (take (nbs st) (ext2_buf st))) st st'"
    using write_sb_ok [OF assms(1)] assms(3) by (metis unat_0)
  let ?data = "put_bytes 0 (encode_sb (sb st)) (take (nbs st) (ext2_buf st))"
  have v': "vol_ok st'" and f: "fs st' = fs st" and n: "NB st' = NB st" by (rule storedD [OF s])+
  have b0: "blk st' 0 = ?data" using storedD(7) [OF s, of 0] assms(3) by simp
  have k: "spb st' = spb st" "3 < spb st" "2 * 512 + 512 \<le> nbs st"
    using f vol_okD(6) [OF assms(1)] assms(2) by (auto simp: spb_def)
  have rm: "dev.rd_many (vol_dev st') (ext2_disks st') 0 (spb st') = Some ?data"
    using blk_rd_many(1) [OF v', of 0] assms(3) n b0 by simp
  have "read_sector (ext2_disks st') (vol_dev st') 2 = Some (get_bytes 1024 512 ?data)"
    using rd_many_sector [OF rm vol_okD(4) [OF v'], of 2] k by simp
  moreover have "get_bytes 1024 512 ?data = get_bytes 1024 512 (ext2_buf st)"
  proof -
    have le: "length (encode_sb (sb st)) = 136" using sb.length_encode vol_okD(5) [OF assms(1)] by (simp add: SB_SIZE_def)
    have ln: "length (take (nbs st) (ext2_buf st)) = nbs st"
      using vol_okD(3) [OF assms(1)] vol_ok_size(2) [OF assms(1)] by simp
    have "get_bytes 1024 512 ?data = get_bytes 1024 512 (take (nbs st) (ext2_buf st))"
      using le ln k by (intro get_put_disjoint) auto
    also have "\<dots> = get_bytes 1024 512 (ext2_buf st)" using k(3) by (simp add: get_bytes_def take_drop min_def)
    finally show ?thesis .
  qed
  ultimately have "block_read (ext2_disks st') (fs_dev (fs st')) 2 1 = (0, get_bytes 1024 512 (ext2_buf st))"
    using vol_okD(1,2) [OF v'] by (simp add: block_read_def)
  then show ?thesis using w by blast
qed

definition demo_2k :: ext2_state where
  \<comment> \<open>the disk seen as 32 blocks of 2 KiB\<close>
  "demo_2k = (demo_ext2 empty_image)\<lparr>fs := demo_vol\<lparr>fs_block_size := 2048, fs_sb := demo_sb\<lparr>sb_blocks_count := 32\<rparr>\<rparr>\<rparr>"

lemma vol_ok_demo_2k: "vol_ok demo_2k"
proof -
  have od: "on_demo (with_desc empty_image) (demo_ext2 empty_image)" by (rule on_demo_ext2) (simp add: empty_image_def)
  from on_demo_vol_ok [OF od] on_demo_sizes [OF od]
  have "disks_wf (ext2_disks demo_2k)" and "\<And>l. unat l < 128 \<Longrightarrow> read_sector (ext2_disks demo_2k) demo_disk l \<noteq> None"
    by (auto simp: vol_ok_def demo_2k_def)
  moreover have "wf_sb (demo_sb\<lparr>sb_blocks_count := 32\<rparr>)" using demo_sb_simps(8) by (simp add: wf_sb_def)
  moreover have "length (ext2_buf demo_2k) = EXT2_BUF_SIZE" by (simp add: demo_2k_def demo_ext2_def)
  ultimately show ?thesis
    unfolding vol_ok_def by (simp add: demo_2k_def demo_vol_def NB_def spb_def vol_dev_def demo_disk_def)
qed

theorem ext2_write_sb_misplaced_witness:
  "\<exists>st'. ext2_write_sb demo_2k = Some (0, st') \<and>
     block_read (ext2_disks st') (fs_dev (fs st')) 2 1 = (0, replicate 512 0) \<and>
     decode_sb (replicate 136 0) \<noteq> sb demo_2k"
proof -
  have "bsize demo_2k \<noteq> 1024" and "0 < NB demo_2k" by (simp_all add: demo_2k_def demo_vol_def NB_def)
  from ext2_write_sb_misplaced [OF vol_ok_demo_2k this]
  obtain st' where "ext2_write_sb demo_2k = Some (0, st')"
    "block_read (ext2_disks st') (fs_dev (fs st')) 2 1 = (0, get_bytes 1024 512 (ext2_buf demo_2k))" by blast
  moreover have "get_bytes 1024 512 (ext2_buf demo_2k) = replicate 512 0"
    by (simp add: demo_2k_def demo_ext2_def EXT2_BUF_SIZE_def get_bytes_def)
  moreover have "sb_blocks_count (decode_sb (replicate 136 0)) \<noteq> sb_blocks_count (sb demo_2k)"
    by (simp add: decode_sb_def demo_2k_def demo_vol_def of_le32_def get_bytes_def)
  ultimately show ?thesis by auto
qed

end
