(* ===== verification/Ext2_Data.thy ===== *)
theory Ext2_Data
  imports Ext2_Bitmap
begin

text \<open>
  The data of a file. The first \<open>k\<close> blocks of a file, up to the twelve direct ones, are one sequence
  of bytes, its \<open>content\<close>; writing to allocated blocks replaces a section of it and reading returns one.
\<close>

subsection \<open>Sections of a byte sequence\<close>

lemma put_put_adjacent:
  assumes "pos + length xs + length ys \<le> length c"
  shows "put_bytes (pos + length xs) ys (put_bytes pos xs c) = put_bytes pos (xs @ ys) c"
  using assms by (intro nth_equalityI) (auto simp: buf_simps nth_append)

lemma get_get_adjacent:
  assumes "pos + n + m \<le> length c"
  shows "get_bytes pos n c @ get_bytes (pos + n) m c = get_bytes pos (n + m) c"
  using assms by (intro nth_equalityI) (auto simp: buf_simps nth_append)

lemma length_concat_uniform: "(\<And>x. x \<in> set xs \<Longrightarrow> length x = L) \<Longrightarrow> length (concat xs) = length xs * L"
  by (induction xs) auto

lemma put_bytes_append_left:
  "off + length x \<le> length a \<Longrightarrow> put_bytes off x (a @ b) = put_bytes off x a @ b"
  by (simp add: put_bytes_def)

lemma put_bytes_append_right:
  "length a \<le> off \<Longrightarrow> put_bytes off x (a @ b) = a @ put_bytes (off - length a) x b"
  by (simp add: put_bytes_def)

lemma put_bytes_concat:
  assumes "q < length bs" and "\<And>b. b \<in> set bs \<Longrightarrow> length b = L" and "off + length x \<le> L"
  shows "put_bytes (q * L + off) x (concat bs) = concat (bs[q := put_bytes off x (bs ! q)])"
  using assms
proof (induction bs arbitrary: q)
  case (Cons b bs)
  then have L: "length b = L" by simp
  show ?case
  proof (cases q)
    case 0
    then show ?thesis using L Cons.prems(3) by (simp add: put_bytes_append_left)
  next
    case (Suc p)
    have "put_bytes (q * L + off) x (concat (b # bs)) = b @ put_bytes (p * L + off) x (concat bs)"
      using Suc L by (simp add: put_bytes_append_right)
    then show ?thesis using Cons.IH [of p] Cons.prems Suc by simp
  qed
qed simp

lemma get_bytes_concat:
  assumes "q < length bs" and "\<And>b. b \<in> set bs \<Longrightarrow> length b = L" and "off + n \<le> L"
  shows "get_bytes (q * L + off) n (concat bs) = get_bytes off n (bs ! q)"
  using assms
proof (induction bs arbitrary: q)
  case (Cons b bs)
  then have L: "length b = L" by simp
  show ?case
  proof (cases q)
    case 0
    then show ?thesis using L Cons.prems(3) by (simp add: get_bytes_def)
  next
    case (Suc p)
    then have "get_bytes (q * L + off) n (concat (b # bs)) = get_bytes (p * L + off) n (concat bs)"
      using L by (simp add: get_bytes_def)
    then show ?thesis using Cons.IH [of p] Cons.prems Suc by simp
  qed
qed simp

subsection \<open>The content of a file\<close>

definition content :: "'a ext2_state_scheme \<Rightarrow> u32 list \<Rightarrow> u8 list" where
  "content st bs = concat (map (blk st) bs)"

definition data_ok :: "'a ext2_state_scheme \<Rightarrow> u32 list \<Rightarrow> bool" where
  \<comment> \<open>different blocks of the volume, at most the twelve direct ones\<close>
  "data_ok st bs \<longleftrightarrow> distinct bs \<and> length bs \<le> 12 \<and> (\<forall>b \<in> set bs. b \<noteq> 0 \<and> unat b < NB st)"

lemma length_content: "vol_ok st \<Longrightarrow> data_ok st bs \<Longrightarrow> length (content st bs) = length bs * nbs st"
  unfolding content_def
  by (subst length_concat_uniform [where L = "nbs st"]) (auto simp: data_ok_def blk_rd_many(3))

definition same_but :: "u32 set \<Rightarrow> 'a ext2_state_scheme \<Rightarrow> 'a ext2_state_scheme \<Rightarrow> bool" where
  \<comment> \<open>\<open>st'\<close> differs from \<open>st\<close> in these blocks and in the buffer only\<close>
  "same_but B st st' \<longleftrightarrow>
     vol_ok st' \<and> (\<exists>ds b. st' = st\<lparr>ext2_disks := ds, ext2_buf := b\<rparr>) \<and>
     (\<forall>m. unat m < NB st \<and> m \<notin> B \<longrightarrow> blk st' m = blk st m)"

lemma same_butD:
  assumes "same_but B st st'"
  shows "vol_ok st'" and "fs st' = fs st" and "NB st' = NB st" and "vfs_inodes st' = vfs_inodes st"
    and "ext2_data_pool st' = ext2_data_pool st"
    and "unat m < NB st \<Longrightarrow> m \<notin> B \<Longrightarrow> blk st' m = blk st m"
  using assms by (auto simp: same_but_def NB_def)

lemma same_but_refl: "vol_ok st \<Longrightarrow> same_but B st st"
  unfolding same_but_def by (intro conjI exI [of _ "ext2_disks st"] exI [of _ "ext2_buf st"]) auto

lemma stored_same_but: "stored n data st st' \<Longrightarrow> n \<in> B \<Longrightarrow> same_but B st st'"
  unfolding stored_def same_but_def by auto

lemma same_but_trans:
  assumes "same_but B st st1" and "same_but B st1 st2"
  shows "same_but B st st2"
proof -
  obtain ds b where 1: "st1 = st\<lparr>ext2_disks := ds, ext2_buf := b\<rparr>" using assms(1) unfolding same_but_def by blast
  obtain ds' b' where 2: "st2 = st1\<lparr>ext2_disks := ds', ext2_buf := b'\<rparr>" using assms(2) unfolding same_but_def by blast
  have eq: "st2 = st\<lparr>ext2_disks := ds', ext2_buf := b'\<rparr>" unfolding 2 1 by simp
  have bl: "\<forall>m. unat m < NB st \<and> m \<notin> B \<longrightarrow> blk st2 m = blk st m"
    using same_butD(6) [OF assms(1)] same_butD(6) [OF assms(2)] same_butD(3) [OF assms(1)] by simp
  show ?thesis unfolding same_but_def using same_butD(1) [OF assms(2)] eq bl by (intro conjI exI) auto
qed

lemma same_but_load: "vol_ok st \<Longrightarrow> unat n < NB st \<Longrightarrow> same_but B st (load n st)"
  unfolding same_but_def
  by (intro conjI exI [of _ "ext2_disks st"] exI [of _ "put_bytes 0 (blk st n) (ext2_buf st)"])
    (auto simp: vol_ok_load, simp add: load_def)

subsection \<open>One block of a write\<close>

lemma bmap_direct:
  assumes "q < length bs" and "length bs \<le> 12" and "take (length bs) (di_block raw) = bs"
  shows "ext2_inode_bmap raw (of_nat q) st = Some (bs ! q, st)"
proof -
  have q: "q < 12" using assms(1,2) by simp
  then have "unat (of_nat q :: u32) = q" by (simp add: unat_of_nat)
  then have "(of_nat q :: u32) < 12" "di_block raw ! unat (of_nat q :: u32) = bs ! q"
    using q assms by (auto simp: word_less_nat_alt) (metis nth_take)
  then show ?thesis by (simp add: ext2_inode_bmap_def)
qed

lemma chunk_len_fits:
  assumes "vol_ok st"
  shows "unat (pos mod bsize st) + chunk_len (bsize st) pos n \<le> nbs st"
    and "chunk_len (bsize st) pos n \<le> n"
proof -
  have "pos mod bsize st < bsize st"
    using vol_ok_size(5) [OF assms] by (simp add: word_mod_less_divisor word_neq_0_conv)
  then have "unat (pos mod bsize st) + unat (bsize st - pos mod bsize st) = nbs st"
    by (simp add: unat_sub word_less_nat_alt word_le_nat_alt)
  then show "unat (pos mod bsize st) + chunk_len (bsize st) pos n \<le> nbs st"
    unfolding chunk_len_def by linarith
  show "chunk_len (bsize st) pos n \<le> n" by (simp add: chunk_len_def)
qed

lemma write_chunk_ok:
  assumes "vol_ok st" and "unat b < NB st" and "src \<noteq> []"
  obtains st' where "write_chunk (bsize st) b pos src st = Some (0, st')"
    and "stored b (put_bytes (unat (pos mod bsize st)) (take (chunk_len (bsize st) pos (length src)) src) (blk st b)) st st'"
proof -
  let ?o = "unat (pos mod bsize st)" and ?x = "take (chunk_len (bsize st) pos (length src)) src"
  have fit: "?o + length ?x \<le> nbs st" using chunk_len_fits [OF assms(1), of pos "length src"] by simp
  have len: "length (blk st b) = nbs st" by (rule blk_rd_many(3) [OF assms(1,2)])
  show thesis
  proof (cases "pos mod bsize st = 0 \<and> nbs st \<le> length src")
    case True
    from write_block_ok [OF assms(1,2) conjunct2 [OF True]]
    obtain ds where w: "ext2_write_block b src st = Some (0, st\<lparr>ext2_disks := ds\<rparr>)"
      "vol_ok (st\<lparr>ext2_disks := ds\<rparr>)"
      "\<And>m. unat m < NB st \<Longrightarrow> blk (st\<lparr>ext2_disks := ds\<rparr>) m = (if m = b then take (nbs st) src else blk st m)" by blast
    have "put_bytes ?o ?x (blk st b) = take (nbs st) src"
      using True len by (simp add: chunk_len_def put_bytes_whole)
    moreover have "\<exists>ds' c. st\<lparr>ext2_disks := ds\<rparr> = st\<lparr>ext2_disks := ds', ext2_buf := c\<rparr>"
      by (intro exI [of _ ds] exI [of _ "ext2_buf st"]) simp
    ultimately have "stored b (put_bytes ?o ?x (blk st b)) st (st\<lparr>ext2_disks := ds\<rparr>)"
      using w(2,3) unfolding stored_def by auto
    then show thesis using that w(1) True by (simp add: write_chunk_def)
  next
    case False
    from modify_block [OF assms(1,2) fit]
    obtain st' where m: "set_buf ?o ?x (load b st) = Some (st\<lparr>ext2_buf := put_bytes ?o ?x (ext2_buf (load b st))\<rparr>)"
      "write_buf b (st\<lparr>ext2_buf := put_bytes ?o ?x (ext2_buf (load b st))\<rparr>) = Some (0, st')"
      "stored b (put_bytes ?o ?x (blk st b)) st st'" by blast
    then show thesis
      using that False read_block_ok [OF assms(1,2)] by (auto simp: write_chunk_def)
  qed
qed

subsection \<open>The loops\<close>

lemma pos_parts:
  assumes "vol_ok st"
  shows "pos div bsize st = of_nat (unat pos div nbs st)" and "unat pos = unat pos div nbs st * nbs st + unat (pos mod bsize st)"
proof -
  have lt: "unat pos < 2 ^ 32" using unsigned_less [of pos, where 'a = nat] by simp
  have "unat pos div nbs st < 2 ^ 32" using div_le_dividend lt by (rule le_less_trans)
  then have "unat (of_nat (unat pos div nbs st) :: u32) = unat pos div nbs st" by (simp add: unat_of_nat)
  then show "pos div bsize st = of_nat (unat pos div nbs st)" by (simp only: word_unat_eq_iff unat_div)
  show "unat pos = unat pos div nbs st * nbs st + unat (pos mod bsize st)" by (simp add: unat_mod)
qed

lemma pos_block:
  assumes "vol_ok st" and "unat pos + n \<le> length bs * nbs st" and "0 < n"
  shows "unat pos div nbs st < length bs"
proof -
  have "unat pos < length bs * nbs st" using assms(2,3) by simp
  then show ?thesis by (simp add: less_mult_imp_div_less)
qed

lemma pos_advance:
  assumes "vol_ok st" and "length bs \<le> 12" and "unat (pos :: u32) + n \<le> length bs * nbs st" and "k \<le> n"
  shows "unat (pos + of_nat k) = unat pos + k"
proof -
  have "length bs * nbs st \<le> 12 * 4096"
    using assms(2) vol_ok_size(2) [OF assms(1)] by (intro mult_le_mono) (simp_all add: EXT2_BUF_SIZE_def)
  then have "unat pos + k < 2 ^ 32" and "k < 2 ^ 32" using assms(3,4) by simp_all
  then show ?thesis by (simp add: unat_word_ariths unat_of_nat)
qed

lemma content_stored:
  assumes "vol_ok st" and "data_ok st bs" and "q < length bs" and "off + length x \<le> nbs st"
    and "stored (bs ! q) (put_bytes off x (blk st (bs ! q))) st st'"
  shows "content st' bs = put_bytes (q * nbs st + off) x (content st bs)"
proof -
  have "blk st' (bs ! i) = (if i = q then put_bytes off x (blk st (bs ! q)) else blk st (bs ! i))"
    if i: "i < length bs" for i
  proof -
    have "unat (bs ! i) < NB st" "bs ! i = bs ! q \<longleftrightarrow> i = q"
      using assms(2,3) i by (auto simp: data_ok_def nth_eq_iff_index_eq)
    then show ?thesis using storedD(7) [OF assms(5)] by auto
  qed
  then have "map (blk st') bs = (map (blk st) bs)[q := put_bytes off x (blk st (bs ! q))]"
    using assms(3) by (intro nth_equalityI) (auto simp: nth_list_update)
  moreover have "\<And>b. b \<in> set (map (blk st) bs) \<Longrightarrow> length b = nbs st"
    using assms(1,2) by (auto simp: data_ok_def blk_rd_many(3))
  ultimately show ?thesis
    unfolding content_def using put_bytes_concat [of q "map (blk st) bs" "nbs st" off x] assms(3,4) by simp
qed

lemma data_ok_same: "NB st' = NB st \<Longrightarrow> data_ok st' bs = data_ok st bs"
  by (simp add: data_ok_def)

lemma write_loop_ok:
  assumes "vol_ok st" and "data_ok st bs" and "take (length bs) (di_block raw) = bs"
    and "unat pos + length src \<le> length bs * nbs st"
  shows "\<exists>st'. write_loop (bsize st) raw pos src st = Some (pos + of_nat (length src), raw, st') \<and>
           same_but (set bs) st st' \<and> content st' bs = put_bytes (unat pos) src (content st bs)"
  using assms(1,2,4)
proof (induction "length src" arbitrary: pos src st rule: less_induct)
  case less
  show ?case
  proof (cases "src = []")
    case True
    then show ?thesis
      using same_but_refl [OF less.prems(1)] by (subst write_loop.simps) auto
  next
    case False
    let ?bs = "bsize st" and ?q = "unat pos div nbs st" and ?n = "chunk_len (bsize st) pos (length src)"
    let ?o = "unat (pos mod bsize st)" and ?x = "take (chunk_len (bsize st) pos (length src)) src"
    have l12: "length bs \<le> 12" using less.prems(2) by (simp add: data_ok_def)
    have q: "?q < length bs" using pos_block [OF less.prems(1,3)] False by simp
    have b: "bs ! ?q \<noteq> 0" "unat (bs ! ?q) < NB st" using q less.prems(2) by (auto simp: data_ok_def)
    have mb: "map_block raw (pos div ?bs) st = Some (bs ! ?q, raw, st)"
      using bmap_direct [OF q l12 assms(3), of st] b(1) pos_parts(1) [OF less.prems(1), of pos] by (simp add: map_block_def)
    obtain st1 where w: "write_chunk ?bs (bs ! ?q) pos src st = Some (0, st1)"
      and s: "stored (bs ! ?q) (put_bytes ?o ?x (blk st (bs ! ?q))) st st1"
      using write_chunk_ok [OF less.prems(1) b(2) False] by blast
    note fit = chunk_len_fits [OF less.prems(1), of pos "length src"]
    have n0: "0 < ?n" using chunk_len_pos [of ?bs "length src" pos] False vol_ok_size(5) [OF less.prems(1)]
      by (simp add: word_neq_0_conv)
    have c1: "content st1 bs = put_bytes (unat pos) ?x (content st bs)"
      using content_stored [OF less.prems(1,2) q _ s] fit pos_parts(2) [OF less.prems(1), of pos] by simp
    have sb1: "same_but (set bs) st st1" using stored_same_but [OF s] q by simp
    note f1 = same_butD [OF sb1]
    have adv: "unat (pos + of_nat ?n) = unat pos + ?n" by (rule pos_advance [OF less.prems(1) l12 less.prems(3) fit(2)])
    have "\<exists>st'. write_loop (bsize st1) raw (pos + of_nat ?n) (drop ?n src) st1
            = Some (pos + of_nat ?n + of_nat (length (drop ?n src)), raw, st') \<and>
          same_but (set bs) st1 st' \<and>
          content st' bs = put_bytes (unat (pos + of_nat ?n)) (drop ?n src) (content st1 bs)"
      using less.hyps [of "drop ?n src" st1 "pos + of_nat ?n"] n0 False f1(1) less.prems(2,3)
        data_ok_same [OF f1(3)] f1(2) adv fit(2) by simp
    then obtain st' where r: "write_loop ?bs raw (pos + of_nat ?n) (drop ?n src) st1
            = Some (pos + of_nat ?n + of_nat (length (drop ?n src)), raw, st')"
      and sb2: "same_but (set bs) st1 st'"
      and c2: "content st' bs = put_bytes (unat pos + ?n) (drop ?n src) (content st1 bs)"
      using f1(2) adv by auto
    have "put_bytes (unat pos + ?n) (drop ?n src) (put_bytes (unat pos) ?x (content st bs)) = put_bytes (unat pos) src (content st bs)"
      using put_put_adjacent [of "unat pos" ?x "drop ?n src" "content st bs"] fit(2) less.prems(3)
        length_content [OF less.prems(1,2)] by simp
    then have c: "content st' bs = put_bytes (unat pos) src (content st bs)" using c1 c2 by simp
    have p: "pos + of_nat ?n + of_nat (length (drop ?n src)) = pos + of_nat (length src)"
      using fit(2) by (simp add: of_nat_diff)
    have "write_loop ?bs raw pos src st = Some (pos + of_nat (length src), raw, st')"
      using False vol_ok_size(5) [OF less.prems(1)] mb b(1) w r [unfolded p]
      by (subst write_loop.simps) (simp add: Let_def)
    then show ?thesis using same_but_trans [OF sb1 sb2] c by blast
  qed
qed

lemma read_loop_ok:
  assumes "vol_ok st" and "data_ok st bs" and "take (length bs) (di_block raw) = bs"
    and "unat pos + n \<le> length bs * nbs st"
  shows "\<exists>st'. read_loop (bsize st) raw pos n st = Some (pos + of_nat n, get_bytes (unat pos) n (content st bs), st')"
  using assms(1,2,4)
proof (induction n arbitrary: pos st rule: less_induct)
  case (less n)
  show ?case
  proof (cases "n = 0")
    case True
    then show ?thesis by (subst read_loop.simps) (simp add: get_bytes_def)
  next
    case False
    let ?bs = "bsize st" and ?q = "unat pos div nbs st" and ?n = "chunk_len (bsize st) pos n"
    let ?o = "unat (pos mod bsize st)"
    have l12: "length bs \<le> 12" using less.prems(2) by (simp add: data_ok_def)
    have q: "?q < length bs" using pos_block [OF less.prems(1,3)] False by simp
    have b: "bs ! ?q \<noteq> 0" "unat (bs ! ?q) < NB st" using q less.prems(2) by (auto simp: data_ok_def)
    have mb: "ext2_inode_bmap raw (pos div ?bs) st = Some (bs ! ?q, st)"
      using bmap_direct [OF q l12 assms(3), of st] pos_parts(1) [OF less.prems(1), of pos] by simp
    let ?st1 = "load (bs ! ?q) st"
    note fit = chunk_len_fits [OF less.prems(1), of pos n]
    have n0: "0 < ?n" using chunk_len_pos [of ?bs n pos] False vol_ok_size(5) [OF less.prems(1)]
      by (simp add: word_neq_0_conv)
    have adv: "unat (pos + of_nat ?n) = unat pos + ?n" by (rule pos_advance [OF less.prems(1) l12 less.prems(3) fit(2)])
    have c1: "content ?st1 bs = content st bs" by (simp add: content_def)
    have len: "\<And>b. b \<in> set (map (blk st) bs) \<Longrightarrow> length b = nbs st"
      using less.prems(1,2) by (auto simp: data_ok_def blk_rd_many(3))
    have g: "get_bytes ?o ?n (ext2_buf ?st1) = get_bytes (unat pos) ?n (content st bs)"
      using get_load [OF less.prems(1) b(2) fit(1)] get_bytes_concat [of ?q "map (blk st) bs" "nbs st" ?o ?n] len q fit(1)
        pos_parts(2) [OF less.prems(1), of pos] by (simp add: content_def)
    obtain st' where r: "read_loop ?bs raw (pos + of_nat ?n) (n - ?n) ?st1
        = Some (pos + of_nat ?n + of_nat (n - ?n), get_bytes (unat pos + ?n) (n - ?n) (content st bs), st')"
      using less.IH [of "n - ?n" ?st1 "pos + of_nat ?n"] n0 False vol_ok_load [OF less.prems(1) b(2)] less.prems(2,3)
        data_ok_same [of ?st1 st] adv fit(2) c1 by auto
    have p: "pos + of_nat ?n + of_nat (n - ?n) = pos + of_nat n" using fit(2) by (simp add: of_nat_diff)
    have gg: "get_bytes (unat pos) ?n (content st bs) @ get_bytes (unat pos + ?n) (n - ?n) (content st bs)
        = get_bytes (unat pos) n (content st bs)"
      using get_get_adjacent [of "unat pos" ?n "n - ?n" "content st bs"] fit(2) less.prems(3)
        length_content [OF less.prems(1,2)] by simp
    have "read_loop ?bs raw pos n st = Some (pos + of_nat n, get_bytes (unat pos) n (content st bs), st')"
      using False vol_ok_size(5) [OF less.prems(1)] mb b read_block_ok [OF less.prems(1) b(2)] g r [unfolded p] gg
      by (subst read_loop.simps) (simp add: Let_def)
    then show ?thesis by blast
  qed
qed

subsection \<open>A file as a whole\<close>

lemma upd_inode_ext2 [simp]:
  "fs (upd_inode i f st) = fs st" "ext2_disks (upd_inode i f st) = ext2_disks st"
  "ext2_buf (upd_inode i f st) = ext2_buf st" "ext2_data_pool (upd_inode i f st) = ext2_data_pool st"
  "ext2_data_pool_next (upd_inode i f st) = ext2_data_pool_next st"
  "vfs_inodes (upd_inode i f st) = (vfs_inodes st)(i := f (vfs_inodes st i))"
  by (simp_all add: upd_inode_def)

lemma views_upd_inode [simp]:
  "blk (upd_inode i f st) = blk st" "NB (upd_inode i f st) = NB st" "vol_ok (upd_inode i f st) = vol_ok st"
  "desc_block (upd_inode i f st) = desc_block st" "group_of (upd_inode i f st) = group_of st"
  "slot (upd_inode i f st) = slot st" "inode_ok (upd_inode i f st) = inode_ok st"
  "dinode (upd_inode i f st) = dinode st" "content (upd_inode i f st) = content st"
  "data_ok (upd_inode i f st) = data_ok st"
proof -
  let ?st = "upd_inode i f st"
  show b: "blk ?st = blk st" and n: "NB ?st = NB st" by (simp_all add: fun_eq_iff blk_def NB_def)
  show "vol_ok ?st = vol_ok st" by (simp add: vol_ok_def vol_dev_def NB_def spb_def)
  show d: "desc_block ?st = desc_block st" and g: "group_of ?st = group_of st"
    by (simp_all add: fun_eq_iff desc_block_def group_of_def)
  have "bgd ?st = bgd st" by (simp add: fun_eq_iff bgd_def b d desc_off_def)
  then show s: "slot ?st = slot st" by (simp add: fun_eq_iff slot_def g inode_pos_def fs_inode_size_def)
  show "inode_ok ?st = inode_ok st" by (simp add: fun_eq_iff inode_ok_def d g s n)
  show "dinode ?st = dinode st" by (simp add: fun_eq_iff dinode_def s b)
  show "content ?st = content st" by (simp add: fun_eq_iff content_def b)
  show "data_ok ?st = data_ok st" by (simp add: fun_eq_iff data_ok_def n)
qed

lemma inode_same_but:
  assumes "same_but B st st'" and "inode_ok st ino" and "desc_block st (group_of st ino) \<notin> B"
  shows "inode_ok st' ino" and "slot st' ino = slot st ino" and "group_of st' ino = group_of st ino"
    and "desc_block st' (group_of st ino) = desc_block st (group_of st ino)"
    and "fst (slot st ino) \<notin> B \<Longrightarrow> dinode st' ino = dinode st ino"
proof -
  note f = same_butD [OF assms(1)]
  have d: "unat (desc_block st (group_of st ino)) < NB st" using assms(2) by (simp add: inode_ok_def)
  show g: "group_of st' ino = group_of st ino" using f(2) by (simp add: group_of_def)
  show k: "desc_block st' (group_of st ino) = desc_block st (group_of st ino)" using f(2) by (simp add: desc_block_def)
  have "bgd st' (group_of st ino) = bgd st (group_of st ino)"
    using f(2,6) d assms(3) k by (simp add: bgd_def desc_off_def)
  then show s: "slot st' ino = slot st ino" using f(2) g by (simp add: slot_def inode_pos_def fs_inode_size_def)
  show "inode_ok st' ino" using assms(2) f(2,3) g k s by (simp add: inode_ok_def)
  show "dinode st' ino = dinode st ino" if "fst (slot st ino) \<notin> B"
    using that s f(6) assms(2) by (simp add: dinode_def inode_ok_def)
qed

definition ino_of :: "'a ext2_state_scheme \<Rightarrow> nat \<Rightarrow> u32" where
  "ino_of st n = (case i_private (inode st n) of Ext2_Data d \<Rightarrow> ext2_data_pool st d | _ \<Rightarrow> 0)"

definition file_ok :: "'a ext2_state_scheme \<Rightarrow> nat \<Rightarrow> u32 list \<Rightarrow> bool" where
  \<comment> \<open>the inode \<open>n\<close> of the VFS is a file of the volume whose first blocks are \<open>bs\<close>, which are not metadata\<close>
  "file_ok st n bs \<longleftrightarrow>
     (\<exists>d. i_private (inode st n) = Ext2_Data d) \<and> i_type (inode st n) \<notin> {VFS_IFCHR, VFS_IFBLK} \<and>
     inode_ok st (ino_of st n) \<and> data_ok st bs \<and> take (length bs) (di_block (dinode st (ino_of st n))) = bs \<and>
     fst (slot st (ino_of st n)) \<notin> set bs \<and> desc_block st (group_of st (ino_of st n)) \<notin> set bs"

lemma file_okD:
  assumes "file_ok st n bs"
  shows "ext2_ino n st = Some (Some (ino_of st n))" and "i_type (inode st n) \<noteq> VFS_IFCHR" "i_type (inode st n) \<noteq> VFS_IFBLK"
    and "inode_ok st (ino_of st n)" and "data_ok st bs" and "take (length bs) (di_block (dinode st (ino_of st n))) = bs"
    and "fst (slot st (ino_of st n)) \<notin> set bs" and "desc_block st (group_of st (ino_of st n)) \<notin> set bs"
  using assms by (auto simp: file_ok_def ext2_ino_def ino_of_def)

lemma file_ok_transfer:
  assumes "file_ok st n bs" and "vfs_inodes st' n = (vfs_inodes st n)\<lparr>i_size := sz\<rparr>"
    and "ext2_data_pool st' = ext2_data_pool st" and "inode_ok st' (ino_of st n)"
    and "NB st' = NB st" and "slot st' (ino_of st n) = slot st (ino_of st n)"
    and "desc_block st' (group_of st' (ino_of st n)) = desc_block st (group_of st (ino_of st n))"
    and "di_block (dinode st' (ino_of st n)) = di_block (dinode st (ino_of st n))"
  shows "file_ok st' n bs" and "ino_of st' n = ino_of st n"
proof -
  show i: "ino_of st' n = ino_of st n" using assms(2,3) by (simp add: ino_of_def split: private_data.split)
  show "file_ok st' n bs"
    using assms(1,2) assms(4-8) data_ok_same [OF assms(5)] unfolding file_ok_def i by simp
qed

lemma file_read_ok:
  assumes "vol_ok st" and "file_ok st n bs"
    and "unat offset + unat len \<le> unat (di_size (dinode st (ino_of st n)))" and "0 < unat len"
    and "unat offset + unat len \<le> length bs * nbs st"
  shows "\<exists>st'. ext2_inode_read n offset len st
    = Some (int (unat len), get_bytes (unat offset) (unat len) (content st bs), st')"
proof -
  note f = file_okD [OF assms(2)]
  let ?ino = "ino_of st n" and ?raw = "dinode st (ino_of st n)"
  have d: "unat (desc_block st (group_of st ?ino)) < NB st" and s: "unat (fst (slot st ?ino)) < NB st"
    using f(4) by (auto simp: inode_ok_def)
  let ?st1 = "load (fst (slot st ?ino)) (load (desc_block st (group_of st ?ino)) st)"
  have v1: "vol_ok ?st1" using vol_ok_load [OF vol_ok_load [OF assms(1) d]] s by simp
  have c1: "content ?st1 bs = content st bs" by (simp add: content_def)
  have k: "length bs \<le> 12" "nbs st \<le> 4096"
    using f(5) vol_ok_size(2) [OF assms(1)] by (auto simp: data_ok_def EXT2_BUF_SIZE_def)
  have "length bs * nbs st \<le> 12 * 4096" using k by (rule mult_le_mono)
  then have small: "unat offset + unat len < 2 ^ 31" using assms(5) by simp
  then have sum: "unat (offset + len) = unat offset + unat len" by (simp add: unat_word_ariths)
  have cmp: "\<not> di_size ?raw \<le> offset" "\<not> di_size ?raw < offset + len"
    using assms(3,4) sum by (auto simp: word_le_nat_alt word_less_nat_alt)
  obtain st' where r: "read_loop (bsize ?st1) ?raw offset (unat len) ?st1
      = Some (offset + of_nat (unat len), get_bytes (unat offset) (unat len) (content ?st1 bs), st')"
    using read_loop_ok [OF v1 _ f(6)] f(5) data_ok_same [of ?st1 st] assms(5) by fastforce
  have "sint (offset + len - offset) = int (unat len)" using small by (simp add: sint_small)
  then have "ext2_inode_read n offset len st = Some (int (unat len), get_bytes (unat offset) (unat len) (content st bs), st')"
    using f(1-3) read_inode_ok [OF assms(1) f(4)] cmp r c1 by (simp add: ext2_inode_read_def)
  then show ?thesis by blast
qed

lemma file_write_ok:
  assumes "vol_ok st" and "file_ok st n bs" and "src \<noteq> []" and "unat offset + length src \<le> length bs * nbs st"
  shows "\<exists>st'. ext2_inode_write n offset src st = Some (int (length src), st') \<and> vol_ok st' \<and> file_ok st' n bs \<and>
    ino_of st' n = ino_of st n \<and> fs st' = fs st \<and>
    content st' bs = put_bytes (unat offset) src (content st bs) \<and>
    unat (di_size (dinode st' (ino_of st n))) = max (unat (di_size (dinode st (ino_of st n)))) (unat offset + length src)"
proof -
  note f = file_okD [OF assms(2)]
  let ?ino = "ino_of st n" and ?raw = "dinode st (ino_of st n)"
  have d: "unat (desc_block st (group_of st ?ino)) < NB st" and s: "unat (fst (slot st ?ino)) < NB st"
    using f(4) by (auto simp: inode_ok_def)
  let ?st1 = "load (fst (slot st ?ino)) (load (desc_block st (group_of st ?ino)) st)"
  have v1: "vol_ok ?st1" using vol_ok_load [OF vol_ok_load [OF assms(1) d]] s by simp
  have sb1: "same_but (set bs) st ?st1"
    using same_but_trans [OF same_but_load [OF assms(1) d] same_but_load [OF vol_ok_load [OF assms(1) d]]] s by simp
  obtain st2 where w: "write_loop (bsize ?st1) ?raw offset src ?st1 = Some (offset + of_nat (length src), ?raw, st2)"
    and sb12: "same_but (set bs) ?st1 st2" and c2: "content st2 bs = put_bytes (unat offset) src (content ?st1 bs)"
    using write_loop_ok [OF v1 _ f(6)] f(5) data_ok_same [of ?st1 st] assms(4) by fastforce
  have sb2: "same_but (set bs) st st2" by (rule same_but_trans [OF sb1 sb12])
  note i2 = inode_same_but [OF sb2 f(4,8)] and f2 = same_butD [OF sb2]
  have k: "length bs \<le> 12" "nbs st \<le> 4096"
    using f(5) vol_ok_size(2) [OF assms(1)] by (auto simp: data_ok_def EXT2_BUF_SIZE_def)
  have "length bs * nbs st \<le> 12 * 4096" using k by (rule mult_le_mono)
  then have small: "unat offset + length src < 2 ^ 31" using assms(4) by simp
  then have ul: "unat (of_nat (length src) :: u32) = length src" by (simp add: unat_of_nat)
  have sum: "unat (offset + of_nat (length src)) = unat offset + length src"
    using small ul by (simp add: unat_word_ariths)
  have pos: "of_nat (length src) > (0 :: u32)" using ul assms(3) by (simp add: word_less_nat_alt)
  define sz where "sz = (if offset + of_nat (length src) > di_size ?raw then offset + of_nat (length src) else di_size ?raw)"
  define raw' where "raw' = ?raw\<lparr>di_size := sz, di_blocks := block_count_of sz (bsize st) * (bsize st div 512)\<rparr>"
  have wf: "wf_ext2_inode raw'" using wf_decode_ext2_inode by (simp add: raw'_def dinode_def wf_ext2_inode_def)
  obtain st3 where w3: "ext2_write_inode ?ino raw' st2 = Some (0, st3)"
    and s3: "stored (fst (slot st2 ?ino)) (put_bytes (snd (slot st2 ?ino)) (encode_ext2_inode raw') (blk st2 (fst (slot st2 ?ino)))) st2 st3"
    using write_inode_ok [OF f2(1) i2(1) wf] by blast
  have dn: "desc_block st2 (group_of st2 ?ino) \<noteq> fst (slot st2 ?ino)" using i2(1) by (auto simp: inode_ok_def)
  note i3 = slot_stored [OF s3 i2(1) dn] and f3 = storedD [OF s3]
  have raw3: "dinode st3 ?ino = raw'" by (rule dinode_write(1) [OF f2(1) i2(1) wf s3])
  have c3: "content st3 bs = content st2 bs"
    unfolding content_def using f3(7) f(5,7) i2(2) f2(3)
    by (intro arg_cong [where f = concat] map_cong refl) (auto simp: data_ok_def)
  let ?st4 = "set_i_size n sz st3"
  have sint: "sint (of_nat (length src) :: u32) = int (length src)" using small ul by (simp add: sint_small)
  have res: "ext2_inode_write n offset src st = Some (int (length src), ?st4)"
    using f(1-3) read_inode_ok [OF assms(1) f(4)] w w3 assms(3) pos sint
    by (simp add: ext2_inode_write_def raw'_def sz_def Let_def)
  have fk: "file_ok ?st4 n bs" "ino_of ?st4 n = ?ino"
    using file_ok_transfer [OF assms(2), of ?st4 sz] f2 f3 i2 i3 raw3 bgd_stored(2) [OF s3]
    by (simp_all add: set_i_size_def raw'_def group_of_def desc_block_def)
  have "unat sz = max (unat (di_size ?raw)) (unat offset + length src)"
    using sum by (auto simp: sz_def word_less_nat_alt max_def)
  moreover have "content ?st4 bs = put_bytes (unat offset) src (content st bs)"
    using c3 c2 by (simp add: set_i_size_def content_def)
  moreover have "fs ?st4 = fs st" "vol_ok ?st4" "dinode ?st4 ?ino = raw'"
    using f3(1,2) f2(2) raw3 by (simp_all add: set_i_size_def)
  ultimately show ?thesis using res fk by (auto simp: raw'_def)
qed

subsection \<open>Properties\<close>

text \<open>
  C24. File data. Writing bytes to allocated direct blocks of a file, at any offset and across block
  borders, succeeds completely; the file then reads back those bytes at that offset, every other byte
  of the blocks is as before, and the size is the larger of the old size and the end of the write.
\<close>
theorem ext2_file_write_read:
  assumes "vol_ok st" and "file_ok st n bs" and "src \<noteq> []" and "unat offset + length src \<le> length bs * nbs st"
  shows "\<exists>st'. ext2_inode_write n offset src st = Some (int (length src), st') \<and> file_ok st' n bs \<and>
    content st' bs = put_bytes (unat offset) src (content st bs) \<and>
    unat (di_size (dinode st' (ino_of st' n))) = max (unat (di_size (dinode st (ino_of st n)))) (unat offset + length src) \<and>
    (\<exists>st''. ext2_inode_read n offset (of_nat (length src)) st' = Some (int (length src), src, st''))"
proof -
  from file_write_ok [OF assms]
  obtain st' where w: "ext2_inode_write n offset src st = Some (int (length src), st')" "vol_ok st'" "file_ok st' n bs"
    "ino_of st' n = ino_of st n" "fs st' = fs st" "content st' bs = put_bytes (unat offset) src (content st bs)"
    "unat (di_size (dinode st' (ino_of st n))) = max (unat (di_size (dinode st (ino_of st n)))) (unat offset + length src)"
    by blast
  have "length bs * nbs st \<le> 12 * 4096"
    using file_okD(5) [OF assms(2)] vol_ok_size(2) [OF assms(1)]
    by (intro mult_le_mono) (simp_all add: data_ok_def EXT2_BUF_SIZE_def)
  then have "length src < 2 ^ 32" using assms(4) by simp
  then have ul: "unat (of_nat (length src) :: u32) = length src" by (simp add: unat_of_nat)
  have "\<exists>st''. ext2_inode_read n offset (of_nat (length src)) st'
      = Some (int (length src), get_bytes (unat offset) (length src) (content st' bs), st'')"
    using file_read_ok [OF w(2,3), of offset "of_nat (length src)"] ul w(4,5,7) assms(3,4) by simp
  moreover have "get_bytes (unat offset) (length src) (content st' bs) = src"
    using w(6) assms(4) length_content [OF assms(1) file_okD(5) [OF assms(2)]] by (simp add: get_put_same)
  ultimately show ?thesis using w by auto
qed

definition file_raw :: ext2_inode where
  \<comment> \<open>a file of five bytes with two blocks\<close>
  "file_raw = zero_inode\<lparr>di_mode := 0x81A4, di_links := 1, di_size := 5, di_block := [9, 10] @ replicate 13 0\<rparr>"

definition file_image :: "u32 \<Rightarrow> u8 list" where
  "file_image = empty_image(5 := put_bytes 256 (encode_ext2_inode file_raw) (replicate 1024 0))"

definition demo_file :: ext2_state where
  \<comment> \<open>inode 3 of the volume, opened as VFS inode 1\<close>
  "demo_file = (demo_ext2 file_image)\<lparr>
     vfs_inodes := (\<lambda>_. demo_vfs_inode)(1 := demo_vfs_inode\<lparr>i_no := 3, i_private := Ext2_Data 0\<rparr>),
     ext2_data_pool := (\<lambda>_. 0)(0 := 3)\<rparr>"

lemma on_demo_file: "on_demo (with_desc file_image) demo_file"
proof -
  have "wf_ext2_inode file_raw" by (simp add: wf_ext2_inode_def file_raw_def zero_inode_def)
  then have "length (file_image m) = 1024" for m
    by (simp add: file_image_def empty_image_def length_put_bytes dinode.length_encode INODE_SIZE_def)
  then have "on_demo (with_desc file_image) (demo_ext2 file_image)" by (rule on_demo_ext2)
  then show ?thesis by (simp add: on_demo_def demo_file_def)
qed

lemma file_ok_demo: "file_ok demo_file 1 [9, 10]" and ino_demo_file: "ino_of demo_file 1 = 3"
proof -
  note od = on_demo_file
  note sz = on_demo_sizes [OF od] and sl = demo_slot [OF od, of 3]
  show ino: "ino_of demo_file 1 = 3" by (simp add: ino_of_def demo_file_def demo_vfs_inode_def)
  have wf: "wf_ext2_inode file_raw" by (simp add: wf_ext2_inode_def file_raw_def zero_inode_def)
  have b5: "blk demo_file 5 = put_bytes 256 (encode_ext2_inode file_raw) (replicate 1024 0)"
    using on_demo_blk [OF od, of 5] by (simp add: with_desc_def file_image_def)
  have raw: "dinode demo_file 3 = file_raw"
    using sl(1) b5 dinode.read_written [OF wf, of 256 "replicate 1024 0"] by (simp add: dinode_def INODE_SIZE_def)
  have "i_private (inode demo_file 1) = Ext2_Data 0" "i_type (inode demo_file 1) = VFS_IFILE"
    by (simp_all add: demo_file_def demo_vfs_inode_def)
  then show "file_ok demo_file 1 [9, 10]"
    using sl raw sz demo_bgd(2) [OF od] ino by (simp add: file_ok_def data_ok_def file_raw_def)
qed

theorem ext2_file_write_read_witness:
  "\<exists>st' st''. ext2_inode_write 1 1022 [1, 2, 3, 4] demo_file = Some (4, st') \<and>
     content st' [9, 10] = put_bytes 1022 [1, 2, 3, 4] (content demo_file [9, 10]) \<and>
     ext2_inode_read 1 1022 4 st' = Some (4, [1, 2, 3, 4], st'')"
  using ext2_file_write_read [OF on_demo_vol_ok [OF on_demo_file] file_ok_demo, of "[1, 2, 3, 4]" 1022]
    on_demo_sizes(1) [OF on_demo_file] by auto

end
