(* ===== verification/Ext2_Ops.thy ===== *)
theory Ext2_Ops
  imports Ext2_Dir
begin

text \<open>
  The directory and inode operations of \<open>kernel/ext2.c\<close> that the VFS calls through its tables:
  creating and removing names, links, renaming, modes, and mounting.
\<close>

subsection \<open>Undoing a creation\<close>

definition discard_inode :: "u32 \<Rightarrow> 'a ext2_state_scheme \<Rightarrow> (int \<times> 'a ext2_state_scheme) option" where
  \<comment> \<open>\<open>ext2_free_inode(fs, inode_no); return -1;\<close>\<close>
  "discard_inode inode_no st = do { st \<leftarrow> ext2_free_inode inode_no st; Some (-1, st) }"

definition discard_both :: "u32 \<Rightarrow> u32 \<Rightarrow> 'a ext2_state_scheme \<Rightarrow> (int \<times> 'a ext2_state_scheme) option" where
  \<comment> \<open>\<open>ext2_free_block(fs, phys_block); ext2_free_inode(fs, inode_no); return -1;\<close>\<close>
  "discard_both phys_block inode_no st = do { st \<leftarrow> ext2_free_block phys_block st; discard_inode inode_no st }"

definition add_links :: "u16 \<Rightarrow> u32 \<Rightarrow> 'a ext2_state_scheme \<Rightarrow> 'a ext2_state_scheme option" where
  \<comment> \<open>add to the link count of an inode on disk, if it can be read\<close>
  "add_links k inode_no st = do {
     (raw, st) \<leftarrow> ext2_read_inode inode_no st;
     case raw of
       None \<Rightarrow> Some st
     | Some raw \<Rightarrow> do {
         (_, st) \<leftarrow> ext2_write_inode inode_no (raw\<lparr>di_links := di_links raw + k\<rparr>) st;
         Some st
       }
   }"

subsection \<open>Directories\<close>

definition dot_entries :: "u32 \<Rightarrow> u32 \<Rightarrow> u32 \<Rightarrow> u8 list" where
  \<comment> \<open>the first block of a new directory\<close>
  "dot_entries bs self parent =
     put_bytes 12 (encode_dirent \<lparr>de_inode = parent, de_rec_len = ucast (bs - 12), de_name_len = 2, de_file_type = 2\<rparr>
                     @ str_bytes ''..'')
       (put_bytes 0 (encode_dirent \<lparr>de_inode = self, de_rec_len = 12, de_name_len = 1, de_file_type = 2\<rparr>
                       @ str_bytes ''.'')
          (replicate (unat bs) 0))"

definition link_new_dir ::
    "nat \<Rightarrow> string \<Rightarrow> u32 \<Rightarrow> u32 \<Rightarrow> u32 \<Rightarrow> 'a ext2_state_scheme \<Rightarrow> (int \<times> 'a ext2_state_scheme) option" where
  \<comment> \<open>the second half of \<open>ext2_mkdir\<close>: the VFS inode, the entry in the parent, its link count\<close>
  "link_new_dir parent name parent_ino new_inode_no phys_block st =
     (case vfs_alloc_inode st of
        (None, st) \<Rightarrow> discard_both phys_block new_inode_no st
      | (Some new_vfs, st) \<Rightarrow>
          (let st = upd_inode new_vfs (\<lambda>i. i\<lparr>i_type := VFS_IDIR, i_size := bsize st, i_no := new_inode_no,
                                               i_ops := Some Ext2_Dir_Ops\<rparr>) st
           in case ext2_alloc_data st of
                (None, st) \<Rightarrow> discard_both phys_block new_inode_no (vfs_free_inode new_vfs st)
              | (Some d, st) \<Rightarrow> do {
                  let st = upd_inode new_vfs (\<lambda>i. i\<lparr>i_private := Ext2_Data d\<rparr>) (set_data d new_inode_no st);
                  (r, st) \<leftarrow> ext2_add_entry parent name new_vfs st;
                  if r < 0 then discard_both phys_block new_inode_no (vfs_free_inode new_vfs st)
                  else do { st \<leftarrow> add_links 1 parent_ino st; Some (0, st) }
                }))"

definition ext2_mkdir :: "nat \<Rightarrow> string \<Rightarrow> u16 \<Rightarrow> 'a ext2_state_scheme \<Rightarrow> (int \<times> 'a ext2_state_scheme) option" where
  "ext2_mkdir parent name mode st = do {
     pdata \<leftarrow> ext2_ino parent st;
     case pdata of
       None \<Rightarrow> Some (-1, st)
     | Some parent_ino \<Rightarrow> do {
         let bs = bsize st;
         (new_inode_no, st) \<leftarrow> ext2_alloc_inode st;
         if new_inode_no = 0 then Some (-1, st)
         else do {
           (phys_block, st) \<leftarrow> ext2_alloc_block st;
           if phys_block = 0 then discard_inode new_inode_no st
           else do {
             let new_raw = zero_inode\<lparr>di_mode := S_IFDIR OR (mode AND S_IPERM), di_links := 2, di_size := bs,
                             di_block := (di_block zero_inode)[0 := phys_block], di_blocks := bs div 512\<rparr>;
             st \<leftarrow> set_buf 0 (dot_entries bs new_inode_no parent_ino) st;
             (r, st) \<leftarrow> write_buf phys_block st;
             if r < 0 then discard_both phys_block new_inode_no st
             else do {
               (r, st) \<leftarrow> ext2_write_inode new_inode_no new_raw st;
               if r < 0 then discard_both phys_block new_inode_no st
               else link_new_dir parent name parent_ino new_inode_no phys_block st
             }
           }
         }
       }
   }"

definition dir_not_empty :: "ext2_inode \<Rightarrow> 'a ext2_state_scheme \<Rightarrow> (bool \<times> 'a ext2_state_scheme) option" where
  \<comment> \<open>the check of the entry at offset 12 of the first block; \<open>True\<close> is the \<open>return -1\<close>\<close>
  "dir_not_empty child_raw st = do {
     (child_block, st) \<leftarrow> ext2_inode_bmap child_raw 0 st;
     if child_block = 0 then Some (False, st)
     else do {
       (r, st) \<leftarrow> ext2_read_block child_block st;
       if r < 0 then Some (True, st)
       else (let de = decode_dirent (get_bytes 12 DIRENT_SIZE (ext2_buf st))
             in Some (de_rec_len de > 12 \<and> de_inode de \<noteq> 0, st))
     }
   }"

definition find_child :: "nat \<Rightarrow> string \<Rightarrow> 'a ext2_state_scheme \<Rightarrow> (u32 option \<times> 'a ext2_state_scheme) option" where
  \<comment> \<open>the first part of \<open>ext2_unlink\<close> and of \<open>ext2_rmdir\<close>: the inode number behind a name; \<open>None\<close> inside is \<open>return -1\<close>\<close>
  "find_child parent name st = do {
     pdata \<leftarrow> ext2_ino parent st;
     case pdata of
       None \<Rightarrow> Some (None, st)
     | Some parent_ino \<Rightarrow> do {
         (raw, st) \<leftarrow> ext2_read_inode parent_ino st;
         case raw of
           None \<Rightarrow> Some (None, st)
         | Some raw \<Rightarrow> do {
             (w, st) \<leftarrow> dir_walk (bsize st) raw (name_test name) 0 () st;
             case w of
               Found phys_block off de _ \<Rightarrow> Some (Some (de_inode de), st)
             | _ \<Rightarrow> Some (None, st)
           }
       }
   }"

definition ext2_unlink :: "nat \<Rightarrow> string \<Rightarrow> 'a ext2_state_scheme \<Rightarrow> (int \<times> 'a ext2_state_scheme) option" where
  "ext2_unlink parent name st = do {
     (child, st) \<leftarrow> find_child parent name st;
     case child of
       None \<Rightarrow> Some (-1, st)
     | Some child_inode_no \<Rightarrow> do {
         (r, st) \<leftarrow> ext2_remove_entry parent name st;
         if r < 0 then Some (-1, st)
         else do {
           (child_raw, st) \<leftarrow> ext2_read_inode child_inode_no st;
           case child_raw of
             None \<Rightarrow> Some (-1, st)
           | Some child_raw \<Rightarrow> do {
               let child_raw = child_raw\<lparr>di_links := di_links child_raw - 1\<rparr>;
               if di_links child_raw = 0 then do {
                 must (bsize st \<noteq> 0);
                 (child_raw, st) \<leftarrow>
                   free_file_blocks [0..<unat (block_count_of (di_size child_raw) (bsize st))] child_raw st;
                 (_, st) \<leftarrow> ext2_write_inode child_inode_no (child_raw\<lparr>di_size := 0, di_blocks := 0\<rparr>) st;
                 st \<leftarrow> ext2_free_inode child_inode_no st;
                 Some (0, st)
               }
               else do {
                 (_, st) \<leftarrow> ext2_write_inode child_inode_no child_raw st;
                 Some (0, st)
               }
             }
         }
       }
   }"

definition ext2_rmdir :: "nat \<Rightarrow> string \<Rightarrow> 'a ext2_state_scheme \<Rightarrow> (int \<times> 'a ext2_state_scheme) option" where
  "ext2_rmdir parent name st = do {
     (child, st) \<leftarrow> find_child parent name st;
     case child of
       None \<Rightarrow> Some (-1, st)
     | Some child_inode_no \<Rightarrow> do {
         (child_raw, st) \<leftarrow> ext2_read_inode child_inode_no st;
         case child_raw of
           None \<Rightarrow> Some (-1, st)
         | Some child_raw \<Rightarrow>
             if di_mode child_raw AND S_IFMT \<noteq> S_IFDIR then Some (-1, st)
             else if di_links child_raw > 2 then Some (-1, st)
             else do {
               (not_empty, st) \<leftarrow> dir_not_empty child_raw st;
               if not_empty then Some (-1, st)
               else do {
                 (r, st) \<leftarrow> ext2_remove_entry parent name st;
                 if r < 0 then Some (-1, st)
                 else do {
                   (child_raw, st) \<leftarrow> ext2_read_inode child_inode_no st;
                   case child_raw of
                     None \<Rightarrow> Some (-1, st)
                   | Some child_raw \<Rightarrow> do {
                       must (bsize st \<noteq> 0);
                       (_, st) \<leftarrow>
                         free_file_blocks [0..<unat (block_count_of (di_size child_raw) (bsize st))] child_raw st;
                       st \<leftarrow> ext2_free_inode child_inode_no st;
                       pdata \<leftarrow> ext2_ino parent st;
                       parent_ino \<leftarrow> pdata;
                       st \<leftarrow> add_links (-1) parent_ino st;
                       Some (0, st)
                     }
                 }
               }
             }
       }
   }"

subsection \<open>Device nodes\<close>

definition link_new_node ::
    "nat \<Rightarrow> string \<Rightarrow> u16 \<Rightarrow> u32 \<Rightarrow> u32 \<Rightarrow> nat \<Rightarrow> nat \<Rightarrow> 'a ext2_state_scheme \<Rightarrow> (int \<times> 'a ext2_state_scheme) option" where
  \<comment> \<open>the end of \<open>ext2_mknod\<close>: fill in the VFS inode and add the entry\<close>
  "link_new_node parent name mode dev new_inode_no new_vfs d st =
     (let st = set_data d new_inode_no st; file_type = mode AND S_IFMT in
      if file_type \<noteq> S_IFCHR \<and> file_type \<noteq> S_IFBLK then discard_inode new_inode_no (vfs_free_inode new_vfs st)
      else
        ext2_add_entry parent name new_vfs
          (upd_inode new_vfs (\<lambda>i. i\<lparr>i_type := (if file_type = S_IFCHR then VFS_IFCHR else VFS_IFBLK),
                                    i_no := new_inode_no, i_size := 0, i_mode := mode, i_rdev := dev,
                                    i_ops := Some Ext2_File_Ops, i_private := Ext2_Data d\<rparr>) st))"

definition ext2_mknod :: "nat \<Rightarrow> string \<Rightarrow> u16 \<Rightarrow> u32 \<Rightarrow> 'a ext2_state_scheme \<Rightarrow> (int \<times> 'a ext2_state_scheme) option" where
  "ext2_mknod parent name mode dev st = do {
     pdata \<leftarrow> ext2_ino parent st;
     case pdata of
       None \<Rightarrow> Some (-1, st)
     | Some _ \<Rightarrow> do {
         (new_inode_no, st) \<leftarrow> ext2_alloc_inode st;
         if new_inode_no = 0 then Some (-1, st)
         else do {
           let new_raw = zero_inode\<lparr>di_mode := mode, di_links := 1, di_block := (di_block zero_inode)[0 := dev]\<rparr>;
           (r, st) \<leftarrow> ext2_write_inode new_inode_no new_raw st;
           if r < 0 then discard_inode new_inode_no st
           else
             (case vfs_alloc_inode st of
                (None, st) \<Rightarrow> discard_inode new_inode_no st
              | (Some new_vfs, st) \<Rightarrow>
                  (case ext2_alloc_data st of
                     (None, st) \<Rightarrow> discard_inode new_inode_no (vfs_free_inode new_vfs st)
                   | (Some d, st) \<Rightarrow> link_new_node parent name mode dev new_inode_no new_vfs d st))
         }
       }
   }"

subsection \<open>Symbolic links\<close>

definition store_target ::
    "u32 \<Rightarrow> string \<Rightarrow> ext2_inode \<Rightarrow> 'a ext2_state_scheme \<Rightarrow> (ext2_inode option \<times> 'a ext2_state_scheme) option" where
  \<comment> \<open>a short target goes into the block pointers, a longer one into a data block; the inner \<open>None\<close> is \<open>return -1\<close>\<close>
  "store_target new_inode_no target raw st =
     (if length target \<le> 60 then
        Some (Some (raw\<lparr>di_block := of_le32s 15 (put_bytes 0 (str_bytes target) (le32s (di_block raw)))\<rparr>), st)
      else do {
        (phys_block, st) \<leftarrow> ext2_alloc_block st;
        if phys_block = 0 then do { st \<leftarrow> ext2_free_inode new_inode_no st; Some (None, st) }
        else do {
          let raw = raw\<lparr>di_block := (di_block raw)[0 := phys_block], di_blocks := bsize st div 512\<rparr>;
          st \<leftarrow> set_buf 0 (replicate (unat (bsize st)) 0) st;
          st \<leftarrow> set_buf 0 (str_bytes target) st;
          (r, st) \<leftarrow> write_buf phys_block st;
          if r < 0 then do {
            st \<leftarrow> ext2_free_block phys_block st;
            st \<leftarrow> ext2_free_inode new_inode_no st;
            Some (None, st)
          }
          else Some (Some raw, st)
        }
      })"

definition discard_link ::
    "u32 \<Rightarrow> string \<Rightarrow> ext2_inode \<Rightarrow> 'a ext2_state_scheme \<Rightarrow> (int \<times> 'a ext2_state_scheme) option" where
  \<comment> \<open>free what \<open>store_target\<close> allocated and the inode, and return -1\<close>
  "discard_link new_inode_no target raw st =
     (if di_block raw ! 0 \<noteq> 0 \<and> length target > 60 then discard_both (di_block raw ! 0) new_inode_no st
      else discard_inode new_inode_no st)"

definition ext2_symlink :: "nat \<Rightarrow> string \<Rightarrow> string \<Rightarrow> 'a ext2_state_scheme \<Rightarrow> (int \<times> 'a ext2_state_scheme) option" where
  "ext2_symlink parent name target st = do {
     pdata \<leftarrow> ext2_ino parent st;
     case pdata of
       None \<Rightarrow> Some (-1, st)
     | Some _ \<Rightarrow> do {
         (new_inode_no, st) \<leftarrow> ext2_alloc_inode st;
         if new_inode_no = 0 then Some (-1, st)
         else do {
           let new_raw = zero_inode\<lparr>di_mode := S_IFLNK OR S_IRWXU OR S_IRWXG OR S_IRWXO, di_links := 1,
                                    di_size := of_nat (length target)\<rparr>;
           (stored, st) \<leftarrow> store_target new_inode_no target new_raw st;
           case stored of
             None \<Rightarrow> Some (-1, st)
           | Some new_raw \<Rightarrow> do {
               (r, st) \<leftarrow> ext2_write_inode new_inode_no new_raw st;
               if r < 0 then discard_link new_inode_no target new_raw st
               else
                 (case vfs_alloc_inode st of
                    (None, st) \<Rightarrow> discard_link new_inode_no target new_raw st
                  | (Some new_vfs, st) \<Rightarrow>
                      (let st = upd_inode new_vfs (\<lambda>i. i\<lparr>i_type := VFS_ISYMLINK, i_size := of_nat (length target),
                                     i_no := new_inode_no, i_ops := Some Ext2_Symlink_Ops\<rparr>) st
                       in case ext2_alloc_data st of
                            (None, st) \<Rightarrow> discard_link new_inode_no target new_raw (vfs_free_inode new_vfs st)
                          | (Some d, st) \<Rightarrow>
                              ext2_add_entry parent name new_vfs
                                (upd_inode new_vfs (\<lambda>i. i\<lparr>i_private := Ext2_Data d\<rparr>) (set_data d new_inode_no st))))
             }
         }
       }
   }"

definition ext2_readlink_op :: "nat \<Rightarrow> u32 \<Rightarrow> 'a ext2_state_scheme \<Rightarrow> (int \<times> u8 list \<times> 'a ext2_state_scheme) option" where
  \<comment> \<open>the return value and the bytes stored to \<open>buf\<close> before the terminating zero\<close>
  "ext2_readlink_op n bufsize st = do {
     data \<leftarrow> ext2_ino n st;
     case data of
       None \<Rightarrow> Some (-1, [], st)
     | Some inode_no \<Rightarrow> do {
         (raw, st) \<leftarrow> ext2_read_inode inode_no st;
         case raw of
           None \<Rightarrow> Some (-1, [], st)
         | Some raw \<Rightarrow> do {
             let target_len = (if di_size raw > bufsize - 1 then bufsize - 1 else di_size raw);
             if target_len \<le> 60 then
               Some (sint target_len, take (unat target_len) (le32s (di_block raw)), st)
             else if di_block raw ! 0 = 0 then Some (-1, [], st)
             else do {
               (r, st) \<leftarrow> ext2_read_block (di_block raw ! 0) st;
               if r < 0 then Some (-1, [], st)
               else do {
                 must (unat target_len \<le> EXT2_BUF_SIZE);
                 Some (sint target_len, take (unat target_len) (ext2_buf st), st)
               }
             }
           }
       }
   }"

subsection \<open>Modes, renaming and hard links\<close>

definition ext2_chmod :: "nat \<Rightarrow> u16 \<Rightarrow> 'a ext2_state_scheme \<Rightarrow> (int \<times> 'a ext2_state_scheme) option" where
  "ext2_chmod n mode st = do {
     data \<leftarrow> ext2_ino n st;
     case data of
       None \<Rightarrow> Some (-1, st)
     | Some inode_no \<Rightarrow> do {
         (raw, st) \<leftarrow> ext2_read_inode inode_no st;
         case raw of
           None \<Rightarrow> Some (-1, st)
         | Some raw \<Rightarrow> do {
             let raw = raw\<lparr>di_mode := (di_mode raw AND S_IFMT) OR (mode AND NOT S_IFMT)\<rparr>;
             (r, st) \<leftarrow> ext2_write_inode inode_no raw st;
             if r < 0 then Some (-1, st) else Some (0, st)
           }
       }
   }"

definition set_dotdot :: "u32 \<Rightarrow> u32 \<Rightarrow> 'a ext2_state_scheme \<Rightarrow> 'a ext2_state_scheme option" where
  \<comment> \<open>store the new parent in the \<open>..\<close> entry of a moved directory\<close>
  "set_dotdot child_inode_no new_parent_ino st = do {
     (child_raw, st) \<leftarrow> ext2_read_inode child_inode_no st;
     case child_raw of
       None \<Rightarrow> Some st
     | Some child_raw \<Rightarrow> do {
         (first_block, st) \<leftarrow> ext2_inode_bmap child_raw 0 st;
         if first_block = 0 then Some st
         else do {
           (_, st) \<leftarrow> ext2_read_block first_block st;
           st \<leftarrow> set_buf 12 (le32 new_parent_ino) st;
           (_, st) \<leftarrow> write_buf first_block st;
           Some st
         }
       }
   }"

definition move_dir_links :: "u32 \<Rightarrow> u32 \<Rightarrow> nat \<Rightarrow> 'a ext2_state_scheme \<Rightarrow> 'a ext2_state_scheme option" where
  \<comment> \<open>link counts and \<open>..\<close> after a directory changed its parent\<close>
  "move_dir_links old_ino new_ino child st = do {
     st \<leftarrow> add_links (-1) old_ino st;
     st \<leftarrow> add_links 1 new_ino st;
     cdata \<leftarrow> ext2_ino child st;
     child_inode_no \<leftarrow> cdata;
     set_dotdot child_inode_no new_ino st
   }"

definition ext2_rename ::
    "nat \<Rightarrow> string \<Rightarrow> nat \<Rightarrow> string \<Rightarrow> 'a ext2_state_scheme \<Rightarrow> (int \<times> 'a ext2_state_scheme) option" where
  "ext2_rename old_parent old_name new_parent new_name st = do {
     pdata \<leftarrow> ext2_ino old_parent st;
     npdata \<leftarrow> ext2_ino new_parent st;
     case (pdata, npdata) of
       (Some old_ino, Some new_ino) \<Rightarrow> do {
         (child, st) \<leftarrow> ext2_lookup old_parent old_name st;
         case child of
           None \<Rightarrow> Some (-1, st)
         | Some child \<Rightarrow> do {
             let is_dir = (i_type (inode st child) = VFS_IDIR);
             if old_parent = new_parent \<and> old_name = new_name then Some (0, st)
             else do {
               (r, st) \<leftarrow> ext2_add_entry new_parent new_name child st;
               if r < 0 then Some (-1, st)
               else do {
                 (r, st) \<leftarrow> ext2_remove_entry old_parent old_name st;
                 if r < 0 then do { (_, st) \<leftarrow> ext2_remove_entry new_parent new_name st; Some (-1, st) }
                 else if is_dir \<and> old_parent \<noteq> new_parent then do {
                   st \<leftarrow> move_dir_links old_ino new_ino child st;
                   Some (0, st)
                 }
                 else Some (0, st)
               }
             }
           }
       }
     | _ \<Rightarrow> Some (-1, st)
   }"

definition ext2_link :: "nat \<Rightarrow> string \<Rightarrow> nat \<Rightarrow> 'a ext2_state_scheme \<Rightarrow> (int \<times> 'a ext2_state_scheme) option" where
  "ext2_link parent name existing st = do {
     edata \<leftarrow> ext2_ino existing st;
     case edata of
       None \<Rightarrow> Some (-1, st)
     | Some inode_no \<Rightarrow> do {
         (raw, st) \<leftarrow> ext2_read_inode inode_no st;
         case raw of
           None \<Rightarrow> Some (-1, st)
         | Some raw \<Rightarrow> do {
             let raw = raw\<lparr>di_links := di_links raw + 1\<rparr>;
             (r, st) \<leftarrow> ext2_write_inode inode_no raw st;
             if r < 0 then Some (-1, st)
             else do {
               (r, st) \<leftarrow> ext2_add_entry parent name existing st;
               if r < 0 then do {
                 (_, st) \<leftarrow> ext2_write_inode inode_no (raw\<lparr>di_links := di_links raw - 1\<rparr>) st;
                 Some (-1, st)
               }
               else Some (0, st)
             }
           }
       }
   }"

subsection \<open>Mounting\<close>

definition EXT2_MAX_FS :: nat where "EXT2_MAX_FS = 1"

definition fs_of_sb :: "block_device \<Rightarrow> ext2_sb \<Rightarrow> ext2_fs option" where
  \<comment> \<open>the parameters computed from the super block; a shift by 32 or more is undefined in C\<close>
  "fs_of_sb dev s = do {
     must (sb_log_block_size s < 32);
     let bs = push_bit (unat (sb_log_block_size s)) 1024;
     must (sb_blocks_per_group s \<noteq> 0);
     Some \<lparr>fs_dev = Some dev, fs_sb = s, fs_block_size = bs,
           bgdesc_block = (if bs = 1024 then 2 else 1),
           bgdesc_count = (sb_blocks_count s + sb_blocks_per_group s - 1) div sb_blocks_per_group s\<rparr>
   }"

definition mount_root :: "'a ext2_state_scheme \<Rightarrow> (nat option \<times> 'a ext2_state_scheme) option" where
  \<comment> \<open>the root inode of the file system just set up\<close>
  "mount_root st =
     (case vfs_alloc_inode st of
        (None, st) \<Rightarrow> Some (None, st)
      | (Some root, st) \<Rightarrow>
          (case ext2_alloc_data st of
             (None, st) \<Rightarrow> Some (None, vfs_free_inode root st)
           | (Some d, st) \<Rightarrow> do {
               let st = upd_inode root (\<lambda>i. i\<lparr>i_type := VFS_IDIR, i_ops := Some Ext2_Dir_Ops,
                              i_private := Ext2_Data d\<rparr>) (set_data d EXT2_ROOT_INO st);
               (raw_root, st) \<leftarrow> ext2_read_inode EXT2_ROOT_INO st;
               case raw_root of
                 None \<Rightarrow> Some (None, vfs_free_inode root st)
               | Some raw \<Rightarrow>
                   Some (Some root, upd_inode root (\<lambda>i. i\<lparr>i_size := di_size raw, i_mode := di_mode raw\<rparr>) st)
             }))"

definition ext2_mount :: "block_device option \<Rightarrow> 'a ext2_state_scheme \<Rightarrow> (nat option \<times> 'a ext2_state_scheme) option" where
  "ext2_mount dev st =
     (case dev of
        None \<Rightarrow> Some (None, st)
      | Some d \<Rightarrow>
          if fs_pool_next st \<ge> EXT2_MAX_FS then Some (None, st)
          else do {
            let st = st\<lparr>fs_pool_next := fs_pool_next st + 1\<rparr>;
            let (r, bytes) = block_read (ext2_disks st) dev 2 1;
            let st = st\<lparr>ext2_buf := put_bytes 0 bytes (ext2_buf st)\<rparr>;
            if r < 0 then Some (None, st)
            else do {
              let s = decode_sb (get_bytes 0 SB_SIZE (ext2_buf st));
              let st = upd_sb (\<lambda>_. s) st;
              if sb_magic s \<noteq> EXT2_MAGIC then Some (None, st)
              else do {
                f \<leftarrow> fs_of_sb d s;
                mount_root (st\<lparr>fs := f\<rparr>)
              }
            }
          })"

end
