(* ===== verification/Ext2_Names.thy ===== *)
theory Ext2_Names
  imports Ext2_Data Ext2_Ops
begin

text \<open>
  Directories of a healthy volume as lists of entries: what the walks of the driver find, that they
  return, and where they do not.
\<close>

subsection \<open>The entries of a block\<close>

abbreviation dirent_at :: "u8 list \<Rightarrow> nat \<Rightarrow> ext2_dirent" where
  "dirent_at buf off \<equiv> decode_dirent (get_bytes off DIRENT_SIZE buf)"

lemma rec_len_progress: "off < bs \<Longrightarrow> w \<noteq> (0 :: u16) \<Longrightarrow> bs - (off + unat w) < bs - off"
proof -
  assume "off < bs" and "w \<noteq> 0"
  moreover have "0 < unat w" using \<open>w \<noteq> 0\<close> by (simp add: unat_gt_0)
  ultimately show ?thesis by linarith
qed

function block_ok :: "u8 list \<Rightarrow> nat \<Rightarrow> nat \<Rightarrow> bool" where
  \<comment> \<open>from \<open>off\<close> on, the entries form a chain to the end of the block, each long enough for its name\<close>
  "block_ok buf bs off \<longleftrightarrow>
     (if off < bs \<and> de_rec_len (dirent_at buf off) \<noteq> 0
      then off + unat (de_rec_len (dirent_at buf off)) \<le> bs \<and>
           DIRENT_SIZE + unat (de_name_len (dirent_at buf off)) \<le> unat (de_rec_len (dirent_at buf off)) \<and>
           block_ok buf bs (off + unat (de_rec_len (dirent_at buf off)))
      else off = bs)"
  by pat_completeness auto

termination block_ok
proof (relation "measure (\<lambda>(buf, bs, off). bs - off)")
qed (auto intro: rec_len_progress)

function entries :: "u8 list \<Rightarrow> nat \<Rightarrow> nat \<Rightarrow> (nat \<times> ext2_dirent) list" where
  "entries buf bs off =
     (if off < bs \<and> de_rec_len (dirent_at buf off) \<noteq> 0
      then (off, dirent_at buf off) # entries buf bs (off + unat (de_rec_len (dirent_at buf off)))
      else [])"
  by pat_completeness auto

termination entries
proof (relation "measure (\<lambda>(buf, bs, off). bs - off)")
qed (auto intro: rec_len_progress)

declare block_ok.simps [simp del] entries.simps [simp del]

definition entry_name :: "u8 list \<Rightarrow> nat \<times> ext2_dirent \<Rightarrow> u8 list" where
  "entry_name buf e = get_bytes (fst e + DIRENT_SIZE) (unat (de_name_len (snd e))) buf"

definition names :: "string \<Rightarrow> u8 list \<Rightarrow> nat \<times> ext2_dirent \<Rightarrow> bool" where
  \<comment> \<open>the entry is in use and has this name\<close>
  "names name buf e \<longleftrightarrow> de_inode (snd e) \<noteq> 0 \<and> entry_name buf e = str_bytes name"

lemma get_bytes_take: "off + n \<le> k \<Longrightarrow> get_bytes off n (take k buf) = get_bytes off n buf"
  by (simp add: get_bytes_def take_drop [symmetric] drop_take min_def)

lemma name_test_ok:
  assumes "take bs buf = b" and "off + DIRENT_SIZE + unat (de_name_len de) \<le> bs" and "bs \<le> EXT2_BUF_SIZE"
    and "bs \<le> length buf"
  shows "name_test name buf off de () = Some (if names name b (off, de) then Hit else Next ())"
proof (cases "de_inode de \<noteq> 0 \<and> unat (de_name_len de) = length name")
  case True
  then have "get_bytes (off + DIRENT_SIZE) (length name) buf = entry_name b (off, de)"
    using get_bytes_take [of "off + DIRENT_SIZE" "length name" bs buf] assms by (simp add: entry_name_def)
  then show ?thesis using True assms by (simp add: name_test_def names_def)
next
  case False
  have "length (entry_name b (off, de)) = unat (de_name_len de)"
    using assms by (auto simp: entry_name_def length_get_bytes)
  then have "\<not> names name b (off, de)" using False length_str_bytes [of name] by (auto simp: names_def)
  then show ?thesis using False by (simp add: name_test_def)
qed

lemma scan_name:
  assumes "block_ok b bs off" and "take bs buf = b" and "bs \<le> length buf" and "bs \<le> EXT2_BUF_SIZE"
  shows "\<exists>o'. scan_entries (name_test name) buf bs off offset () =
    Some (case find (names name b) (entries b bs off) of
            Some (o1, de) \<Rightarrow> (Some de, o1, o', ())
          | None \<Rightarrow> (None, bs, o', ()))"
  using assms
proof (induction b bs off arbitrary: offset rule: block_ok.induct)
  case (1 b bs off)
  let ?de = "dirent_at b off"
  show ?case
  proof (cases "off < bs \<and> de_rec_len ?de \<noteq> 0")
    case False
    then have "off = bs" using "1.prems"(1) by (simp add: block_ok.simps [of b bs off])
    then show ?thesis by (simp add: scan_entries.simps entries.simps)
  next
    case True
    then have fit: "off + unat (de_rec_len ?de) \<le> bs" "DIRENT_SIZE + unat (de_name_len ?de) \<le> unat (de_rec_len ?de)"
      and next_ok: "block_ok b bs (off + unat (de_rec_len ?de))"
      using "1.prems"(1) by (simp_all add: block_ok.simps [of b bs off])
    have de: "dirent_at buf off = ?de"
      using get_bytes_take [of off DIRENT_SIZE bs buf] "1.prems"(2) fit by simp
    have bounds: "off + 6 \<le> EXT2_BUF_SIZE" "off + DIRENT_SIZE \<le> EXT2_BUF_SIZE"
      using fit "1.prems"(4) by (auto simp: DIRENT_SIZE_def)
    have t: "name_test name buf off ?de () = Some (if names name b (off, ?de) then Hit else Next ())"
      using name_test_ok "1.prems" fit by simp
    have e: "entries b bs off = (off, ?de) # entries b bs (off + unat (de_rec_len ?de))"
      using True by (simp add: entries.simps [of b bs off])
    show ?thesis
    proof (cases "names name b (off, ?de)")
      case hit: True
      then show ?thesis using True de bounds t e by (subst scan_entries.simps) (auto simp: Let_def)
    next
      case miss: False
      have "scan_entries (name_test name) buf bs off offset () =
          scan_entries (name_test name) buf bs (off + unat (de_rec_len ?de)) (offset + ucast (de_rec_len ?de)) ()"
        using True de bounds t miss by (subst scan_entries.simps) (auto simp: Let_def)
      moreover have "find (names name b) (entries b bs off) = find (names name b) (entries b bs (off + unat (de_rec_len ?de)))"
        using e miss by simp
      ultimately show ?thesis using "1.IH" [OF True next_ok] "1.prems" by simp
    qed
  qed
qed

subsection \<open>The entries of a directory\<close>

definition dir_blocks :: "'a ext2_state_scheme \<Rightarrow> ext2_inode \<Rightarrow> nat" where
  "dir_blocks st raw = (unat (di_size raw) + nbs st - 1) div nbs st"

definition dir_ok :: "'a ext2_state_scheme \<Rightarrow> ext2_inode \<Rightarrow> bool" where
  \<comment> \<open>a directory of at most twelve blocks, each a hole or a block of well-formed entries\<close>
  "dir_ok st raw \<longleftrightarrow>
     dir_blocks st raw \<le> 12 \<and>
     (\<forall>q < dir_blocks st raw. di_block raw ! q = 0 \<or>
        (unat (di_block raw ! q) < NB st \<and> block_ok (blk st (di_block raw ! q)) (nbs st) 0))"

definition block_list :: "'a ext2_state_scheme \<Rightarrow> ext2_inode \<Rightarrow> nat \<Rightarrow> (u32 \<times> nat \<times> ext2_dirent) list" where
  "block_list st raw q =
     (let b = di_block raw ! q in if b = 0 then [] else map (Pair b) (entries (blk st b) (nbs st) 0))"

definition dir_list :: "'a ext2_state_scheme \<Rightarrow> ext2_inode \<Rightarrow> nat \<Rightarrow> (u32 \<times> nat \<times> ext2_dirent) list" where
  \<comment> \<open>the entries from block number \<open>q\<close> of the directory on, with the block they are in\<close>
  "dir_list st raw q = concat (map (block_list st raw) [q..<dir_blocks st raw])"

definition find_name :: "'a ext2_state_scheme \<Rightarrow> string \<Rightarrow> (u32 \<times> nat \<times> ext2_dirent) list \<Rightarrow> (u32 \<times> nat \<times> ext2_dirent) option" where
  "find_name st name es = find (\<lambda>(b, e). names name (blk st b) e) es"

lemma find_map: "find P (map f xs) = map_option f (find (\<lambda>x. P (f x)) xs)"
  by (induction xs) simp_all

lemma find_name_block:
  "find_name st name (block_list st raw q @ es) =
     (if di_block raw ! q = 0 then find_name st name es
      else case find (names name (blk st (di_block raw ! q))) (entries (blk st (di_block raw ! q)) (nbs st) 0) of
             None \<Rightarrow> find_name st name es
           | Some e \<Rightarrow> Some (di_block raw ! q, e))"
  by (simp add: find_name_def block_list_def Let_def find_append find_map split: option.split)

lemma dir_list_step: "q < dir_blocks st raw \<Longrightarrow> dir_list st raw q = block_list st raw q @ dir_list st raw (Suc q)"
  by (simp add: dir_list_def upt_conv_Cons)

lemma dir_blocks_iff:
  assumes "vol_ok st"
  shows "q < dir_blocks st raw \<longleftrightarrow> q * nbs st < unat (di_size raw)"
proof -
  have "0 < nbs st" using vol_ok_size(3) [OF assms] by simp
  have "q < dir_blocks st raw \<longleftrightarrow> q + 1 \<le> (unat (di_size raw) + nbs st - 1) div nbs st" by (auto simp: dir_blocks_def)
  also have "\<dots> \<longleftrightarrow> (q + 1) * nbs st \<le> unat (di_size raw) + nbs st - 1"
    by (rule less_eq_div_iff_mult_less_eq [OF \<open>0 < nbs st\<close>])
  finally show ?thesis using \<open>0 < nbs st\<close> by auto
qed

lemma views_buf_names [simp]:
  "dir_blocks (st\<lparr>ext2_buf := c\<rparr>) raw = dir_blocks st raw" "dir_list (st\<lparr>ext2_buf := c\<rparr>) raw q = dir_list st raw q"
  "dir_ok (st\<lparr>ext2_buf := c\<rparr>) raw = dir_ok st raw" "find_name (st\<lparr>ext2_buf := c\<rparr>) name es = find_name st name es"
  by (simp_all add: dir_blocks_def dir_list_def dir_ok_def block_list_def [abs_def] find_name_def Let_def
      cong: if_cong)

lemma dir_offset:
  assumes "vol_ok st" and "q \<le> 12"
  shows "unat (of_nat (q * nbs st) :: u32) = q * nbs st"
    and "(of_nat (q * nbs st) :: u32) div bsize st = of_nat q" and "(of_nat (q * nbs st) :: u32) mod bsize st = 0"
    and "(of_nat q + 1) * bsize st = of_nat (Suc q * nbs st)" and "of_nat (q * nbs st) + bsize st = of_nat (Suc q * nbs st)"
proof -
  have "q * nbs st \<le> 12 * 4096"
    using assms(2) vol_ok_size(2) [OF assms(1)] by (intro mult_le_mono) (simp_all add: EXT2_BUF_SIZE_def)
  then have "q * nbs st < 2 ^ 32" by simp
  then show u: "unat (of_nat (q * nbs st) :: u32) = q * nbs st" by (simp only: unat_of_nat) simp
  have n0: "0 < nbs st" using vol_ok_size(3) [OF assms(1)] by simp
  have uq: "unat (of_nat q :: u32) = q" using assms(2) by (simp add: unat_of_nat)
  show "(of_nat (q * nbs st) :: u32) div bsize st = of_nat q"
    using n0 uq by (simp only: word_unat_eq_iff unat_div u) simp
  show "(of_nat (q * nbs st) :: u32) mod bsize st = 0"
    using n0 by (simp only: word_unat_eq_iff unat_mod u) simp
  show "(of_nat q + 1) * bsize st = of_nat (Suc q * nbs st)" by (simp add: distrib_right)
  show "of_nat (q * nbs st) + bsize st = of_nat (Suc q * nbs st)" by simp
qed

subsection \<open>Looking for a name\<close>

definition walk_result :: "(u32 \<times> nat \<times> ext2_dirent) option \<Rightarrow> unit walk" where
  "walk_result r = (case r of None \<Rightarrow> Not_Found | Some (b, off, de) \<Rightarrow> Found b off de ())"

lemma bmap_small:
  assumes "q < 12"
  shows "ext2_inode_bmap raw (of_nat q) st = Some (di_block raw ! q, st)"
proof -
  have "unat (of_nat q :: u32) = q" using assms by (simp add: unat_of_nat)
  then show ?thesis using assms by (simp add: ext2_inode_bmap_def word_less_nat_alt)
qed

lemma dir_walk_name:
  assumes "vol_ok st" and "dir_ok st raw" and "q \<le> dir_blocks st raw"
  shows "\<exists>c. dir_walk (bsize st) raw (name_test name) (of_nat (q * nbs st)) () st =
             Some (walk_result (find_name st name (dir_list st raw q)), st\<lparr>ext2_buf := c\<rparr>) \<and>
           length c = EXT2_BUF_SIZE \<and>
           (\<forall>b e. find_name st name (dir_list st raw q) = Some (b, e) \<longrightarrow> take (nbs st) c = blk st b)"
  using assms
proof (induction "dir_blocks st raw - q" arbitrary: q st)
  case 0
  then have q: "q = dir_blocks st raw" and q12: "q \<le> 12" by (simp_all add: dir_ok_def)
  have "\<not> (of_nat (q * nbs st) :: u32) < di_size raw"
    using dir_blocks_iff [OF "0.prems"(1), of q raw] q dir_offset(1) [OF "0.prems"(1) q12]
    by (simp add: word_less_nat_alt)
  then have "dir_walk (bsize st) raw (name_test name) (of_nat (q * nbs st)) () st = Some (Not_Found, st\<lparr>ext2_buf := ext2_buf st\<rparr>)"
    by (subst dir_walk.simps) simp
  moreover have "find_name st name (dir_list st raw q) = None" using q by (simp add: dir_list_def find_name_def)
  ultimately show ?case using vol_okD(3) [OF "0.prems"(1)] by (auto simp: walk_result_def intro!: exI [of _ "ext2_buf st"])
next
  case (Suc k)
  let ?b = "di_block raw ! q"
  have q: "q < dir_blocks st raw" and q12: "q < 12" using Suc.hyps(2) Suc.prems(2) by (auto simp: dir_ok_def)
  define x :: u32 where "x = of_nat (q * nbs st)"
  define y :: u32 where "y = of_nat (Suc q * nbs st)"
  have lt: "x < di_size raw"
    unfolding x_def using dir_blocks_iff [OF Suc.prems(1), of q raw] q dir_offset(1) [OF Suc.prems(1), of q] q12
    by (simp add: word_less_nat_alt)
  note off = dir_offset [OF Suc.prems(1) less_imp_le [OF q12], folded x_def y_def] and nz = vol_ok_size(5) [OF Suc.prems(1)]
  have IH: "length c = EXT2_BUF_SIZE \<Longrightarrow> \<exists>c'. dir_walk (bsize st) raw (name_test name) y () (st\<lparr>ext2_buf := c\<rparr>) =
             Some (walk_result (find_name st name (dir_list st raw (Suc q))), st\<lparr>ext2_buf := c'\<rparr>) \<and>
           length c' = EXT2_BUF_SIZE \<and>
           (\<forall>b e. find_name st name (dir_list st raw (Suc q)) = Some (b, e) \<longrightarrow> take (nbs st) c' = blk st b)" for c
    using Suc.hyps(1) [of "st\<lparr>ext2_buf := c\<rparr>" "Suc q"] Suc.hyps(2) Suc.prems vol_ok_buf [OF Suc.prems(1), of c] q by (simp add: y_def)
  have "\<exists>c. dir_walk (bsize st) raw (name_test name) x () st =
             Some (walk_result (find_name st name (dir_list st raw q)), st\<lparr>ext2_buf := c\<rparr>) \<and>
           length c = EXT2_BUF_SIZE \<and>
           (\<forall>b e. find_name st name (dir_list st raw q) = Some (b, e) \<longrightarrow> take (nbs st) c = blk st b)"
  proof (cases "?b = 0")
    case True
    have "dir_walk (bsize st) raw (name_test name) x () st =
          dir_walk (bsize st) raw (name_test name) y () st"
      using lt nz bmap_small [OF q12, of raw st] off(2,3,5) True by (subst dir_walk.simps) simp
    then show ?thesis
      using IH [of "ext2_buf st"] vol_okD(3) [OF Suc.prems(1)] dir_list_step [OF q] True
      by (simp add: find_name_block)
  next
    case False
    then have bn: "unat ?b < NB st" and bok: "block_ok (blk st ?b) (nbs st) 0"
      using Suc.prems(2) q by (auto simp: dir_ok_def)
    let ?c = "ext2_buf (load ?b st)"
    have len: "length ?c = EXT2_BUF_SIZE" by (rule length_load [OF Suc.prems(1) bn])
    have tk: "take (nbs st) ?c = blk st ?b" by (rule take_load [OF Suc.prems(1) bn])
    have ld: "load ?b st = st\<lparr>ext2_buf := ?c\<rparr>" by (simp add: load_def)
    obtain o' where sc: "scan_entries (name_test name) ?c (nbs st) 0 x () =
        Some (case find (names name (blk st ?b)) (entries (blk st ?b) (nbs st) 0) of
            Some (o1, de) \<Rightarrow> (Some de, o1, o', ()) | None \<Rightarrow> (None, nbs st, o', ()))"
      using scan_name [OF bok tk _ vol_ok_size(2) [OF Suc.prems(1)], of name x] vol_ok_size(2) [OF Suc.prems(1)] len by auto
    show ?thesis
    proof (cases "find (names name (blk st ?b)) (entries (blk st ?b) (nbs st) 0)")
      case (Some e)
      obtain o1 de where e: "e = (o1, de)" by (cases e)
      have "dir_walk (bsize st) raw (name_test name) x () st = Some (Found ?b o1 de (), st\<lparr>ext2_buf := ?c\<rparr>)"
        using lt nz bmap_small [OF q12, of raw st] off(2,3) False read_block_ok [OF Suc.prems(1) bn] sc Some e ld
        by (subst dir_walk.simps) simp
      then show ?thesis
        using Some e False dir_list_step [OF q] tk len by (auto simp: find_name_block walk_result_def intro!: exI [of _ ?c])
    next
      case None
      have "dir_walk (bsize st) raw (name_test name) x () st =
            dir_walk (bsize st) raw (name_test name) y () (st\<lparr>ext2_buf := ?c\<rparr>)"
        using lt nz bmap_small [OF q12, of raw st] off(2,3,4) False read_block_ok [OF Suc.prems(1) bn] sc None ld
        by (subst dir_walk.simps) simp
      then show ?thesis using IH [OF len] dir_list_step [OF q] False None by (simp add: find_name_block)
    qed
  qed
  then show ?case unfolding x_def .
qed

end
