(* ===== verification/Ext2_Lookup.thy ===== *)
theory Ext2_Lookup
  imports Ext2_Names
begin

text \<open>
  A directory as an association list from names to inode numbers, its \<open>listing\<close>, and what the
  operations of the driver do to it: \<open>ext2_lookup\<close> looks a key up, \<open>ext2_remove_entry\<close> deletes the
  first pair with a key.
\<close>

subsection \<open>The listing of a directory\<close>

definition used_names :: "u8 list \<Rightarrow> (nat \<times> ext2_dirent) list \<Rightarrow> (u8 list \<times> u32) list" where
  "used_names buf es = [(entry_name buf e, de_inode (snd e)). e \<leftarrow> es, de_inode (snd e) \<noteq> 0]"

definition dir_block_list :: "'a ext2_state_scheme \<Rightarrow> ext2_inode \<Rightarrow> u32 list" where
  "dir_block_list st raw = filter (\<lambda>b. b \<noteq> 0) (map ((!) (di_block raw)) [0..<dir_blocks st raw])"

definition block_names :: "'a ext2_state_scheme \<Rightarrow> u32 \<Rightarrow> (u8 list \<times> u32) list" where
  "block_names st b = used_names (blk st b) (entries (blk st b) (nbs st) 0)"

definition listing :: "'a ext2_state_scheme \<Rightarrow> ext2_inode \<Rightarrow> (u8 list \<times> u32) list" where
  "listing st raw = concat (map (block_names st) (dir_block_list st raw))"

definition dir_at :: "'a ext2_state_scheme \<Rightarrow> nat \<Rightarrow> u32 \<Rightarrow> bool" where
  \<comment> \<open>the VFS inode \<open>n\<close> is the directory \<open>ino\<close> of the volume, whose blocks are distinct and hold no metadata\<close>
  "dir_at st n ino \<longleftrightarrow>
     (\<exists>d. i_private (inode st n) = Ext2_Data d \<and> ext2_data_pool st d = ino) \<and>
     inode_ok st ino \<and> dir_ok st (dinode st ino) \<and> distinct (dir_block_list st (dinode st ino)) \<and>
     fst (slot st ino) \<notin> set (dir_block_list st (dinode st ino)) \<and>
     desc_block st (group_of st ino) \<notin> set (dir_block_list st (dinode st ino))"

lemma dir_atD:
  assumes "dir_at st n ino"
  shows "ext2_ino n st = Some (Some ino)" and "inode_ok st ino" and "dir_ok st (dinode st ino)"
    and "distinct (dir_block_list st (dinode st ino))" and "fst (slot st ino) \<notin> set (dir_block_list st (dinode st ino))"
    and "desc_block st (group_of st ino) \<notin> set (dir_block_list st (dinode st ino))"
  using assms by (auto simp: dir_at_def ext2_ino_def)

lemma used_names_Nil [simp]: "used_names buf [] = []"
  and used_names_Cons: "used_names buf (e # es) =
    (if de_inode (snd e) \<noteq> 0 then (entry_name buf e, de_inode (snd e)) # used_names buf es else used_names buf es)"
  by (simp_all add: used_names_def)

lemma map_of_used_names:
  "map_of (used_names buf es) (str_bytes name) = map_option (\<lambda>e. de_inode (snd e)) (find (names name buf) es)"
  by (induction es) (auto simp: used_names_Cons names_def)

lemma dir_list_blocks:
  "dir_list st raw 0 = concat (map (\<lambda>b. map (Pair b) (entries (blk st b) (nbs st) 0)) (dir_block_list st raw))"
proof -
  have "concat (map (block_list st raw) qs) =
      concat (map (\<lambda>b. map (Pair b) (entries (blk st b) (nbs st) 0)) (filter (\<lambda>b. b \<noteq> 0) (map ((!) (di_block raw)) qs)))" for qs
    by (induction qs) (simp_all add: block_list_def Let_def)
  then show ?thesis by (simp add: dir_list_def dir_block_list_def)
qed

lemma listing_lookup:
  "map_of (listing st raw) (str_bytes name) =
     map_option (\<lambda>(b, e). de_inode (snd e)) (find_name st name (dir_list st raw 0))"
proof -
  have "map_of (concat (map (block_names st) bs)) (str_bytes name) =
     map_option (\<lambda>(b, e). de_inode (snd e))
       (find_name st name (concat (map (\<lambda>b. map (Pair b) (entries (blk st b) (nbs st) 0)) bs)))" for bs
    by (induction bs)
       (auto simp: block_names_def map_of_used_names map_add_def find_name_def find_append find_map split: option.split)
  then show ?thesis by (simp add: listing_def dir_list_blocks)
qed

lemma views_buf_inode [simp]:
  "slot (st\<lparr>ext2_buf := c\<rparr>) ino = slot st ino" "inode_ok (st\<lparr>ext2_buf := c\<rparr>) ino = inode_ok st ino"
  "dinode (st\<lparr>ext2_buf := c\<rparr>) ino = dinode st ino" "group_of (st\<lparr>ext2_buf := c\<rparr>) ino = group_of st ino"
  by (simp_all add: inode_ok_def slot_def group_of_def inode_pos_def fs_inode_size_def dinode_def NB_def)

lemma views_buf_listing [simp]:
  "dir_block_list (st\<lparr>ext2_buf := c\<rparr>) raw = dir_block_list st raw" "listing (st\<lparr>ext2_buf := c\<rparr>) raw = listing st raw"
  by (simp_all add: dir_block_list_def listing_def block_names_def [abs_def])

subsection \<open>Looking a name up\<close>

lemma dir_at_loaded:
  assumes "vol_ok st" and "dir_at st n ino"
  obtains c where "ext2_read_inode ino st = Some (Some (dinode st ino), st\<lparr>ext2_buf := c\<rparr>)"
    and "length c = EXT2_BUF_SIZE"
proof -
  note i = dir_atD(2) [OF assms(2)]
  have d: "unat (desc_block st (group_of st ino)) < NB st" and s: "unat (fst (slot st ino)) < NB st"
    using i by (auto simp: inode_ok_def)
  let ?st = "load (fst (slot st ino)) (load (desc_block st (group_of st ino)) st)"
  have "?st = st\<lparr>ext2_buf := ext2_buf ?st\<rparr>" by (simp add: load_def)
  moreover have "length (ext2_buf ?st) = EXT2_BUF_SIZE"
    using vol_ok_load [OF vol_ok_load [OF assms(1) d]] s by (simp add: vol_okD)
  ultimately show thesis using that read_inode_ok [OF assms(1) i] by metis
qed

lemma walk_from_start:
  assumes "vol_ok st" and "dir_at st n ino"
  obtains c0 c where "ext2_ino n st = Some (Some ino)"
    and "ext2_read_inode ino st = Some (Some (dinode st ino), st\<lparr>ext2_buf := c0\<rparr>)"
    and "dir_walk (bsize st) (dinode st ino) (name_test name) 0 () (st\<lparr>ext2_buf := c0\<rparr>) =
      Some (walk_result (find_name st name (dir_list st (dinode st ino) 0)), st\<lparr>ext2_buf := c\<rparr>)"
    and "length c = EXT2_BUF_SIZE"
    and "\<forall>b e. find_name st name (dir_list st (dinode st ino) 0) = Some (b, e) \<longrightarrow> take (nbs st) c = blk st b"
proof -
  obtain c0 where r: "ext2_read_inode ino st = Some (Some (dinode st ino), st\<lparr>ext2_buf := c0\<rparr>)" "length c0 = EXT2_BUF_SIZE"
    using dir_at_loaded [OF assms] .
  have "vol_ok (st\<lparr>ext2_buf := c0\<rparr>)" using vol_ok_buf [OF assms(1) r(2)] .
  from dir_walk_name [OF this, of "dinode st ino" 0 name] dir_atD(3) [OF assms(2)]
  obtain c where "dir_walk (bsize st) (dinode st ino) (name_test name) 0 () (st\<lparr>ext2_buf := c0\<rparr>) =
      Some (walk_result (find_name st name (dir_list st (dinode st ino) 0)), st\<lparr>ext2_buf := c\<rparr>)"
    "length c = EXT2_BUF_SIZE"
    "\<forall>b e. find_name st name (dir_list st (dinode st ino) 0) = Some (b, e) \<longrightarrow> take (nbs st) c = blk st b"
    by auto
  then show thesis using that dir_atD(1) [OF assms(2)] r(1) by blast
qed

lemma make_child_ok:
  assumes "vol_ok st" and "inode_ok st ino" and "ext2_data_pool_next st < 64"
    and "k < VFS_MAX_INODES" and "i_no (inode st k) = 0"
  shows "\<exists>child st'. make_child ino st = Some (Some child, st') \<and> i_no (inode st child) = 0 \<and>
    i_no (inode st' child) = ino \<and> ext2_ino child st' = Some (Some ino) \<and>
    i_size (inode st' child) = di_size (dinode st ino) \<and> i_mode (inode st' child) = di_mode (dinode st ino) \<and>
          ext2_data_pool_next st' = ext2_data_pool_next st + 1"
proof -
  obtain c where r: "ext2_read_inode ino st = Some (Some (dinode st ino), st\<lparr>ext2_buf := c\<rparr>)"
    using read_inode_ok [OF assms(1,2)] by (auto simp: load_def)
  let ?st = "st\<lparr>ext2_buf := c, ext2_data_pool_next := ext2_data_pool_next st + 1\<rparr>"
  obtain j st1 where a: "vfs_alloc_inode ?st = (Some j, st1)"
    using vfs_alloc_inode_total [OF assms(4), of ?st] assms(5) by auto
  note s = vfs_alloc_inode_SomeD [OF a]
  have "make_child ino st =
      Some (Some j, upd_inode j (fill_inode ino (dinode st ino) (ext2_data_pool_next st)) (set_data (ext2_data_pool_next st) ino st1))"
    using r a assms(3) by (simp add: make_child_def ext2_alloc_data_def)
  then show ?thesis
    using s by (auto simp: upd_inode_def set_data_def fill_inode_def Let_def ext2_ino_def)
qed

text \<open>
  C25. Looking a name up. On a well-formed directory of a healthy volume \<open>ext2_lookup\<close> always returns.
  For a name that is not in the listing it reports an error and changes nothing but the buffer. For a
  name that is, with a free VFS inode and room in the pool of private data, it returns a VFS inode that
  was free and now carries the number of the first entry with that name, and its size and mode; one
  element of that pool is used up.
\<close>
theorem ext2_lookup_refines_listing:
  assumes "vol_ok st" and "dir_at st n dir"
  shows "(map_of (listing st (dinode st dir)) (str_bytes name) = None \<longrightarrow>
           (\<exists>c. ext2_lookup n name st = Some (None, st\<lparr>ext2_buf := c\<rparr>))) \<and>
    (\<forall>ino k. map_of (listing st (dinode st dir)) (str_bytes name) = Some ino \<and> inode_ok st ino \<and>
         ext2_data_pool_next st < 64 \<and> k < VFS_MAX_INODES \<and> i_no (inode st k) = 0 \<longrightarrow>
       (\<exists>child st'. ext2_lookup n name st = Some (Some child, st') \<and> i_no (inode st child) = 0 \<and>
          i_no (inode st' child) = ino \<and> ext2_ino child st' = Some (Some ino) \<and>
          i_size (inode st' child) = di_size (dinode st ino) \<and> i_mode (inode st' child) = di_mode (dinode st ino) \<and>
          ext2_data_pool_next st' = ext2_data_pool_next st + 1))"
proof -
  let ?f = "find_name st name (dir_list st (dinode st dir) 0)"
  obtain c0 c where w: "ext2_ino n st = Some (Some dir)"
    "ext2_read_inode dir st = Some (Some (dinode st dir), st\<lparr>ext2_buf := c0\<rparr>)"
    "dir_walk (bsize st) (dinode st dir) (name_test name) 0 () (st\<lparr>ext2_buf := c0\<rparr>) = Some (walk_result ?f, st\<lparr>ext2_buf := c\<rparr>)"
    "length c = EXT2_BUF_SIZE"
    using walk_from_start [OF assms] by metis
  have v: "vol_ok (st\<lparr>ext2_buf := c\<rparr>)" using vol_ok_buf [OF assms(1) w(4)] .
  have miss: "ext2_lookup n name st = Some (None, st\<lparr>ext2_buf := c\<rparr>)" if "?f = None"
    using w that by (simp add: ext2_lookup_def walk_result_def)
  have hit: "ext2_lookup n name st = make_child (de_inode de) (st\<lparr>ext2_buf := c\<rparr>)" if "?f = Some (b, off, de)" for b off de
    using w that by (simp add: ext2_lookup_def walk_result_def)
  show ?thesis
  proof (intro conjI allI impI)
    assume "map_of (listing st (dinode st dir)) (str_bytes name) = None"
    then have "?f = None" by (simp add: listing_lookup)
    then show "\<exists>c. ext2_lookup n name st = Some (None, st\<lparr>ext2_buf := c\<rparr>)" using miss by blast
  next
    fix ino k
    assume a: "map_of (listing st (dinode st dir)) (str_bytes name) = Some ino \<and> inode_ok st ino \<and>
         ext2_data_pool_next st < 64 \<and> k < VFS_MAX_INODES \<and> i_no (inode st k) = 0"
    then obtain b off de where f: "?f = Some (b, off, de)" "de_inode de = ino" by (auto simp: listing_lookup)
    have "inode_ok (st\<lparr>ext2_buf := c\<rparr>) ino" using a by simp
    from make_child_ok [OF v this, of k] a hit [OF f(1)] f(2)
    show "\<exists>child st'. ext2_lookup n name st = Some (Some child, st') \<and> i_no (inode st child) = 0 \<and>
          i_no (inode st' child) = ino \<and> ext2_ino child st' = Some (Some ino) \<and>
          i_size (inode st' child) = di_size (dinode st ino) \<and> i_mode (inode st' child) = di_mode (dinode st ino) \<and>
          ext2_data_pool_next st' = ext2_data_pool_next st + 1"
      by simp
  qed
qed

subsection \<open>A new directory\<close>

definition dot :: "u32 \<Rightarrow> ext2_dirent" where
  "dot self = \<lparr>de_inode = self, de_rec_len = 12, de_name_len = 1, de_file_type = 2\<rparr>"

definition dotdot :: "u32 \<Rightarrow> u32 \<Rightarrow> ext2_dirent" where
  "dotdot bs parent = \<lparr>de_inode = parent, de_rec_len = ucast (bs - 12), de_name_len = 2, de_file_type = 2\<rparr>"

lemma dot_entries_at:
  assumes "24 \<le> unat bs"
  shows "length (dot_entries bs self parent) = unat bs"
    and "dirent_at (dot_entries bs self parent) 0 = dot self"
    and "dirent_at (dot_entries bs self parent) 12 = dotdot bs parent"
    and "get_bytes 8 1 (dot_entries bs self parent) = str_bytes ''.''"
    and "get_bytes 20 2 (dot_entries bs self parent) = str_bytes ''..''"
proof -
  let ?e1 = "encode_dirent (dot self) @ str_bytes ''.''" and ?e2 = "encode_dirent (dotdot bs parent) @ str_bytes ''..''"
  have l: "length (encode_dirent x) = 8" for x by (simp add: encode_dirent_def)
  let ?b1 = "put_bytes 0 ?e1 (replicate (unat bs) 0)"
  have b1: "length ?b1 = unat bs" using assms l by (simp add: length_put_bytes)
  have d: "dot_entries bs self parent = put_bytes 12 ?e2 ?b1" by (simp add: dot_entries_def dot_def dotdot_def)
  show "length (dot_entries bs self parent) = unat bs" using assms l b1 by (simp add: d length_put_bytes)
  have p1: "get_bytes 0 9 ?b1 = ?e1" using assms l by (intro get_put_same) simp_all
  have p2: "get_bytes 12 10 (dot_entries bs self parent) = ?e2" using assms l b1 unfolding d by (intro get_put_same) simp_all
  have q1: "get_bytes 0 9 (dot_entries bs self parent) = ?e1"
    using get_put_disjoint [of 12 ?e2 ?b1 0 9] p1 assms l b1 by (simp add: d)
  have part: "get_bytes (o1 + k) m buf = get_bytes k m (get_bytes o1 t buf)" if "k + m \<le> t" for o1 k m t and buf :: "u8 list"
    using that by (simp add: get_bytes_def take_drop add.commute [of k o1])
  have head: "get_bytes 0 8 (encode_dirent x @ ys) = encode_dirent x" "get_bytes 8 m (encode_dirent x @ ys) = take m ys" for x ys m
    using l by (simp_all add: get_bytes_def)
  show "dirent_at (dot_entries bs self parent) 0 = dot self"
    using part [of 0 8 9 0 "dot_entries bs self parent"] by (simp add: q1 head DIRENT_SIZE_def decode_encode_dirent)
  show "dirent_at (dot_entries bs self parent) 12 = dotdot bs parent"
    using part [of 0 8 10 12 "dot_entries bs self parent"] by (simp add: p2 head DIRENT_SIZE_def decode_encode_dirent)
  show "get_bytes 8 1 (dot_entries bs self parent) = str_bytes ''.''"
    using part [of 8 1 9 0 "dot_entries bs self parent"] by (simp add: q1 head)
  show "get_bytes 20 2 (dot_entries bs self parent) = str_bytes ''..''"
    using part [of 8 2 10 12 "dot_entries bs self parent"] by (simp add: p2 head)
qed

lemma unat_dotdot_len:
  assumes "24 \<le> unat (bs :: u32)" and "unat bs \<le> EXT2_BUF_SIZE"
  shows "unat (ucast (bs - 12) :: u16) = unat bs - 12"
proof -
  have "12 \<le> bs" using assms(1) by (simp add: word_le_nat_alt)
  then have "unat (bs - 12) = unat bs - 12" by (simp add: unat_sub)
  then show ?thesis using assms by (simp add: unsigned_ucast_eq take_bit_nat_def EXT2_BUF_SIZE_def)
qed

lemma dot_entries_listing:
  assumes "24 \<le> unat bs" and "unat bs \<le> EXT2_BUF_SIZE"
  shows "block_ok (dot_entries bs self parent) (unat bs) 0"
    and "entries (dot_entries bs self parent) (unat bs) 0 = [(0, dot self), (12, dotdot bs parent)]"
proof -
  note at = dot_entries_at [OF assms(1), of self parent] and len = unat_dotdot_len [OF assms]
  have nz: "ucast (bs - 12) \<noteq> (0 :: u16)" using len assms(1) by (auto simp: unat_eq_0 [symmetric])
  have e: "block_ok (dot_entries bs self parent) (unat bs) (unat bs)" "entries (dot_entries bs self parent) (unat bs) (unat bs) = []"
    by (simp_all add: block_ok.simps entries.simps)
  have s: "12 + (unat bs - 12) = unat bs" using assms(1) by simp
  have "block_ok (dot_entries bs self parent) (unat bs) 12"
    "entries (dot_entries bs self parent) (unat bs) 12 = [(12, dotdot bs parent)]"
    using assms(1) at(3) len nz e s
    by (simp_all add: block_ok.simps [of _ _ 12] entries.simps [of _ _ 12] dotdot_def DIRENT_SIZE_def)
  then show "block_ok (dot_entries bs self parent) (unat bs) 0"
    "entries (dot_entries bs self parent) (unat bs) 0 = [(0, dot self), (12, dotdot bs parent)]"
    using assms(1) at(2)
    by (simp_all add: block_ok.simps [of _ _ 0] entries.simps [of _ _ 0] dot_def DIRENT_SIZE_def)
qed

subsection \<open>An instance\<close>

definition dir_raw :: "u32 \<Rightarrow> ext2_inode" where
  "dir_raw b = zero_inode\<lparr>di_mode := 0x41ED, di_links := 2, di_size := 1024, di_block := b # replicate 14 0\<rparr>"

definition dirs_image :: "u32 \<Rightarrow> u8 list" where
  \<comment> \<open>the root directory, inode 2, and its subdirectory 3, with no entries but their own\<close>
  "dirs_image = empty_image(
     5 := put_bytes 256 (encode_ext2_inode (dir_raw 10)) (put_bytes 128 (encode_ext2_inode (dir_raw 9)) (replicate 1024 0)),
     9 := dot_entries 1024 2 2, 10 := dot_entries 1024 3 2)"

definition demo_dirs :: ext2_state where
  \<comment> \<open>directory 3 of the volume, opened as VFS inode 1\<close>
  "demo_dirs = (demo_ext2 dirs_image)\<lparr>
     vfs_inodes := (\<lambda>_. demo_vfs_inode)(1 := demo_vfs_inode\<lparr>i_no := 3, i_type := VFS_IDIR, i_private := Ext2_Data 0\<rparr>),
     ext2_data_pool := (\<lambda>_. 0)(0 := 3), ext2_data_pool_next := 1\<rparr>"

lemma wf_dir_raw: "wf_ext2_inode (dir_raw b)"
  by (simp add: wf_ext2_inode_def dir_raw_def zero_inode_def)

lemma on_demo_dirs: "on_demo (with_desc dirs_image) demo_dirs"
proof -
  have "length (dirs_image m) = 1024" for m
    by (simp add: dirs_image_def empty_image_def length_put_bytes dinode.length_encode [OF wf_dir_raw] INODE_SIZE_def dot_entries_at)
  then have "on_demo (with_desc dirs_image) (demo_ext2 dirs_image)" by (rule on_demo_ext2)
  then show ?thesis by (simp add: on_demo_def demo_dirs_def)
qed

lemma demo_dirs_inodes: "dinode demo_dirs 2 = dir_raw 9" "dinode demo_dirs 3 = dir_raw 10"
proof -
  let ?b = "put_bytes 128 (encode_ext2_inode (dir_raw 9)) (replicate 1024 0)"
  have b5: "blk demo_dirs 5 = put_bytes 256 (encode_ext2_inode (dir_raw 10)) ?b"
    using on_demo_blk [OF on_demo_dirs, of 5] by (simp add: with_desc_def dirs_image_def)
  have l: "length ?b = 1024" by (simp add: length_put_bytes dinode.length_encode [OF wf_dir_raw] INODE_SIZE_def)
  show "dinode demo_dirs 3 = dir_raw 10"
    using demo_slot(1) [OF on_demo_dirs, of 3] b5 l dinode.read_written [OF wf_dir_raw, of 256 ?b] by (simp add: dinode_def INODE_SIZE_def)
  have "get_bytes 128 INODE_SIZE (put_bytes 256 (encode_ext2_inode (dir_raw 10)) ?b) = get_bytes 128 INODE_SIZE ?b"
    using l by (intro dinode.read_other_slot [OF wf_dir_raw]) (simp_all add: INODE_SIZE_def)
  then show "dinode demo_dirs 2 = dir_raw 9"
    using demo_slot(1) [OF on_demo_dirs, of 2] b5 dinode.read_written [OF wf_dir_raw, of 128 "replicate 1024 0"]
    by (simp add: dinode_def INODE_SIZE_def)
qed

lemma demo_dirs_blocks: "blk demo_dirs 9 = dot_entries 1024 2 2" "blk demo_dirs 10 = dot_entries 1024 3 2"
  using on_demo_blk [OF on_demo_dirs, of 9] on_demo_blk [OF on_demo_dirs, of 10] by (simp_all add: with_desc_def dirs_image_def)

lemma demo_dirs_ok:
  "dir_block_list demo_dirs (dir_raw 10) = [10]" "dir_at demo_dirs 1 3"
  "listing demo_dirs (dir_raw 10) = [(str_bytes ''.'', 3), (str_bytes ''..'', 2)]"
  "inode_ok demo_dirs 2" "inode_ok demo_dirs 3"
proof -
  note sz = on_demo_sizes [OF on_demo_dirs] and sl = demo_slot [OF on_demo_dirs, of 3] and d = demo_bgd(2) [OF on_demo_dirs]
  show "inode_ok demo_dirs 2" "inode_ok demo_dirs 3"
    using demo_slot(3) [OF on_demo_dirs, of 2] demo_slot(3) [OF on_demo_dirs, of 3] by simp_all
  have n: "dir_blocks demo_dirs (dir_raw 10) = 1" using sz(1) by (simp add: dir_blocks_def dir_raw_def)
  then show bl: "dir_block_list demo_dirs (dir_raw 10) = [10]" by (simp add: dir_block_list_def dir_raw_def)
  note e = dot_entries_listing [of 1024 3 2, simplified EXT2_BUF_SIZE_def, simplified] and at = dot_entries_at [of 1024 3 2, simplified]
  have "dir_ok demo_dirs (dir_raw 10)" using n sz demo_dirs_blocks(2) e(1) by (simp add: dir_ok_def dir_raw_def)
  then show "dir_at demo_dirs 1 3"
    using sl bl d demo_dirs_inodes(2) by (simp add: dir_at_def) (simp add: demo_dirs_def)
  show "listing demo_dirs (dir_raw 10) = [(str_bytes ''.'', 3), (str_bytes ''..'', 2)]"
    using bl demo_dirs_blocks(2) sz(1) e(2) at(4,5)
    by (simp add: listing_def block_names_def used_names_Cons entry_name_def dot_def dotdot_def DIRENT_SIZE_def)
qed

theorem ext2_lookup_refines_listing_witness:
  "(\<exists>c. ext2_lookup 1 ''x'' demo_dirs = Some (None, demo_dirs\<lparr>ext2_buf := c\<rparr>)) \<and>
   (\<exists>child st'. ext2_lookup 1 ''..'' demo_dirs = Some (Some child, st') \<and> i_no (inode st' child) = 2)"
proof -
  have free: "ext2_data_pool_next demo_dirs < 64" "(0 :: nat) < VFS_MAX_INODES" "i_no (inode demo_dirs 0) = 0"
    by (simp_all add: demo_dirs_def demo_vfs_inode_def VFS_MAX_INODES_def)
  note t = ext2_lookup_refines_listing [OF on_demo_vol_ok [OF on_demo_dirs] demo_dirs_ok(2), unfolded demo_dirs_inodes(2) demo_dirs_ok(3)]
  have "\<exists>c. ext2_lookup 1 ''x'' demo_dirs = Some (None, demo_dirs\<lparr>ext2_buf := c\<rparr>)"
    using t [of "''x''"] by (simp add: str_bytes_eq_iff)
  moreover have "\<exists>child st'. ext2_lookup 1 ''..'' demo_dirs = Some (Some child, st') \<and> i_no (inode st' child) = 2"
    using conjunct2 [OF t [of "''..''"], rule_format, of 2 0] free demo_dirs_ok(4) by (auto simp: str_bytes_eq_iff)
  ultimately show ?thesis ..
qed

end
