(* ===== verification/Ext2_Remove.thy ===== *)
theory Ext2_Remove
  imports Ext2_Lookup
begin

text \<open>
  Removing a name from a directory, in terms of its listing, and where the directory operations of
  the driver fail: the emptiness check of \<open>ext2_rmdir\<close>, blocks with an empty record, the pool of
  private data.
\<close>

subsection \<open>Clearing an entry\<close>

fun del1 :: "'k \<Rightarrow> ('k \<times> 'v) list \<Rightarrow> ('k \<times> 'v) list" where
  \<comment> \<open>without the first pair with this key\<close>
  "del1 k [] = []"
| "del1 k (p # ps) = (if fst p = k then ps else p # del1 k ps)"

lemma del1_append: "del1 k (xs @ ys) = (if k \<in> fst ` set xs then del1 k xs @ ys else xs @ del1 k ys)"
  by (induction xs) auto

lemma used_names_keys: "str_bytes name \<in> fst ` set (used_names buf es) \<longleftrightarrow> find (names name buf) es \<noteq> None"
  using map_of_used_names [of buf es name] map_of_eq_None_iff [of "used_names buf es" "str_bytes name"] by auto

lemma entries_ge: "(p, e) \<in> set (entries buf bs off) \<Longrightarrow> off \<le> p"
proof (induction buf bs off rule: entries.induct)
  case (1 buf bs off)
  then show ?case by (subst (asm) entries.simps) (fastforce split: if_splits)
qed

lemma clear_inode_decode:
  assumes "off + DIRENT_SIZE \<le> length buf"
  shows "dirent_at (put_bytes off (le32 0) buf) off = (dirent_at buf off)\<lparr>de_inode := 0\<rparr>"
proof -
  let ?g = "get_bytes off 8 buf" and ?g' = "get_bytes off 8 (put_bytes off (le32 0) buf)"
  have "?g' = le32 0 @ drop 4 ?g"
    using assms by (intro nth_equalityI) (auto simp: buf_simps DIRENT_SIZE_def nth_append)
  then have "get_bytes 0 4 ?g' = le32 0" "get_bytes 4 2 ?g' = get_bytes 4 2 ?g" "?g' ! 6 = ?g ! 6" "?g' ! 7 = ?g ! 7"
    using assms by (simp_all add: get_bytes_def nth_append DIRENT_SIZE_def)
  then show ?thesis by (simp add: decode_dirent_def DIRENT_SIZE_def of_le32_le32)
qed

lemma entries_behind:
  assumes "off + 4 \<le> o1" and "bs \<le> length buf" and "block_ok buf bs o1"
  shows "block_ok (put_bytes off (le32 0) buf) bs o1 \<and>
    used_names (put_bytes off (le32 0) buf) (entries (put_bytes off (le32 0) buf) bs o1) = used_names buf (entries buf bs o1)"
  using assms
proof (induction buf bs o1 rule: entries.induct)
  case (1 buf bs o1)
  let ?buf = "put_bytes off (le32 0) buf" and ?de = "dirent_at buf o1"
  show ?case
  proof (cases "o1 < bs \<and> de_rec_len ?de \<noteq> 0")
    case True
    then have fit: "o1 + unat (de_rec_len ?de) \<le> bs" "DIRENT_SIZE + unat (de_name_len ?de) \<le> unat (de_rec_len ?de)"
      and ok: "block_ok buf bs (o1 + unat (de_rec_len ?de))"
      using "1.prems"(3) by (simp_all add: block_ok.simps [of buf bs o1])
    have same: "get_bytes (o1 + k) m ?buf = get_bytes (o1 + k) m buf" if "k + m \<le> unat (de_rec_len ?de)" for k m
      using that fit "1.prems"(1,2) by (intro get_put_disjoint) auto
    have de: "dirent_at ?buf o1 = ?de" using same [of 0 DIRENT_SIZE] fit by simp
    have nm: "entry_name ?buf (o1, ?de) = entry_name buf (o1, ?de)"
      using same [of DIRENT_SIZE "unat (de_name_len ?de)"] fit by (simp add: entry_name_def)
    show ?thesis
      using "1.IH" [OF True _ _ ok] "1.prems"(1,2) True fit de nm
      by (simp add: block_ok.simps [of _ bs o1] entries.simps [of _ bs o1] used_names_Cons)
  next
    case False
    then have "o1 = bs" using "1.prems"(3) by (simp add: block_ok.simps [of buf bs o1])
    then show ?thesis by (simp add: block_ok.simps entries.simps)
  qed
qed

lemma clear_entry:
  assumes "block_ok buf bs o1" and "bs \<le> length buf" and "find (names name buf) (entries buf bs o1) = Some (off, de)"
  shows "block_ok (put_bytes off (le32 0) buf) bs o1 \<and>
    used_names (put_bytes off (le32 0) buf) (entries (put_bytes off (le32 0) buf) bs o1)
      = del1 (str_bytes name) (used_names buf (entries buf bs o1)) \<and> off + DIRENT_SIZE \<le> bs"
  using assms
proof (induction buf bs o1 rule: entries.induct)
  case (1 buf bs o1)
  let ?buf = "put_bytes off (le32 0) buf" and ?de = "dirent_at buf o1"
  have go: "o1 < bs \<and> de_rec_len ?de \<noteq> 0" using "1.prems"(3) by (auto simp: entries.simps [of buf bs o1] split: if_splits)
  then have fit: "o1 + unat (de_rec_len ?de) \<le> bs" "DIRENT_SIZE + unat (de_name_len ?de) \<le> unat (de_rec_len ?de)"
    and ok: "block_ok buf bs (o1 + unat (de_rec_len ?de))"
    using "1.prems"(1) by (simp_all add: block_ok.simps [of buf bs o1])
  have e: "entries buf bs o1 = (o1, ?de) # entries buf bs (o1 + unat (de_rec_len ?de))" using go by (simp add: entries.simps [of buf bs o1])
  show ?case
  proof (cases "names name buf (o1, ?de)")
    case True
    then have off: "off = o1" using "1.prems"(3) e by simp
    have nz: "de_inode ?de \<noteq> 0" "entry_name buf (o1, ?de) = str_bytes name" using True by (simp_all add: names_def)
    have de: "dirent_at ?buf o1 = ?de\<lparr>de_inode := 0\<rparr>" unfolding off using fit "1.prems"(2) by (intro clear_inode_decode) simp
    have "off + 4 \<le> o1 + unat (de_rec_len ?de)" using fit off by (simp add: DIRENT_SIZE_def)
    from entries_behind [OF this "1.prems"(2) ok] show ?thesis
      using de go fit nz e off by (simp add: block_ok.simps [of _ bs o1] entries.simps [of "put_bytes o1 _ buf" bs o1] used_names_Cons)
  next
    case False
    then have f: "find (names name buf) (entries buf bs (o1 + unat (de_rec_len ?de))) = Some (off, de)" using "1.prems"(3) e by simp
    note IH = "1.IH" [OF go ok "1.prems"(2) f]
    have "(off, de) \<in> set (entries buf bs (o1 + unat (de_rec_len ?de)))" using f by (auto simp: find_Some_iff)
    then have ge: "o1 + unat (de_rec_len ?de) \<le> off" by (rule entries_ge)
    have same: "get_bytes (o1 + k) m ?buf = get_bytes (o1 + k) m buf" if "k + m \<le> unat (de_rec_len ?de)" for k m
      using that ge IH "1.prems"(2) by (intro get_put_disjoint) (auto simp: DIRENT_SIZE_def)
    have de: "dirent_at ?buf o1 = ?de" using same [of 0 DIRENT_SIZE] fit by simp
    have nm: "entry_name ?buf (o1, ?de) = entry_name buf (o1, ?de)"
      using same [of DIRENT_SIZE "unat (de_name_len ?de)"] fit by (simp add: entry_name_def)
    have "de_inode ?de \<noteq> 0 \<Longrightarrow> entry_name buf (o1, ?de) \<noteq> str_bytes name" using False by (simp add: names_def)
    then show ?thesis
      using IH de nm go fit e by (simp add: block_ok.simps [of ?buf bs o1] entries.simps [of ?buf bs o1] used_names_Cons)
  qed
qed

subsection \<open>Removing a name\<close>

lemma find_name_split:
  assumes "find_name st name (dir_list st raw 0) = Some (b, e)"
  obtains xs ys where "dir_block_list st raw = xs @ b # ys"
    and "find (names name (blk st b)) (entries (blk st b) (nbs st) 0) = Some e"
    and "\<And>x. x \<in> set xs \<Longrightarrow> find (names name (blk st x)) (entries (blk st x) (nbs st) 0) = None"
proof -
  have "\<exists>xs ys. bs = xs @ b # ys \<and> find (names name (blk st b)) (entries (blk st b) (nbs st) 0) = Some e \<and>
      (\<forall>x \<in> set xs. find (names name (blk st x)) (entries (blk st x) (nbs st) 0) = None)"
    if "find_name st name (concat (map (\<lambda>b. map (Pair b) (entries (blk st b) (nbs st) 0)) bs)) = Some (b, e)" for bs
    using that
  proof (induction bs)
    case (Cons x bs)
    show ?case
    proof (cases "find (names name (blk st x)) (entries (blk st x) (nbs st) 0)")
      case None
      then have "find_name st name (concat (map (\<lambda>b. map (Pair b) (entries (blk st b) (nbs st) 0)) bs)) = Some (b, e)"
        using Cons.prems by (simp add: find_name_def find_append find_map)
      from Cons.IH [OF this] obtain xs ys where "bs = xs @ b # ys"
        "find (names name (blk st b)) (entries (blk st b) (nbs st) 0) = Some e"
        "\<forall>x \<in> set xs. find (names name (blk st x)) (entries (blk st x) (nbs st) 0) = None" by blast
      then show ?thesis using None by (intro exI [of _ "x # xs"] exI [of _ ys]) simp
    next
      case (Some e')
      then have "x = b" "e' = e" using Cons.prems by (simp_all add: find_name_def find_append find_map)
      then show ?thesis using Some by (intro exI [of _ "[]"] exI [of _ bs]) simp
    qed
  qed (simp add: find_name_def)
  from this [of "dir_block_list st raw"] show thesis using assms that by (auto simp: dir_list_blocks)
qed

lemma dir_blocks_fs: "fs st' = fs st \<Longrightarrow> dir_blocks st' raw = dir_blocks st raw"
  and dir_block_list_fs: "fs st' = fs st \<Longrightarrow> dir_block_list st' raw = dir_block_list st raw"
  by (simp_all add: dir_blocks_def dir_block_list_def)

lemma dir_block_list_iff:
  "b \<in> set (dir_block_list st raw) \<longleftrightarrow> b \<noteq> 0 \<and> (\<exists>q < dir_blocks st raw. di_block raw ! q = b)"
  by (auto simp: dir_block_list_def)

lemma map_except: "b \<notin> set xs \<Longrightarrow> map (\<lambda>x. if x = b then c else f x) xs = map f xs"
  by (rule map_cong) auto

text \<open>An update of one block of a directory keeps the directory, if the block is a chain of entries again.\<close>

lemma dir_at_stored:
  assumes "vol_ok st" and "dir_at st n ino" and "stored b data st st'" and "b \<in> set (dir_block_list st (dinode st ino))"
    and "block_ok data (nbs st) 0"
  shows "dir_at st' n ino" and "dinode st' ino = dinode st ino"
    and "listing st' (dinode st ino) =
      concat (map (\<lambda>x. if x = b then used_names data (entries data (nbs st) 0) else block_names st x) (dir_block_list st (dinode st ino)))"
proof -
  note d = dir_atD [OF assms(2)] and s = storedD [OF assms(3)]
  let ?raw = "dinode st ino"
  have nm: "fst (slot st ino) \<noteq> b" "desc_block st (group_of st ino) \<noteq> b" using d(5,6) assms(4) by auto
  note sl = slot_stored [OF assms(3) d(2) nm(2)]
  have "unat (fst (slot st ino)) < NB st" using d(2) by (simp add: inode_ok_def)
  then show raw: "dinode st' ino = ?raw" using sl(1) s(7) nm(1) by (simp add: dinode_def)
  have g: "group_of st' ino = group_of st ino" "desc_block st' g = desc_block st g" for g
    using s(2) by (simp_all add: group_of_def desc_block_def)
  have nb: "unat x < NB st" if "x \<in> set (dir_block_list st ?raw)" for x
    using that d(3) by (auto simp: dir_block_list_iff dir_ok_def)
  have "dir_ok st' ?raw"
    using d(3) assms(5) s(2,3,7) dir_blocks_fs [OF s(2)] by (auto simp: dir_ok_def)
  then show "dir_at st' n ino"
    using assms(2) sl s(4,5) raw g dir_block_list_fs [OF s(2)] by (auto simp: dir_at_def)
  have "block_names st' x = (if x = b then used_names data (entries data (nbs st) 0) else block_names st x)"
    if "x \<in> set (dir_block_list st ?raw)" for x
    using s(2,7) nb [OF that] by (simp add: block_names_def)
  then show "listing st' ?raw =
      concat (map (\<lambda>x. if x = b then used_names data (entries data (nbs st) 0) else block_names st x) (dir_block_list st ?raw))"
    unfolding listing_def dir_block_list_fs [OF s(2)] by (intro arg_cong [of _ _ concat] map_cong) auto
qed

lemma block_keys:
  "str_bytes name \<in> fst ` set (concat (map (block_names st) xs)) \<longleftrightarrow>
     (\<exists>x \<in> set xs. find (names name (blk st x)) (entries (blk st x) (nbs st) 0) \<noteq> None)"
proof -
  have "fst ` set (concat (map (block_names st) xs)) = (\<Union>x \<in> set xs. fst ` set (block_names st x))" by auto
  then show ?thesis by (simp add: block_names_def used_names_keys)
qed

lemma cleared_listing:
  assumes "vol_ok st" and "dir_at st n dir" and "find_name st name (dir_list st (dinode st dir) 0) = Some (b, off, de)"
    and "stored b (put_bytes off (le32 0) (blk st b)) st st'"
  shows "dir_at st' n dir" and "dinode st' dir = dinode st dir"
    and "listing st' (dinode st dir) = del1 (str_bytes name) (listing st (dinode st dir))"
proof -
  let ?raw = "dinode st dir" and ?data = "put_bytes off (le32 0) (blk st b)"
  obtain xs ys where sp: "dir_block_list st ?raw = xs @ b # ys"
    "find (names name (blk st b)) (entries (blk st b) (nbs st) 0) = Some (off, de)"
    "\<And>x. x \<in> set xs \<Longrightarrow> find (names name (blk st x)) (entries (blk st x) (nbs st) 0) = None"
    using find_name_split [OF assms(3)] by blast
  have b: "unat b < NB st" "block_ok (blk st b) (nbs st) 0"
    using dir_atD(3) [OF assms(2)] sp(1) dir_block_list_iff [of b st ?raw] by (auto simp: dir_ok_def)
  have len: "length (blk st b) = nbs st" by (rule blk_rd_many(3) [OF assms(1) b(1)])
  note cl = clear_entry [OF b(2) _ sp(2), unfolded len, simplified]
  have bin: "b \<in> set (dir_block_list st ?raw)" using sp(1) by simp
  have ok: "block_ok ?data (nbs st) 0" using cl by simp
  note d = dir_at_stored [OF assms(1,2,4) bin ok]
  show "dir_at st' n dir" "dinode st' dir = ?raw" by (rule d(1), rule d(2))
  have "b \<notin> set xs" "b \<notin> set ys" using dir_atD(4) [OF assms(2)] sp(1) by auto
  then have "listing st' ?raw = concat (map (block_names st) xs) @ del1 (str_bytes name) (block_names st b) @ concat (map (block_names st) ys)"
    unfolding d(3) sp(1) using cl by (simp add: block_names_def [of st b] map_except)
  moreover have "str_bytes name \<notin> fst ` set (concat (map (block_names st) xs))" using sp(3) block_keys [of name st xs] by auto
  moreover have "str_bytes name \<in> fst ` set (block_names st b)" using sp(2) by (simp add: block_names_def used_names_keys)
  ultimately show "listing st' ?raw = del1 (str_bytes name) (listing st ?raw)"
    unfolding listing_def [of st] sp(1) by (simp add: del1_append)
qed

text \<open>
  C26. Removing a name. On a well-formed directory \<open>ext2_remove_entry\<close> of a name in the listing
  succeeds and takes the first pair with that name out of the listing, and nothing else; the volume and
  the directory stay well formed. For a name not in the listing it fails without a change.
\<close>
theorem ext2_remove_entry_refines_listing:
  assumes "vol_ok st" and "dir_at st n dir"
  shows "(map_of (listing st (dinode st dir)) (str_bytes name) = None \<longrightarrow>
           (\<exists>c. ext2_remove_entry n name st = Some (-1, st\<lparr>ext2_buf := c\<rparr>))) \<and>
    (map_of (listing st (dinode st dir)) (str_bytes name) \<noteq> None \<longrightarrow>
       (\<exists>st'. ext2_remove_entry n name st = Some (0, st') \<and> vol_ok st' \<and> dir_at st' n dir \<and>
          dinode st' dir = dinode st dir \<and>
          listing st' (dinode st' dir) = del1 (str_bytes name) (listing st (dinode st dir))))"
proof -
  let ?raw = "dinode st dir"
  let ?f = "find_name st name (dir_list st ?raw 0)"
  obtain c0 c where w: "ext2_ino n st = Some (Some dir)"
    "ext2_read_inode dir st = Some (Some ?raw, st\<lparr>ext2_buf := c0\<rparr>)"
    "dir_walk (bsize st) ?raw (name_test name) 0 () (st\<lparr>ext2_buf := c0\<rparr>) = Some (walk_result ?f, st\<lparr>ext2_buf := c\<rparr>)"
    "length c = EXT2_BUF_SIZE" "\<forall>b e. ?f = Some (b, e) \<longrightarrow> take (nbs st) c = blk st b"
    using walk_from_start [OF assms] by metis
  show ?thesis
  proof (intro conjI impI)
    assume "map_of (listing st ?raw) (str_bytes name) = None"
    then have "?f = None" by (simp add: listing_lookup)
    then have "ext2_remove_entry n name st = Some (-1, st\<lparr>ext2_buf := c\<rparr>)"
      using w by (simp add: ext2_remove_entry_def walk_result_def)
    then show "\<exists>c. ext2_remove_entry n name st = Some (-1, st\<lparr>ext2_buf := c\<rparr>)" by blast
  next
    assume "map_of (listing st ?raw) (str_bytes name) \<noteq> None"
    then obtain b off de where f: "?f = Some (b, off, de)" by (auto simp: listing_lookup)
    obtain xs ys where sp: "dir_block_list st ?raw = xs @ b # ys"
      "find (names name (blk st b)) (entries (blk st b) (nbs st) 0) = Some (off, de)"
      "\<And>x. x \<in> set xs \<Longrightarrow> find (names name (blk st x)) (entries (blk st x) (nbs st) 0) = None"
      using find_name_split [OF f] by blast
    have b: "unat b < NB st" "block_ok (blk st b) (nbs st) 0"
      using dir_atD(3) [OF assms(2)] sp(1) dir_block_list_iff [of b st ?raw] by (auto simp: dir_ok_def)
    have len: "length (blk st b) = nbs st" by (rule blk_rd_many(3) [OF assms(1) b(1)])
    let ?data = "put_bytes off (le32 0) (blk st b)"
    note cl = clear_entry [OF b(2) _ sp(2), unfolded len, simplified]
    have fit: "off + length (le32 0) \<le> nbs st" using cl by (simp add: DIRENT_SIZE_def)
    let ?st1 = "st\<lparr>ext2_buf := put_bytes off (le32 0) c\<rparr>"
    have sb: "set_buf off (le32 0) (st\<lparr>ext2_buf := c\<rparr>) = Some ?st1"
      using fit vol_ok_size(2) [OF assms(1)] by (simp add: set_buf_ok)
    have v1: "vol_ok ?st1"
      using fit vol_ok_size(2) [OF assms(1)] w(4) by (intro vol_ok_buf [OF assms(1)]) (simp add: length_put_bytes)
    obtain st' where wr: "write_buf b ?st1 = Some (0, st')" and s1: "stored b (take (nbs ?st1) (ext2_buf ?st1)) ?st1 st'"
      using write_buf_stored [OF v1, of b] b(1) by auto
    have "take (nbs st) (put_bytes off (le32 0) c) = ?data"
      using take_put_bytes [OF fit, of c] w(4,5) f vol_ok_size(2) [OF assms(1)] by simp
    then have s: "stored b ?data st st'" using stored_buf [OF s1] by simp
    note d = cleared_listing [OF assms f s]
    have "ext2_remove_entry n name st = Some (0, st')"
      using w f sb wr by (simp add: ext2_remove_entry_def walk_result_def)
    then show "\<exists>st'. ext2_remove_entry n name st = Some (0, st') \<and> vol_ok st' \<and> dir_at st' n dir \<and>
          dinode st' dir = ?raw \<and> listing st' (dinode st' dir) = del1 (str_bytes name) (listing st ?raw)"
      using storedD(1) [OF s] d by auto
  qed
qed

theorem ext2_remove_entry_refines_listing_witness:
  "(\<exists>c. ext2_remove_entry 1 ''x'' demo_dirs = Some (-1, demo_dirs\<lparr>ext2_buf := c\<rparr>)) \<and>
   (\<exists>st'. ext2_remove_entry 1 ''..'' demo_dirs = Some (0, st') \<and> listing st' (dir_raw 10) = [(str_bytes ''.'', 3)])"
proof -
  note t = ext2_remove_entry_refines_listing [OF on_demo_vol_ok [OF on_demo_dirs] demo_dirs_ok(2), unfolded demo_dirs_inodes(2) demo_dirs_ok(3)]
  have "\<exists>c. ext2_remove_entry 1 ''x'' demo_dirs = Some (-1, demo_dirs\<lparr>ext2_buf := c\<rparr>)"
    using t [of "''x''"] by (simp add: str_bytes_eq_iff)
  moreover have "\<exists>st'. ext2_remove_entry 1 ''..'' demo_dirs = Some (0, st') \<and> listing st' (dir_raw 10) = [(str_bytes ''.'', 3)]"
    using conjunct2 [OF t [of "''..''"]] by (auto simp: str_bytes_eq_iff)
  ultimately show ?thesis ..
qed

subsection \<open>The emptiness check of rmdir\<close>

lemma find_child_ok:
  assumes "vol_ok st" and "dir_at st n dir" and "map_of (listing st (dinode st dir)) (str_bytes name) = Some ino"
  obtains c where "find_child n name st = Some (Some ino, st\<lparr>ext2_buf := c\<rparr>)" and "length c = EXT2_BUF_SIZE"
proof -
  let ?f = "find_name st name (dir_list st (dinode st dir) 0)"
  obtain c0 c where w: "ext2_ino n st = Some (Some dir)"
    "ext2_read_inode dir st = Some (Some (dinode st dir), st\<lparr>ext2_buf := c0\<rparr>)"
    "dir_walk (bsize st) (dinode st dir) (name_test name) 0 () (st\<lparr>ext2_buf := c0\<rparr>) = Some (walk_result ?f, st\<lparr>ext2_buf := c\<rparr>)"
    "length c = EXT2_BUF_SIZE"
    using walk_from_start [OF assms(1,2)] by metis
  obtain b off de where f: "?f = Some (b, off, de)" "de_inode de = ino" using assms(3) by (auto simp: listing_lookup)
  then have "find_child n name st = Some (Some ino, st\<lparr>ext2_buf := c\<rparr>)" using w by (simp add: find_child_def walk_result_def)
  then show thesis using that w(4) by blast
qed

lemma dir_not_empty_ok:
  assumes "vol_ok st" and "di_block raw ! 0 = b" and "b \<noteq> 0" and "unat b < NB st" and "20 \<le> nbs st"
  shows "\<exists>c. dir_not_empty raw st =
    Some (de_rec_len (dirent_at (blk st b) 12) > 12 \<and> de_inode (dirent_at (blk st b) 12) \<noteq> 0, st\<lparr>ext2_buf := c\<rparr>)"
proof -
  have "get_bytes 12 DIRENT_SIZE (ext2_buf (load b st)) = get_bytes 12 DIRENT_SIZE (blk st b)"
    using assms(5) by (intro get_load [OF assms(1,4)]) (simp add: DIRENT_SIZE_def)
  then show ?thesis
    using bmap_small [of 0 raw st] read_block_ok [OF assms(1,4)] assms(2,3)
    by (auto simp: dir_not_empty_def Let_def load_def)
qed

text \<open>
  C27. Removing directories. The check by which \<open>ext2_rmdir\<close> means to refuse a directory that is not
  empty looks at the length of the \<open>..\<close> record. It refuses every directory that \<open>ext2_mkdir\<close> has
  just made, and takes one for empty whose \<open>..\<close> record was cut to 12 bytes to make room for an entry.
\<close>
theorem ext2_rmdir_emptiness_check_inverted:
  assumes "vol_ok st" and "dir_at st n dir" and "map_of (listing st (dinode st dir)) (str_bytes name) = Some ino"
    and "inode_ok st ino" and "di_block (dinode st ino) ! 0 = b" and "b \<noteq> 0" and "unat b < NB st" and "24 < nbs st"
  shows "(blk st b = dot_entries (bsize st) ino parent \<and> parent \<noteq> 0 \<longrightarrow>
            (\<exists>c. ext2_rmdir n name st = Some (-1, st\<lparr>ext2_buf := c\<rparr>))) \<and>
         (de_rec_len (dirent_at (blk st b) 12) = 12 \<longrightarrow>
            (\<exists>c. dir_not_empty (dinode st ino) st = Some (False, st\<lparr>ext2_buf := c\<rparr>)))"
proof (intro conjI impI)
  assume "de_rec_len (dirent_at (blk st b) 12) = 12"
  then show "\<exists>c. dir_not_empty (dinode st ino) st = Some (False, st\<lparr>ext2_buf := c\<rparr>)"
    using dir_not_empty_ok [OF assms(1,5,6,7)] assms(8) by simp
next
  assume fresh: "blk st b = dot_entries (bsize st) ino parent \<and> parent \<noteq> 0"
  obtain c where f: "find_child n name st = Some (Some ino, st\<lparr>ext2_buf := c\<rparr>)" "length c = EXT2_BUF_SIZE"
    using find_child_ok [OF assms(1-3)] .
  have v: "vol_ok (st\<lparr>ext2_buf := c\<rparr>)" using vol_ok_buf [OF assms(1) f(2)] .
  have d: "unat (desc_block st (group_of st ino)) < NB st" and s: "unat (fst (slot st ino)) < NB st"
    using assms(4) by (auto simp: inode_ok_def)
  let ?st2 = "load (fst (slot st ino)) (load (desc_block st (group_of st ino)) (st\<lparr>ext2_buf := c\<rparr>))"
  have r: "ext2_read_inode ino (st\<lparr>ext2_buf := c\<rparr>) = Some (Some (dinode st ino), ?st2)"
    using read_inode_ok [OF v, of ino] assms(4) by simp
  have v2: "vol_ok ?st2" using vol_ok_load [OF vol_ok_load [OF v]] d s by simp
  have at: "dirent_at (blk st b) 12 = dotdot (bsize st) parent" using fresh dot_entries_at(3) assms(8) by simp
  have "12 < unat (ucast (bsize st - 12) :: u16)" using unat_dotdot_len [of "bsize st"] assms(8) vol_ok_size(2) [OF assms(1)] by simp
  then have ne: "de_rec_len (dotdot (bsize st) parent) > 12" "de_inode (dotdot (bsize st) parent) \<noteq> 0"
    using fresh by (simp_all add: dotdot_def word_less_nat_alt)
  obtain c2 where "dir_not_empty (dinode st ino) ?st2 = Some (True, ?st2\<lparr>ext2_buf := c2\<rparr>)"
    using dir_not_empty_ok [OF v2 assms(5,6)] assms(7,8) at ne by auto
  moreover have "?st2\<lparr>ext2_buf := x\<rparr> = st\<lparr>ext2_buf := x\<rparr>" for x by (simp add: load_def)
  moreover have "?st2 = st\<lparr>ext2_buf := ext2_buf ?st2\<rparr>" by (simp add: load_def)
  ultimately show "\<exists>c. ext2_rmdir n name st = Some (-1, st\<lparr>ext2_buf := c\<rparr>)"
    using f(1) r by (auto simp: ext2_rmdir_def)
qed

theorem ext2_rmdir_emptiness_check_inverted_witness:
  "\<exists>c. ext2_rmdir 1 ''..'' demo_dirs = Some (-1, demo_dirs\<lparr>ext2_buf := c\<rparr>)"
proof -
  note sz = on_demo_sizes [OF on_demo_dirs]
  have m: "map_of (listing demo_dirs (dinode demo_dirs 3)) (str_bytes ''..'') = Some 2"
    unfolding demo_dirs_inodes(2) demo_dirs_ok(3) by (simp add: str_bytes_eq_iff)
  have b: "di_block (dinode demo_dirs 2) ! 0 = 9" unfolding demo_dirs_inodes(1) by (simp add: dir_raw_def)
  show ?thesis
    using ext2_rmdir_emptiness_check_inverted [OF on_demo_vol_ok [OF on_demo_dirs] demo_dirs_ok(2) m demo_dirs_ok(4) b, of 2]
      sz demo_dirs_blocks(1) by simp
qed

subsection \<open>Records of length zero\<close>

lemma dir_walk_stuck:
  assumes "vol_ok st" and "0 < di_size raw" and "di_block raw ! 0 = b" and "b \<noteq> 0" and "unat b < NB st"
    and "de_rec_len (dirent_at (blk st b) 0) = 0" and "DIRENT_SIZE \<le> nbs st"
  shows "dir_walk (bsize st) raw test 0 s st = None"
proof (rule ccontr)
  assume "dir_walk (bsize st) raw test 0 s st \<noteq> None"
  then obtain r where r: "dir_walk (bsize st) raw test 0 s st = Some r" by blast
  have nz: "bsize st \<noteq> 0" by (rule vol_ok_size(5) [OF assms(1)])
  let ?here = "\<lambda>bs raw' off st'. bs = bsize st \<and> raw' = raw \<and> off = (0 :: u32) \<and>
      (\<exists>c. st' = st\<lparr>ext2_buf := c\<rparr> \<and> length c = EXT2_BUF_SIZE)"
  have "\<not> ?here (bsize st) raw 0 st"
  proof (rule dir_walk.raw_induct [of "\<lambda>bs raw' test off s st' r. \<not> ?here bs raw' off st'", OF _ r])
    fix walk :: "u32 \<Rightarrow> ext2_inode \<Rightarrow> (u8 list \<Rightarrow> nat \<Rightarrow> ext2_dirent \<Rightarrow> 's \<Rightarrow> 's step option) \<Rightarrow> u32 \<Rightarrow> 's \<Rightarrow>
        'a ext2_state_scheme \<Rightarrow> ('s walk \<times> 'a ext2_state_scheme) option"
      and bs raw' test off s st' r
    assume IH: "\<And>bs raw' test off s st' r. walk bs raw' test off s st' = Some r \<Longrightarrow> \<not> ?here bs raw' off st'"
      and body: "(if \<not> off < di_size raw' then Some (Not_Found, st')
      else if bs = 0 then None
      else do {
        (phys_block, st) \<leftarrow> ext2_inode_bmap raw' (off div bs) st';
        if phys_block = 0 then walk bs raw' test (off + (bs - off mod bs)) s st
        else do {
          (r, st) \<leftarrow> ext2_read_block phys_block st;
          if r < 0 then Some (Walk_Error, st)
          else do {
            (hit, block_off, offset', s') \<leftarrow>
              scan_entries test (ext2_buf st) (unat bs) (unat (off mod bs)) off s;
            case hit of
              Some de \<Rightarrow> Some (Found phys_block block_off de s', st)
            | None \<Rightarrow>
                walk bs raw' test
                  (if block_off \<ge> unat bs then (off div bs + 1) * bs else offset') s' st
          }
        }
      }) = Some r"
    show "\<not> ?here bs raw' off st'"
    proof
      assume h: "?here bs raw' off st'"
      then obtain c where st': "st' = st\<lparr>ext2_buf := c\<rparr>" and len: "length c = EXT2_BUF_SIZE" by blast
      have v: "vol_ok st'" unfolding st' by (rule vol_ok_buf [OF assms(1) len])
      have nb: "unat b < NB st'" using assms(5) st' by simp
      have g: "get_bytes 0 DIRENT_SIZE (ext2_buf (load b st')) = get_bytes 0 DIRENT_SIZE (blk st b)"
        using get_load [OF v nb, of 0 DIRENT_SIZE] assms(7) st' by simp
      have "6 \<le> EXT2_BUF_SIZE" "0 < nbs st" using vol_ok_size(3) [OF assms(1)] by (simp_all add: EXT2_BUF_SIZE_def)
      then have sc: "scan_entries test (ext2_buf (load b st')) (nbs st) 0 0 s = Some (None, 0, 0, s)"
        using g assms(6) by (subst scan_entries.simps) (simp add: Let_def)
      have "walk (bsize st) raw test 0 s (load b st') = Some r"
        using body h assms(2,3,4) nz bmap_small [of 0 raw st'] read_block_ok [OF v nb] sc vol_ok_size(3) [OF assms(1)] by simp
      moreover have "load b st' = st\<lparr>ext2_buf := ext2_buf (load b st')\<rparr>" by (simp add: load_def st')
      ultimately show False using IH length_load [OF v nb] by blast
    qed
  qed
  moreover have "st = st\<lparr>ext2_buf := ext2_buf st\<rparr>" by simp
  ultimately show False using vol_okD(3) [OF assms(1)] by blast
qed

text \<open>
  C28. Records of length zero. Where the first record of a directory has length zero, neither
  \<open>ext2_lookup\<close> nor \<open>ext2_readdir\<close> returns, for any name and any index: the outer loop comes back to
  that record forever.
\<close>
theorem ext2_zero_record_hangs:
  assumes "vol_ok st" and "ext2_ino n st = Some (Some dir)" and "inode_ok st dir" and "0 < di_size (dinode st dir)"
    and "di_block (dinode st dir) ! 0 = b" and "b \<noteq> 0" and "unat b < NB st" and "DIRENT_SIZE \<le> nbs st"
    and "de_rec_len (dirent_at (blk st b) 0) = 0"
  shows "ext2_lookup n name st = None \<and> ext2_readdir n index st = None"
proof -
  have d: "unat (desc_block st (group_of st dir)) < NB st" and s: "unat (fst (slot st dir)) < NB st"
    using assms(3) by (auto simp: inode_ok_def)
  let ?st = "load (fst (slot st dir)) (load (desc_block st (group_of st dir)) st)"
  have v: "vol_ok ?st" using vol_ok_load [OF vol_ok_load [OF assms(1) d]] s by simp
  have "dir_walk (bsize st) (dinode st dir) (name_test name) 0 () ?st = None"
    "dir_walk (bsize st) (dinode st dir) index_test 0 index ?st = None"
    using dir_walk_stuck [OF v assms(4-6), of "name_test name"] dir_walk_stuck [OF v assms(4-6), of index_test] assms(7-9)
    by simp_all
  then show ?thesis
    using assms(2) read_inode_ok [OF assms(1,3)]
    by (simp add: ext2_lookup_def ext2_readdir_def)
qed

definition zeroed_image :: "u32 \<Rightarrow> u8 list" where
  \<comment> \<open>a directory, inode 3, whose block has been zeroed\<close>
  "zeroed_image = empty_image(5 := put_bytes 256 (encode_ext2_inode (dir_raw 10)) (replicate 1024 0))"

theorem ext2_zero_record_hangs_witness:
  "ext2_lookup 1 ''x'' ((demo_ext2 zeroed_image)\<lparr>
     vfs_inodes := (\<lambda>_. demo_vfs_inode)(1 := demo_vfs_inode\<lparr>i_no := 3, i_private := Ext2_Data 0\<rparr>),
     ext2_data_pool := (\<lambda>_. 0)(0 := 3)\<rparr>) = None" (is "ext2_lookup 1 _ ?st = None")
proof -
  have "length (zeroed_image m) = 1024" for m
    by (simp add: zeroed_image_def empty_image_def length_put_bytes dinode.length_encode [OF wf_dir_raw] INODE_SIZE_def)
  then have "on_demo (with_desc zeroed_image) (demo_ext2 zeroed_image)" by (rule on_demo_ext2)
  then have od: "on_demo (with_desc zeroed_image) ?st" by (simp add: on_demo_def)
  note sl = demo_slot [OF od, of 3] and sz = on_demo_sizes [OF od]
  have "blk ?st 5 = put_bytes 256 (encode_ext2_inode (dir_raw 10)) (replicate 1024 0)"
    using on_demo_blk [OF od, of 5] by (simp add: with_desc_def zeroed_image_def)
  then have raw: "dinode ?st 3 = dir_raw 10"
    using sl(1) dinode.read_written [OF wf_dir_raw, of 256 "replicate 1024 0"] by (simp add: dinode_def INODE_SIZE_def)
  have z: "blk ?st 10 = replicate 1024 0"
    using on_demo_blk [OF od, of 10] by (simp add: with_desc_def zeroed_image_def empty_image_def)
  have "de_rec_len (dirent_at (blk ?st 10) 0) = 0" unfolding z by (simp add: decode_dirent_def get_bytes_def DIRENT_SIZE_def of_le16_def)
  then show ?thesis
    using ext2_zero_record_hangs [OF on_demo_vol_ok [OF od], of 1 3 10 "''x''"] sl(3) raw sz
    by (simp add: ext2_ino_def dir_raw_def DIRENT_SIZE_def)
qed

subsection \<open>The pool of private data\<close>

text \<open>
  C29. Lookups per boot. Elements of \<open>ext2_data_pool\<close> are never given back. Once its 64 elements are
  used, \<open>ext2_lookup\<close> fails for every name, those in the directory included, and \<open>ext2_mount\<close> cannot
  succeed a second time on any device: its pool of file systems has one element.
\<close>
theorem ext2_pools_exhausted:
  assumes "vol_ok st" and "dir_at st n dir" and "64 \<le> ext2_data_pool_next st" and "1 \<le> fs_pool_next st"
    and "\<forall>ino. map_of (listing st (dinode st dir)) (str_bytes name) = Some ino \<longrightarrow> inode_ok st ino"
  shows "(\<exists>c. ext2_lookup n name st = Some (None, st\<lparr>ext2_buf := c\<rparr>)) \<and> ext2_mount dev st = Some (None, st)"
proof -
  let ?f = "find_name st name (dir_list st (dinode st dir) 0)"
  obtain c0 c where w: "ext2_ino n st = Some (Some dir)"
    "ext2_read_inode dir st = Some (Some (dinode st dir), st\<lparr>ext2_buf := c0\<rparr>)"
    "dir_walk (bsize st) (dinode st dir) (name_test name) 0 () (st\<lparr>ext2_buf := c0\<rparr>) = Some (walk_result ?f, st\<lparr>ext2_buf := c\<rparr>)"
    "length c = EXT2_BUF_SIZE"
    using walk_from_start [OF assms(1,2)] by metis
  have "\<exists>c. ext2_lookup n name st = Some (None, st\<lparr>ext2_buf := c\<rparr>)"
  proof (cases ?f)
    case None
    then show ?thesis using w by (auto simp: ext2_lookup_def walk_result_def)
  next
    case (Some r)
    then obtain b off de where f: "?f = Some (b, off, de)" by (cases r) auto
    then have i: "inode_ok st (de_inode de)" using assms(5) by (simp add: listing_lookup)
    have "vol_ok (st\<lparr>ext2_buf := c\<rparr>)" using vol_ok_buf [OF assms(1) w(4)] .
    from read_inode_ok [OF this, of "de_inode de"] i
    obtain raw c' where r: "ext2_read_inode (de_inode de) (st\<lparr>ext2_buf := c\<rparr>) = Some (Some raw, st\<lparr>ext2_buf := c'\<rparr>)"
      by (auto simp: load_def)
    then have "make_child (de_inode de) (st\<lparr>ext2_buf := c\<rparr>) = Some (None, st\<lparr>ext2_buf := c'\<rparr>)"
      using assms(3) by (simp add: make_child_def ext2_alloc_data_def)
    then show ?thesis using w f by (auto simp: ext2_lookup_def walk_result_def)
  qed
  moreover have "ext2_mount dev st = Some (None, st)"
    using assms(4) by (simp add: ext2_mount_def EXT2_MAX_FS_def split: option.split)
  ultimately show ?thesis ..
qed

lemma views_pool [simp]:
  "blk (st\<lparr>ext2_data_pool_next := k\<rparr>) b = blk st b" "NB (st\<lparr>ext2_data_pool_next := k\<rparr>) = NB st"
  "desc_block (st\<lparr>ext2_data_pool_next := k\<rparr>) g = desc_block st g" "slot (st\<lparr>ext2_data_pool_next := k\<rparr>) i = slot st i"
  "dinode (st\<lparr>ext2_data_pool_next := k\<rparr>) i = dinode st i" "inode_ok (st\<lparr>ext2_data_pool_next := k\<rparr>) i = inode_ok st i"
  by (simp_all add: blk_def NB_def spb_def desc_block_def dinode_def slot_def group_of_def inode_pos_def fs_inode_size_def
      bgd_def desc_off_def inode_ok_def)

lemma views_pool_dir [simp]:
  "dir_block_list (st\<lparr>ext2_data_pool_next := k\<rparr>) raw = dir_block_list st raw" "listing (st\<lparr>ext2_data_pool_next := k\<rparr>) raw = listing st raw"
  "dir_at (st\<lparr>ext2_data_pool_next := k\<rparr>) n i = dir_at st n i" "vol_ok (st\<lparr>ext2_data_pool_next := k\<rparr>) = vol_ok st"
  by (simp_all add: dir_block_list_def dir_blocks_def listing_def block_names_def [abs_def] dir_at_def dir_ok_def group_of_def
      vol_ok_def spb_def vol_dev_def)

theorem ext2_pools_exhausted_witness:
  "(\<exists>c. ext2_lookup 1 ''..'' (demo_dirs\<lparr>ext2_data_pool_next := 64\<rparr>) = Some (None, demo_dirs\<lparr>ext2_data_pool_next := 64, ext2_buf := c\<rparr>)) \<and>
   ext2_mount (Some demo_disk) (demo_dirs\<lparr>ext2_data_pool_next := 64\<rparr>) = Some (None, demo_dirs\<lparr>ext2_data_pool_next := 64\<rparr>)"
proof -
  let ?st = "demo_dirs\<lparr>ext2_data_pool_next := 64\<rparr>"
  have v: "vol_ok ?st" using on_demo_vol_ok [OF on_demo_dirs] by simp
  have a: "dir_at ?st 1 3" using demo_dirs_ok(2) by simp
  show ?thesis
    using ext2_pools_exhausted [OF v a, of "''..''" "Some demo_disk"] demo_dirs_ok(3,4) demo_dirs_inodes(2)
    by (simp add: str_bytes_eq_iff) (simp add: demo_dirs_def demo_ext2_def)
qed

end
