(* ===== verification/Devtmpfs.thy ===== *)
theory Devtmpfs
  imports Ext2_Ops
begin

text \<open>
  The in-memory file system of \<open>kernel/devtmpfs.c\<close>, which holds the root directory, \<open>/dev\<close> and
  \<open>/mnt\<close>. A \<open>struct devtmpfs_dir\<close> is the list of its entries (\<open>count\<close> is the length); the static
  directories and the pool are one map from \<^typ>\<open>dir_ref\<close>. Every operation casts
  \<open>dir->private_data\<close> to a directory without a check; on an inode that carries something else
  (a symbolic link carries its target there) the result is \<^const>\<open>None\<close>.
\<close>

definition DEVTMPFS_MAX_ENTRIES :: nat where "DEVTMPFS_MAX_ENTRIES = 16"
definition DEVTMPFS_MAX_DIRS :: nat where "DEVTMPFS_MAX_DIRS = 16"
definition DEVTMPFS_MAX_SYMLINKS :: nat where "DEVTMPFS_MAX_SYMLINKS = 16"
definition DEVTMPFS_MAX_DEVICES :: nat where "DEVTMPFS_MAX_DEVICES = 32"

subsection \<open>State\<close>

datatype device_ops = Vga_Ops bool | Kbd_Ops | Block_Dev_File_Ops block_device
  \<comment> \<open>a \<open>struct vfs_ops\<close> with its private data; \<open>Vga_Ops True\<close> is the error stream\<close>

datatype device_kind =
    Device_Vfs device_ops
  | Device_Inode "vfs_inode_ops option" private_data

record devtmpfs_device =
  dev_name :: string
  dev_kind :: device_kind
  dev_i_type :: i_type
  dev_id :: u32

type_synonym devtmpfs_dir = "(string \<times> nat) list"

record fs_state = ext2_state +
  devtmpfs_devices :: "devtmpfs_device list"
  devtmpfs_dirs :: "dir_ref \<Rightarrow> devtmpfs_dir"
  devtmpfs_dir_next :: nat
  devtmpfs_symlink_targets :: "nat \<Rightarrow> string"
  devtmpfs_symlink_next :: nat

definition td_of :: "'a fs_state_scheme \<Rightarrow> nat \<Rightarrow> dir_ref option" where
  \<comment> \<open>\<open>(struct devtmpfs_dir *)dir->private_data\<close>\<close>
  "td_of st dir = (case i_private (inode st dir) of Dir_Data r \<Rightarrow> Some r | _ \<Rightarrow> None)"

definition set_dir :: "dir_ref \<Rightarrow> devtmpfs_dir \<Rightarrow> 'a fs_state_scheme \<Rightarrow> 'a fs_state_scheme" where
  "set_dir r es st = st\<lparr>devtmpfs_dirs := (devtmpfs_dirs st)(r := es)\<rparr>"

definition DIR_MODE :: u16 where
  "DIR_MODE = S_IFDIR OR S_IRWXU OR S_IRGRP OR S_IXGRP OR S_IROTH OR S_IXOTH"

subsection \<open>Directory operations\<close>

definition devtmpfs_readdir :: "nat \<Rightarrow> u32 \<Rightarrow> 'a fs_state_scheme \<Rightarrow> vfs_dirent option option" where
  \<comment> \<open>the inner \<open>None\<close> is the return value -1\<close>
  "devtmpfs_readdir dir index st = do {
     r \<leftarrow> td_of st dir;
     let td = devtmpfs_dirs st r;
     if unat index \<ge> length td then Some None
     else
       (let (name, n) = td ! unat index
        in Some (Some \<lparr>d_ino = i_no (inode st n), d_name = str_bytes (take 63 name),
                       d_type = (if i_type (inode st n) = VFS_IDIR then 4 else 8)\<rparr>))
   }"

definition entry_index :: "string \<Rightarrow> devtmpfs_dir \<Rightarrow> nat option" where
  "entry_index name td = find (\<lambda>i. fst (td ! i) = name) [0..<length td]"

definition devtmpfs_lookup :: "nat \<Rightarrow> string \<Rightarrow> 'a fs_state_scheme \<Rightarrow> nat option option" where
  "devtmpfs_lookup dir name st = do {
     r \<leftarrow> td_of st dir;
     let td = devtmpfs_dirs st r;
     Some (map_option (\<lambda>i. snd (td ! i)) (entry_index name td))
   }"

definition devtmpfs_add_entry :: "nat \<Rightarrow> string \<Rightarrow> nat \<Rightarrow> 'a fs_state_scheme \<Rightarrow> (int \<times> 'a fs_state_scheme) option" where
  "devtmpfs_add_entry dir name e st = do {
     r \<leftarrow> td_of st dir;
     let td = devtmpfs_dirs st r;
     if length td \<ge> DEVTMPFS_MAX_ENTRIES then Some (-1, st)
     else Some (0, set_dir r (td @ [(take 63 name, e)]) st)
   }"

definition drop_entry :: "nat \<Rightarrow> devtmpfs_dir \<Rightarrow> devtmpfs_dir" where
  \<comment> \<open>the last entry takes the place of entry \<open>i\<close>\<close>
  "drop_entry i td = butlast (td[i := last td])"

definition devtmpfs_remove_entry :: "nat \<Rightarrow> string \<Rightarrow> 'a fs_state_scheme \<Rightarrow> (int \<times> 'a fs_state_scheme) option" where
  "devtmpfs_remove_entry dir name st = do {
     r \<leftarrow> td_of st dir;
     let td = devtmpfs_dirs st r;
     case entry_index name td of
       None \<Rightarrow> Some (-1, st)
     | Some i \<Rightarrow> Some (0, set_dir r (drop_entry i td) st)
   }"

definition devtmpfs_mkdir :: "nat \<Rightarrow> string \<Rightarrow> u16 \<Rightarrow> 'a fs_state_scheme \<Rightarrow> (int \<times> 'a fs_state_scheme) option" where
  "devtmpfs_mkdir parent name mode st = do {
     r \<leftarrow> td_of st parent;
     if length (devtmpfs_dirs st r) \<ge> DEVTMPFS_MAX_ENTRIES then Some (-1, st)
     else if devtmpfs_dir_next st \<ge> DEVTMPFS_MAX_DIRS then Some (-1, st)
     else do {
       let new_dir = Pool_Dir (devtmpfs_dir_next st);
       let st = set_dir new_dir [] (st\<lparr>devtmpfs_dir_next := devtmpfs_dir_next st + 1\<rparr>);
       case vfs_alloc_inode st of
         (None, st) \<Rightarrow> Some (-1, st)
       | (Some n, st) \<Rightarrow>
           devtmpfs_add_entry parent name n
             (upd_inode n (\<lambda>i. i\<lparr>i_type := VFS_IDIR, i_mode := DIR_MODE, i_ops := Some Devtmpfs_Dir_Ops,
                                i_private := Dir_Data new_dir\<rparr>) st)
     }
   }"

definition devtmpfs_mknod :: "nat \<Rightarrow> string \<Rightarrow> u16 \<Rightarrow> u32 \<Rightarrow> 'a fs_state_scheme \<Rightarrow> (int \<times> 'a fs_state_scheme) option" where
  "devtmpfs_mknod parent name mode dev st = do {
     r \<leftarrow> td_of st parent;
     if length (devtmpfs_dirs st r) \<ge> DEVTMPFS_MAX_ENTRIES then Some (-1, st)
     else
       (case vfs_alloc_inode st of
          (None, st) \<Rightarrow> Some (-1, st)
        | (Some n, st) \<Rightarrow>
            (let file_type = mode AND S_IFMT in
             if file_type \<noteq> S_IFCHR \<and> file_type \<noteq> S_IFBLK then Some (-1, vfs_free_inode n st)
             else
               devtmpfs_add_entry parent name n
                 (upd_inode n (\<lambda>i. i\<lparr>i_type := (if file_type = S_IFCHR then VFS_IFCHR else VFS_IFBLK),
                                    i_size := 0, i_mode := mode, i_rdev := dev,
                                    i_ops := Some Devtmpfs_Dev_Null_Ops, i_private := No_Data\<rparr>) st)))
   }"

definition devtmpfs_unlink :: "nat \<Rightarrow> string \<Rightarrow> 'a fs_state_scheme \<Rightarrow> (int \<times> 'a fs_state_scheme) option" where
  "devtmpfs_unlink parent name st = devtmpfs_remove_entry parent name st"

definition devtmpfs_rmdir :: "nat \<Rightarrow> string \<Rightarrow> 'a fs_state_scheme \<Rightarrow> (int \<times> 'a fs_state_scheme) option" where
  "devtmpfs_rmdir parent name st = do {
     r \<leftarrow> td_of st parent;
     let td = devtmpfs_dirs st r;
     case entry_index name td of
       None \<Rightarrow> Some (-1, st)
     | Some i \<Rightarrow>
         (case i_private (inode st (snd (td ! i))) of
            No_Data \<Rightarrow> Some (0, set_dir r (drop_entry i td) st)
          | Dir_Data c \<Rightarrow>
              if length (devtmpfs_dirs st c) > 0 then Some (-1, st)
              else Some (0, set_dir r (drop_entry i td) st)
          | _ \<Rightarrow> None)
   }"

subsection \<open>Symbolic links\<close>

definition devtmpfs_symlink :: "nat \<Rightarrow> string \<Rightarrow> string \<Rightarrow> 'a fs_state_scheme \<Rightarrow> (int \<times> 'a fs_state_scheme) option" where
  "devtmpfs_symlink parent name target st =
     (if devtmpfs_symlink_next st \<ge> DEVTMPFS_MAX_SYMLINKS then Some (-1, st)
      else
        (let t = devtmpfs_symlink_next st;
             copy = take 63 target;
             st = st\<lparr>devtmpfs_symlink_targets := (devtmpfs_symlink_targets st)(t := copy)\<rparr>
         in case vfs_alloc_inode st of
              (None, st) \<Rightarrow> Some (-1, st)
            | (Some n, st) \<Rightarrow>
                (let st = upd_inode n (\<lambda>i. i\<lparr>i_type := VFS_ISYMLINK, i_mode := S_IFLNK OR S_IRWXU OR S_IRWXG OR S_IRWXO,
                                            i_ops := i_ops (inode st parent), i_private := Target_Data t,
                                            i_size := of_nat (length copy)\<rparr>) st
                 in devtmpfs_add_entry parent name n (st\<lparr>devtmpfs_symlink_next := t + 1\<rparr>))))"

definition devtmpfs_readlink_op :: "nat \<Rightarrow> u32 \<Rightarrow> 'a fs_state_scheme \<Rightarrow> (int \<times> u8 list) option" where
  \<comment> \<open>the return value and the bytes stored before the terminating zero\<close>
  "devtmpfs_readlink_op n bufsize st =
     (case i_private (inode st n) of
        No_Data \<Rightarrow> Some (-1, [])
      | Target_Data t \<Rightarrow>
          (let target = devtmpfs_symlink_targets st t;
               len = (if sint bufsize - 1 < int (length target) then sint (bufsize - 1) else int (length target))
           in if len < 0 then None else Some (len, str_bytes (take (nat len) target)))
      | _ \<Rightarrow> None)"

subsection \<open>Device registration\<close>

definition devtmpfs_register_vfs :: "string \<Rightarrow> device_ops \<Rightarrow> u32 \<Rightarrow> 'a fs_state_scheme \<Rightarrow> 'a fs_state_scheme" where
  "devtmpfs_register_vfs name ops dev st =
     (if length (devtmpfs_devices st) \<ge> DEVTMPFS_MAX_DEVICES then st
      else st\<lparr>devtmpfs_devices := devtmpfs_devices st @
                [\<lparr>dev_name = take 63 name, dev_kind = Device_Vfs ops, dev_i_type = VFS_IFILE, dev_id = dev\<rparr>]\<rparr>)"

definition devtmpfs_register_inode ::
    "string \<Rightarrow> vfs_inode_ops option \<Rightarrow> private_data \<Rightarrow> i_type \<Rightarrow> u32 \<Rightarrow> 'a fs_state_scheme \<Rightarrow> 'a fs_state_scheme" where
  "devtmpfs_register_inode name ops priv ty dev st =
     (if length (devtmpfs_devices st) \<ge> DEVTMPFS_MAX_DEVICES then st
      else st\<lparr>devtmpfs_devices := devtmpfs_devices st @
                [\<lparr>dev_name = take 63 name, dev_kind = Device_Inode ops priv, dev_i_type = ty, dev_id = dev\<rparr>]\<rparr>)"

definition device_inode :: "nat \<Rightarrow> devtmpfs_device \<Rightarrow> vfs_inode \<Rightarrow> vfs_inode" where
  \<comment> \<open>the inode of registered device number \<open>i\<close>\<close>
  "device_inode i dev n =
     (let n = n\<lparr>i_type := dev_i_type dev, i_size := 0,
                i_mode := (if dev_i_type dev = VFS_IDIR then DIR_MODE
                           else S_IFREG OR S_IRUSR OR S_IWUSR OR S_IRGRP OR S_IROTH),
                i_rdev := dev_id dev\<rparr>
      in case dev_kind dev of
           Device_Vfs _ \<Rightarrow> n\<lparr>i_ops := Some Devtmpfs_Vfs_Inode_Ops, i_private := Device_Data i\<rparr>
         | Device_Inode ops priv \<Rightarrow> n\<lparr>i_ops := ops, i_private := priv\<rparr>)"

fun populate_loop :: "nat \<Rightarrow> nat list \<Rightarrow> 'a fs_state_scheme \<Rightarrow> 'a fs_state_scheme option" where
  "populate_loop dev_dir [] st = Some st"
| "populate_loop dev_dir (i # is) st =
     (let dev = devtmpfs_devices st ! i in
      case vfs_alloc_inode st of
        (None, st) \<Rightarrow> populate_loop dev_dir is st
      | (Some n, st) \<Rightarrow> do {
          (_, st) \<leftarrow> devtmpfs_add_entry dev_dir (dev_name dev) n (upd_inode n (device_inode i dev) st);
          populate_loop dev_dir is st
        })"

definition populate_dir :: "nat \<Rightarrow> 'a fs_state_scheme \<Rightarrow> 'a fs_state_scheme option" where
  "populate_dir dev_dir st =
     (if i_type (inode st dev_dir) \<noteq> VFS_IDIR then Some st
      else populate_loop dev_dir [0..<length (devtmpfs_devices st)] st)"

subsection \<open>Initialisation\<close>

definition dir_inode :: "dir_ref \<Rightarrow> vfs_inode \<Rightarrow> vfs_inode" where
  "dir_inode r n = n\<lparr>i_type := VFS_IDIR, i_mode := DIR_MODE, i_ops := Some Devtmpfs_Dir_Ops, i_private := Dir_Data r\<rparr>"

definition devtmpfs_init :: "'a fs_state_scheme \<Rightarrow> 'a fs_state_scheme option" where
  "devtmpfs_init st =
     (let st = set_dir Mnt_Data [] (set_dir Dev_Data [] (set_dir Root_Data [] st));
          st = st\<lparr>devtmpfs_dir_next := 0, devtmpfs_symlink_next := 0\<rparr>
      in case vfs_alloc_inode st of
           (None, st) \<Rightarrow> Some st
         | (Some root, st) \<Rightarrow>
             (case vfs_alloc_inode (upd_inode root (dir_inode Root_Data) st) of
                (None, st) \<Rightarrow> Some st
              | (Some dev, st) \<Rightarrow> do {
                  (_, st) \<leftarrow> devtmpfs_add_entry root ''dev'' dev (upd_inode dev (dir_inode Dev_Data) st);
                  st \<leftarrow> (case vfs_alloc_inode st of
                             (None, st) \<Rightarrow> Some st
                           | (Some mnt, st) \<Rightarrow> do {
                               (_, st) \<leftarrow> devtmpfs_add_entry root ''mnt'' mnt (upd_inode mnt (dir_inode Mnt_Data) st);
                               Some st
                             });
                  Some (vfs_set_root_inode (Some root) st)
                }))"

definition devtmpfs_create_mount :: "'a fs_state_scheme \<Rightarrow> (nat option \<times> 'a fs_state_scheme) option" where
  "devtmpfs_create_mount st =
     (case vfs_alloc_inode st of
        (None, st) \<Rightarrow> Some (None, st)
      | (Some n, st) \<Rightarrow> do {
          st \<leftarrow> populate_dir n (upd_inode n (dir_inode Devmount_Root) (set_dir Devmount_Root [] st));
          Some (Some n, st)
        })"

end
