(* ===== verification/Vfs.thy ===== *)
theory Vfs
  imports Devtmpfs
begin

text \<open>
  The path layer of \<open>kernel/vfs.c\<close>: the dispatch through inode operation tables, path resolution with
  mounts and symbolic links, splitting a path, and the operations on paths.

  A field of an operation table is a function or, where the table has a null pointer, \<^const>\<open>None\<close>;
  calling through a null pointer is again the result \<^const>\<open>None\<close>.
\<close>

subsection \<open>Operation tables\<close>

fun lookup_op :: "vfs_inode_ops \<Rightarrow> (nat \<Rightarrow> string \<Rightarrow> 'a fs_state_scheme \<Rightarrow> (nat option \<times> 'a fs_state_scheme) option) option" where
  "lookup_op Ext2_Dir_Ops = Some ext2_lookup"
| "lookup_op Devtmpfs_Dir_Ops = Some (\<lambda>dir name st. map_option (\<lambda>r. (r, st)) (devtmpfs_lookup dir name st))"
| "lookup_op _ = None"

fun readlink_op :: "vfs_inode_ops \<Rightarrow> (nat \<Rightarrow> u32 \<Rightarrow> 'a fs_state_scheme \<Rightarrow> (int \<times> u8 list \<times> 'a fs_state_scheme) option) option" where
  "readlink_op Ext2_Symlink_Ops = Some ext2_readlink_op"
| "readlink_op Devtmpfs_Dir_Ops =
     Some (\<lambda>n sz st. map_option (\<lambda>(r, bytes). (r, bytes, st)) (devtmpfs_readlink_op n sz st))"
| "readlink_op _ = None"

fun readdir_op :: "vfs_inode_ops \<Rightarrow> (nat \<Rightarrow> u32 \<Rightarrow> 'a fs_state_scheme \<Rightarrow> (vfs_dirent option \<times> 'a fs_state_scheme) option) option" where
  "readdir_op Ext2_Dir_Ops = Some ext2_readdir"
| "readdir_op Devtmpfs_Dir_Ops = Some (\<lambda>dir i st. map_option (\<lambda>r. (r, st)) (devtmpfs_readdir dir i st))"
| "readdir_op _ = None"

fun add_entry_op :: "vfs_inode_ops \<Rightarrow> (nat \<Rightarrow> string \<Rightarrow> nat \<Rightarrow> 'a fs_state_scheme \<Rightarrow> (int \<times> 'a fs_state_scheme) option) option" where
  "add_entry_op Ext2_Dir_Ops = Some ext2_add_entry"
| "add_entry_op Devtmpfs_Dir_Ops = Some devtmpfs_add_entry"
| "add_entry_op _ = None"

fun remove_entry_op :: "vfs_inode_ops \<Rightarrow> (nat \<Rightarrow> string \<Rightarrow> 'a fs_state_scheme \<Rightarrow> (int \<times> 'a fs_state_scheme) option) option" where
  "remove_entry_op Ext2_Dir_Ops = Some ext2_remove_entry"
| "remove_entry_op Devtmpfs_Dir_Ops = Some devtmpfs_remove_entry"
| "remove_entry_op _ = None"

fun mkdir_op :: "vfs_inode_ops \<Rightarrow> (nat \<Rightarrow> string \<Rightarrow> u16 \<Rightarrow> 'a fs_state_scheme \<Rightarrow> (int \<times> 'a fs_state_scheme) option) option" where
  "mkdir_op Ext2_Dir_Ops = Some ext2_mkdir"
| "mkdir_op Devtmpfs_Dir_Ops = Some devtmpfs_mkdir"
| "mkdir_op _ = None"

fun rmdir_op :: "vfs_inode_ops \<Rightarrow> (nat \<Rightarrow> string \<Rightarrow> 'a fs_state_scheme \<Rightarrow> (int \<times> 'a fs_state_scheme) option) option" where
  "rmdir_op Ext2_Dir_Ops = Some ext2_rmdir"
| "rmdir_op Devtmpfs_Dir_Ops = Some devtmpfs_rmdir"
| "rmdir_op _ = None"

fun unlink_op :: "vfs_inode_ops \<Rightarrow> (nat \<Rightarrow> string \<Rightarrow> 'a fs_state_scheme \<Rightarrow> (int \<times> 'a fs_state_scheme) option) option" where
  "unlink_op Ext2_Dir_Ops = Some ext2_unlink"
| "unlink_op Devtmpfs_Dir_Ops = Some devtmpfs_unlink"
| "unlink_op _ = None"

fun symlink_op :: "vfs_inode_ops \<Rightarrow> (nat \<Rightarrow> string \<Rightarrow> string \<Rightarrow> 'a fs_state_scheme \<Rightarrow> (int \<times> 'a fs_state_scheme) option) option" where
  "symlink_op Ext2_Dir_Ops = Some ext2_symlink"
| "symlink_op Devtmpfs_Dir_Ops = Some devtmpfs_symlink"
| "symlink_op _ = None"

fun mknod_op :: "vfs_inode_ops \<Rightarrow> (nat \<Rightarrow> string \<Rightarrow> u16 \<Rightarrow> u32 \<Rightarrow> 'a fs_state_scheme \<Rightarrow> (int \<times> 'a fs_state_scheme) option) option" where
  "mknod_op Ext2_Dir_Ops = Some ext2_mknod"
| "mknod_op Devtmpfs_Dir_Ops = Some devtmpfs_mknod"
| "mknod_op _ = None"

fun link_op :: "vfs_inode_ops \<Rightarrow> (nat \<Rightarrow> string \<Rightarrow> nat \<Rightarrow> 'a fs_state_scheme \<Rightarrow> (int \<times> 'a fs_state_scheme) option) option" where
  "link_op Ext2_Dir_Ops = Some ext2_link"
| "link_op _ = None"

fun chmod_op :: "vfs_inode_ops \<Rightarrow> (nat \<Rightarrow> u16 \<Rightarrow> 'a fs_state_scheme \<Rightarrow> (int \<times> 'a fs_state_scheme) option) option" where
  "chmod_op Ext2_File_Ops = Some ext2_chmod"
| "chmod_op Ext2_Dir_Ops = Some ext2_chmod"
| "chmod_op _ = None"

fun rename_op :: "vfs_inode_ops \<Rightarrow> (nat \<Rightarrow> string \<Rightarrow> nat \<Rightarrow> string \<Rightarrow> 'a fs_state_scheme \<Rightarrow> (int \<times> 'a fs_state_scheme) option) option" where
  "rename_op Ext2_Dir_Ops = Some ext2_rename"
| "rename_op _ = None"

fun truncate_op :: "vfs_inode_ops \<Rightarrow> (nat \<Rightarrow> u32 \<Rightarrow> 'a fs_state_scheme \<Rightarrow> (int \<times> 'a fs_state_scheme) option) option" where
  "truncate_op Ext2_File_Ops = Some ext2_truncate"
| "truncate_op _ = None"

abbreviation op_of :: "(vfs_inode_ops \<Rightarrow> 'f option) \<Rightarrow> nat \<Rightarrow> 'a vfs_state_scheme \<Rightarrow> 'f option" where
  \<comment> \<open>\<open>inode->ops->field\<close>, or \<open>None\<close> if either pointer is null\<close>
  "op_of field n st \<equiv> i_ops (inode st n) \<bind> field"

subsection \<open>Path components\<close>

abbreviation slash :: char where "slash \<equiv> CHR ''/''"

definition skip_slash :: "string \<Rightarrow> string" where
  "skip_slash path = (if path \<noteq> [] \<and> hd path = slash then tl path else path)"

definition comp_len :: "string \<Rightarrow> nat" where
  \<comment> \<open>what the inner loop copies to \<open>buf\<close>: up to a slash or the end, at most 63 characters\<close>
  "comp_len path = min 63 (length (takeWhile (\<lambda>c. c \<noteq> slash) path))"

definition is_link :: "'a fs_state_scheme \<Rightarrow> nat \<Rightarrow> bool" where
  \<comment> \<open>the condition of the loops that follow links\<close>
  "is_link st n \<longleftrightarrow> i_type (inode st n) = VFS_ISYMLINK \<and>
     op_of (readlink_op :: vfs_inode_ops \<Rightarrow> (nat \<Rightarrow> u32 \<Rightarrow> 'a fs_state_scheme \<Rightarrow> _) option) n st \<noteq> None"

definition read_link :: "nat \<Rightarrow> 'a fs_state_scheme \<Rightarrow> (string option \<times> 'a fs_state_scheme) option" where
  \<comment> \<open>\<open>link_target\<close> after a call of \<open>readlink\<close> with a 256-byte buffer; the inner \<open>None\<close> is a negative result\<close>
  "read_link n st = do {
     f \<leftarrow> op_of readlink_op n st;
     (r, bytes, st) \<leftarrow> f n 256 st;
     Some (if r < 0 then None else Some (c_str (bytes_str bytes)), st)
   }"

definition call_lookup :: "nat \<Rightarrow> string \<Rightarrow> 'a fs_state_scheme \<Rightarrow> (nat option \<times> 'a fs_state_scheme) option" where
  \<comment> \<open>\<open>current->ops->lookup(current, name)\<close>, unchecked\<close>
  "call_lookup n name st = do { f \<leftarrow> op_of lookup_op n st; f n name st }"

definition is_absolute :: "string \<Rightarrow> bool" where
  "is_absolute s \<longleftrightarrow> s \<noteq> [] \<and> hd s = slash"

subsection \<open>Path resolution\<close>

function follow_links ::
    "bool \<Rightarrow> nat \<Rightarrow> string \<Rightarrow> nat \<Rightarrow> 'a fs_state_scheme \<Rightarrow> ((nat \<times> string \<times> nat) option \<times> 'a fs_state_scheme) option" where
  \<comment> \<open>the loop on \<open>current\<close>, the rest of the path and \<open>symlink_depth\<close>; the inner \<open>None\<close> is \<open>return 0\<close>.
      \<open>skip\<close> is whether an absolute target also moves past a slash of the path, as in \<open>vfs_resolve_path\<close>\<close>
  "follow_links skip cur path depth st =
     (if \<not> is_link st cur then Some (Some (cur, path, depth), st)
      else if depth > 8 then Some (None, st)
      else do {
        (target, st) \<leftarrow> read_link cur st;
        case target of
          None \<Rightarrow> Some (None, st)
        | Some target \<Rightarrow>
            if is_absolute target then do {
              root \<leftarrow> vfs_root_inode st;
              follow_links skip root (if skip then skip_slash path else path) (depth + 1) st
            }
            else do {
              (next_inode, st) \<leftarrow> call_lookup (vfs_resolve_mount st cur) target st;
              case next_inode of
                None \<Rightarrow> Some (None, st)
              | Some n \<Rightarrow> follow_links skip n path (depth + 1) st
            }
      })"
  by pat_completeness auto

termination follow_links
proof (relation "measure (\<lambda>(skip, cur, path, depth, st). 9 - depth)")
qed auto

declare follow_links.simps [simp del]

lemma skip_slash_cases: "skip_slash path = path \<or> length (skip_slash path) < length path"
  by (cases path) (simp_all add: skip_slash_def)

lemma follow_links_path:
  "follow_links skip cur path depth st = Some (Some (cur', path', depth'), st') \<Longrightarrow>
     path' = path \<or> length path' < length path"
proof (induction skip cur path depth st rule: follow_links.induct)
  case (1 skip cur path depth st)
  show ?case
  proof (cases "is_link st cur \<and> \<not> depth > 8")
    case False
    with "1.prems" show ?thesis by (subst (asm) follow_links.simps) (auto split: if_splits)
  next
    case True
    then obtain target st1 where rl: "read_link cur st = Some (Some target, st1)"
      using "1.prems" by (subst (asm) follow_links.simps) (auto split: bind_splits option.splits)
    show ?thesis
    proof (cases "is_absolute target")
      case abs: True
      then obtain root where "vfs_root_inode st1 = Some root"
        and "follow_links skip root (if skip then skip_slash path else path) (depth + 1) st1
               = Some (Some (cur', path', depth'), st')"
        using "1.prems" True rl by (subst (asm) follow_links.simps) (auto split: bind_splits)
      then have "path' = (if skip then skip_slash path else path)
          \<or> length path' < length (if skip then skip_slash path else path)"
        using "1.IH"(1) True rl abs by auto
      then show ?thesis using skip_slash_cases [of path] by (auto split: if_splits)
    next
      case rel: False
      then obtain n st2 where "call_lookup (vfs_resolve_mount st1 cur) target st1 = Some (Some n, st2)"
        and "follow_links skip n path (depth + 1) st2 = Some (Some (cur', path', depth'), st')"
        using "1.prems" True rl by (subst (asm) follow_links.simps) (auto split: bind_splits option.splits)
      then show ?thesis using "1.IH"(2) True rl rel by auto
    qed
  qed
qed

lemma comp_len_0:
  assumes "comp_len path = 0" and "path \<noteq> []"
  shows "hd path = slash"
proof (rule ccontr)
  assume "hd path \<noteq> slash"
  then have "takeWhile (\<lambda>c. c \<noteq> slash) path \<noteq> []" using assms(2) by (cases path) auto
  then show False using assms(1) by (simp add: comp_len_def min_def split: if_splits)
qed

lemma comp_progress:
  assumes "path \<noteq> []"
    and "rest = drop (comp_len path) path \<or> length rest < length (drop (comp_len path) path)"
  shows "length (skip_slash rest) < length path"
proof (cases "comp_len path = 0")
  case True
  then have "hd path = slash" using comp_len_0 assms(1) by blast
  then have "length (skip_slash path) < length path" using assms(1) by (simp add: skip_slash_def)
  moreover have "length (skip_slash rest) \<le> length rest" using skip_slash_cases [of rest] by auto
  ultimately show ?thesis using assms(2) True by auto
next
  case False
  then have "length (drop (comp_len path) path) < length path" using assms(1) by simp
  moreover have "length (skip_slash rest) \<le> length rest" using skip_slash_cases [of rest] by auto
  ultimately show ?thesis using assms(2) by auto
qed

function resolve_loop ::
    "nat \<Rightarrow> string \<Rightarrow> nat \<Rightarrow> 'a fs_state_scheme \<Rightarrow> ((nat \<times> nat) option \<times> 'a fs_state_scheme) option" where
  \<comment> \<open>the main loop of \<open>vfs_resolve_path\<close>, giving \<open>current\<close> and \<open>symlink_depth\<close> at its end\<close>
  "resolve_loop cur path depth st =
     (if path = [] then Some (Some (cur, depth), st)
      else
        (let buf = take (comp_len path) path; rest = drop (comp_len path) path;
             cur = vfs_resolve_mount st cur
         in case op_of lookup_op cur st of
              None \<Rightarrow> Some (None, st)
            | Some f \<Rightarrow> do {
                (child, st) \<leftarrow> f cur buf st;
                case child of
                  None \<Rightarrow> Some (None, st)
                | Some child \<Rightarrow> do {
                    (followed, st) \<leftarrow> follow_links True child rest depth st;
                    case followed of
                      None \<Rightarrow> Some (None, st)
                    | Some (cur, path', depth) \<Rightarrow> resolve_loop cur (skip_slash path') depth st
                  }
              }))"
  by pat_completeness auto

termination resolve_loop
proof (relation "measure (\<lambda>(cur, path, depth, st). length path)")
qed (auto intro!: comp_progress dest: follow_links_path)

declare resolve_loop.simps [simp del]

partial_function (option) vfs_resolve_path :: "string \<Rightarrow> 'a fs_state_scheme \<Rightarrow> (nat option \<times> 'a fs_state_scheme) option" where
  \<comment> \<open>recursive, for a trailing link with an absolute target\<close>
  [code]: "vfs_resolve_path path st =
     (case vfs_root_inode st of
        None \<Rightarrow> Some (None, st)
      | Some root \<Rightarrow>
          let path = skip_slash path in
          if path = [] then Some (Some (vfs_resolve_mount st root), st)
          else do {
            (res, st) \<leftarrow> resolve_loop root path 0 st;
            case res of
              None \<Rightarrow> Some (None, st)
            | Some (cur, depth) \<Rightarrow>
                let cur = vfs_resolve_mount st cur in
                if \<not> is_link st cur then Some (Some cur, st)
                else if depth > 8 then Some (None, st)
                else do {
                  (target, st) \<leftarrow> read_link cur st;
                  case target of
                    None \<Rightarrow> Some (None, st)
                  | Some target \<Rightarrow>
                      if is_absolute target then vfs_resolve_path target st
                      else do {
                        root \<leftarrow> vfs_root_inode st;
                        (child, st) \<leftarrow> call_lookup (vfs_resolve_mount st root) target st;
                        Some (map_option (vfs_resolve_mount st) child, st)
                      }
                }
          })"

function resolve_loop_no_follow ::
    "nat \<Rightarrow> string \<Rightarrow> nat \<Rightarrow> 'a fs_state_scheme \<Rightarrow> (nat option \<times> 'a fs_state_scheme) option" where
  \<comment> \<open>links are followed only where a slash comes after the component\<close>
  "resolve_loop_no_follow cur path depth st =
     (if path = [] then Some (Some cur, st)
      else
        (let buf = take (comp_len path) path; rest = drop (comp_len path) path;
             cur = vfs_resolve_mount st cur
         in case op_of lookup_op cur st of
              None \<Rightarrow> Some (None, st)
            | Some f \<Rightarrow> do {
                (child, st) \<leftarrow> f cur buf st;
                case child of
                  None \<Rightarrow> Some (None, st)
                | Some child \<Rightarrow>
                    if is_absolute rest then do {
                      (followed, st) \<leftarrow> follow_links False child rest depth st;
                      case followed of
                        None \<Rightarrow> Some (None, st)
                      | Some (cur, path', depth) \<Rightarrow> resolve_loop_no_follow cur (tl path') depth st
                    }
                    else resolve_loop_no_follow child rest depth st
              }))"
  by pat_completeness auto

lemma comp_rest_shorter: "path \<noteq> [] \<Longrightarrow> \<not> is_absolute (drop (comp_len path) path) \<Longrightarrow>
    length path - comp_len path < length path"
  using comp_len_0 [of path] by (cases "comp_len path = 0") (auto simp: is_absolute_def)

lemma tl_shorter: "path' = rest \<or> length path' < length rest \<Longrightarrow> rest \<noteq> [] \<Longrightarrow> length (tl path') < length rest"
  by (cases path') auto

lemma absolute_rest_progress:
  assumes "is_absolute (drop k path)" and "path' = drop k path \<or> length path' < length (drop k path)"
  shows "length (tl path') < length path"
  using tl_shorter [OF assms(2)] assms(1) by (auto simp: is_absolute_def)

termination resolve_loop_no_follow
proof (relation "measure (\<lambda>(cur, path, depth, st). length path)")
qed (auto intro!: absolute_rest_progress comp_rest_shorter dest: follow_links_path)

declare resolve_loop_no_follow.simps [simp del]

definition vfs_resolve_path_no_follow :: "string \<Rightarrow> 'a fs_state_scheme \<Rightarrow> (nat option \<times> 'a fs_state_scheme) option" where
  "vfs_resolve_path_no_follow path st =
     (case vfs_root_inode st of
        None \<Rightarrow> Some (None, st)
      | Some root \<Rightarrow>
          let path = skip_slash path in
          if path = [] then Some (Some (vfs_resolve_mount st root), st)
          else do {
            (cur, st) \<leftarrow> resolve_loop_no_follow root path 0 st;
            Some (map_option (vfs_resolve_mount st) cur, st)
          })"

definition vfs_unmount_path :: "string \<Rightarrow> 'a fs_state_scheme \<Rightarrow> (int \<times> 'a fs_state_scheme) option" where
  "vfs_unmount_path path st = do {
     (target, st) \<leftarrow> vfs_resolve_path path st;
     case target of
       None \<Rightarrow> Some (-1, st)
     | Some target \<Rightarrow>
         (case find (\<lambda>k. snd (vfs_mounts st ! k) = target) [0..<length (vfs_mounts st)] of
            None \<Rightarrow> Some (-1, st)
          | Some k \<Rightarrow> Some (0, vfs_mount_destroy k st))
   }"

subsection \<open>Splitting a path\<close>

definition last_slash :: "string \<Rightarrow> nat option" where
  "last_slash p = find (\<lambda>i. p ! i = slash) (rev [0..<length p])"

definition vfs_split_path :: "string \<Rightarrow> nat \<Rightarrow> nat \<Rightarrow> string \<times> string" where
  \<comment> \<open>what is written to \<open>dir_out\<close> and \<open>name_out\<close>; both are given, with sizes of at least 2\<close>
  "vfs_split_path path dir_size name_size =
     (let p = skip_slash path in
      case last_slash p of
        Some k \<Rightarrow> (slash # take (min k (dir_size - 2)) p, take (name_size - 1) (drop (k + 1) p))
      | None \<Rightarrow> ([slash], take (name_size - 1) p))"

subsection \<open>Operations on paths\<close>

definition vfs_register_by_path :: "string \<Rightarrow> nat \<Rightarrow> 'a fs_state_scheme \<Rightarrow> (int \<times> 'a fs_state_scheme) option" where
  \<comment> \<open>the parent's path is copied to a 64-byte buffer without a bound\<close>
  "vfs_register_by_path path n st =
     (let p = skip_slash path in
      if p = [] then Some (-1, st)
      else
        (case last_slash p of
           Some k \<Rightarrow> do {
             must (k + 2 \<le> 64);
             (parent, st) \<leftarrow> vfs_resolve_path (slash # take k p) st;
             case parent of
               None \<Rightarrow> Some (-1, st)
             | Some parent \<Rightarrow>
                 (case op_of add_entry_op parent st of
                    None \<Rightarrow> Some (-1, st)
                  | Some f \<Rightarrow> f parent (drop (k + 1) p) n st)
           }
         | None \<Rightarrow>
             (case vfs_root_inode st of
                None \<Rightarrow> Some (-1, st)
              | Some root \<Rightarrow>
                  (case op_of add_entry_op root st of
                     None \<Rightarrow> Some (-1, st)
                   | Some f \<Rightarrow> f root p n st))))"

definition parent_op ::
    "(vfs_inode_ops \<Rightarrow> 'f option) \<Rightarrow> string \<Rightarrow> 'a fs_state_scheme \<Rightarrow>
     ((nat \<times> 'f \<times> string) option \<times> 'a fs_state_scheme) option" where
  \<comment> \<open>how the operations on a path start: split it, resolve the directory, check that it is one and that
      its table has the operation; the inner \<open>None\<close> is an error return\<close>
  "parent_op field path st = do {
     let (dir_path, name) = vfs_split_path path 256 64;
     (parent, st) \<leftarrow> vfs_resolve_path dir_path st;
     case parent of
       None \<Rightarrow> Some (None, st)
     | Some parent \<Rightarrow>
         if i_type (inode st parent) \<noteq> VFS_IDIR then Some (None, st)
         else
           (case op_of field parent st of
              None \<Rightarrow> Some (None, st)
            | Some f \<Rightarrow> Some (Some (parent, f, name), st))
   }"

definition vfs_create_file :: "string \<Rightarrow> u16 \<Rightarrow> 'a fs_state_scheme \<Rightarrow> (nat option \<times> 'a fs_state_scheme) option" where
  "vfs_create_file path mode st = do {
     (p, st) \<leftarrow> parent_op add_entry_op path st;
     case p of
       None \<Rightarrow> Some (None, st)
     | Some (parent, f, name) \<Rightarrow>
         (case vfs_alloc_inode st of
            (None, st) \<Rightarrow> Some (None, st)
          | (Some n, st) \<Rightarrow> do {
              let st = upd_inode n (\<lambda>i. i\<lparr>i_type := VFS_IFILE, i_mode := S_IFREG OR (mode AND S_IPERM)\<rparr>) st;
              (r, st) \<leftarrow> f parent name n st;
              if r < 0 then Some (None, vfs_free_inode n st) else Some (Some n, st)
            })
   }"

definition vfs_mkdir :: "string \<Rightarrow> u16 \<Rightarrow> 'a fs_state_scheme \<Rightarrow> (int \<times> 'a fs_state_scheme) option" where
  "vfs_mkdir path mode st = do {
     (p, st) \<leftarrow> parent_op mkdir_op path st;
     case p of None \<Rightarrow> Some (-1, st) | Some (parent, f, name) \<Rightarrow> f parent name mode st
   }"

definition vfs_rmdir :: "string \<Rightarrow> 'a fs_state_scheme \<Rightarrow> (int \<times> 'a fs_state_scheme) option" where
  "vfs_rmdir path st = do {
     (p, st) \<leftarrow> parent_op rmdir_op path st;
     case p of None \<Rightarrow> Some (-1, st) | Some (parent, f, name) \<Rightarrow> f parent name st
   }"

definition vfs_unlink :: "string \<Rightarrow> 'a fs_state_scheme \<Rightarrow> (int \<times> 'a fs_state_scheme) option" where
  "vfs_unlink path st = do {
     (p, st) \<leftarrow> parent_op unlink_op path st;
     case p of None \<Rightarrow> Some (-1, st) | Some (parent, f, name) \<Rightarrow> f parent name st
   }"

definition vfs_symlink :: "string \<Rightarrow> string \<Rightarrow> 'a fs_state_scheme \<Rightarrow> (int \<times> 'a fs_state_scheme) option" where
  "vfs_symlink target path st = do {
     (p, st) \<leftarrow> parent_op symlink_op path st;
     case p of None \<Rightarrow> Some (-1, st) | Some (parent, f, name) \<Rightarrow> f parent name target st
   }"

definition vfs_link :: "string \<Rightarrow> string \<Rightarrow> 'a fs_state_scheme \<Rightarrow> (int \<times> 'a fs_state_scheme) option" where
  "vfs_link old_path new_path st = do {
     (existing, st) \<leftarrow> vfs_resolve_path old_path st;
     case existing of
       None \<Rightarrow> Some (-1, st)
     | Some existing \<Rightarrow> do {
         (p, st) \<leftarrow> parent_op link_op new_path st;
         case p of None \<Rightarrow> Some (-1, st) | Some (parent, f, name) \<Rightarrow> f parent name existing st
       }
   }"

definition vfs_mknod :: "string \<Rightarrow> u16 \<Rightarrow> u32 \<Rightarrow> 'a fs_state_scheme \<Rightarrow> (int \<times> 'a fs_state_scheme) option" where
  "vfs_mknod path mode dev st = do {
     (p, st) \<leftarrow> parent_op mknod_op path st;
     case p of None \<Rightarrow> Some (-1, st) | Some (parent, f, name) \<Rightarrow> f parent name mode dev st
   }"

definition vfs_readlink :: "string \<Rightarrow> u32 \<Rightarrow> 'a fs_state_scheme \<Rightarrow> (int \<times> u8 list \<times> 'a fs_state_scheme) option" where
  "vfs_readlink path sz st = do {
     (n, st) \<leftarrow> vfs_resolve_path_no_follow path st;
     case n of
       None \<Rightarrow> Some (-1, [], st)
     | Some n \<Rightarrow>
         if i_type (inode st n) \<noteq> VFS_ISYMLINK then Some (-1, [], st)
         else (case op_of readlink_op n st of None \<Rightarrow> Some (-1, [], st) | Some f \<Rightarrow> f n sz st)
   }"

definition vfs_inode_chmod :: "nat \<Rightarrow> u16 \<Rightarrow> 'a fs_state_scheme \<Rightarrow> (int \<times> 'a fs_state_scheme) option" where
  "vfs_inode_chmod n mode st = do {
     let full_mode = (i_mode (inode st n) AND S_IFMT) OR (mode AND S_IPERM);
     let st = upd_inode n (\<lambda>i. i\<lparr>i_mode := full_mode\<rparr>) st;
     case op_of chmod_op n st of None \<Rightarrow> Some (0, st) | Some f \<Rightarrow> f n full_mode st
   }"

definition vfs_chmod :: "string \<Rightarrow> u16 \<Rightarrow> 'a fs_state_scheme \<Rightarrow> (int \<times> 'a fs_state_scheme) option" where
  "vfs_chmod path mode st = do {
     (n, st) \<leftarrow> vfs_resolve_path path st;
     case n of None \<Rightarrow> Some (-1, st) | Some n \<Rightarrow> vfs_inode_chmod n mode st
   }"

definition generic_rename ::
    "nat \<Rightarrow> string \<Rightarrow> nat \<Rightarrow> string \<Rightarrow> 'a fs_state_scheme \<Rightarrow> (int \<times> 'a fs_state_scheme) option" where
  \<comment> \<open>the fallback of \<open>vfs_rename\<close>; none of the pointers is checked\<close>
  "generic_rename old_parent old_name new_parent new_name st = do {
     (child, st) \<leftarrow> call_lookup old_parent old_name st;
     case child of
       None \<Rightarrow> Some (-1, st)
     | Some child \<Rightarrow> do {
         add \<leftarrow> op_of add_entry_op new_parent st;
         (r, st) \<leftarrow> add new_parent new_name child st;
         if r < 0 then Some (-1, st)
         else do {
           rem_old \<leftarrow> op_of remove_entry_op old_parent st;
           (r, st) \<leftarrow> rem_old old_parent old_name st;
           if r < 0 then do {
             rem_new \<leftarrow> op_of remove_entry_op new_parent st;
             (_, st) \<leftarrow> rem_new new_parent new_name st;
             Some (-1, st)
           }
           else Some (0, st)
         }
       }
   }"

definition vfs_rename :: "string \<Rightarrow> string \<Rightarrow> 'a fs_state_scheme \<Rightarrow> (int \<times> 'a fs_state_scheme) option" where
  "vfs_rename old_path new_path st = do {
     let (old_dir, old_name) = vfs_split_path old_path 256 64;
     let (new_dir, new_name) = vfs_split_path new_path 256 64;
     (old_parent, st) \<leftarrow> vfs_resolve_path old_dir st;
     (new_parent, st) \<leftarrow> vfs_resolve_path new_dir st;
     case (old_parent, new_parent) of
       (Some old_parent, Some new_parent) \<Rightarrow>
         (case op_of rename_op old_parent st of
            Some f \<Rightarrow>
              if i_ops (inode st old_parent) = i_ops (inode st new_parent)
              then f old_parent old_name new_parent new_name st
              else generic_rename old_parent old_name new_parent new_name st
          | None \<Rightarrow> generic_rename old_parent old_name new_parent new_name st)
     | _ \<Rightarrow> Some (-1, st)
   }"

definition vfs_access :: "string \<Rightarrow> 'a fs_state_scheme \<Rightarrow> (int \<times> 'a fs_state_scheme) option" where
  "vfs_access path st = do {
     (n, st) \<leftarrow> vfs_resolve_path path st;
     Some (if n = None then -1 else 0, st)
   }"

definition devtmpfs_create_nodes :: "'a fs_state_scheme \<Rightarrow> 'a fs_state_scheme option" where
  "devtmpfs_create_nodes st = do {
     (dev_dir, st) \<leftarrow> vfs_resolve_path ''/dev'' st;
     case dev_dir of None \<Rightarrow> Some st | Some d \<Rightarrow> populate_dir d st
   }"

subsection \<open>Status of an inode\<close>

record vfs_stat =
  st_dev :: u32
  st_ino :: u32
  st_mode :: u16
  st_nlink :: u16
  st_uid :: u16
  st_gid :: u16
  st_rdev :: u32
  st_size :: u32
  st_blksize :: u32
  st_blocks :: u32
  st_atime :: u32
  st_mtime :: u32
  st_ctime :: u32

definition default_mode :: "i_type \<Rightarrow> u16" where
  "default_mode ty =
     (case ty of
        VFS_IFILE \<Rightarrow> S_IFREG OR S_IRUSR OR S_IWUSR OR S_IRGRP OR S_IROTH
      | VFS_IDIR \<Rightarrow> S_IFDIR OR S_IRWXU OR S_IRGRP OR S_IXGRP OR S_IROTH OR S_IXOTH
      | VFS_ISYMLINK \<Rightarrow> S_IFLNK OR S_IRWXU OR S_IRWXG OR S_IRWXO
      | VFS_IFCHR \<Rightarrow> S_IFCHR OR S_IRUSR OR S_IWUSR OR S_IRGRP OR S_IROTH
      | VFS_IFBLK \<Rightarrow> S_IFBLK OR S_IRUSR OR S_IWUSR OR S_IRGRP OR S_IROTH)"

definition vfs_inode_stat :: "vfs_inode \<Rightarrow> vfs_stat" where
  "vfs_inode_stat n =
     \<lparr>st_dev = 0, st_ino = i_no n,
      st_mode = (if i_mode n \<noteq> 0 then i_mode n else default_mode (i_type n)),
      st_nlink = (if i_type n = VFS_IDIR then 2 else 1), st_uid = 0, st_gid = 0,
      st_rdev = i_rdev n, st_size = i_size n, st_blksize = 1024, st_blocks = (i_size n + 511) div 512,
      st_atime = 0, st_mtime = 0, st_ctime = 0\<rparr>"

end
