(* ===== verification/Memory.thy ===== *)
theory Memory
  imports Prelude
begin

text \<open>
  Byte-addressed memory of the 32-bit machine, and aligned 32-bit accesses to it. The kernel
  runs identity-mapped, so the same memory holds page tables, kernel stacks and page frames.
\<close>

type_synonym mem = "u32 \<Rightarrow> u8"

named_theorems mem_simps \<open>reading and writing memory\<close>

definition read32 :: "mem \<Rightarrow> u32 \<Rightarrow> u32" where
  "read32 m a = of_le32 [m a, m (a + 1), m (a + 2), m (a + 3)]"

definition write32 :: "u32 \<Rightarrow> u32 \<Rightarrow> mem \<Rightarrow> mem" where
  "write32 a v m =
     m(a := le32 v ! 0, a + 1 := le32 v ! 1, a + 2 := le32 v ! 2, a + 3 := le32 v ! 3)"

definition memcpy_mem :: "u32 \<Rightarrow> u32 \<Rightarrow> u32 \<Rightarrow> mem \<Rightarrow> mem" where
  \<comment> \<open>a copy of \<open>n\<close> bytes between ranges that do not overlap\<close>
  "memcpy_mem dst src n m = (\<lambda>a. if a - dst < n then m (src + (a - dst)) else m a)"

definition zero_frame :: "u32 \<Rightarrow> mem \<Rightarrow> mem" where
  \<comment> \<open>\<open>memset(page, 0, 0x1000)\<close>\<close>
  "zero_frame page m = (\<lambda>a. if a - page < 0x1000 then 0 else m a)"

abbreviation aligned4 :: "u32 \<Rightarrow> bool" where
  "aligned4 a \<equiv> a AND 3 = 0"

lemma le32_list: "[le32 v ! 0, le32 v ! 1, le32 v ! 2, le32 v ! 3] = le32 v"
  by (simp add: le32_def)

lemma read32_write32_same [mem_simps]: "read32 (write32 a v m) a = v"
proof -
  have "read32 (write32 a v m) a = of_le32 [le32 v ! 0, le32 v ! 1, le32 v ! 2, le32 v ! 3]"
    by (simp add: read32_def write32_def)
  then show ?thesis by (simp only: le32_list of_le32_le32)
qed

lemma aligned4_iff_unat: "aligned4 a \<longleftrightarrow> unat a mod 4 = 0"
proof -
  have "a AND 3 = take_bit 2 a" by (simp add: take_bit_eq_mask mask_eq_exp_minus_1)
  moreover have "unat (take_bit 2 a) = unat a mod 4"
    by (simp only: unsigned_take_bit_eq) (simp add: take_bit_eq_mod)
  ultimately show ?thesis by (metis unat_eq_0)
qed

lemma aligned4_add:
  assumes "aligned4 a" and "aligned4 b"
  shows "aligned4 (a + b)"
proof -
  have "(unat a + unat b) mod 2 ^ 32 mod 4 = (unat a + unat b) mod 4" by (rule mod_mod_cancel) simp
  also have "\<dots> = 0" using assms unfolding aligned4_iff_unat by (simp add: mod_add_eq [symmetric])
  finally show ?thesis by (simp only: aligned4_iff_unat unat_word_ariths) simp
qed

lemma unat_aligned4_add:
  assumes "aligned4 a" and "i < 4"
  shows "unat (a + i) = unat a + unat i"
proof -
  have "unat i < 4" using assms(2) by (simp add: word_less_nat_alt)
  moreover obtain k where "unat a = 4 * k"
    using assms(1) unfolding aligned4_iff_unat by (metis dvdE mod_0_imp_dvd)
  moreover have "unat a < 4294967296" using unsigned_less [of a] by simp
  ultimately have "unat a + unat i < 2 ^ 32" by simp
  then show ?thesis by (simp add: unat_word_ariths)
qed

lemma aligned4_offset_neq:
  assumes "aligned4 a" and "aligned4 b" and "a \<noteq> b" and "i < 4" and "j < 4"
  shows "a + i \<noteq> b + j"
proof
  assume "a + i = b + j"
  then have "unat a + unat i = unat b + unat j"
    using unat_aligned4_add assms by metis
  moreover have "unat i < 4" "unat j < 4" using assms by (simp_all add: word_less_nat_alt)
  ultimately have "unat a = unat b"
    using assms(1,2) unfolding aligned4_iff_unat by presburger
  then show False using assms(3) by (simp add: word_unat_eq_iff)
qed

lemma read32_write32_other [mem_simps]:
  assumes "aligned4 a" and "aligned4 b" and "a \<noteq> b"
  shows "read32 (write32 a v m) b = read32 m b"
proof -
  have neq: "b + j \<noteq> a + i" if "i < 4" "j < 4" for i j :: u32
    using aligned4_offset_neq [OF assms that] by metis
  show ?thesis
    using neq [of 0 0] neq [of 0 1] neq [of 0 2] neq [of 0 3]
      neq [of 1 0] neq [of 1 1] neq [of 1 2] neq [of 1 3]
      neq [of 2 0] neq [of 2 1] neq [of 2 2] neq [of 2 3]
      neq [of 3 0] neq [of 3 1] neq [of 3 2] neq [of 3 3]
    by (simp add: read32_def write32_def)
qed

lemma read32_write32:
  "aligned4 a \<Longrightarrow> aligned4 b \<Longrightarrow> read32 (write32 a v m) b = (if a = b then v else read32 m b)"
  by (simp add: mem_simps)

fun write_bytes :: "u32 \<Rightarrow> u8 list \<Rightarrow> mem \<Rightarrow> mem" where
  \<comment> \<open>a copy of an object of the kernel to \<open>a\<close>\<close>
  "write_bytes a [] m = m"
| "write_bytes a (b # bs) m = write_bytes (a + 1) bs (m(a := b))"

lemma unat_sub_one:
  assumes "(x :: u32) \<noteq> a"
  shows "unat (x - (a + 1)) = unat (x - a) - 1"
proof -
  have "unat (x - a) \<noteq> 0" using assms by (metis eq_iff_diff_eq_0 unat_eq_0)
  then have "1 \<le> x - a" by (simp add: word_le_nat_alt)
  then have "unat (x - a - 1) = unat (x - a) - unat (1 :: u32)" by (rule unat_sub)
  then show ?thesis by (simp add: algebra_simps)
qed

lemma write_bytes_apply:
  assumes "length bs < 2 ^ 32"
  shows "write_bytes a bs m x = (if unat (x - a) < length bs then bs ! unat (x - a) else m x)"
  using assms
proof (induction a bs m rule: write_bytes.induct)
  case (2 a b bs m)
  show ?case
  proof (cases "x = a")
    case True
    have "unat (a - (a + 1)) = 2 ^ 32 - 1" by (simp add: unsigned_minus_1_eq_mask mask_eq_exp_minus_1)
    then have "\<not> unat (a - (a + 1)) < length bs" using "2.prems" by simp
    then show ?thesis using 2 True by (simp add: fun_upd_def)
  next
    case False
    have "unat (x - a) \<noteq> 0" using False by (metis eq_iff_diff_eq_0 unat_eq_0)
    then show ?thesis using 2 False unat_sub_one [OF False] by (auto simp: nth_Cons fun_upd_def split: nat.split)
  qed
qed simp

lemma read32_write_bytes:
  assumes "k + 4 \<le> length bs" and "length bs < 2 ^ 32"
  shows "read32 (write_bytes a bs m) (a + of_nat k) = of_le32 (take 4 (drop k bs))"
proof -
  have nth: "write_bytes a bs m (a + of_nat k + of_nat j) = bs ! (k + j)" if "j < 4" for j
  proof -
    have "unat (a + of_nat k + of_nat j - a) = unat (of_nat (k + j) :: u32)" by simp
    also have "\<dots> = k + j" using assms that by (simp only: unat_of_nat) (simp add: unat_of_nat)
    finally show ?thesis using assms that by (simp add: write_bytes_apply)
  qed
  have "take 4 (drop k bs) = [bs ! k, bs ! (k + 1), bs ! (k + 2), bs ! (k + 3)]"
    using assms(1) by (intro nth_equalityI) (auto simp: less_Suc_eq numeral_eq_Suc)
  then show ?thesis
    using nth [of 0] nth [of 1] nth [of 2] nth [of 3] by (simp add: read32_def)
qed

definition mem_bytes :: "mem \<Rightarrow> u32 \<Rightarrow> nat \<Rightarrow> u8 list" where
  \<comment> \<open>the \<open>n\<close> bytes at \<open>a\<close>\<close>
  "mem_bytes m a n = map (\<lambda>d. m (a + of_nat d)) [0..<n]"

lemma length_mem_bytes [simp]: "length (mem_bytes m a n) = n"
  by (simp add: mem_bytes_def)

lemma mem_bytes_sub:
  assumes "off + k \<le> n"
  shows "mem_bytes m (a + of_nat off) k = get_bytes off k (mem_bytes m a n)"
  using assms by (intro nth_equalityI) (auto simp: mem_bytes_def get_bytes_def add.assoc)

end
