(* ===== verification/Task.thy ===== *)
theory Task
  imports Memory
begin

text \<open>
  The task table of \<open>kernel/task.h\<close> and \<open>kernel/task.c\<close>, and the initial contexts that
  \<open>arch/i386/task.c\<close> builds on a task's kernel stack. A \<open>struct task *\<close> is the index of its slot
  in \<open>tasks[]\<close>; a null pointer is \<^const>\<open>None\<close>. The array of VMAs and its counter
  \<open>vma_count\<close> are one list, of the entries below the counter.
\<close>

subsection \<open>Data\<close>

definition MAX_TASKS :: nat where "MAX_TASKS = 256"
definition TASK_STACK_SIZE :: u32 where "TASK_STACK_SIZE = 4096"
definition TASK_NAME_LEN :: nat where "TASK_NAME_LEN = 32"
definition MAX_VMA :: nat where "MAX_VMA = 16"
definition VFS_MAX_FD :: nat where "VFS_MAX_FD = 16"
definition NSIG :: nat where "NSIG = 32"

definition GDT_USER_CODE :: u32 where "GDT_USER_CODE = 0x1B"
definition GDT_USER_DATA :: u32 where "GDT_USER_DATA = 0x23"

record vm_area =
  vm_start :: u32
  vm_end :: u32
  vm_prot :: u32
  vm_flags :: u32

datatype task_state =
    TASK_STATE_READY
  | TASK_STATE_RUNNING
  | TASK_STATE_BLOCKED
  | TASK_STATE_EXITED

record task_context =
  c_esp :: u32
  c_ebp :: u32
  c_ebx :: u32
  c_esi :: u32
  c_edi :: u32
  c_pdir :: u32

record task =
  pid :: int
  parent_pid :: int
  exit_status :: int
  t_state :: task_state
  t_context :: "task_context option"
  t_stack :: u32
  t_name :: string
  t_next :: "nat option"
  fd_table :: "nat option list"
  fd_flags :: "u8 list"
  t_pdir :: u32
  is_user :: bool
  brk_start :: u32
  program_break :: u32
  cwd :: string
  wakeup_tick :: u32
  vmas :: "vm_area list"
  umask :: u16
  sid :: int
  pgid :: int
  pending_signals :: u32
  signal_mask :: u32
  signal_sigframe :: u32
  signal_handlers :: "u32 list"
  signal_handlers_mask :: "u32 list"
  signal_handlers_flags :: "u32 list"

definition zero_task :: task where
  \<comment> \<open>a slot of the zero-initialised array\<close>
  "zero_task = \<lparr>pid = 0, parent_pid = 0, exit_status = 0, t_state = TASK_STATE_READY,
     t_context = None, t_stack = 0, t_name = '''', t_next = None,
     fd_table = replicate VFS_MAX_FD None, fd_flags = replicate VFS_MAX_FD 0,
     t_pdir = 0, is_user = False, brk_start = 0, program_break = 0, cwd = '''',
     wakeup_tick = 0, vmas = [], umask = 0, sid = 0, pgid = 0,
     pending_signals = 0, signal_mask = 0, signal_sigframe = 0,
     signal_handlers = replicate NSIG 0, signal_handlers_mask = replicate NSIG 0,
     signal_handlers_flags = replicate NSIG 0\<rparr>"

text \<open>
  The scheduler's statics and the task table. \<open>stacks_base\<close> and \<open>kernel_pdir\<close> are the link-time
  addresses of \<open>task_stacks\<close> and of the kernel's page directory; \<open>tss_esp0\<close> is the field of the
  TSS that \<open>tss_set_kernel_stack\<close> writes.
\<close>

record sched_state =
  tasks :: "nat \<Rightarrow> task"
  next_pid :: nat
  run_queue_head :: "nat option"
  run_queue_tail :: "nat option"
  current_task :: "nat option"
  tick_count :: u32
  tss_esp0 :: u32
  stacks_base :: u32
  kernel_pdir :: u32

definition init_sched :: "u32 \<Rightarrow> u32 \<Rightarrow> sched_state" where
  "init_sched stk pd = \<lparr>tasks = (\<lambda>_. zero_task), next_pid = 0, run_queue_head = None,
     run_queue_tail = None, current_task = None, tick_count = 0, tss_esp0 = 0,
     stacks_base = stk, kernel_pdir = pd\<rparr>"

definition upd_task :: "nat \<Rightarrow> (task \<Rightarrow> task) \<Rightarrow> sched_state \<Rightarrow> sched_state" where
  "upd_task i f s = s\<lparr>tasks := (tasks s)(i := f (tasks s i))\<rparr>"

lemma upd_task_simps [simp]:
  "tasks (upd_task i f s) j = (if j = i then f (tasks s i) else tasks s j)"
  "next_pid (upd_task i f s) = next_pid s"
  "run_queue_head (upd_task i f s) = run_queue_head s"
  "run_queue_tail (upd_task i f s) = run_queue_tail s"
  "current_task (upd_task i f s) = current_task s"
  "tick_count (upd_task i f s) = tick_count s"
  "tss_esp0 (upd_task i f s) = tss_esp0 s"
  "stacks_base (upd_task i f s) = stacks_base s"
  "kernel_pdir (upd_task i f s) = kernel_pdir s"
  by (simp_all add: upd_task_def)

subsection \<open>Allocation, wake-up and signals sent\<close>

definition signal_init_task :: "task \<Rightarrow> task" where
  "signal_init_task t = t\<lparr>pending_signals := 0, signal_mask := 0, signal_sigframe := 0,
     signal_handlers := replicate NSIG 0, signal_handlers_mask := replicate NSIG 0,
     signal_handlers_flags := replicate NSIG 0\<rparr>"

definition task_alloc :: "sched_state \<Rightarrow> nat option \<times> sched_state" where
  "task_alloc s =
     (if next_pid s \<ge> MAX_TASKS then (None, s)
      else (let n = next_pid s in
        (Some n,
         (upd_task n (\<lambda>t. signal_init_task (t\<lparr>pid := int n, parent_pid := -1, exit_status := 0,
             t_state := TASK_STATE_READY, t_stack := stacks_base s + of_nat n * TASK_STACK_SIZE,
             t_next := None, t_pdir := kernel_pdir s, is_user := False, brk_start := 0,
             program_break := 0, vmas := [], cwd := ''/'', umask := 18,
             sid := int n, pgid := int n\<rparr>)) s)\<lparr>next_pid := next_pid s + 1\<rparr>)))"

definition task_wake :: "int \<Rightarrow> sched_state \<Rightarrow> sched_state" where
  "task_wake p s =
     (case find (\<lambda>i. pid (tasks s i) = p \<and> t_state (tasks s i) = TASK_STATE_BLOCKED)
        [0..<next_pid s] of
        None \<Rightarrow> s
      | Some i \<Rightarrow> upd_task i (\<lambda>t. t\<lparr>t_state := TASK_STATE_READY\<rparr>) s)"

definition sigbit :: "nat \<Rightarrow> u32" where
  \<comment> \<open>\<open>1 << (sig - 1)\<close>\<close>
  "sigbit sig = push_bit (sig - 1) 1"

definition signal_send :: "int \<Rightarrow> int \<Rightarrow> sched_state \<Rightarrow> sched_state" where
  "signal_send p sig s =
     (if sig < 1 \<or> sig \<ge> int NSIG then s
      else case find (\<lambda>i. pid (tasks s i) = p \<and> t_state (tasks s i) \<noteq> TASK_STATE_EXITED)
        [0..<next_pid s] of
        None \<Rightarrow> s
      | Some i \<Rightarrow> upd_task i (\<lambda>t. t\<lparr>
            pending_signals := pending_signals t OR sigbit (nat sig),
            t_state := (if t_state t = TASK_STATE_BLOCKED then TASK_STATE_READY
                        else t_state t)\<rparr>) s)"

definition scheduler_get_current :: "sched_state \<Rightarrow> nat option" where
  "scheduler_get_current s = current_task s"

definition task_find_child_exited_pid :: "int \<Rightarrow> int \<Rightarrow> sched_state \<Rightarrow> nat option" where
  "task_find_child_exited_pid parent target s =
     find (\<lambda>i. parent_pid (tasks s i) = parent \<and> t_state (tasks s i) = TASK_STATE_EXITED \<and>
               (target \<le> 0 \<or> pid (tasks s i) = target)) [0..<next_pid s]"

definition task_find_child_exited :: "int \<Rightarrow> sched_state \<Rightarrow> nat option" where
  "task_find_child_exited parent s = task_find_child_exited_pid parent (-1) s"

definition task_set_exit_status :: "int \<Rightarrow> sched_state \<Rightarrow> sched_state" where
  "task_set_exit_status status s =
     (case scheduler_get_current s of
        None \<Rightarrow> s
      | Some c \<Rightarrow> upd_task c (\<lambda>t. t\<lparr>exit_status := status\<rparr>) s)"

subsection \<open>Initial contexts\<close>

text \<open>
  The contexts of \<open>arch/i386/task.c\<close>: each takes the task and the memory that holds its stack.
  \<open>exit_addr\<close> is the address of the function \<open>task_exit\<close>.
\<close>

fun push_words :: "u32 list \<Rightarrow> u32 \<Rightarrow> mem \<Rightarrow> u32 \<times> mem" where
  \<comment> \<open>a run of \<open>*(--sp) = w\<close>\<close>
  "push_words [] sp m = (sp, m)"
| "push_words (w # ws) sp m = push_words ws (sp - 4) (write32 (sp - 4) w m)"

definition fresh_context :: "u32 \<Rightarrow> u32 \<Rightarrow> u32 \<Rightarrow> task_context" where
  "fresh_context sp bp pd =
     \<lparr>c_esp = sp, c_ebp = bp, c_ebx = 0, c_esi = 0, c_edi = 0, c_pdir = pd\<rparr>"

definition task_init_context :: "u32 \<Rightarrow> u32 \<Rightarrow> u32 \<Rightarrow> task \<Rightarrow> mem \<Rightarrow> task \<times> mem" where
  "task_init_context exit_addr entry arg t m =
     (let (sp, m') = push_words [arg, exit_addr, entry] (t_stack t + TASK_STACK_SIZE) m
      in (t\<lparr>t_context := Some (fresh_context sp 0 (t_pdir t))\<rparr>, m'))"

definition task_init_user_context :: "u32 \<Rightarrow> u32 \<Rightarrow> u32 \<Rightarrow> task \<Rightarrow> mem \<Rightarrow> task \<times> mem" where
  "task_init_user_context exit_addr entry arg t m =
     (let (usp, m1) = push_words [arg, exit_addr] (t_stack t + TASK_STACK_SIZE div 2) m;
          (ksp, m2) = push_words [GDT_USER_DATA, usp, 0x200, GDT_USER_CODE, entry] usp m1
      in (t\<lparr>is_user := True, t_context := Some (fresh_context ksp 0 (t_pdir t))\<rparr>, m2))"

definition task_init_fork_context :: "u32 \<Rightarrow> u32 \<Rightarrow> task \<Rightarrow> task" where
  "task_init_fork_context fork_esp fork_ebp t =
     t\<lparr>t_context := Some (fresh_context fork_esp fork_ebp (t_pdir t))\<rparr>"

definition task_set_pdir :: "u32 \<Rightarrow> task \<Rightarrow> task option" where
  \<comment> \<open>a task without a context is a write through a null pointer\<close>
  "task_set_pdir pd t =
     (case t_context t of
        None \<Rightarrow> None
      | Some c \<Rightarrow> Some (t\<lparr>t_context := Some (c\<lparr>c_pdir := pd\<rparr>)\<rparr>))"

definition task_update_context_user :: "u32 \<Rightarrow> u32 \<Rightarrow> task \<Rightarrow> mem \<Rightarrow> task \<times> mem" where
  "task_update_context_user entry user_esp_top t m =
     (let (ksp, m') = push_words [GDT_USER_DATA, user_esp_top, 0x200, GDT_USER_CODE, entry]
                        (t_stack t + TASK_STACK_SIZE) m
      in (t\<lparr>t_context := Some (fresh_context ksp 0 (t_pdir t)), is_user := True\<rparr>, m'))"

subsection \<open>The table's invariant\<close>

definition task_wf :: "task \<Rightarrow> bool" where
  "task_wf t \<longleftrightarrow> length (fd_table t) = VFS_MAX_FD \<and> length (fd_flags t) = VFS_MAX_FD \<and>
     length (signal_handlers t) = NSIG \<and> length (signal_handlers_mask t) = NSIG \<and>
     length (signal_handlers_flags t) = NSIG \<and> length (vmas t) \<le> MAX_VMA"

definition task_inv :: "sched_state \<Rightarrow> bool" where
  "task_inv s \<longleftrightarrow> next_pid s \<le> MAX_TASKS \<and> (\<forall>i. task_wf (tasks s i)) \<and>
     (\<forall>i < next_pid s. pid (tasks s i) = int i)"

lemma task_inv_init: "task_inv (init_sched stk pd)"
  by (simp add: task_inv_def init_sched_def task_wf_def zero_task_def)

lemma task_inv_upd:
  assumes "task_inv s" and "\<And>t. task_wf t \<Longrightarrow> task_wf (f t)" and "\<And>t. pid (f t) = pid t"
  shows "task_inv (upd_task i f s)"
  using assms by (simp add: task_inv_def)

lemma task_inv_alloc: "task_inv s \<Longrightarrow> task_inv (snd (task_alloc s))"
  by (simp add: task_alloc_def task_inv_def task_wf_def signal_init_task_def Let_def less_Suc_eq)

lemma task_alloc_Some:
  assumes "next_pid s < MAX_TASKS"
  shows "fst (task_alloc s) = Some (next_pid s)"
    and "next_pid (snd (task_alloc s)) = Suc (next_pid s)"
    and "j \<noteq> next_pid s \<Longrightarrow> tasks (snd (task_alloc s)) j = tasks s j"
  using assms by (simp_all add: task_alloc_def Let_def)

lemma task_alloc_None:
  "MAX_TASKS \<le> next_pid s \<Longrightarrow> task_alloc s = (None, s)"
  by (simp add: task_alloc_def)

lemma find_pid_slot:
  assumes "task_inv s"
  shows "find (\<lambda>i. pid (tasks s i) = p \<and> P i) [0..<next_pid s] =
         (if 0 \<le> p \<and> nat p < next_pid s \<and> P (nat p) then Some (nat p) else None)"
proof -
  have pid: "pid (tasks s i) = int i" if "i < next_pid s" for i
    using assms that by (simp add: task_inv_def)
  show ?thesis
    using pid by (auto simp: find_upt_Some_iff find_upt_None_iff)
qed

lemma task_wake_pid:
  assumes "task_inv s"
  shows "task_wake p s =
    (if 0 \<le> p \<and> nat p < next_pid s \<and> t_state (tasks s (nat p)) = TASK_STATE_BLOCKED
     then upd_task (nat p) (\<lambda>t. t\<lparr>t_state := TASK_STATE_READY\<rparr>) s else s)"
  by (simp add: task_wake_def find_pid_slot [OF assms])

lemma signal_send_pid:
  assumes "task_inv s"
  shows "signal_send p sig s =
    (if 1 \<le> sig \<and> sig < int NSIG \<and> 0 \<le> p \<and> nat p < next_pid s \<and>
        t_state (tasks s (nat p)) \<noteq> TASK_STATE_EXITED
     then upd_task (nat p) (\<lambda>t. t\<lparr>pending_signals := pending_signals t OR sigbit (nat sig),
            t_state := (if t_state t = TASK_STATE_BLOCKED then TASK_STATE_READY else t_state t)\<rparr>) s
     else s)"
  by (simp add: signal_send_def find_pid_slot [OF assms])

lemma task_inv_wake: "task_inv s \<Longrightarrow> task_inv (task_wake p s)"
  by (simp add: task_wake_pid) (auto intro!: task_inv_upd simp: task_wf_def)

lemma task_inv_signal_send: "task_inv s \<Longrightarrow> task_inv (signal_send p sig s)"
  by (simp add: signal_send_pid) (auto intro!: task_inv_upd simp: task_wf_def)

lemma task_inv_set_exit_status: "task_inv s \<Longrightarrow> task_inv (task_set_exit_status st s)"
  by (auto simp: task_set_exit_status_def scheduler_get_current_def task_wf_def
      split: option.split intro!: task_inv_upd)

subsection \<open>Words pushed on a stack\<close>

lemma push_words_sp: "fst (push_words ws sp m) = sp - 4 * of_nat (length ws)"
  by (induction ws sp m rule: push_words.induct) (simp_all add: algebra_simps)

lemma aligned4_mult4: "aligned4 (4 * k)"
proof -
  have "4 * k = push_bit 2 k" by (simp add: push_bit_eq_mult mult.commute)
  moreover have "push_bit 2 k AND 3 = take_bit 2 (push_bit 2 k)"
    by (simp only: take_bit_eq_mask) (simp add: mask_eq_exp_minus_1)
  moreover have "take_bit 2 (push_bit 2 k) = 0"
    by (simp only: take_bit_push_bit diff_self_eq_0 take_bit_0 push_bit_of_0)
  ultimately show ?thesis by (simp only:)
qed

lemma aligned4_sub4:
  assumes "aligned4 sp"
  shows "aligned4 (sp - 4 * k)"
proof -
  have "take_bit 2 sp = 0" using assms by (simp add: take_bit_eq_mask mask_eq_exp_minus_1)
  then have "sp = push_bit 2 (drop_bit 2 sp)" using bits_ident [of 2 sp] by simp
  then have "sp = 4 * drop_bit 2 sp" by (simp add: push_bit_eq_mult mult.commute)
  then have "sp - 4 * k = 4 * (drop_bit 2 sp - k)" by (metis right_diff_distrib)
  then show ?thesis using aligned4_mult4 by (simp only:)
qed

lemma four_times_neq:
  assumes "i < 2 ^ 30" and "j < 2 ^ 30" and "i \<noteq> j"
  shows "(sp :: u32) - 4 * of_nat i \<noteq> sp - 4 * of_nat j"
proof
  assume "sp - 4 * of_nat i = sp - 4 * of_nat j"
  then have "(of_nat (4 * i) :: u32) = of_nat (4 * j)" by simp
  then have "(4 * i) mod 2 ^ 32 = (4 * j) mod 2 ^ 32"
    by (simp only: word_of_nat_eq_iff) (simp add: take_bit_eq_mod)
  then show False using assms by simp
qed

lemma push_words_frame:
  assumes "aligned4 sp" and "aligned4 a"
    and "\<And>k. k < length ws \<Longrightarrow> a \<noteq> sp - 4 * of_nat (Suc k)"
  shows "read32 (snd (push_words ws sp m)) a = read32 m a"
  using assms
proof (induction ws sp m rule: push_words.induct)
  case (2 w ws sp m)
  have "a \<noteq> sp - 4 - 4 * of_nat (Suc k)" if "k < length ws" for k
    using "2.prems"(3) [of "Suc k"] that by (simp add: algebra_simps)
  moreover have "aligned4 (sp - 4)" using aligned4_sub4 [OF "2.prems"(1), of 1] by simp
  moreover have "a \<noteq> sp - 4" using "2.prems"(3) [of 0] by simp
  ultimately show ?case using 2 by (simp add: read32_write32)
qed simp

lemma push_words_nth:
  assumes "aligned4 sp" and "length ws < 2 ^ 30" and "k < length ws"
  shows "read32 (snd (push_words ws sp m)) (sp - 4 * of_nat (Suc k)) = ws ! k"
  using assms
proof (induction ws sp m arbitrary: k rule: push_words.induct)
  case (2 w ws sp m)
  have al: "aligned4 (sp - 4)" using aligned4_sub4 [OF "2.prems"(1), of 1] by simp
  show ?case
  proof (cases k)
    case 0
    have "sp - 4 * of_nat 1 \<noteq> sp - 4 * of_nat (Suc (Suc j))" if "j < length ws" for j
      using four_times_neq [of 1 "Suc (Suc j)" sp] "2.prems"(2) that by simp
    then have "read32 (snd (push_words ws (sp - 4) (write32 (sp - 4) w m))) (sp - 4) =
               read32 (write32 (sp - 4) w m) (sp - 4)"
      using al by (intro push_words_frame) (simp_all add: algebra_simps)
    then show ?thesis using 0 by (simp add: mem_simps)
  next
    case (Suc j)
    then have "read32 (snd (push_words ws (sp - 4) (write32 (sp - 4) w m)))
                 (sp - 4 - 4 * of_nat (Suc j)) = ws ! j"
      using 2 al by simp
    then show ?thesis using Suc by (simp add: algebra_simps)
  qed
qed simp

end
