(* ===== verification/Scheduler.thy ===== *)
theory Scheduler
  imports Task
begin

text \<open>
  The round-robin scheduler of \<open>kernel/scheduler.c\<close>: a run queue linked through the \<open>next\<close> field
  of the tasks, with a head and a tail pointer, and the timer tick that wakes sleepers and calls
  \<open>schedule\<close> once per time slice. The two pointer walks are \<open>partial_function\<close>s, since a cyclic
  queue would keep them going; on a well-formed queue they return (below). The register switch
  itself is in assembly: the model ends with the new \<open>current_task\<close>.
\<close>

subsection \<open>Operations\<close>

definition TIME_SLICE :: u32 where "TIME_SLICE = 10"

definition scheduler_add_task :: "nat option \<Rightarrow> sched_state \<Rightarrow> sched_state option" where
  "scheduler_add_task t s =
     (case t of
        None \<Rightarrow> Some s
      | Some t \<Rightarrow>
         (let s = upd_task t (\<lambda>x. x\<lparr>t_next := None\<rparr>) s in
          if run_queue_head s = None
          then Some (s\<lparr>run_queue_head := Some t, run_queue_tail := Some t\<rparr>)
          else case run_queue_tail s of
                 None \<Rightarrow> None
               | Some l \<Rightarrow> Some ((upd_task l (\<lambda>x. x\<lparr>t_next := Some t\<rparr>) s)
                                   \<lparr>run_queue_tail := Some t\<rparr>)))"

definition scheduler_get_tick_count :: "sched_state \<Rightarrow> u32" where
  "scheduler_get_tick_count s = tick_count s"

partial_function (option) find_prev ::
    "(nat \<Rightarrow> task) \<Rightarrow> nat option \<Rightarrow> nat \<Rightarrow> nat option option" where
  \<comment> \<open>\<open>while (prev && prev->next != t) prev = prev->next;\<close>\<close>
  [code]: "find_prev ts prev t =
     (case prev of
        None \<Rightarrow> Some None
      | Some i \<Rightarrow> if t_next (ts i) = Some t then Some (Some i)
                  else find_prev ts (t_next (ts i)) t)"

definition move_to_tail :: "nat \<Rightarrow> sched_state \<Rightarrow> sched_state option" where
  "move_to_tail t s =
     (if run_queue_head s = None \<or> run_queue_head s = run_queue_tail s then Some s
      else if Some t = run_queue_tail s then Some s
      else do {
        linked \<leftarrow>
          (if run_queue_head s = Some t
           then Some (Some (s\<lparr>run_queue_head := t_next (tasks s t)\<rparr>))
           else do {
             prev \<leftarrow> find_prev (tasks s) (run_queue_head s) t;
             Some (map_option
               (\<lambda>p. upd_task p (\<lambda>x. x\<lparr>t_next := t_next (tasks s t)\<rparr>) s) prev)
           });
        case linked of
          None \<Rightarrow> Some s
        | Some s1 \<Rightarrow> do {
            let s2 = upd_task t (\<lambda>x. x\<lparr>t_next := None\<rparr>) s1;
            l \<leftarrow> run_queue_tail s2;
            Some ((upd_task l (\<lambda>x. x\<lparr>t_next := Some t\<rparr>) s2)\<lparr>run_queue_tail := Some t\<rparr>)
          }
      })"

partial_function (option) find_ready ::
    "(nat \<Rightarrow> task) \<Rightarrow> nat option \<Rightarrow> nat option option" where
  \<comment> \<open>the search from \<open>run_queue_head\<close> for a READY task\<close>
  [code]: "find_ready ts p =
     (case p of
        None \<Rightarrow> Some None
      | Some i \<Rightarrow> if t_state (ts i) = TASK_STATE_READY then Some (Some i)
                  else find_ready ts (t_next (ts i)))"

definition park_prev :: "nat option \<Rightarrow> sched_state \<Rightarrow> sched_state option" where
  \<comment> \<open>the \<open>if (prev)\<close> block at the start of \<open>schedule\<close>\<close>
  "park_prev prev s =
     (case prev of
        None \<Rightarrow> Some s
      | Some p \<Rightarrow>
         (let s1 = (if t_state (tasks s p) = TASK_STATE_RUNNING
                    then upd_task p (\<lambda>x. x\<lparr>t_state := TASK_STATE_READY\<rparr>) s else s)
          in if t_state (tasks s1 p) \<noteq> TASK_STATE_EXITED then move_to_tail p s1 else Some s1))"

definition dispatch :: "nat \<Rightarrow> sched_state \<Rightarrow> sched_state" where
  "dispatch n s =
     (upd_task n (\<lambda>x. x\<lparr>t_state := TASK_STATE_RUNNING\<rparr>)
        (if is_user (tasks s n)
         then s\<lparr>tss_esp0 := t_stack (tasks s n) + TASK_STACK_SIZE\<rparr> else s))\<lparr>current_task := Some n\<rparr>"

definition schedule :: "sched_state \<Rightarrow> sched_state option" where
  "schedule s = do {
     s1 \<leftarrow> park_prev (current_task s) s;
     n \<leftarrow> find_ready (tasks s1) (run_queue_head s1);
     case n of
       None \<Rightarrow> Some s1
     | Some n \<Rightarrow> Some (if Some n = current_task s then s1 else dispatch n s1)
   }"

definition wake_sleeper :: "u32 \<Rightarrow> task \<Rightarrow> task" where
  "wake_sleeper now t =
     (if t_state t = TASK_STATE_BLOCKED \<and> wakeup_tick t > 0 \<and> wakeup_tick t \<le> now
      then t\<lparr>wakeup_tick := 0, t_state := TASK_STATE_READY\<rparr> else t)"

definition scheduler_tick :: "sched_state \<Rightarrow> sched_state option" where
  "scheduler_tick s =
     (let now = tick_count s + 1;
          s1 = s\<lparr>tick_count := now\<rparr>;
          s2 = (if now > 0
                then s1\<lparr>tasks := (\<lambda>i. if i < MAX_TASKS then wake_sleeper now (tasks s1 i)
                                      else tasks s1 i)\<rparr>
                else s1)
      in if now mod TIME_SLICE = 0 then schedule s2 else Some s2)"

definition task_yield :: "sched_state \<Rightarrow> sched_state option" where
  "task_yield s = schedule s"

subsection \<open>The queue as a list\<close>

primrec path :: "(nat \<Rightarrow> task) \<Rightarrow> nat option \<Rightarrow> nat list \<Rightarrow> nat option \<Rightarrow> bool" where
  "path ts p [] q \<longleftrightarrow> p = q"
| "path ts p (x # xs) q \<longleftrightarrow> p = Some x \<and> path ts (t_next (ts x)) xs q"

definition rq :: "sched_state \<Rightarrow> nat list \<Rightarrow> bool" where
  \<comment> \<open>the run queue holds the tasks \<open>xs\<close>, in this order\<close>
  "rq s xs \<longleftrightarrow> path (tasks s) (run_queue_head s) xs None \<and> distinct xs \<and>
     run_queue_tail s = (if xs = [] then None else Some (last xs))"

definition to_back :: "nat \<Rightarrow> nat list \<Rightarrow> nat list" where
  "to_back t xs = (if t \<in> set xs then remove1 t xs @ [t] else xs)"

abbreviation links_only :: "sched_state \<Rightarrow> sched_state \<Rightarrow> bool" where
  \<comment> \<open>the two states differ in the queue's pointers only\<close>
  "links_only s s' \<equiv>
     s'\<lparr>run_queue_head := None, run_queue_tail := None,
        tasks := (\<lambda>i. (tasks s' i)\<lparr>t_next := None\<rparr>)\<rparr> =
     s\<lparr>run_queue_head := None, run_queue_tail := None,
        tasks := (\<lambda>i. (tasks s i)\<lparr>t_next := None\<rparr>)\<rparr>"

lemma path_append:
  "path ts p (xs @ ys) r \<longleftrightarrow> (\<exists>q. path ts p xs q \<and> path ts q ys r)"
  by (induction xs arbitrary: p) auto

lemma path_cong:
  "(\<And>i. i \<in> set xs \<Longrightarrow> t_next (ts' i) = t_next (ts i)) \<Longrightarrow> path ts' p xs q = path ts p xs q"
  by (induction xs arbitrary: p) auto

lemma find_ready_path:
  "path ts p xs None \<Longrightarrow>
   find_ready ts p = Some (find (\<lambda>i. t_state (ts i) = TASK_STATE_READY) xs)"
  by (induction xs arbitrary: p) (subst find_ready.simps, auto)+

lemma find_prev_mem:
  assumes "path ts p (as @ b # t # bs) None" and "t \<notin> set as" and "t \<noteq> b"
  shows "find_prev ts p t = Some (Some b)"
  using assms
proof (induction as arbitrary: p)
  case Nil
  then show ?case by (subst find_prev.simps) auto
next
  case (Cons a as)
  then have "t_next (ts a) \<noteq> Some t" by (cases as) auto
  then show ?case using Cons by (subst find_prev.simps) auto
qed

lemma find_prev_not_mem:
  "path ts p xs None \<Longrightarrow> t \<notin> set (tl xs) \<Longrightarrow> find_prev ts p t = Some None"
proof (induction xs arbitrary: p)
  case Nil
  then show ?case by (subst find_prev.simps) auto
next
  case (Cons a as)
  then have "t_next (ts a) \<noteq> Some t" by (cases as) auto
  moreover have "t \<notin> set (tl as)" using Cons.prems(2) by (cases as) auto
  ultimately show ?case using Cons by (subst find_prev.simps) auto
qed

lemma rq_head: "rq s xs \<Longrightarrow> run_queue_head s = (if xs = [] then None else Some (hd xs))"
  by (cases xs) (auto simp: rq_def)

lemma rq_tail: "rq s xs \<Longrightarrow> run_queue_tail s = (if xs = [] then None else Some (last xs))"
  by (simp add: rq_def)

lemma rq_distinct: "rq s xs \<Longrightarrow> distinct xs"
  by (simp add: rq_def)

lemma rq_state_cong:
  assumes "rq s xs" and "\<And>i. t_next (tasks s' i) = t_next (tasks s i)"
    and "run_queue_head s' = run_queue_head s" and "run_queue_tail s' = run_queue_tail s"
  shows "rq s' xs"
  using assms path_cong [of xs "tasks s'" "tasks s"] by (simp add: rq_def)

lemma set_to_back [simp]: "distinct xs \<Longrightarrow> set (to_back t xs) = set xs"
  by (auto simp: to_back_def)

lemma distinct_to_back [simp]: "distinct xs \<Longrightarrow> distinct (to_back t xs)"
  by (simp add: to_back_def)

lemma to_back_split: "t \<notin> set as \<Longrightarrow> to_back t (as @ t # bs) = as @ bs @ [t]"
  by (simp add: to_back_def remove1_append)

lemma path_last_link:
  \<comment> \<open>appending \<open>t\<close> behind the last element\<close>
  assumes "path ts p xs None" and "xs \<noteq> []" and "distinct xs" and "t \<notin> set xs"
    and "\<And>i. i \<in> set xs \<Longrightarrow> i \<noteq> last xs \<Longrightarrow> t_next (ts' i) = t_next (ts i)"
    and "t_next (ts' (last xs)) = Some t" and "t_next (ts' t) = None"
  shows "path ts' p (xs @ [t]) None"
proof -
  obtain ys l where xs: "xs = ys @ [l]" using assms(2) by (metis rev_exhaust)
  then have "path ts p ys (Some l)" using assms(1) by (auto simp: path_append)
  moreover have "t_next (ts' i) = t_next (ts i)" if "i \<in> set ys" for i
    using assms(3,5) that xs by auto
  ultimately have "path ts' p ys (Some l)" using path_cong by blast
  then show ?thesis using assms(6,7) xs by (auto simp: path_append)
qed

lemma move_to_tail_outside:
  assumes "rq s xs" and "t \<notin> set xs"
  shows "move_to_tail t s = Some s"
proof (cases xs)
  case Nil
  then show ?thesis using assms by (simp add: move_to_tail_def rq_def)
next
  case (Cons a as)
  then have "find_prev (tasks s) (run_queue_head s) t = Some None"
    using assms find_prev_not_mem [of "tasks s" "run_queue_head s" xs t] by (simp add: rq_def)
  then show ?thesis
    using assms Cons rq_head [OF assms(1)] rq_tail [OF assms(1)]
    by (auto simp: move_to_tail_def)
qed

lemma move_to_tail_last:
  assumes "rq s (as @ [t])"
  shows "move_to_tail t s = Some s"
  using rq_tail [OF assms] by (simp add: move_to_tail_def)

lemma move_to_tail_first:
  assumes "rq s (t # bs)" and "bs \<noteq> []"
  shows "\<exists>s'. move_to_tail t s = Some s' \<and> rq s' (bs @ [t]) \<and> links_only s s'"
proof -
  define s1 where "s1 = upd_task t (\<lambda>x. x\<lparr>t_next := None\<rparr>) (s\<lparr>run_queue_head := t_next (tasks s t)\<rparr>)"
  define s' where
    "s' = (upd_task (last bs) (\<lambda>x. x\<lparr>t_next := Some t\<rparr>) s1)\<lparr>run_queue_tail := Some t\<rparr>"
  have tail: "run_queue_tail s = Some (last bs)" and head: "run_queue_head s = Some t"
    and t: "t \<notin> set bs" and p: "path (tasks s) (t_next (tasks s t)) bs None" and d: "distinct bs"
    using assms by (auto simp: rq_def)
  have ne: "last bs \<noteq> t" using t assms(2) by (metis last_in_set)
  have "move_to_tail t s = Some s'"
    using head tail ne by (simp add: move_to_tail_def s'_def s1_def)
  moreover have "path (tasks s') (t_next (tasks s t)) (bs @ [t]) None"
    using t ne by (intro path_last_link [OF p assms(2) d t]) (auto simp: s'_def s1_def)
  then have "rq s' (bs @ [t])"
    using d t by (simp add: rq_def s'_def s1_def)
  moreover have "links_only s s'"
    by (auto simp: s'_def s1_def upd_task_def fun_eq_iff)
  ultimately show ?thesis by blast
qed

lemma move_to_tail_middle:
  assumes "rq s (as @ b # t # bs)" and "bs \<noteq> []"
  shows "\<exists>s'. move_to_tail t s = Some s' \<and> rq s' (as @ b # bs @ [t]) \<and> links_only s s'"
proof -
  define s1 where "s1 = upd_task t (\<lambda>x. x\<lparr>t_next := None\<rparr>)
    (upd_task b (\<lambda>x. x\<lparr>t_next := t_next (tasks s t)\<rparr>) s)"
  define s' where
    "s' = (upd_task (last bs) (\<lambda>x. x\<lparr>t_next := Some t\<rparr>) s1)\<lparr>run_queue_tail := Some t\<rparr>"
  let ?h = "run_queue_head s" and ?xs = "as @ b # bs"
  have tail: "run_queue_tail s = Some (last bs)"
    and d: "distinct (as @ b # t # bs)" and p: "path (tasks s) ?h (as @ b # t # bs) None"
    using assms by (auto simp: rq_def)
  have head: "?h = Some (hd (as @ [b]))" using rq_head [OF assms(1)] by (cases as) auto
  have neq: "hd (as @ [b]) \<noteq> t" "hd (as @ [b]) \<noteq> last bs" "last bs \<noteq> t" "last bs \<noteq> b" "b \<noteq> t"
    using d assms(2) last_in_set [OF assms(2)] by (cases as; auto)+
  have "find_prev (tasks s) ?h t = Some (Some b)"
    using find_prev_mem [OF p] d by auto
  then have "move_to_tail t s = Some s'"
    using head tail neq by (simp add: move_to_tail_def s'_def s1_def)
  moreover have "path (tasks s1) ?h ?xs None"
  proof -
    have "path (tasks s) ?h as (Some b)" and "path (tasks s) (t_next (tasks s t)) bs None"
      using p by (auto simp: path_append)
    moreover have "path (tasks s1) ?h as (Some b) = path (tasks s) ?h as (Some b)"
      and "path (tasks s1) (t_next (tasks s t)) bs None = path (tasks s) (t_next (tasks s t)) bs None"
      using d by (intro path_cong; auto simp: s1_def)+
    ultimately show ?thesis using neq by (auto simp: path_append s1_def)
  qed
  then have "path (tasks s') ?h (?xs @ [t]) None"
    using d neq by (intro path_last_link [where ts = "tasks s1"]) (auto simp: s'_def s1_def assms(2))
  then have "rq s' (as @ b # bs @ [t])"
    using d by (simp add: rq_def s'_def s1_def)
  moreover have "links_only s s'"
    by (auto simp: s'_def s1_def upd_task_def fun_eq_iff)
  ultimately show ?thesis by blast
qed

lemma move_to_tail_spec:
  assumes "rq s xs"
  shows "\<exists>s'. move_to_tail t s = Some s' \<and> rq s' (to_back t xs) \<and> links_only s s'"
proof (cases "t \<in> set xs")
  case False
  then show ?thesis using move_to_tail_outside assms by (simp add: to_back_def)
next
  case True
  then obtain as bs where xs: "xs = as @ t # bs" and as: "t \<notin> set as"
    by (meson split_list_first)
  have tb: "to_back t xs = as @ bs @ [t]" using xs as to_back_split by simp
  consider "bs = []" | "bs \<noteq> []" "as = []" | b as' where "bs \<noteq> []" "as = as' @ [b]"
    by (metis rev_exhaust)
  then show ?thesis
  proof cases
    case 1
    then show ?thesis using move_to_tail_last assms xs tb by simp
  next
    case 2
    then show ?thesis using move_to_tail_first assms xs tb by simp
  next
    case 3
    then show ?thesis using move_to_tail_middle assms xs tb by simp
  qed
qed

lemma scheduler_add_task_spec:
  assumes "rq s xs" and "t \<notin> set xs"
  shows "\<exists>s'. scheduler_add_task (Some t) s = Some s' \<and> rq s' (xs @ [t]) \<and> links_only s s'"
proof (cases "xs = []")
  case True
  then show ?thesis using assms
    by (auto simp: scheduler_add_task_def rq_def Let_def fun_eq_iff)
next
  case False
  define s' where "s' = (upd_task (last xs) (\<lambda>x. x\<lparr>t_next := Some t\<rparr>)
    (upd_task t (\<lambda>x. x\<lparr>t_next := None\<rparr>) s))\<lparr>run_queue_tail := Some t\<rparr>"
  have ne: "last xs \<noteq> t" using assms(2) False by (metis last_in_set)
  have "scheduler_add_task (Some t) s = Some s'"
    using False rq_head [OF assms(1)] rq_tail [OF assms(1)]
    by (simp add: scheduler_add_task_def s'_def Let_def)
  moreover have "path (tasks s') (run_queue_head s) (xs @ [t]) None"
    using assms False ne
    by (intro path_last_link [where ts = "tasks s"]) (auto simp: rq_def s'_def)
  then have "rq s' (xs @ [t])" using assms by (simp add: rq_def s'_def)
  moreover have "links_only s s'" by (auto simp: s'_def upd_task_def fun_eq_iff)
  ultimately show ?thesis by blast
qed

subsection \<open>Round robin\<close>

text \<open>
  The abstract scheduler: the current task goes to the back of the queue unless it has exited, and
  the first READY task of the queue runs.
\<close>

type_synonym states = "nat \<Rightarrow> task_state"

definition rr_park :: "nat option \<Rightarrow> states \<Rightarrow> nat list \<Rightarrow> states \<times> nat list" where
  "rr_park cur st xs =
     (case cur of
        None \<Rightarrow> (st, xs)
      | Some p \<Rightarrow>
         (if st p = TASK_STATE_RUNNING then st(p := TASK_STATE_READY) else st,
          if st p \<noteq> TASK_STATE_EXITED then to_back p xs else xs))"

definition round_robin :: "nat option \<Rightarrow> states \<Rightarrow> nat list \<Rightarrow> nat option \<times> states \<times> nat list" where
  "round_robin cur st xs =
     (let (st1, xs1) = rr_park cur st xs in
      case find (\<lambda>i. st1 i = TASK_STATE_READY) xs1 of
        None \<Rightarrow> (cur, st1, xs1)
      | Some n \<Rightarrow> if Some n = cur then (cur, st1, xs1)
                  else (Some n, st1(n := TASK_STATE_RUNNING), xs1))"

abbreviation states_of :: "sched_state \<Rightarrow> states" where
  "states_of s \<equiv> (\<lambda>i. t_state (tasks s i))"

lemma links_onlyD:
  assumes "links_only s s'"
  shows "(tasks s' i)\<lparr>t_next := None\<rparr> = (tasks s i)\<lparr>t_next := None\<rparr>"
    and "current_task s' = current_task s" and "next_pid s' = next_pid s"
    and "tick_count s' = tick_count s" and "tss_esp0 s' = tss_esp0 s"
proof -
  let ?e = "\<lambda>s. s\<lparr>run_queue_head := None, run_queue_tail := None,
     tasks := (\<lambda>i. (tasks s i)\<lparr>t_next := None\<rparr>)\<rparr>"
  have eq: "?e s' = ?e s" using assms .
  show "(tasks s' i)\<lparr>t_next := None\<rparr> = (tasks s i)\<lparr>t_next := None\<rparr>"
    using arg_cong [OF eq, of "\<lambda>s. tasks s i"] by simp
  show "current_task s' = current_task s" using arg_cong [OF eq, of current_task] by simp
  show "next_pid s' = next_pid s" using arg_cong [OF eq, of next_pid] by simp
  show "tick_count s' = tick_count s" using arg_cong [OF eq, of tick_count] by simp
  show "tss_esp0 s' = tss_esp0 s" using arg_cong [OF eq, of tss_esp0] by simp
qed

lemma links_only_states: "links_only s s' \<Longrightarrow> states_of s' = states_of s"
proof
  fix i
  assume "links_only s s'"
  from arg_cong [OF links_onlyD(1) [OF this, of i], of t_state]
  show "t_state (tasks s' i) = t_state (tasks s i)" by simp
qed

lemma park_prev_spec:
  assumes "rq s xs"
  shows "\<exists>s'. park_prev cur s = Some s' \<and> current_task s' = current_task s \<and>
           rq s' (snd (rr_park cur (states_of s) xs)) \<and>
           states_of s' = fst (rr_park cur (states_of s) xs)"
proof (cases cur)
  case None
  then show ?thesis using assms by (simp add: park_prev_def rr_park_def)
next
  case (Some p)
  define s1 where "s1 = (if t_state (tasks s p) = TASK_STATE_RUNNING
    then upd_task p (\<lambda>x. x\<lparr>t_state := TASK_STATE_READY\<rparr>) s else s)"
  have rq1: "rq s1 xs" using assms by (rule rq_state_cong) (auto simp: s1_def)
  have st1: "states_of s1 = fst (rr_park cur (states_of s) xs)"
    by (auto simp: s1_def rr_park_def Some)
  have ex: "t_state (tasks s1 p) = TASK_STATE_EXITED \<longleftrightarrow> t_state (tasks s p) = TASK_STATE_EXITED"
    by (simp add: s1_def)
  have cur1: "current_task s1 = current_task s" by (simp add: s1_def)
  from move_to_tail_spec [OF rq1, of p] obtain s' where
    s': "move_to_tail p s1 = Some s'" "rq s' (to_back p xs)" "links_only s1 s'" by blast
  have park: "park_prev cur s =
    (if t_state (tasks s1 p) \<noteq> TASK_STATE_EXITED then move_to_tail p s1 else Some s1)"
    by (simp add: park_prev_def Some s1_def Let_def)
  show ?thesis
  proof (cases "t_state (tasks s p) = TASK_STATE_EXITED")
    case True
    then show ?thesis using park ex cur1 rq1 st1 Some by (simp add: rr_park_def)
  next
    case False
    then show ?thesis
      using park ex cur1 s' st1 links_only_states [OF s'(3)] links_onlyD(2) [OF s'(3)] Some
      by (simp add: rr_park_def)
  qed
qed

lemma dispatch_simps [simp]:
  "run_queue_head (dispatch n s) = run_queue_head s"
  "run_queue_tail (dispatch n s) = run_queue_tail s"
  "current_task (dispatch n s) = Some n"
  "t_next (tasks (dispatch n s) i) = t_next (tasks s i)"
  "states_of (dispatch n s) = (states_of s)(n := TASK_STATE_RUNNING)"
  by (auto simp: dispatch_def)

lemma schedule_round_robin:
  assumes "rq s xs"
  shows "\<exists>s'. schedule s = Some s' \<and>
    (\<exists>xs'. rq s' xs' \<and>
       (current_task s', states_of s', xs') = round_robin (current_task s) (states_of s) xs)"
proof -
  let ?cur = "current_task s"
  obtain s1 where s1: "park_prev ?cur s = Some s1" "current_task s1 = ?cur"
      "rq s1 (snd (rr_park ?cur (states_of s) xs))"
      "states_of s1 = fst (rr_park ?cur (states_of s) xs)"
    using park_prev_spec [OF assms] by blast
  obtain st1 xs1 where rr: "rr_park ?cur (states_of s) xs = (st1, xs1)" by fastforce
  have rq1: "rq s1 xs1" and st: "states_of s1 = st1" using s1 rr by simp_all
  have "find_ready (tasks s1) (run_queue_head s1) = Some (find (\<lambda>i. states_of s1 i = TASK_STATE_READY) xs1)"
    using rq1 find_ready_path by (simp add: rq_def)
  moreover have sti: "t_state (tasks s1 i) = st1 i" for i using fun_cong [OF st] .
  ultimately have fr: "find_ready (tasks s1) (run_queue_head s1) =
    Some (find (\<lambda>i. st1 i = TASK_STATE_READY) xs1)" by simp
  have rqd: "rq (dispatch n s1) xs1" for n
    using rq1 by (rule rq_state_cong) simp_all
  show ?thesis
    using s1(1,2) rq1 rqd sti
    by (auto simp: schedule_def fr round_robin_def rr split: option.split)
qed

subsection \<open>Fairness\<close>

definition ready_before :: "states \<Rightarrow> nat list \<Rightarrow> nat \<Rightarrow> nat" where
  "ready_before st xs t =
     length (filter (\<lambda>i. st i = TASK_STATE_READY) (takeWhile (\<lambda>i. i \<noteq> t) xs))"

fun schedules :: "nat \<Rightarrow> sched_state \<Rightarrow> sched_state option" where
  "schedules 0 s = Some s"
| "schedules (Suc n) s = do { s' \<leftarrow> schedule s; schedules n s' }"

lemma ready_before_split:
  "t \<notin> set as \<Longrightarrow>
   ready_before st (as @ t # bs) t = length (filter (\<lambda>i. st i = TASK_STATE_READY) as)"
  by (auto simp: ready_before_def takeWhile_append)

lemma ready_before_le: "ready_before st xs t \<le> length xs"
  unfolding ready_before_def by (meson le_trans length_filter_le length_takeWhile_le)

lemma to_back_keeps_split:
  assumes "distinct (as @ t # bs)" and "p \<noteq> t"
  shows "\<exists>bs'. to_back p (as @ t # bs) = filter (\<lambda>i. i \<noteq> p) as @ t # bs'"
proof (cases "p \<in> set as")
  case True
  then show ?thesis using assms by (auto simp: to_back_def remove1_append distinct_remove1_removeAll
        removeAll_filter_not_eq eq_commute)
next
  case False
  then have "filter (\<lambda>i. i \<noteq> p) as = as" by (auto simp: filter_id_conv)
  then show ?thesis using False assms by (auto simp: to_back_def remove1_append)
qed

lemma rr_park_split:
  assumes "distinct (as @ t # bs)" and "cur \<noteq> Some t" and "rr_park cur st (as @ t # bs) = (st1, xs1)"
  shows "\<exists>as' bs'. xs1 = as' @ t # bs' \<and> set as' \<subseteq> set as \<and> distinct (as' @ t # bs') \<and> st1 t = st t \<and>
    length (filter (\<lambda>i. st1 i = TASK_STATE_READY) as') \<le>
    length (filter (\<lambda>i. st i = TASK_STATE_READY) as) \<and>
    (\<forall>p. cur = Some p \<longrightarrow> p \<in> set as' \<longrightarrow> st1 p \<noteq> TASK_STATE_READY)"
proof (cases cur)
  case None
  then show ?thesis using assms by (auto simp: rr_park_def)
next
  case (Some p)
  then have p: "p \<noteq> t" using assms(2) by simp
  have st1: "st1 = (if st p = TASK_STATE_RUNNING then st(p := TASK_STATE_READY) else st)"
    and xs1: "xs1 = (if st p \<noteq> TASK_STATE_EXITED then to_back p (as @ t # bs) else as @ t # bs)"
    using assms(3) Some by (auto simp: rr_park_def)
  show ?thesis
  proof (cases "st p = TASK_STATE_EXITED")
    case True
    then show ?thesis using assms st1 xs1 Some by auto
  next
    case False
    let ?as = "filter (\<lambda>i. i \<noteq> p) as"
    from False obtain bs' where bs': "xs1 = ?as @ t # bs'"
      using xs1 to_back_keeps_split [OF assms(1) p] by auto
    have "distinct xs1" using xs1 assms(1) by simp
    have "filter (\<lambda>i. st1 i = TASK_STATE_READY) ?as = filter (\<lambda>i. i \<noteq> p) (filter (\<lambda>i. st i = TASK_STATE_READY) as)"
      using st1 by (auto intro!: filter_cong simp: conj_commute)
    then have "length (filter (\<lambda>i. st1 i = TASK_STATE_READY) ?as) \<le>
               length (filter (\<lambda>i. st i = TASK_STATE_READY) as)"
      by (metis length_filter_le)
    moreover have "st1 t = st t" using st1 p by simp
    ultimately show ?thesis using bs' \<open>distinct xs1\<close> Some
      by (intro exI [of _ ?as] exI [of _ bs']) auto
  qed
qed

lemma round_robin_progress:
  assumes "distinct xs" and "t \<in> set xs" and "st t = TASK_STATE_READY" and "cur \<noteq> Some t"
    and "round_robin cur st xs = (cur', st', xs')"
  shows "cur' = Some t \<or>
    (cur' \<noteq> Some t \<and> st' t = TASK_STATE_READY \<and> t \<in> set xs' \<and>
     ready_before st' xs' t < ready_before st xs t)"
proof -
  obtain as bs where xs: "xs = as @ t # bs" and tas: "t \<notin> set as"
    using assms(2) by (meson split_list_first)
  obtain st1 xs1 where park: "rr_park cur st xs = (st1, xs1)" by fastforce
  obtain as' bs' where split: "xs1 = as' @ t # bs'" "distinct (as' @ t # bs')" "st1 t = st t"
      "length (filter (\<lambda>i. st1 i = TASK_STATE_READY) as') \<le>
       length (filter (\<lambda>i. st i = TASK_STATE_READY) as)"
      "\<forall>p. cur = Some p \<longrightarrow> p \<in> set as' \<longrightarrow> st1 p \<noteq> TASK_STATE_READY"
    using rr_park_split [of as t bs cur st st1 xs1] assms xs park by auto
  have tas': "t \<notin> set as'" using split(2) by simp
  show ?thesis
  proof (cases "find (\<lambda>i. st1 i = TASK_STATE_READY) as'")
    case None
    then have "find (\<lambda>i. st1 i = TASK_STATE_READY) xs1 = Some t"
      using split(1,3) assms(3) by (simp add: find_append)
    then show ?thesis using assms(4,5) park by (auto simp: round_robin_def split: if_splits)
  next
    case (Some n)
    then have n: "n \<in> set as'" "st1 n = TASK_STATE_READY"
      by (auto simp: find_Some_iff)
    have "find (\<lambda>i. st1 i = TASK_STATE_READY) xs1 = Some n"
      using split(1) Some by (simp add: find_append)
    moreover have "cur \<noteq> Some n" using n split(5) by auto
    ultimately have eq: "cur' = Some n" "st' = st1(n := TASK_STATE_RUNNING)" "xs' = xs1"
      using assms(5) park by (auto simp: round_robin_def)
    have nt: "n \<noteq> t" using n(1) tas' by auto
    have "length (filter (\<lambda>i. st' i = TASK_STATE_READY) as') <
          length (filter (\<lambda>i. st1 i = TASK_STATE_READY) as')"
    proof -
      have "filter (\<lambda>i. st' i = TASK_STATE_READY) as' =
            filter (\<lambda>i. i \<noteq> n) (filter (\<lambda>i. st1 i = TASK_STATE_READY) as')"
        using eq(2) by (auto intro!: filter_cong)
      then show ?thesis
        using n length_filter_less [of n "filter (\<lambda>i. st1 i = TASK_STATE_READY) as'" "\<lambda>i. i \<noteq> n"]
        by simp
    qed
    then show ?thesis
      using eq nt split assms(3) tas tas' xs by (simp add: ready_before_split)
  qed
qed

lemma schedules_reach:
  assumes "rq s xs" and "t \<in> set xs" and "t_state (tasks s t) = TASK_STATE_READY"
    and "current_task s \<noteq> Some t"
  shows "\<exists>k \<le> Suc (ready_before (states_of s) xs t). \<exists>s'.
           schedules k s = Some s' \<and> current_task s' = Some t"
  using assms
proof (induction "ready_before (states_of s) xs t" arbitrary: s xs rule: less_induct)
  case less
  obtain s1 xs1 where s1: "schedule s = Some s1" "rq s1 xs1"
      "round_robin (current_task s) (states_of s) xs = (current_task s1, states_of s1, xs1)"
    using schedule_round_robin [OF less.prems(1)] by metis
  from round_robin_progress [OF rq_distinct [OF less.prems(1)] less.prems(2-4) s1(3)]
  show ?case
  proof
    assume "current_task s1 = Some t"
    then show ?thesis using s1(1) by (intro exI [of _ 1]) simp
  next
    assume *: "current_task s1 \<noteq> Some t \<and> states_of s1 t = TASK_STATE_READY \<and> t \<in> set xs1 \<and>
      ready_before (states_of s1) xs1 t < ready_before (states_of s) xs t"
    then obtain k s' where "k \<le> Suc (ready_before (states_of s1) xs1 t)"
        "schedules k s1 = Some s'" "current_task s' = Some t"
      using less.hyps [of s1 xs1] s1(2) by blast
    then show ?thesis using * s1(1) by (intro exI [of _ "Suc k"]) auto
  qed
qed

end
