(* ===== verification/Process.thy ===== *)
theory Process
  imports Scheduler
begin

text \<open>
  Exit, block and wait of \<open>kernel/task.c\<close>, over the scheduler. A call that blocks ends, in the
  model, with the outcome \<open>Blocked\<close> and the state in which another task runs: the C loop goes
  round again when the caller is scheduled next, which is a new call on the state of that moment.
\<close>

datatype 'a outcome = Returned 'a | Blocked

definition SIGCHLD :: int where "SIGCHLD = 17"
definition WNOHANG :: int where "WNOHANG = 1"

definition task_exit :: "sched_state \<Rightarrow> sched_state option" where
  "task_exit s =
     (case scheduler_get_current s of
        None \<Rightarrow> Some s
      | Some c \<Rightarrow>
         (let s1 = upd_task c (\<lambda>t. t\<lparr>t_state := TASK_STATE_EXITED\<rparr>) s;
              s2 = (if parent_pid (tasks s1 c) \<ge> 0
                    then signal_send (parent_pid (tasks s1 c)) SIGCHLD
                           (task_wake (parent_pid (tasks s1 c)) s1)
                    else s1)
          in task_yield s2))"

definition task_block :: "sched_state \<Rightarrow> sched_state option" where
  "task_block s =
     (case scheduler_get_current s of
        None \<Rightarrow> Some s
      | Some c \<Rightarrow> task_yield (upd_task c (\<lambda>t. t\<lparr>t_state := TASK_STATE_BLOCKED\<rparr>) s))"

definition task_waitpid ::
    "int \<Rightarrow> int \<Rightarrow> sched_state \<Rightarrow> ((int \<times> int option) outcome \<times> sched_state) option" where
  \<comment> \<open>the pair is the return value and what \<open>*status\<close> is set to, if anything\<close>
  "task_waitpid p options s =
     (case scheduler_get_current s of
        None \<Rightarrow> Some (Returned (-1, None), s)
      | Some c \<Rightarrow>
         (case task_find_child_exited_pid (pid (tasks s c)) p s of
            Some ch \<Rightarrow> Some (Returned (pid (tasks s ch), Some (exit_status (tasks s ch))),
                            upd_task ch (\<lambda>t. t\<lparr>parent_pid := -1\<rparr>) s)
          | None \<Rightarrow> if options AND WNOHANG \<noteq> 0 then Some (Returned (0, None), s)
                    else do { s' \<leftarrow> task_block s; Some (Blocked, s') }))"

subsection \<open>What a reschedule keeps\<close>

definition unsched :: "task \<Rightarrow> task" where
  \<comment> \<open>a task without the two fields the scheduler owns\<close>
  "unsched t = t\<lparr>t_next := None, t_state := TASK_STATE_READY\<rparr>"

definition same_tasks :: "sched_state \<Rightarrow> sched_state \<Rightarrow> bool" where
  "same_tasks s s' \<longleftrightarrow> next_pid s' = next_pid s \<and> (\<forall>i. unsched (tasks s' i) = unsched (tasks s i)) \<and>
     stacks_base s' = stacks_base s \<and> kernel_pdir s' = kernel_pdir s \<and> tick_count s' = tick_count s"

lemma same_tasks_refl [simp]: "same_tasks s s"
  by (simp add: same_tasks_def)

lemma same_tasks_trans: "same_tasks s s' \<Longrightarrow> same_tasks s' s'' \<Longrightarrow> same_tasks s s''"
  by (simp add: same_tasks_def)

lemma same_tasks_upd:
  "(\<And>t. unsched (f t) = unsched t) \<Longrightarrow> same_tasks s (upd_task i f s)"
  by (simp add: same_tasks_def)

lemma unsched_fields:
  assumes "unsched t' = unsched t"
  shows "pid t' = pid t" "parent_pid t' = parent_pid t" "exit_status t' = exit_status t"
    "fd_table t' = fd_table t" "pending_signals t' = pending_signals t"
    "signal_mask t' = signal_mask t" "task_wf t' = task_wf t" "is_user t' = is_user t"
    "signal_handlers t' = signal_handlers t" "t_stack t' = t_stack t" "t_pdir t' = t_pdir t"
proof -
  have *: "f t' = f t" if "\<And>t n s. f (t\<lparr>t_next := n, t_state := s\<rparr>) = f t" for f :: "task \<Rightarrow> 'b"
    using arg_cong [OF assms, of f] that by (simp add: unsched_def)
  show "pid t' = pid t" "parent_pid t' = parent_pid t" "exit_status t' = exit_status t"
    "fd_table t' = fd_table t" "pending_signals t' = pending_signals t"
    "signal_mask t' = signal_mask t" "task_wf t' = task_wf t" "is_user t' = is_user t"
    "signal_handlers t' = signal_handlers t" "t_stack t' = t_stack t" "t_pdir t' = t_pdir t"
    by (rule *, simp add: task_wf_def)+
qed

lemma same_tasks_links: "links_only s s' \<Longrightarrow> same_tasks s s'"
proof -
  assume l: "links_only s s'"
  have "unsched (tasks s' i) = unsched (tasks s i)" for i
    using arg_cong [OF links_onlyD(1) [OF l, of i], of "\<lambda>t. t\<lparr>t_state := TASK_STATE_READY\<rparr>"]
    by (simp add: unsched_def)
  moreover have "stacks_base s' = stacks_base s" "kernel_pdir s' = kernel_pdir s"
    using arg_cong [OF l, of stacks_base] arg_cong [OF l, of kernel_pdir] by simp_all
  ultimately show ?thesis using links_onlyD(3,4) [OF l] by (simp add: same_tasks_def)
qed

lemma same_tasks_dispatch: "same_tasks s (dispatch n s)"
  by (auto simp: same_tasks_def dispatch_def unsched_def)

lemma same_tasks_park:
  assumes "rq s xs" and "park_prev cur s = Some s'"
  shows "same_tasks s s'"
proof (cases cur)
  case None
  then show ?thesis using assms by (simp add: park_prev_def)
next
  case (Some p)
  define s1 where "s1 = (if t_state (tasks s p) = TASK_STATE_RUNNING
    then upd_task p (\<lambda>x. x\<lparr>t_state := TASK_STATE_READY\<rparr>) s else s)"
  have "rq s1 xs" using assms(1) by (rule rq_state_cong) (auto simp: s1_def)
  then have "same_tasks s1 s'"
    using assms(2) Some move_to_tail_spec [of s1 xs p] same_tasks_links
    by (auto simp: park_prev_def s1_def [symmetric] split: if_splits)
  moreover have "same_tasks s s1" by (auto simp: s1_def unsched_def intro!: same_tasks_upd)
  ultimately show ?thesis by (rule same_tasks_trans [rotated])
qed

lemma same_tasks_schedule:
  assumes "rq s xs" and "schedule s = Some s'"
  shows "same_tasks s s'"
proof -
  obtain s1 n where "park_prev (current_task s) s = Some s1"
      and "s' = s1 \<or> s' = dispatch n s1"
    using assms(2) by (auto simp: schedule_def bind_eq_Some_conv split: option.splits if_splits)
  then show ?thesis
    using same_tasks_park [OF assms(1)] same_tasks_dispatch same_tasks_trans by blast
qed

lemma task_inv_same: "task_inv s \<Longrightarrow> same_tasks s s' \<Longrightarrow> task_inv s'"
  unfolding task_inv_def same_tasks_def by (metis unsched_fields(1,7))

subsection \<open>Exit and wait\<close>

lemma find_SomeD: "find P xs = Some x \<Longrightarrow> P x \<and> x \<in> set xs"
  by (auto simp: find_Some_iff)

lemma round_robin_cases:
  assumes "round_robin cur st xs = (cur', st', xs')" and "rr_park cur st xs = (st1, xs1)"
  shows "xs' = xs1 \<and> ((cur' = cur \<and> st' = st1) \<or>
    (\<exists>n \<in> set xs1. st1 n = TASK_STATE_READY \<and> cur' = Some n \<and> st' = st1(n := TASK_STATE_RUNNING)))"
proof (cases "find (\<lambda>i. st1 i = TASK_STATE_READY) xs1")
  case None
  then show ?thesis using assms by (simp add: round_robin_def)
next
  case (Some n)
  then show ?thesis using assms find_SomeD [OF Some]
    by (auto simp: round_robin_def split: if_splits)
qed

lemma rr_states:
  assumes "round_robin cur st xs = (cur', st', xs')"
  shows "st i = TASK_STATE_EXITED \<Longrightarrow> st' i = TASK_STATE_EXITED"
    and "st i = TASK_STATE_BLOCKED \<Longrightarrow> st' i = TASK_STATE_BLOCKED"
    and "st i = TASK_STATE_READY \<or> st i = TASK_STATE_RUNNING \<Longrightarrow>
         st' i = TASK_STATE_READY \<or> st' i = TASK_STATE_RUNNING"
proof -
  obtain st1 xs1 where p: "rr_park cur st xs = (st1, xs1)" by fastforce
  have "st' = st1 \<or> (\<exists>n. st1 n = TASK_STATE_READY \<and> st' = st1(n := TASK_STATE_RUNNING))"
    using round_robin_cases [OF assms p] by blast
  moreover have "st1 i = st i \<or> (st i = TASK_STATE_RUNNING \<and> st1 i = TASK_STATE_READY)"
    using p by (auto simp: rr_park_def split: option.splits if_splits)
  ultimately show "st i = TASK_STATE_EXITED \<Longrightarrow> st' i = TASK_STATE_EXITED"
    and "st i = TASK_STATE_BLOCKED \<Longrightarrow> st' i = TASK_STATE_BLOCKED"
    and "st i = TASK_STATE_READY \<or> st i = TASK_STATE_RUNNING \<Longrightarrow>
         st' i = TASK_STATE_READY \<or> st' i = TASK_STATE_RUNNING"
    by (auto split: if_splits)
qed

definition one_running :: "sched_state \<Rightarrow> bool" where
  "one_running s \<longleftrightarrow> (\<forall>i. t_state (tasks s i) = TASK_STATE_RUNNING \<longrightarrow> current_task s = Some i)"

lemma rr_one_running:
  assumes "round_robin cur st xs = (cur', st', xs')"
    and "\<forall>i. st i = TASK_STATE_RUNNING \<longrightarrow> cur = Some i"
  shows "\<forall>i. st' i = TASK_STATE_RUNNING \<longrightarrow> cur' = Some i"
proof -
  obtain st1 xs1 where p: "rr_park cur st xs = (st1, xs1)" by fastforce
  have none: "st1 i \<noteq> TASK_STATE_RUNNING" for i
  proof
    assume run: "st1 i = TASK_STATE_RUNNING"
    have "st1 i = st i \<or> st1 i = TASK_STATE_READY"
      using p by (simp add: rr_park_def split: option.splits if_splits) auto
    then have "cur = Some i" using assms(2) run by simp
    then show False using p run by (auto simp: rr_park_def split: if_splits)
  qed
  have "st' = st1 \<or> (\<exists>n. cur' = Some n \<and> st' = st1(n := TASK_STATE_RUNNING))"
    using round_robin_cases [OF assms(1) p] by blast
  then show ?thesis using none by (auto split: if_splits)
qed

definition sched_inv :: "sched_state \<Rightarrow> nat list \<Rightarrow> bool" where
  "sched_inv s xs \<longleftrightarrow> task_inv s \<and> rq s xs \<and> one_running s \<and> set xs \<subseteq> {..<next_pid s} \<and>
     (\<forall>c. current_task s = Some c \<longrightarrow> c < next_pid s)"

lemma schedule_inv:
  assumes "sched_inv s xs"
  shows "\<exists>s' xs'. schedule s = Some s' \<and> sched_inv s' xs' \<and> set xs' = set xs \<and> same_tasks s s' \<and>
    (current_task s', states_of s', xs') = round_robin (current_task s) (states_of s) xs"
proof -
  have rq: "rq s xs" using assms by (simp add: sched_inv_def)
  obtain s' xs' where s': "schedule s = Some s'" "rq s' xs'"
      "(current_task s', states_of s', xs') = round_robin (current_task s) (states_of s) xs"
    using schedule_round_robin [OF rq] by blast
  have same: "same_tasks s s'" using same_tasks_schedule [OF rq s'(1)] .
  obtain st1 xs1 where p: "rr_park (current_task s) (states_of s) xs = (st1, xs1)" by fastforce
  have "set xs1 = set xs"
    using p rq_distinct [OF rq] by (auto simp: rr_park_def split: option.splits if_splits)
  then have set: "set xs' = set xs" using round_robin_cases [OF s'(3) [symmetric] p] by simp
  have cur: "current_task s' = current_task s \<or> (\<exists>n \<in> set xs'. current_task s' = Some n)"
    using round_robin_cases [OF s'(3) [symmetric] p] by blast
  have "one_running s'"
    using rr_one_running [OF s'(3) [symmetric]] assms by (simp add: sched_inv_def one_running_def)
  then have "sched_inv s' xs'"
    using assms s' same set cur task_inv_same [OF _ same]
    by (auto simp: sched_inv_def same_tasks_def)
  then show ?thesis using s' set same by blast
qed

lemma sched_inv_upd:
  assumes "sched_inv s xs" and "\<And>t. task_wf t \<Longrightarrow> task_wf (f t)" and "\<And>t. pid (f t) = pid t"
    and "\<And>t. t_next (f t) = t_next t"
    and "t_state (f (tasks s i)) = TASK_STATE_RUNNING \<Longrightarrow> t_state (tasks s i) = TASK_STATE_RUNNING"
  shows "sched_inv (upd_task i f s) xs"
proof -
  have inv: "task_inv s" "rq s xs" "one_running s" "set xs \<subseteq> {..<next_pid s}"
      "\<forall>c. current_task s = Some c \<longrightarrow> c < next_pid s"
    using assms(1) unfolding sched_inv_def by blast+
  have "rq (upd_task i f s) xs"
    using inv(2) by (rule rq_state_cong) (simp_all add: assms(4))
  moreover have "one_running (upd_task i f s)"
    using inv(3) assms(5) unfolding one_running_def by (metis upd_task_simps(1,5))
  ultimately show ?thesis
    using inv task_inv_upd [OF inv(1) assms(2,3)] by (simp add: sched_inv_def)
qed

lemma sched_inv_wake: "sched_inv s xs \<Longrightarrow> sched_inv (task_wake p s) xs"
  by (auto simp: task_wake_def task_wf_def split: option.split intro!: sched_inv_upd)

lemma sched_inv_signal_send: "sched_inv s xs \<Longrightarrow> sched_inv (signal_send p sig s) xs"
  by (auto simp: signal_send_def task_wf_def split: option.split if_splits intro!: sched_inv_upd)

lemma task_exit_wakes_parent:
  assumes inv: "sched_inv s xs" and cur: "current_task s = Some c"
    and parent: "parent_pid (tasks s c) = int p" "p < next_pid s" "p \<noteq> c"
      "t_state (tasks s p) \<noteq> TASK_STATE_EXITED"
  shows "\<exists>s' xs'. task_exit s = Some s' \<and> sched_inv s' xs' \<and> set xs' = set xs \<and>
    t_state (tasks s' c) = TASK_STATE_EXITED \<and>
    (t_state (tasks s' p) = TASK_STATE_READY \<or> t_state (tasks s' p) = TASK_STATE_RUNNING) \<and>
    pending_signals (tasks s' p) = pending_signals (tasks s p) OR sigbit 17 \<and>
    unsched (tasks s' c) = unsched (tasks s c) \<and> next_pid s' = next_pid s"
proof -
  define s1 where "s1 = upd_task c (\<lambda>t. t\<lparr>t_state := TASK_STATE_EXITED\<rparr>) s"
  define s2 where "s2 = signal_send (int p) SIGCHLD (task_wake (int p) s1)"
  have inv1: "sched_inv s1 xs" using inv by (auto simp: s1_def task_wf_def intro!: sched_inv_upd)
  have inv2: "sched_inv s2 xs"
    using inv1 by (simp add: s2_def sched_inv_wake sched_inv_signal_send)
  have ti: "task_inv s1" "task_inv (task_wake (int p) s1)"
    using inv1 sched_inv_wake [OF inv1] by (simp_all add: sched_inv_def)
  have exit: "task_exit s = schedule s2"
    using cur parent(1)
    by (simp add: task_exit_def scheduler_get_current_def Let_def s1_def s2_def task_yield_def)
  obtain s' xs' where s': "schedule s2 = Some s'" "sched_inv s' xs'" "set xs' = set xs" "same_tasks s2 s'"
      "(current_task s', states_of s', xs') = round_robin (current_task s2) (states_of s2) xs"
    using schedule_inv [OF inv2] by blast
  have f1: "tasks s1 c = (tasks s c)\<lparr>t_state := TASK_STATE_EXITED\<rparr>" "tasks s1 p = tasks s p"
      "next_pid s1 = next_pid s"
    using parent(3) by (simp_all add: s1_def)
  have c2: "tasks s2 c = (tasks s c)\<lparr>t_state := TASK_STATE_EXITED\<rparr>"
    using parent(3) f1 unfolding s2_def signal_send_pid [OF ti(2)]
    by (simp add: task_wake_pid [OF ti(1)])
  have p2: "pending_signals (tasks s2 p) = pending_signals (tasks s p) OR sigbit 17"
      "t_state (tasks s2 p) = TASK_STATE_READY \<or> t_state (tasks s2 p) = TASK_STATE_RUNNING"
    using parent(2-4) f1 unfolding s2_def signal_send_pid [OF ti(2)]
    by (cases "t_state (tasks s p)"; simp add: task_wake_pid [OF ti(1)] SIGCHLD_def NSIG_def)+
  have "t_state (tasks s' c) = TASK_STATE_EXITED"
    using rr_states(1) [OF s'(5) [symmetric], of c] c2 by simp
  moreover have "t_state (tasks s' p) = TASK_STATE_READY \<or> t_state (tasks s' p) = TASK_STATE_RUNNING"
    using rr_states(3) [OF s'(5) [symmetric], of p] p2 by simp
  moreover have "unsched (tasks s' c) = unsched (tasks s c)"
    using s'(4) c2 by (simp add: same_tasks_def unsched_def)
  moreover have "pending_signals (tasks s' p) = pending_signals (tasks s p) OR sigbit 17"
    using s'(4) p2 unsched_fields(5) [of "tasks s' p" "tasks s2 p"] by (simp add: same_tasks_def)
  moreover have "next_pid s' = next_pid s"
    using s'(4) f1(3) unfolding s2_def signal_send_pid [OF ti(2)]
    by (simp add: same_tasks_def task_wake_pid [OF ti(1)] split: if_splits)
  ultimately show ?thesis using exit s' by metis
qed

lemma find_child_exact:
  assumes "task_inv s" and "0 < c" and "c < next_pid s"
  shows "task_find_child_exited_pid p (int c) s =
    (if parent_pid (tasks s c) = p \<and> t_state (tasks s c) = TASK_STATE_EXITED then Some c else None)"
proof -
  have "task_find_child_exited_pid p (int c) s =
    find (\<lambda>i. pid (tasks s i) = int c \<and> parent_pid (tasks s i) = p \<and>
               t_state (tasks s i) = TASK_STATE_EXITED) [0..<next_pid s]"
    unfolding task_find_child_exited_pid_def
    using assms(2) by (intro arg_cong2 [where f = find] refl) auto
  also have "\<dots> = (if parent_pid (tasks s c) = p \<and> t_state (tasks s c) = TASK_STATE_EXITED
                   then Some c else None)"
    using assms by (simp add: find_pid_slot)
  finally show ?thesis .
qed

lemma sched_inv_init: "sched_inv (init_sched stk pd) []"
  using task_inv_init
  by (simp add: sched_inv_def rq_def one_running_def init_sched_def zero_task_def)

lemma sched_inv_alloc:
  assumes "sched_inv s xs"
  shows "sched_inv (snd (task_alloc s)) xs"
proof (cases "next_pid s < MAX_TASKS")
  case True
  let ?s = "snd (task_alloc s)"
  have out: "next_pid s \<notin> set xs" using assms by (auto simp: sched_inv_def)
  have path: "path (tasks ?s) (run_queue_head s) xs None"
    using assms path_cong [of xs "tasks ?s" "tasks s"] task_alloc_Some(3) [OF True] out
    by (metis rq_def sched_inv_def)
  have fld: "run_queue_head ?s = run_queue_head s" "run_queue_tail ?s = run_queue_tail s"
      "current_task ?s = current_task s"
    by (simp_all add: task_alloc_def Let_def)
  have "one_running ?s"
    using assms fld task_alloc_Some(3) [OF True]
    by (auto simp: sched_inv_def one_running_def task_alloc_def signal_init_task_def Let_def
        split: if_splits)
  then show ?thesis
    using assms path fld task_alloc_Some(2) [OF True] task_inv_alloc [of s]
    by (fastforce simp: sched_inv_def rq_def)
next
  case False
  then show ?thesis using assms task_alloc_None [of s] by simp
qed

lemma sched_inv_add:
  assumes "sched_inv s xs" and "t \<notin> set xs" and "t < next_pid s"
  shows "\<exists>s'. scheduler_add_task (Some t) s = Some s' \<and> sched_inv s' (xs @ [t]) \<and> same_tasks s s'"
proof -
  obtain s' where s': "scheduler_add_task (Some t) s = Some s'" "rq s' (xs @ [t])" "links_only s s'"
    using scheduler_add_task_spec [of s xs t] assms by (auto simp: sched_inv_def)
  have st: "states_of s' = states_of s" using links_only_states [OF s'(3)] .
  have "one_running s'"
    using assms(1) fun_cong [OF st] links_onlyD(2) [OF s'(3)]
    by (simp add: sched_inv_def one_running_def)
  then have "sched_inv s' (xs @ [t])"
    using assms s' task_inv_same [OF _ same_tasks_links [OF s'(3)]] links_onlyD(2,3) [OF s'(3)]
    by (simp add: sched_inv_def)
  then show ?thesis using s' same_tasks_links by blast
qed

lemma task_block_inv:
  assumes "sched_inv s xs" and "current_task s = Some c"
  shows "\<exists>s' xs'. task_block s = Some s' \<and> sched_inv s' xs' \<and> set xs' = set xs \<and> same_tasks s s' \<and>
    t_state (tasks s' c) = TASK_STATE_BLOCKED \<and>
    (\<forall>i. t_state (tasks s i) = TASK_STATE_BLOCKED \<longrightarrow> t_state (tasks s' i) = TASK_STATE_BLOCKED)"
proof -
  define s1 where "s1 = upd_task c (\<lambda>t. t\<lparr>t_state := TASK_STATE_BLOCKED\<rparr>) s"
  have "sched_inv s1 xs" using assms by (auto simp: s1_def task_wf_def intro!: sched_inv_upd)
  from schedule_inv [OF this] obtain s' xs' where s': "schedule s1 = Some s'" "sched_inv s' xs'"
      "set xs' = set xs" "same_tasks s1 s'"
      "(current_task s', states_of s', xs') = round_robin (current_task s1) (states_of s1) xs" by blast
  have "t_state (tasks s' c) = TASK_STATE_BLOCKED"
    using rr_states(2) [OF s'(5) [symmetric], of c] by (simp add: s1_def)
  moreover have "t_state (tasks s' i) = TASK_STATE_BLOCKED"
    if "t_state (tasks s i) = TASK_STATE_BLOCKED" for i
    using rr_states(2) [OF s'(5) [symmetric], of i] that by (simp add: s1_def)
  moreover have "same_tasks s s1" by (auto simp: s1_def unsched_def intro!: same_tasks_upd)
  moreover have "task_block s = schedule s1"
    using assms(2) by (simp add: task_block_def scheduler_get_current_def task_yield_def s1_def)
  ultimately show ?thesis using s' same_tasks_trans by metis
qed

subsection \<open>Properties\<close>

definition demo_task :: "nat \<Rightarrow> task_state \<Rightarrow> nat option \<Rightarrow> task" where
  "demo_task i st nx = zero_task\<lparr>pid := int i, parent_pid := 0, t_state := st, t_next := nx\<rparr>"

definition demo_sched :: sched_state where
  \<comment> \<open>task 0 waits for its child 1, which runs; task 2 is ready\<close>
  "demo_sched = (init_sched 0x100000 0x200000)\<lparr>
     tasks := (\<lambda>_. zero_task)(0 := demo_task 0 TASK_STATE_BLOCKED (Some 1),
                               1 := demo_task 1 TASK_STATE_RUNNING (Some 2),
                               2 := demo_task 2 TASK_STATE_READY None),
     next_pid := 3, run_queue_head := Some 0, run_queue_tail := Some 2, current_task := Some 1\<rparr>"

lemma demo_sched_inv: "sched_inv demo_sched [0, 1, 2]"
  by (auto simp: sched_inv_def task_inv_def rq_def one_running_def demo_sched_def init_sched_def
      demo_task_def zero_task_def task_wf_def MAX_TASKS_def less_Suc_eq numeral_eq_Suc)

text \<open>
  C1. The linked run queue implements round robin: on a well-formed queue \<open>schedule\<close> returns, and
  its new current task, the states of all tasks and the order of the queue are the ones of the
  abstract scheduler; well-formedness is kept, and no other field of any task changes.
\<close>
theorem schedule_refines_round_robin:
  assumes "sched_inv s xs"
  shows "\<exists>s' xs'. schedule s = Some s' \<and> sched_inv s' xs' \<and> same_tasks s s' \<and>
    round_robin (current_task s) (states_of s) xs = (current_task s', states_of s', xs')"
  using schedule_inv [OF assms] by metis

theorem schedule_refines_round_robin_witness:
  "\<exists>s' xs'. schedule demo_sched = Some s' \<and> sched_inv s' xs' \<and> same_tasks demo_sched s' \<and>
    round_robin (current_task demo_sched) (states_of demo_sched) [0, 1, 2] =
      (current_task s', states_of s', xs')"
  using schedule_refines_round_robin [OF demo_sched_inv] .

text \<open>
  C2. No starvation: a READY task of the run queue is dispatched after at most as many calls of
  \<open>schedule\<close> as there are READY tasks in front of it, and one more.
\<close>
theorem schedule_fair:
  assumes "sched_inv s xs" and "t \<in> set xs" and "t_state (tasks s t) = TASK_STATE_READY"
    and "current_task s \<noteq> Some t"
  shows "\<exists>k \<le> Suc (ready_before (states_of s) xs t). \<exists>s'.
           schedules k s = Some s' \<and> current_task s' = Some t"
  using assms by (intro schedules_reach) (simp_all add: sched_inv_def)

theorem schedule_fair_witness:
  "\<exists>k \<le> Suc (ready_before (states_of demo_sched) [0, 1, 2] 2). \<exists>s'.
     schedules k demo_sched = Some s' \<and> current_task s' = Some 2"
  by (rule schedule_fair [OF demo_sched_inv]) (simp_all add: demo_sched_def demo_task_def zero_task_def)

text \<open>
  C3. A child that exits wakes its parent: after \<open>task_set_exit_status\<close> and \<open>task_exit\<close> the child
  is EXITED with that status, the parent can be scheduled, has SIGCHLD pending, and finds the child
  when it looks for it by pid.
\<close>
theorem task_exit_notifies_parent:
  assumes "sched_inv s xs" and "current_task s = Some c" and "0 < c"
    and "parent_pid (tasks s c) = int p" and "p < next_pid s" and "p \<noteq> c"
    and "t_state (tasks s p) \<noteq> TASK_STATE_EXITED"
  shows "\<exists>s' xs'. task_exit (task_set_exit_status st s) = Some s' \<and> sched_inv s' xs' \<and>
    exit_status (tasks s' c) = st \<and>
    t_state (tasks s' p) \<in> {TASK_STATE_READY, TASK_STATE_RUNNING} \<and>
    pending_signals (tasks s' p) = pending_signals (tasks s p) OR sigbit 17 \<and>
    task_find_child_exited_pid (int p) (int c) s' = Some c"
proof -
  define s1 where "s1 = upd_task c (\<lambda>t. t\<lparr>exit_status := st\<rparr>) s"
  have s1: "task_set_exit_status st s = s1"
    using assms(2) by (simp add: task_set_exit_status_def scheduler_get_current_def s1_def)
  have inv1: "sched_inv s1 xs" using assms(1) by (auto simp: s1_def task_wf_def intro!: sched_inv_upd)
  have cn: "c < next_pid s" using assms(1,2) by (simp add: sched_inv_def)
  have "current_task s1 = Some c" "parent_pid (tasks s1 c) = int p" "p < next_pid s1"
      "t_state (tasks s1 p) \<noteq> TASK_STATE_EXITED"
    using assms by (auto simp: s1_def)
  from task_exit_wakes_parent [OF inv1 this(1-3) assms(6) this(4)] obtain s' xs' where
    s': "task_exit s1 = Some s'" "sched_inv s' xs'" "set xs' = set xs"
      "t_state (tasks s' c) = TASK_STATE_EXITED"
      "t_state (tasks s' p) = TASK_STATE_READY \<or> t_state (tasks s' p) = TASK_STATE_RUNNING"
      "pending_signals (tasks s' p) = pending_signals (tasks s1 p) OR sigbit 17"
      "unsched (tasks s' c) = unsched (tasks s1 c)" "next_pid s' = next_pid s1" by metis
  note u = unsched_fields(2,3) [OF s'(7)]
  have "task_find_child_exited_pid (int p) (int c) s' = Some c"
    using s' u assms(3,4) cn find_child_exact [of s' c "int p"] by (simp add: sched_inv_def s1_def)
  moreover have "exit_status (tasks s' c) = st" using u by (simp add: s1_def)
  moreover have "pending_signals (tasks s1 p) = pending_signals (tasks s p)"
    using assms(6) by (simp add: s1_def)
  ultimately show ?thesis using s1 s' by (intro exI [of _ s'] exI [of _ xs']) auto
qed

theorem task_exit_notifies_parent_witness:
  "\<exists>s' xs'. task_exit (task_set_exit_status 7 demo_sched) = Some s' \<and> sched_inv s' xs' \<and>
    exit_status (tasks s' 1) = 7 \<and>
    t_state (tasks s' 0) \<in> {TASK_STATE_READY, TASK_STATE_RUNNING} \<and>
    pending_signals (tasks s' 0) = pending_signals (tasks demo_sched 0) OR sigbit 17 \<and>
    task_find_child_exited_pid (int 0) (int 1) s' = Some 1"
  by (rule task_exit_notifies_parent [OF demo_sched_inv])
    (simp_all add: demo_sched_def demo_task_def zero_task_def init_sched_def)

text \<open>
  C4. A wait reaps a child exactly once: the parent's \<open>waitpid\<close> on an exited child returns its pid
  and its status at once, changes nothing but the child's parent link, and a second wait for the
  same child no longer finds it.
\<close>
theorem task_waitpid_reaps_once:
  assumes "sched_inv s xs" and "current_task s = Some p" and "0 < c" and "c < next_pid s"
    and "parent_pid (tasks s c) = int p" and "t_state (tasks s c) = TASK_STATE_EXITED"
  shows "\<exists>s'. task_waitpid (int c) opts s = Some (Returned (int c, Some (exit_status (tasks s c))), s') \<and>
    sched_inv s' xs \<and> tasks s' c = (tasks s c)\<lparr>parent_pid := -1\<rparr> \<and>
    (\<forall>i. i \<noteq> c \<longrightarrow> tasks s' i = tasks s i) \<and>
    task_waitpid (int c) WNOHANG s' = Some (Returned (0, None), s')"
proof -
  define s' where "s' = upd_task c (\<lambda>t. t\<lparr>parent_pid := -1\<rparr>) s"
  have inv': "sched_inv s' xs" using assms(1) by (auto simp: s'_def task_wf_def intro!: sched_inv_upd)
  have pn: "p < next_pid s" and ti: "task_inv s" "task_inv s'"
    using assms(1,2) inv' by (auto simp: sched_inv_def)
  have pid: "pid (tasks s p) = int p" "pid (tasks s c) = int c"
    using ti(1) pn assms(4) by (simp_all add: task_inv_def)
  have "task_waitpid (int c) opts s = Some (Returned (int c, Some (exit_status (tasks s c))), s')"
    using assms pid find_child_exact [OF ti(1) assms(3,4)]
    by (simp add: task_waitpid_def scheduler_get_current_def s'_def)
  moreover have "task_waitpid (int c) WNOHANG s' = Some (Returned (0, None), s')"
    using assms pid find_child_exact [OF ti(2) assms(3)]
    by (auto simp: task_waitpid_def scheduler_get_current_def s'_def WNOHANG_def)
  ultimately show ?thesis using inv' by (intro exI [of _ s']) (simp add: s'_def)
qed

definition demo_reap :: sched_state where
  \<comment> \<open>task 1 has exited, and its parent 0 runs\<close>
  "demo_reap = demo_sched\<lparr>
     tasks := (\<lambda>_. zero_task)(0 := demo_task 0 TASK_STATE_RUNNING (Some 1),
                               1 := demo_task 1 TASK_STATE_EXITED (Some 2),
                               2 := demo_task 2 TASK_STATE_READY None),
     current_task := Some 0\<rparr>"

lemma demo_reap_inv: "sched_inv demo_reap [0, 1, 2]"
  by (auto simp: sched_inv_def task_inv_def rq_def one_running_def demo_reap_def demo_sched_def
      init_sched_def demo_task_def zero_task_def task_wf_def MAX_TASKS_def less_Suc_eq numeral_eq_Suc)

theorem task_waitpid_reaps_once_witness:
  "\<exists>s'. task_waitpid (int 1) 0 demo_reap = Some (Returned (int 1, Some (exit_status (tasks demo_reap 1))), s') \<and>
    sched_inv s' [0, 1, 2] \<and> tasks s' 1 = (tasks demo_reap 1)\<lparr>parent_pid := -1\<rparr> \<and>
    (\<forall>i. i \<noteq> 1 \<longrightarrow> tasks s' i = tasks demo_reap i) \<and>
    task_waitpid (int 1) WNOHANG s' = Some (Returned (0, None), s')"
  by (rule task_waitpid_reaps_once [OF demo_reap_inv])
    (simp_all add: demo_reap_def demo_sched_def demo_task_def zero_task_def init_sched_def)

end
