(* ===== verification/Pipe.thy ===== *)
theory Pipe
  imports Process Interfaces
begin

text \<open>
  Pipes (\<open>kernel/pipe.c\<close>): the static pool, the ring buffer, and the read, write and close
  operations of the two ends. A \<open>struct pipe *\<close> is its index in \<open>pipe_pool\<close>. A read or a write that
  has to wait ends with a blocked outcome (see the theory of processes); a blocked write says how
  many bytes are left and how many it has written so far.
\<close>

subsection \<open>Data and the pool\<close>

definition PIPE_BUF_SIZE :: nat where "PIPE_BUF_SIZE = 4096"
definition PIPE_MAX_PIPES :: nat where "PIPE_MAX_PIPES = 16"

record pipe =
  p_buf :: "u8 list"
  read_pos :: nat
  write_pos :: nat
  p_bytes :: nat
  read_refs :: int
  write_refs :: int
  reader_pid :: int
  writer_pid :: int

record pipe_state =
  pipe_pool :: "nat \<Rightarrow> pipe"
  pipe_used :: "nat \<Rightarrow> bool"

definition zero_pipe :: pipe where
  "zero_pipe = \<lparr>p_buf = replicate PIPE_BUF_SIZE 0, read_pos = 0, write_pos = 0, p_bytes = 0,
     read_refs = 0, write_refs = 0, reader_pid = 0, writer_pid = 0\<rparr>"

definition fresh_pipe :: pipe where
  "fresh_pipe = zero_pipe\<lparr>read_refs := 1, write_refs := 1, reader_pid := -1, writer_pid := -1\<rparr>"

definition pipe_alloc :: "pipe_state \<Rightarrow> nat option \<times> pipe_state" where
  "pipe_alloc ps =
     (case find (\<lambda>i. \<not> pipe_used ps i) [0..<PIPE_MAX_PIPES] of
        None \<Rightarrow> (None, ps)
      | Some i \<Rightarrow> (Some i, ps\<lparr>pipe_used := (pipe_used ps)(i := True),
                             pipe_pool := (pipe_pool ps)(i := fresh_pipe)\<rparr>))"

definition pipe_free :: "nat \<Rightarrow> pipe_state \<Rightarrow> pipe_state" where
  "pipe_free p ps =
     (case find (\<lambda>i. i = p) [0..<PIPE_MAX_PIPES] of
        None \<Rightarrow> ps
      | Some i \<Rightarrow> ps\<lparr>pipe_used := (pipe_used ps)(i := False)\<rparr>)"

definition upd_pipe :: "nat \<Rightarrow> (pipe \<Rightarrow> pipe) \<Rightarrow> pipe_state \<Rightarrow> pipe_state" where
  "upd_pipe i f ps = ps\<lparr>pipe_pool := (pipe_pool ps)(i := f (pipe_pool ps i))\<rparr>"

subsection \<open>The ring\<close>

definition pipe_put :: "u8 \<Rightarrow> pipe \<Rightarrow> pipe" where
  \<comment> \<open>one round of the write loop\<close>
  "pipe_put b p = p\<lparr>p_buf := (p_buf p)[write_pos p := b],
     write_pos := (write_pos p + 1) mod PIPE_BUF_SIZE, p_bytes := p_bytes p + 1\<rparr>"

definition pipe_get :: "pipe \<Rightarrow> (u8 \<times> pipe) option" where
  \<comment> \<open>one round of the read loop\<close>
  "pipe_get p = (if p_bytes p > 0
     then Some (p_buf p ! read_pos p,
                p\<lparr>read_pos := (read_pos p + 1) mod PIPE_BUF_SIZE, p_bytes := p_bytes p - 1\<rparr>)
     else None)"

fun pipe_drain :: "nat \<Rightarrow> pipe \<Rightarrow> u8 list \<times> pipe" where
  \<comment> \<open>\<open>while (nbyte > 0 && p->bytes > 0)\<close>\<close>
  "pipe_drain 0 p = ([], p)"
| "pipe_drain (Suc n) p =
     (case pipe_get p of
        None \<Rightarrow> ([], p)
      | Some (b, p') \<Rightarrow> (let (bs, q) = pipe_drain n p' in (b # bs, q)))"

fun pipe_fill :: "u8 list \<Rightarrow> pipe \<Rightarrow> u8 list \<times> pipe" where
  \<comment> \<open>\<open>while (nbyte > 0)\<close> up to the point where the ring is full; the bytes left over first\<close>
  "pipe_fill [] p = ([], p)"
| "pipe_fill (b # bs) p =
     (if p_bytes p \<ge> PIPE_BUF_SIZE then (b # bs, p) else pipe_fill bs (pipe_put b p))"

definition wake_writer :: "nat \<Rightarrow> pipe_state \<Rightarrow> sched_state \<Rightarrow> pipe_state \<times> sched_state" where
  "wake_writer i ps s =
     (let w = writer_pid (pipe_pool ps i) in
      if w \<ge> 0 then (upd_pipe i (\<lambda>p. p\<lparr>writer_pid := -1\<rparr>) ps, task_wake w s) else (ps, s))"

definition wake_reader :: "nat \<Rightarrow> pipe_state \<Rightarrow> sched_state \<Rightarrow> pipe_state \<times> sched_state" where
  "wake_reader i ps s =
     (let r = reader_pid (pipe_pool ps i) in
      if r \<ge> 0 then (upd_pipe i (\<lambda>p. p\<lparr>reader_pid := -1\<rparr>) ps, task_wake r s) else (ps, s))"

subsection \<open>Read and write\<close>

definition pipe_read_op ::
    "nat option \<Rightarrow> nat \<Rightarrow> pipe_state \<Rightarrow> sched_state \<Rightarrow>
     ((int \<times> u8 list) outcome \<times> pipe_state \<times> sched_state) option" where
  \<comment> \<open>the return value, and the bytes stored to the caller's buffer\<close>
  "pipe_read_op pd nbyte ps s =
     (case pd of
        None \<Rightarrow> Some (Returned (-1, []), ps, s)
      | Some i \<Rightarrow>
          if p_bytes (pipe_pool ps i) = 0 then
            (if write_refs (pipe_pool ps i) = 0 then Some (Returned (0, []), ps, s)
             else do {
               c \<leftarrow> scheduler_get_current s;
               s' \<leftarrow> task_block s;
               Some (Blocked, upd_pipe i (\<lambda>p. p\<lparr>reader_pid := pid (tasks s c)\<rparr>) ps, s')
             })
          else
            (let (bs, p') = pipe_drain nbyte (pipe_pool ps i);
                 (ps', s') = wake_writer i (upd_pipe i (\<lambda>_. p') ps) s
             in Some (Returned (int (length bs), bs), ps', s')))"

datatype write_outcome =
    Wrote int
  | Write_Blocked "u8 list" int

definition pipe_write_op ::
    "nat option \<Rightarrow> u8 list \<Rightarrow> int \<Rightarrow> pipe_state \<Rightarrow> sched_state \<Rightarrow>
     (write_outcome \<times> pipe_state \<times> sched_state) option" where
  \<comment> \<open>\<open>written\<close> (\<open>total\<close> in the code) is 0 for a new call, and what a blocked write left off with when it goes on\<close>
  "pipe_write_op pd src written ps s =
     (case pd of
        None \<Rightarrow> Some (Wrote (-1), ps, s)
      | Some i \<Rightarrow>
         (let (rest, p') = pipe_fill src (pipe_pool ps i);
              ps1 = upd_pipe i (\<lambda>_. p') ps;
              written' = written + int (length src - length rest)
          in if rest \<noteq> [] then
               (if read_refs p' = 0 then Some (Wrote (-1), ps1, s)
                else do {
                  c \<leftarrow> scheduler_get_current s;
                  s' \<leftarrow> task_block s;
                  Some (Write_Blocked rest written',
                        upd_pipe i (\<lambda>p. p\<lparr>writer_pid := pid (tasks s c)\<rparr>) ps1, s')
                })
             else (let (ps2, s') = wake_reader i ps1 s in Some (Wrote written', ps2, s'))))"

definition pipe_close_read :: "nat option \<Rightarrow> pipe_state \<Rightarrow> sched_state \<Rightarrow> int \<times> pipe_state \<times> sched_state" where
  "pipe_close_read pd ps s =
     (case pd of
        None \<Rightarrow> (-1, ps, s)
      | Some i \<Rightarrow>
         (let ps1 = upd_pipe i (\<lambda>p. p\<lparr>read_refs := read_refs p - 1\<rparr>) ps in
          if read_refs (pipe_pool ps1 i) = 0 then
            (let (ps2, s') = wake_writer i ps1 s in
             (0, if write_refs (pipe_pool ps2 i) = 0 then pipe_free i ps2 else ps2, s'))
          else (0, ps1, s)))"

definition pipe_close_write :: "nat option \<Rightarrow> pipe_state \<Rightarrow> sched_state \<Rightarrow> int \<times> pipe_state \<times> sched_state" where
  "pipe_close_write pd ps s =
     (case pd of
        None \<Rightarrow> (-1, ps, s)
      | Some i \<Rightarrow>
         (let ps1 = upd_pipe i (\<lambda>p. p\<lparr>write_refs := write_refs p - 1\<rparr>) ps in
          if write_refs (pipe_pool ps1 i) = 0 then
            (let (ps2, s') = wake_reader i ps1 s in
             (0, if read_refs (pipe_pool ps2 i) = 0 then pipe_free i ps2 else ps2, s'))
          else (0, ps1, s)))"

subsection \<open>The ring is a queue\<close>

definition pipe_contents :: "pipe \<Rightarrow> u8 list" where
  "pipe_contents p = map (\<lambda>i. p_buf p ! ((read_pos p + i) mod PIPE_BUF_SIZE)) [0..<p_bytes p]"

definition pipe_inv :: "pipe \<Rightarrow> bool" where
  "pipe_inv p \<longleftrightarrow> length (p_buf p) = PIPE_BUF_SIZE \<and> read_pos p < PIPE_BUF_SIZE \<and>
     p_bytes p \<le> PIPE_BUF_SIZE \<and> write_pos p = (read_pos p + p_bytes p) mod PIPE_BUF_SIZE"

lemma length_pipe_contents [simp]: "length (pipe_contents p) = p_bytes p"
  by (simp add: pipe_contents_def)

lemma pipe_put_contents:
  assumes "pipe_inv p" and "p_bytes p < PIPE_BUF_SIZE"
  shows "pipe_contents (pipe_put b p) = pipe_contents p @ [b]" and "pipe_inv (pipe_put b p)"
proof -
  let ?N = "PIPE_BUF_SIZE"
  have N: "0 < ?N" by (simp add: PIPE_BUF_SIZE_def)
  have w: "write_pos p = (read_pos p + p_bytes p) mod ?N" and len: "length (p_buf p) = ?N"
    using assms by (simp_all add: pipe_inv_def)
  have wlt: "write_pos p < ?N" using w N by simp
  have "(p_buf p)[write_pos p := b] ! ((read_pos p + i) mod ?N) = p_buf p ! ((read_pos p + i) mod ?N)"
    if "i < p_bytes p" for i
    using ring_index_neq [OF that assms(2), of "read_pos p"] w by simp
  then show "pipe_contents (pipe_put b p) = pipe_contents p @ [b]"
    using w wlt len by (simp add: pipe_contents_def pipe_put_def)
  show "pipe_inv (pipe_put b p)"
    using assms w by (simp add: pipe_inv_def pipe_put_def mod_Suc_eq)
qed

lemma pipe_get_contents:
  assumes "pipe_inv p" and "pipe_get p = Some (b, p')"
  shows "pipe_contents p = b # pipe_contents p'" and "pipe_inv p'"
proof -
  let ?N = "PIPE_BUF_SIZE"
  have pos: "p_bytes p > 0" and b: "b = p_buf p ! read_pos p"
    and p': "p' = p\<lparr>read_pos := (read_pos p + 1) mod ?N, p_bytes := p_bytes p - 1\<rparr>"
    using assms(2) by (auto simp: pipe_get_def split: if_splits)
  have "[0..<p_bytes p] = 0 # map Suc [0..<p_bytes p - 1]"
    using pos by (simp add: upt_conv_Cons map_Suc_upt)
  moreover have "((read_pos p + 1) mod ?N + i) mod ?N = (read_pos p + Suc i) mod ?N" for i
    by (simp add: mod_add_left_eq)
  ultimately show "pipe_contents p = b # pipe_contents p'"
    using assms(1) b by (simp add: pipe_contents_def p' pipe_inv_def)
  have "((read_pos p + 1) mod ?N + (p_bytes p - 1)) mod ?N = (read_pos p + p_bytes p) mod ?N"
    using pos mod_add_left_eq [of "read_pos p + 1" ?N "p_bytes p - 1"]
    by (simp only: mod_add_left_eq) simp
  then show "pipe_inv p'"
    using assms(1) by (auto simp: pipe_inv_def p' PIPE_BUF_SIZE_def)
qed

interpretation ring: fifo pipe_contents PIPE_BUF_SIZE pipe_put pipe_get pipe_inv
proof unfold_locales
  show "pipe_inv q \<Longrightarrow> (pipe_get q = None) = (pipe_contents q = [])" for q
    by (simp add: pipe_get_def pipe_contents_def)
qed (simp_all add: pipe_put_contents pipe_get_contents)

interpretation pool: slot_pool pipe_used PIPE_MAX_PIPES pipe_alloc pipe_free "\<lambda>_. True"
proof unfold_locales
  fix ps :: pipe_state and i j
  show "fst (pipe_alloc ps) = find (\<lambda>i. \<not> pipe_used ps i) [0..<PIPE_MAX_PIPES]"
    by (simp add: pipe_alloc_def split: option.split)
  show "pipe_used (snd (pipe_alloc ps)) j = (pipe_used ps j \<or> fst (pipe_alloc ps) = Some j)"
    by (auto simp: pipe_alloc_def split: option.split)
  assume "i < PIPE_MAX_PIPES"
  then have "find (\<lambda>k. k = i) [0..<PIPE_MAX_PIPES] = Some i" by (simp add: find_upt_Some_iff)
  then show "pipe_used (pipe_free i ps) j = (pipe_used ps j \<and> j \<noteq> i)"
    by (simp add: pipe_free_def)
qed simp_all

lemma pipe_drain_pop_upto: "pipe_drain n p = ring.pop_upto n p"
  by (induction n arbitrary: p) (simp_all split: option.split)

lemma pipe_drain_spec:
  assumes "pipe_inv p"
  shows "fst (pipe_drain n p) = take n (pipe_contents p)"
    and "pipe_contents (snd (pipe_drain n p)) = drop n (pipe_contents p)"
    and "pipe_inv (snd (pipe_drain n p))"
  using ring.pop_upto_take [OF assms, of n] by (simp_all add: pipe_drain_pop_upto)

lemma pipe_fill_spec:
  assumes "pipe_inv p"
  shows "fst (pipe_fill bs p) = drop (PIPE_BUF_SIZE - p_bytes p) bs \<and>
    pipe_contents (snd (pipe_fill bs p)) = pipe_contents p @ take (PIPE_BUF_SIZE - p_bytes p) bs \<and>
    pipe_inv (snd (pipe_fill bs p))"
  using assms
proof (induction bs p rule: pipe_fill.induct)
  case (1 p)
  then show ?case by simp
next
  case (2 b bs p)
  show ?case
  proof (cases "p_bytes p \<ge> PIPE_BUF_SIZE")
    case True
    then show ?thesis using 2 by simp
  next
    case False
    then have room: "p_bytes p < PIPE_BUF_SIZE" by simp
    then obtain k where k: "PIPE_BUF_SIZE - p_bytes p = Suc k"
      by (metis Suc_diff_Suc)
    have "PIPE_BUF_SIZE - p_bytes (pipe_put b p) = k" using k by (simp add: pipe_put_def)
    then show ?thesis
      using 2 False k pipe_put_contents [OF "2.prems" room] by simp
  qed
qed

lemma pipe_fill_frame:
  "read_refs (snd (pipe_fill bs p)) = read_refs p \<and> write_refs (snd (pipe_fill bs p)) = write_refs p \<and>
   reader_pid (snd (pipe_fill bs p)) = reader_pid p \<and> writer_pid (snd (pipe_fill bs p)) = writer_pid p"
  by (induction bs p rule: pipe_fill.induct) (auto simp: pipe_put_def)

lemma pipe_drain_frame:
  "read_refs (snd (pipe_drain n p)) = read_refs p \<and> write_refs (snd (pipe_drain n p)) = write_refs p \<and>
   reader_pid (snd (pipe_drain n p)) = reader_pid p \<and> writer_pid (snd (pipe_drain n p)) = writer_pid p"
  by (induction n p rule: pipe_drain.induct)
    (auto simp: pipe_get_def split: option.splits prod.splits if_splits)

lemma pipe_contents_cong [simp]:
  "pipe_contents (p\<lparr>reader_pid := x\<rparr>) = pipe_contents p"
  "pipe_contents (p\<lparr>writer_pid := x\<rparr>) = pipe_contents p"
  "pipe_contents (p\<lparr>read_refs := x\<rparr>) = pipe_contents p"
  "pipe_contents (p\<lparr>write_refs := x\<rparr>) = pipe_contents p"
  "pipe_inv (p\<lparr>reader_pid := x\<rparr>) = pipe_inv p"
  "pipe_inv (p\<lparr>writer_pid := x\<rparr>) = pipe_inv p"
  "pipe_inv (p\<lparr>read_refs := x\<rparr>) = pipe_inv p"
  "pipe_inv (p\<lparr>write_refs := x\<rparr>) = pipe_inv p"
  by (simp_all add: pipe_contents_def pipe_inv_def)

lemma upd_pipe_simps [simp]:
  "pipe_pool (upd_pipe i f ps) j = (if j = i then f (pipe_pool ps i) else pipe_pool ps j)"
  "pipe_used (upd_pipe i f ps) = pipe_used ps"
  by (simp_all add: upd_pipe_def)

lemma fresh_pipe_inv: "pipe_inv fresh_pipe" "pipe_contents fresh_pipe = []"
  by (simp_all add: pipe_inv_def pipe_contents_def fresh_pipe_def zero_pipe_def PIPE_BUF_SIZE_def)

subsection \<open>What the operations do\<close>

lemma pipe_write_fits:
  assumes "pipe_inv (pipe_pool ps i)" and "p_bytes (pipe_pool ps i) + length src \<le> PIPE_BUF_SIZE"
  shows "\<exists>ps'. pipe_write_op (Some i) src w ps s =
      Some (Wrote (w + int (length src)), ps',
            if reader_pid (pipe_pool ps i) \<ge> 0 then task_wake (reader_pid (pipe_pool ps i)) s else s) \<and>
    pipe_contents (pipe_pool ps' i) = pipe_contents (pipe_pool ps i) @ src \<and>
    pipe_inv (pipe_pool ps' i) \<and> reader_pid (pipe_pool ps' i) < 0"
proof -
  obtain rest p' where f: "pipe_fill src (pipe_pool ps i) = (rest, p')" by fastforce
  then have "rest = []" "pipe_contents p' = pipe_contents (pipe_pool ps i) @ src" "pipe_inv p'"
    using pipe_fill_spec [OF assms(1), of src] assms(2) by auto
  moreover have "reader_pid p' = reader_pid (pipe_pool ps i)"
    using pipe_fill_frame [of src "pipe_pool ps i"] f by simp
  ultimately show ?thesis
    by (auto simp: pipe_write_op_def f wake_reader_def Let_def)
qed

lemma pipe_read_some:
  assumes "pipe_inv (pipe_pool ps i)" and "p_bytes (pipe_pool ps i) > 0"
  shows "\<exists>ps'. pipe_read_op (Some i) n ps s =
      Some (Returned (int (min n (p_bytes (pipe_pool ps i))), take n (pipe_contents (pipe_pool ps i))), ps',
            if writer_pid (pipe_pool ps i) \<ge> 0 then task_wake (writer_pid (pipe_pool ps i)) s else s) \<and>
    pipe_contents (pipe_pool ps' i) = drop n (pipe_contents (pipe_pool ps i)) \<and>
    pipe_inv (pipe_pool ps' i) \<and> writer_pid (pipe_pool ps' i) < 0"
proof -
  obtain bs p' where d: "pipe_drain n (pipe_pool ps i) = (bs, p')" by fastforce
  then have "bs = take n (pipe_contents (pipe_pool ps i))"
      "pipe_contents p' = drop n (pipe_contents (pipe_pool ps i))" "pipe_inv p'"
    using pipe_drain_spec [OF assms(1), of n] by auto
  moreover have "writer_pid p' = writer_pid (pipe_pool ps i)"
    using pipe_drain_frame [of n "pipe_pool ps i"] d by simp
  ultimately show ?thesis
    using assms(2) by (auto simp: pipe_read_op_def d wake_writer_def Let_def min.commute)
qed

inductive pipe_run :: "nat \<Rightarrow> pipe_state \<Rightarrow> u8 list \<Rightarrow> u8 list \<Rightarrow> bool" for i where
  \<comment> \<open>\<open>pipe_run i ps sent rcvd\<close>: since the allocation of pipe \<open>i\<close>, any calls by any tasks led to
      \<open>ps\<close>; the ring took the bytes \<open>sent\<close> and readers were given the bytes \<open>rcvd\<close>\<close>
  alloc: "pipe_alloc ps0 = (Some i, ps) \<Longrightarrow> pipe_run i ps [] []"
| read: "pipe_run i ps sent rcvd \<Longrightarrow> pipe_read_op (Some i) n ps s = Some (Returned (r, bs), ps', s') \<Longrightarrow>
    pipe_run i ps' sent (rcvd @ bs)"
| read_block: "pipe_run i ps sent rcvd \<Longrightarrow> pipe_read_op (Some i) n ps s = Some (Blocked, ps', s') \<Longrightarrow>
    pipe_run i ps' sent rcvd"
| put: "pipe_run i ps sent rcvd \<Longrightarrow> pipe_write_op (Some i) src w ps s = Some (r, ps', s') \<Longrightarrow>
    pipe_run i ps' (sent @ take (PIPE_BUF_SIZE - p_bytes (pipe_pool ps i)) src) rcvd"
| close_read: "pipe_run i ps sent rcvd \<Longrightarrow> pipe_close_read (Some i) ps s = (r, ps', s') \<Longrightarrow>
    pipe_run i ps' sent rcvd"
| close_write: "pipe_run i ps sent rcvd \<Longrightarrow> pipe_close_write (Some i) ps s = (r, ps', s') \<Longrightarrow>
    pipe_run i ps' sent rcvd"
| other: "pipe_run i ps sent rcvd \<Longrightarrow> pipe_pool ps' i = pipe_pool ps i \<Longrightarrow> pipe_run i ps' sent rcvd"

abbreviation same_ring :: "pipe \<Rightarrow> pipe \<Rightarrow> bool" where
  "same_ring p p' \<equiv> pipe_contents p' = pipe_contents p \<and> pipe_inv p' = pipe_inv p"

lemma wake_ring:
  "same_ring (pipe_pool ps i) (pipe_pool (fst (wake_reader i ps s)) i)"
  "same_ring (pipe_pool ps i) (pipe_pool (fst (wake_writer i ps s)) i)"
  by (simp_all add: wake_reader_def wake_writer_def Let_def)

lemma free_ring: "pipe_pool (pipe_free j ps) i = pipe_pool ps i"
  by (simp add: pipe_free_def split: option.split)

lemma close_ring:
  "pipe_close_read (Some i) ps s = (r, ps', s') \<Longrightarrow> same_ring (pipe_pool ps i) (pipe_pool ps' i)"
  "pipe_close_write (Some i) ps s = (r, ps', s') \<Longrightarrow> same_ring (pipe_pool ps i) (pipe_pool ps' i)"
  by (auto simp: pipe_close_read_def pipe_close_write_def wake_reader_def wake_writer_def Let_def
      free_ring split: if_splits)

lemma read_ring:
  assumes "pipe_inv (pipe_pool ps i)" and "pipe_read_op (Some i) n ps s = Some (r, ps', s')"
  shows "pipe_inv (pipe_pool ps' i) \<and> pipe_contents (pipe_pool ps i) =
    (case r of Returned (k, bs) \<Rightarrow> bs | Blocked \<Rightarrow> []) @ pipe_contents (pipe_pool ps' i)"
proof (cases "p_bytes (pipe_pool ps i) = 0")
  case True
  then show ?thesis
    using assms by (auto simp: pipe_read_op_def bind_eq_Some_conv split: if_splits)
next
  case False
  then show ?thesis using pipe_read_some [OF assms(1), of n s] assms(2) by auto
qed

lemma write_ring:
  assumes "pipe_inv (pipe_pool ps i)" and "pipe_write_op (Some i) src w ps s = Some (r, ps', s')"
  shows "pipe_inv (pipe_pool ps' i) \<and> pipe_contents (pipe_pool ps' i) =
    pipe_contents (pipe_pool ps i) @ take (PIPE_BUF_SIZE - p_bytes (pipe_pool ps i)) src"
proof -
  obtain rest p' where f: "pipe_fill src (pipe_pool ps i) = (rest, p')" by fastforce
  have "same_ring p' (pipe_pool ps' i)"
    using assms(2)
    by (auto simp: pipe_write_op_def f wake_reader_def Let_def bind_eq_Some_conv split: if_splits)
  then show ?thesis using pipe_fill_spec [OF assms(1), of src] f by simp
qed

lemma pipe_run_inv:
  "pipe_run i ps sent rcvd \<Longrightarrow>
   pipe_inv (pipe_pool ps i) \<and> sent = rcvd @ pipe_contents (pipe_pool ps i)"
proof (induction rule: pipe_run.induct)
  case (alloc ps0 ps)
  then have "pipe_pool ps i = fresh_pipe" by (auto simp: pipe_alloc_def split: option.splits)
  then show ?case using fresh_pipe_inv by simp
next
  case (read ps sent rcvd n s r bs ps' s')
  then show ?case using read_ring [OF _ read.hyps(2)] by auto
next
  case (read_block ps sent rcvd n s ps' s')
  then show ?case using read_ring [OF _ read_block.hyps(2)] by auto
next
  case (put ps sent rcvd src w s r ps' s')
  then show ?case using write_ring [OF _ put.hyps(2)] by auto
next
  case (close_read ps sent rcvd s r ps' s')
  then show ?case using close_ring(1) [OF close_read.hyps(2)] by auto
next
  case (close_write ps sent rcvd s r ps' s')
  then show ?case using close_ring(2) [OF close_write.hyps(2)] by auto
qed simp

subsection \<open>Properties\<close>

definition init_pipes :: pipe_state where
  "init_pipes = \<lparr>pipe_pool = (\<lambda>_. zero_pipe), pipe_used = (\<lambda>_. False)\<rparr>"

lemma pipe_alloc_init:
  "pipe_alloc init_pipes = (Some 0, init_pipes\<lparr>pipe_used := (\<lambda>_. False)(0 := True),
     pipe_pool := (\<lambda>_. zero_pipe)(0 := fresh_pipe)\<rparr>)"
proof -
  have "find (\<lambda>i. \<not> pipe_used init_pipes i) [0..<PIPE_MAX_PIPES] = Some 0"
    by (simp add: find_upt_Some_iff init_pipes_def PIPE_MAX_PIPES_def)
  then show ?thesis by (simp add: pipe_alloc_def init_pipes_def)
qed

text \<open>
  C9. A pipe is a first-in first-out stream. Whatever reads, writes and closes any tasks issue on
  it, in whatever order and interrupted by whatever else, the bytes handed to readers followed by
  the bytes still in the ring are the bytes that writers put in, in order; none is lost, repeated
  or reordered, and the ring never holds more than 4096.
\<close>
theorem pipe_is_fifo:
  assumes "pipe_run i ps sent rcvd"
  shows "sent = rcvd @ pipe_contents (pipe_pool ps i) \<and>
    length (pipe_contents (pipe_pool ps i)) \<le> PIPE_BUF_SIZE"
  using pipe_run_inv [OF assms] by (simp add: pipe_inv_def)

theorem pipe_is_fifo_witness:
  "\<exists>ps. pipe_run 0 ps [1, 2, 3] [1, 2] \<and> [1, 2, 3] = [1, 2] @ pipe_contents (pipe_pool ps 0) \<and>
    length (pipe_contents (pipe_pool ps 0)) \<le> PIPE_BUF_SIZE"
proof -
  obtain ps0 where a: "pipe_alloc init_pipes = (Some 0, ps0)" "pipe_pool ps0 0 = fresh_pipe"
    using pipe_alloc_init by simp
  have b0: "p_bytes fresh_pipe = 0" by (simp add: fresh_pipe_def zero_pipe_def)
  obtain ps1 s1 where w: "pipe_write_op (Some 0) [1, 2, 3] 0 ps0 demo_sched = Some (Wrote 3, ps1, s1)"
      "pipe_contents (pipe_pool ps1 0) = [1, 2, 3]" "pipe_inv (pipe_pool ps1 0)"
    using pipe_write_fits [of ps0 0 "[1, 2, 3]" 0 demo_sched] a(2) fresh_pipe_inv b0
    by (auto simp: PIPE_BUF_SIZE_def)
  have b1: "p_bytes (pipe_pool ps1 0) = 3" using w(2) length_pipe_contents [of "pipe_pool ps1 0"] by simp
  obtain ps2 s2 where r: "pipe_read_op (Some 0) 2 ps1 s1 = Some (Returned (2, [1, 2]), ps2, s2)"
    using pipe_read_some [of ps1 0 2 s1] w b1 by auto
  have "pipe_run 0 ps1 ([] @ take (PIPE_BUF_SIZE - p_bytes (pipe_pool ps0 0)) [1, 2, 3]) []"
    using pipe_run.alloc [OF a(1)] w(1) by (rule pipe_run.put)
  then have "pipe_run 0 ps1 [1, 2, 3] []" using a(2) b0 by (simp add: PIPE_BUF_SIZE_def)
  then have "pipe_run 0 ps2 [1, 2, 3] ([] @ [1, 2])" using r by (rule pipe_run.read)
  then have run: "pipe_run 0 ps2 [1, 2, 3] [1, 2]" by simp
  show ?thesis using run pipe_is_fifo [OF run] by blast
qed

text \<open>
  C10. A write that fits and a read of a non-empty pipe. The write reports all its bytes, appends
  them to the stream and wakes the task registered as waiting reader; the read returns the first
  \<open>min n bytes\<close> bytes of the stream, removes them and wakes the registered writer.
\<close>
theorem pipe_write_read_effect:
  assumes "pipe_inv (pipe_pool ps i)"
  shows "(p_bytes (pipe_pool ps i) + length src \<le> PIPE_BUF_SIZE \<longrightarrow>
      (\<exists>ps'. pipe_write_op (Some i) src 0 ps s =
        Some (Wrote (int (length src)), ps',
              if reader_pid (pipe_pool ps i) \<ge> 0 then task_wake (reader_pid (pipe_pool ps i)) s else s) \<and>
        pipe_contents (pipe_pool ps' i) = pipe_contents (pipe_pool ps i) @ src)) \<and>
    (p_bytes (pipe_pool ps i) > 0 \<longrightarrow>
      (\<exists>ps'. pipe_read_op (Some i) n ps s =
        Some (Returned (int (min n (p_bytes (pipe_pool ps i))), take n (pipe_contents (pipe_pool ps i))), ps',
              if writer_pid (pipe_pool ps i) \<ge> 0 then task_wake (writer_pid (pipe_pool ps i)) s else s) \<and>
        pipe_contents (pipe_pool ps' i) = drop n (pipe_contents (pipe_pool ps i))))"
  using pipe_write_fits [OF assms, of src 0 s] pipe_read_some [OF assms, of n s] by auto

theorem pipe_write_read_effect_witness:
  "\<exists>ps ps1. pipe_pool ps 0 = fresh_pipe \<and> pipe_contents (pipe_pool ps1 0) = [7, 8] \<and>
    (\<exists>ps'. pipe_write_op (Some 0) [7, 8] 0 ps demo_sched = Some (Wrote 2, ps', demo_sched) \<and>
       pipe_contents (pipe_pool ps' 0) = [7, 8]) \<and>
    (\<exists>ps'. pipe_read_op (Some 0) 1 ps1 demo_sched = Some (Returned (1, [7]), ps', demo_sched) \<and>
       pipe_contents (pipe_pool ps' 0) = [8])"
proof -
  define ps where "ps = init_pipes\<lparr>pipe_pool := (\<lambda>_. fresh_pipe)\<rparr>"
  define ps1 where "ps1 = init_pipes\<lparr>pipe_pool := (\<lambda>_. snd (pipe_fill [7, 8] fresh_pipe))\<rparr>"
  have f: "p_bytes fresh_pipe = 0" "reader_pid fresh_pipe = -1" "writer_pid fresh_pipe = -1"
    by (simp_all add: fresh_pipe_def zero_pipe_def)
  have ps: "pipe_pool ps 0 = fresh_pipe" "pipe_inv (pipe_pool ps 0)" using fresh_pipe_inv by (simp_all add: ps_def)
  have ps1: "pipe_inv (pipe_pool ps1 0)" "pipe_contents (pipe_pool ps1 0) = [7, 8]" "writer_pid (pipe_pool ps1 0) = -1"
    using pipe_fill_spec [OF fresh_pipe_inv(1), of "[7, 8]"] pipe_fill_frame [of "[7, 8]" fresh_pipe] f fresh_pipe_inv(2)
    by (simp_all add: ps1_def PIPE_BUF_SIZE_def)
  have "p_bytes (pipe_pool ps1 0) = 2" using length_pipe_contents [of "pipe_pool ps1 0"] ps1(2) by simp
  then have "\<exists>ps'. pipe_read_op (Some 0) 1 ps1 demo_sched = Some (Returned (1, [7]), ps', demo_sched) \<and>
       pipe_contents (pipe_pool ps' 0) = [8]"
    using pipe_write_read_effect [OF ps1(1), of "[]" demo_sched 1] ps1(2,3) by auto
  moreover have "\<exists>ps'. pipe_write_op (Some 0) [7, 8] 0 ps demo_sched = Some (Wrote 2, ps', demo_sched) \<and>
       pipe_contents (pipe_pool ps' 0) = [7, 8]"
    using pipe_write_read_effect [OF ps(2), of "[7, 8]" demo_sched 0] ps f fresh_pipe_inv(2) by (auto simp: PIPE_BUF_SIZE_def)
  ultimately show ?thesis using ps(1) ps1(2) by blast
qed

text \<open>
  C11. A write of more than 4096 bytes can deadlock. If a reader sleeps on the empty pipe, the
  writer fills the ring, and goes to sleep as well without waking the reader, which the code only
  does at the end of the whole write: both tasks are blocked, with a full ring between them.
\<close>
theorem pipe_large_write_deadlocks:
  assumes "sched_inv s xs" and "current_task s = Some w"
    and "t_state (tasks s r) = TASK_STATE_BLOCKED"
    and "pipe_inv (pipe_pool ps i)" and "p_bytes (pipe_pool ps i) = 0"
    and "reader_pid (pipe_pool ps i) = int r" and "read_refs (pipe_pool ps i) \<noteq> 0"
    and "length src > PIPE_BUF_SIZE"
  shows "\<exists>rest ps' s'. pipe_write_op (Some i) src 0 ps s = Some (Write_Blocked rest 4096, ps', s') \<and>
    t_state (tasks s' r) = TASK_STATE_BLOCKED \<and> t_state (tasks s' w) = TASK_STATE_BLOCKED \<and>
    p_bytes (pipe_pool ps' i) = PIPE_BUF_SIZE"
proof -
  obtain rest p' where f: "pipe_fill src (pipe_pool ps i) = (rest, p')" by fastforce
  note spec = pipe_fill_spec [OF assms(4), of src] pipe_fill_frame [of src "pipe_pool ps i"]
  have rest: "rest = drop PIPE_BUF_SIZE src" and c: "pipe_contents p' = take PIPE_BUF_SIZE src"
    using spec(1) f assms(5) by (auto simp: pipe_contents_def)
  have full: "p_bytes p' = PIPE_BUF_SIZE" using c assms(8) length_pipe_contents [of p'] by simp
  have refs: "read_refs p' \<noteq> 0" using spec(2) f assms(7) by simp
  obtain s' where s': "task_block s = Some s'" "t_state (tasks s' w) = TASK_STATE_BLOCKED"
      "t_state (tasks s' r) = TASK_STATE_BLOCKED"
    using task_block_inv [OF assms(1,2)] assms(3) by blast
  show ?thesis
    using s' full refs assms(2,8) rest
    by (simp add: pipe_write_op_def f Let_def scheduler_get_current_def PIPE_BUF_SIZE_def)
qed

theorem pipe_large_write_deadlocks_witness:
  "\<exists>rest ps' s'. pipe_write_op (Some 0) (replicate 5000 65) 0
      (init_pipes\<lparr>pipe_pool := (\<lambda>_. fresh_pipe\<lparr>reader_pid := int 0\<rparr>)\<rparr>) demo_sched =
      Some (Write_Blocked rest 4096, ps', s') \<and>
    t_state (tasks s' 0) = TASK_STATE_BLOCKED \<and> t_state (tasks s' 1) = TASK_STATE_BLOCKED \<and>
    p_bytes (pipe_pool ps' 0) = PIPE_BUF_SIZE"
  by (rule pipe_large_write_deadlocks [OF demo_sched_inv])
    (simp_all add: demo_sched_def demo_task_def fresh_pipe_def zero_pipe_def init_pipes_def
      PIPE_BUF_SIZE_def pipe_inv_def)

end
