(* ===== verification/Paging.thy ===== *)
theory Paging
  imports Memory Interfaces
begin

text \<open>
  Physical frames and two-level page tables (\<open>arch/i386/mm.c\<close>). Page directories and tables are
  words of the identity-mapped memory; the frame allocator is the bitmap of the first 16 MB. A
  failed allocation is the null pointer, 0, as in the code. TLB invalidation has no effect on the
  memory and is left out.
\<close>

subsection \<open>State\<close>

definition FRAME :: u32 where "FRAME = 0x1000"
definition DIR_SIZE :: nat where "DIR_SIZE = 1024"
definition NUM_PT :: nat where "NUM_PT = 4"
definition IDENT_PAGES :: nat where "IDENT_PAGES = NUM_PT * DIR_SIZE"
definition MM_PRESENT :: u32 where "MM_PRESENT = 1"
definition MM_RW :: u32 where "MM_RW = 2"
definition MM_USER :: u32 where "MM_USER = 4"
definition PAGE_FLAGS :: u32 where "PAGE_FLAGS = MM_PRESENT OR MM_RW OR MM_USER"

record mm_state =
  kmem :: mem
  frame_bitmap :: "u32 list"

abbreviation page_of :: "u32 \<Rightarrow> u32" where
  "page_of w \<equiv> w AND NOT 0xFFF"

abbreviation entry :: "mem \<Rightarrow> u32 \<Rightarrow> nat \<Rightarrow> u32" where
  \<comment> \<open>\<open>table[i]\<close> of an array of 32-bit words\<close>
  "entry m table i \<equiv> read32 m (table + 4 * of_nat i)"

abbreviation set_entry :: "u32 \<Rightarrow> nat \<Rightarrow> u32 \<Rightarrow> mem \<Rightarrow> mem" where
  "set_entry table i v m \<equiv> write32 (table + 4 * of_nat i) v m"

subsection \<open>The identity mapping\<close>

definition setup_identity_paging :: "u32 \<Rightarrow> u32 \<Rightarrow> mm_state \<Rightarrow> mm_state" where
  \<comment> \<open>\<open>kpd\<close> and \<open>kpt\<close> are the addresses of \<open>kernel_pdir\<close> and \<open>kernel_pt\<close>\<close>
  "setup_identity_paging kpd kpt mm =
     mm\<lparr>kmem := fold (\<lambda>j m.
        let table = kpt + of_nat j * 4096;
            m1 = set_entry kpd j (table OR PAGE_FLAGS) m
        in fold (\<lambda>i m. set_entry table i ((of_nat (j * DIR_SIZE + i) * FRAME) OR PAGE_FLAGS) m)
             [0..<DIR_SIZE] m1)
      [0..<NUM_PT] (kmem mm)\<rparr>"

subsection \<open>The frame bitmap\<close>

definition bitmap_set :: "nat \<Rightarrow> u32 list \<Rightarrow> u32 list" where
  "bitmap_set frame bm = bm[frame div 32 := bm ! (frame div 32) OR push_bit (frame mod 32) 1]"

definition bitmap_clear :: "nat \<Rightarrow> u32 list \<Rightarrow> u32 list" where
  "bitmap_clear frame bm = bm[frame div 32 := bm ! (frame div 32) AND NOT (push_bit (frame mod 32) 1)]"

definition bitmap_test :: "nat \<Rightarrow> u32 list \<Rightarrow> bool" where
  "bitmap_test frame bm \<longleftrightarrow> drop_bit (frame mod 32) (bm ! (frame div 32)) AND 1 \<noteq> 0"

definition read64 :: "mem \<Rightarrow> u32 \<Rightarrow> 64 word" where
  "read64 m a = ucast (read32 m a) OR push_bit 32 (ucast (read32 m (a + 4)))"

partial_function (option) mmap_walk :: "mem \<Rightarrow> u32 \<Rightarrow> u32 \<Rightarrow> u32 list \<Rightarrow> u32 list option" where
  \<comment> \<open>the loop over the multiboot memory map, from \<open>addr\<close> to \<open>stop\<close>\<close>
  [code]: "mmap_walk m addr stop bm =
     (if \<not> addr < stop then Some bm
      else
        (let size = read32 m addr;
             e_addr = read64 m (addr + 4);
             e_len = read64 m (addr + 12);
             e_type = read32 m (addr + 20);
             start = unat (ucast (e_addr div 0x1000) :: u32);
             end0 = unat (ucast ((e_addr + e_len) div 0x1000) :: u32);
             end1 = (if end0 > IDENT_PAGES then IDENT_PAGES else end0);
             bm' = (if e_type = 1 then fold bitmap_clear [start..<end1] bm else bm)
         in mmap_walk m (addr + (size + 4)) stop bm'))"

definition frame_bitmap_init :: "u32 \<Rightarrow> u32 \<Rightarrow> u32 \<Rightarrow> mm_state \<Rightarrow> mm_state option" where
  \<comment> \<open>\<open>kernel_end\<close> is the address of the linker symbol; a kernel beyond 16 MB would be set past the
      end of the bitmap\<close>
  "frame_bitmap_init kernel_end mmap_addr len mm = do {
     bm \<leftarrow> mmap_walk (kmem mm) mmap_addr (mmap_addr + len) (replicate (IDENT_PAGES div 32) (NOT 0));
     let kend = unat ((kernel_end + FRAME - 1) div FRAME);
     if kend > IDENT_PAGES then None
     else Some (mm\<lparr>frame_bitmap := fold bitmap_set [0..<kend] bm\<rparr>)
   }"

definition init_mm :: "u32 \<Rightarrow> u32 \<Rightarrow> u32 \<Rightarrow> u32 \<Rightarrow> u32 \<Rightarrow> mm_state \<Rightarrow> mm_state option" where
  "init_mm kpd kpt kernel_end mmap_addr len mm =
     frame_bitmap_init kernel_end mmap_addr len (setup_identity_paging kpd kpt mm)"

subsection \<open>Frames\<close>

definition frame_take :: "mm_state \<Rightarrow> nat option \<times> mm_state" where
  \<comment> \<open>the index form of \<open>mm_frame_alloc\<close>\<close>
  "frame_take mm =
     (case find (\<lambda>i. \<not> bitmap_test i (frame_bitmap mm)) [0..<IDENT_PAGES] of
        None \<Rightarrow> (None, mm)
      | Some i \<Rightarrow> (Some i, mm\<lparr>frame_bitmap := bitmap_set i (frame_bitmap mm)\<rparr>))"

definition mm_frame_alloc :: "mm_state \<Rightarrow> u32 \<times> mm_state" where
  "mm_frame_alloc mm =
     (let (r, mm') = frame_take mm in
      (case r of None \<Rightarrow> 0 | Some i \<Rightarrow> of_nat i * FRAME, mm'))"

definition mm_frame_free :: "u32 \<Rightarrow> mm_state \<Rightarrow> mm_state" where
  "mm_frame_free addr mm =
     (let frame = unat (addr div FRAME) in
      if frame < IDENT_PAGES then mm\<lparr>frame_bitmap := bitmap_clear frame (frame_bitmap mm)\<rparr> else mm)"

subsection \<open>Cloning an address space\<close>

fun clone_entries ::
    "u32 \<Rightarrow> u32 \<Rightarrow> nat list \<Rightarrow> mm_state \<Rightarrow> bool \<times> mm_state" where
  \<comment> \<open>the loop of \<open>clone_page_table\<close> over the entries \<open>j\<close> still to do; \<open>False\<close>: it ran out of frames\<close>
  "clone_entries parent_pt new_pt [] mm = (True, mm)"
| "clone_entries parent_pt new_pt (j # js) mm =
     (let pte = entry (kmem mm) parent_pt j in
      if pte AND MM_PRESENT \<noteq> 0 then
        (let (new_frame, mm1) = mm_frame_alloc mm in
         if new_frame = 0 then
           (let mm2 = fold (\<lambda>k mm.
                  let e = entry (kmem mm) new_pt k in
                  if e AND MM_PRESENT \<noteq> 0 then mm_frame_free (page_of e) mm else mm)
                [0..<j] mm1
            in (False, mm_frame_free new_pt mm2))
         else
           clone_entries parent_pt new_pt js
             (mm1\<lparr>kmem := set_entry new_pt j (new_frame OR (pte AND 0xFFF))
                    (memcpy_mem new_frame (page_of pte) FRAME (kmem mm1))\<rparr>))
      else clone_entries parent_pt new_pt js (mm\<lparr>kmem := set_entry new_pt j pte (kmem mm)\<rparr>))"

definition clone_page_table :: "u32 \<Rightarrow> mm_state \<Rightarrow> u32 option \<times> mm_state" where
  \<comment> \<open>\<open>None\<close> is the return value -1, \<open>Some\<close> what \<open>*new_pde_out\<close> is set to\<close>
  "clone_page_table parent_pde mm =
     (let parent_pt = page_of parent_pde;
          (new_pt, mm1) = mm_frame_alloc mm
      in if new_pt = 0 then (None, mm1)
         else (let (ok, mm2) = clone_entries parent_pt new_pt [0..<DIR_SIZE] mm1 in
               (if ok then Some (new_pt OR (parent_pde AND 0xFFF)) else None, mm2)))"

definition free_table :: "u32 \<Rightarrow> mm_state \<Rightarrow> mm_state" where
  \<comment> \<open>the body of the loop of \<open>free_cloned_range\<close> for a present directory entry\<close>
  "free_table pt mm =
     mm_frame_free pt
       (fold (\<lambda>j mm. let e = entry (kmem mm) pt j in
               if e AND MM_PRESENT \<noteq> 0 then mm_frame_free (page_of e) mm else mm)
         [0..<DIR_SIZE] mm)"

definition free_cloned_range :: "u32 \<Rightarrow> nat \<Rightarrow> nat \<Rightarrow> mm_state \<Rightarrow> mm_state" where
  "free_cloned_range pdir start stop mm =
     fold (\<lambda>i mm. let e = entry (kmem mm) pdir i in
             if e AND MM_PRESENT = 0 then mm else free_table (page_of e) mm)
       [start..<stop] mm"

fun clone_dir :: "u32 \<Rightarrow> u32 \<Rightarrow> nat list \<Rightarrow> mm_state \<Rightarrow> bool \<times> mm_state" where
  \<comment> \<open>the loop of \<open>mm_clone_pdir\<close>\<close>
  "clone_dir parent_pdir new_pdir [] mm = (True, mm)"
| "clone_dir parent_pdir new_pdir (i # is) mm =
     (let pde = entry (kmem mm) parent_pdir i in
      if pde AND MM_PRESENT \<noteq> 0 then
        (let (r, mm1) = clone_page_table pde mm in
         case r of
           None \<Rightarrow> (False, mm_frame_free new_pdir (free_cloned_range new_pdir 4 i mm1))
         | Some new_pde \<Rightarrow>
             clone_dir parent_pdir new_pdir is (mm1\<lparr>kmem := set_entry new_pdir i new_pde (kmem mm1)\<rparr>))
      else clone_dir parent_pdir new_pdir is (mm\<lparr>kmem := set_entry new_pdir i pde (kmem mm)\<rparr>))"

definition mm_clone_pdir :: "u32 \<Rightarrow> mm_state \<Rightarrow> u32 \<times> mm_state" where
  "mm_clone_pdir parent_pdir mm =
     (let (new_pdir, mm1) = mm_frame_alloc mm in
      if new_pdir = 0 then (0, mm1)
      else
        (let mm2 = mm1\<lparr>kmem := memcpy_mem new_pdir parent_pdir 16 (kmem mm1)\<rparr>;
             (ok, mm3) = clone_dir parent_pdir new_pdir [4..<DIR_SIZE] mm2
         in (if ok then new_pdir else 0, mm3)))"

subsection \<open>Mapping single pages\<close>

definition pd_idx :: "u32 \<Rightarrow> nat" where
  "pd_idx va = unat (drop_bit 22 va)"

definition pt_idx :: "u32 \<Rightarrow> nat" where
  "pt_idx va = unat (drop_bit 12 va AND 0x3FF)"

definition ensure_table :: "u32 \<Rightarrow> u32 \<Rightarrow> mm_state \<Rightarrow> bool \<times> mm_state" where
  \<comment> \<open>the first \<open>if\<close> of \<open>mm_map_at\<close>: allocate the page table if there is none\<close>
  "ensure_table pdir va mm =
     (if entry (kmem mm) pdir (pd_idx va) AND MM_PRESENT = 0 then
        (let (new_pt, mm1) = mm_frame_alloc mm in
         if new_pt = 0 then (False, mm1)
         else (True, mm1\<lparr>kmem := set_entry pdir (pd_idx va) (new_pt OR PAGE_FLAGS)
                            (zero_frame new_pt (kmem mm1))\<rparr>))
      else (True, mm))"

definition mm_map_at :: "u32 \<Rightarrow> u32 \<Rightarrow> u32 \<Rightarrow> u32 \<Rightarrow> mm_state \<Rightarrow> int \<times> mm_state" where
  "mm_map_at pdir va pa flags mm =
     (let (ok, mm1) = ensure_table pdir va mm in
      if \<not> ok then (-1, mm1)
      else
        (let pt = page_of (entry (kmem mm1) pdir (pd_idx va)) in
         if entry (kmem mm1) pt (pt_idx va) AND MM_PRESENT \<noteq> 0 then (-1, mm1)
         else (0, mm1\<lparr>kmem := set_entry pt (pt_idx va) (page_of pa OR flags) (kmem mm1)\<rparr>)))"

definition mm_alloc_at :: "u32 \<Rightarrow> u32 \<Rightarrow> u32 \<Rightarrow> mm_state \<Rightarrow> u32 \<times> mm_state" where
  "mm_alloc_at pdir va flags mm =
     (let (frame, mm1) = mm_frame_alloc mm in
      if frame = 0 then (0, mm1)
      else
        (let mm2 = mm1\<lparr>kmem := zero_frame frame (kmem mm1)\<rparr>;
             (r, mm3) = mm_map_at pdir va frame flags mm2
         in if r < 0 then (0, mm_frame_free frame mm3) else (va, mm3)))"

definition mm_unmap_at :: "u32 \<Rightarrow> u32 \<Rightarrow> mm_state \<Rightarrow> int \<times> mm_state" where
  "mm_unmap_at pdir va mm =
     (let pde = entry (kmem mm) pdir (pd_idx va) in
      if pde AND MM_PRESENT = 0 then (-1, mm)
      else
        (let pt = page_of pde; pte = entry (kmem mm) pt (pt_idx va) in
         if pte AND MM_PRESENT = 0 then (-1, mm)
         else (let mm1 = mm_frame_free (page_of pte) mm in
               (0, mm1\<lparr>kmem := set_entry pt (pt_idx va) 0 (kmem mm1)\<rparr>))))"

definition mm_get_pte :: "u32 \<Rightarrow> u32 \<Rightarrow> mm_state \<Rightarrow> u32" where
  "mm_get_pte pdir va mm =
     (let pde = entry (kmem mm) pdir (pd_idx va) in
      if pde AND MM_PRESENT = 0 then 0
      else entry (kmem mm) (page_of pde) (pt_idx va))"

subsection \<open>The frame allocator is a slot pool\<close>

definition frames_inv :: "mm_state \<Rightarrow> bool" where
  "frames_inv mm \<longleftrightarrow> length (frame_bitmap mm) = IDENT_PAGES div 32"

definition frame_used :: "mm_state \<Rightarrow> nat \<Rightarrow> bool" where
  "frame_used mm i \<longleftrightarrow> i < IDENT_PAGES \<and> bitmap_test i (frame_bitmap mm)"

definition frame_give :: "nat \<Rightarrow> mm_state \<Rightarrow> mm_state" where
  \<comment> \<open>the index form of \<open>mm_frame_free\<close>\<close>
  "frame_give i mm = mm_frame_free (of_nat i * FRAME) mm"

lemma bitmap_test_bit: "bitmap_test i bm \<longleftrightarrow> bit (bm ! (i div 32)) (i mod 32)"
  by (simp add: bitmap_test_def and_one_eq bit_iff_odd_drop_bit odd_iff_mod_2_eq_one mod2_eq_if)

lemma div_mod_32: "(j :: nat) div 32 = i div 32 \<Longrightarrow> j mod 32 = i mod 32 \<longleftrightarrow> j = i"
  by (metis div_mult_mod_eq)

lemma bitmap_test_set:
  assumes "i div 32 < length bm"
  shows "bitmap_test j (bitmap_set i bm) \<longleftrightarrow> bitmap_test j bm \<or> j = i"
proof (cases "j div 32 = i div 32")
  case True
  then show ?thesis
    using assms div_mod_32 [OF True]
    by (auto simp: bitmap_test_bit bitmap_set_def bit_simps)
next
  case False
  then show ?thesis by (auto simp: bitmap_test_bit bitmap_set_def)
qed

lemma bitmap_test_clear:
  assumes "i div 32 < length bm"
  shows "bitmap_test j (bitmap_clear i bm) \<longleftrightarrow> bitmap_test j bm \<and> j \<noteq> i"
proof (cases "j div 32 = i div 32")
  case True
  then show ?thesis
    using assms div_mod_32 [OF True]
    by (auto simp: bitmap_test_bit bitmap_clear_def bit_simps)
next
  case False
  then show ?thesis by (auto simp: bitmap_test_bit bitmap_clear_def)
qed

lemma frame_index_ok: "frames_inv mm \<Longrightarrow> i < IDENT_PAGES \<Longrightarrow> i div 32 < length (frame_bitmap mm)"
  by (simp add: frames_inv_def IDENT_PAGES_def NUM_PT_def DIR_SIZE_def)

lemma unat_frame_address: "i < IDENT_PAGES \<Longrightarrow> unat (of_nat i * FRAME) = i * 4096"
proof -
  assume i: "i < IDENT_PAGES"
  then have "i * 4096 < 2 ^ 32" by (simp add: IDENT_PAGES_def NUM_PT_def DIR_SIZE_def)
  then have "unat (of_nat (i * 4096) :: u32) = i * 4096" by (simp only: unat_of_nat) simp
  then show ?thesis by (simp add: FRAME_def)
qed

lemma frame_address_index: "i < IDENT_PAGES \<Longrightarrow> unat ((of_nat i * FRAME) div FRAME) = i"
  by (simp add: unat_div unat_frame_address) (simp add: FRAME_def)

interpretation frames: slot_pool frame_used IDENT_PAGES frame_take frame_give frames_inv
proof unfold_locales
  fix mm i j
  assume inv: "frames_inv mm"
  show "fst (frame_take mm) = find (\<lambda>i. \<not> frame_used mm i) [0..<IDENT_PAGES]"
  proof -
    have "find (\<lambda>i. \<not> bitmap_test i (frame_bitmap mm)) [0..<IDENT_PAGES] =
          find (\<lambda>i. \<not> frame_used mm i) [0..<IDENT_PAGES]"
      by (rule find_cong) (simp_all add: frame_used_def)
    then show ?thesis by (simp add: frame_take_def split: option.split)
  qed
  show "frame_used (snd (frame_take mm)) j = (frame_used mm j \<or> fst (frame_take mm) = Some j)"
    using frame_index_ok [OF inv]
    by (auto simp: frame_take_def frame_used_def bitmap_test_set dest: find_upt_SomeD(1) split: option.split)
  show "frames_inv (snd (frame_take mm))"
    using inv by (auto simp: frame_take_def frames_inv_def bitmap_set_def split: option.split)
  assume i: "i < IDENT_PAGES"
  show "frame_used (frame_give i mm) j = (frame_used mm j \<and> j \<noteq> i)"
    using i frame_index_ok [OF inv i]
    by (auto simp: frame_give_def mm_frame_free_def frame_address_index frame_used_def bitmap_test_clear)
  show "frames_inv (frame_give i mm)"
    using inv by (simp add: frame_give_def mm_frame_free_def frames_inv_def bitmap_clear_def Let_def)
qed

subsection \<open>Addresses of table entries\<close>

definition page_aligned :: "u32 \<Rightarrow> bool" where
  "page_aligned a \<longleftrightarrow> a AND 0xFFF = 0"

lemma page_aligned_iff_unat: "page_aligned a \<longleftrightarrow> unat a mod 4096 = 0"
proof -
  have "a AND 0xFFF = take_bit 12 a" by (simp add: take_bit_eq_mask mask_eq_exp_minus_1)
  moreover have "unat (take_bit 12 a) = unat a mod 4096"
    by (simp only: unsigned_take_bit_eq) (simp add: take_bit_eq_mod)
  ultimately show ?thesis unfolding page_aligned_def by (metis unat_eq_0)
qed

lemma page_aligned_page_of [simp]: "page_aligned (page_of w)"
  by (simp add: page_aligned_def bit_eq_iff bit_simps)

lemma unat_slot:
  assumes "page_aligned b" and "i < 1024"
  shows "unat (b + 4 * of_nat i) = unat b + 4 * i"
proof -
  obtain k where k: "unat b = 4096 * k"
    using assms(1) unfolding page_aligned_iff_unat by (metis dvdE mod_0_imp_dvd)
  moreover have "unat b < 4294967296" using unsigned_less [of b] by simp
  ultimately have lt: "unat b + 4 * i < 2 ^ 32" using assms(2) by simp
  have "unat (of_nat (4 * i) :: u32) = 4 * i" using assms(2) by (simp only: unat_of_nat) simp
  then have "unat (4 * of_nat i :: u32) = 4 * i" by simp
  then show ?thesis using lt by (simp add: unat_word_ariths(1))
qed

lemma slot_inj:
  assumes "page_aligned b" and "page_aligned c" and "i < 1024" and "j < 1024"
  shows "b + 4 * of_nat i = c + 4 * of_nat j \<longleftrightarrow> b = c \<and> i = j"
proof
  assume "b + 4 * of_nat i = c + 4 * of_nat j"
  then have eq: "unat b + 4 * i = unat c + 4 * j" using unat_slot assms by metis
  obtain k l where kl: "unat b = 4096 * k" "unat c = 4096 * l"
    using assms(1,2) unfolding page_aligned_iff_unat by (metis dvdE mod_0_imp_dvd)
  with eq have sum: "i + 1024 * k = j + 1024 * l" by simp
  have "(i + 1024 * k) mod 1024 = i" "(j + 1024 * l) mod 1024 = j" using assms(3,4) by simp_all
  then have "i = j" using sum by simp
  then have "unat b = unat c" "i = j" using sum kl by simp_all
  then show "b = c \<and> i = j" by (simp add: word_unat_eq_iff)
qed simp

lemma slot_aligned: "page_aligned b \<Longrightarrow> i < 1024 \<Longrightarrow> aligned4 (b + 4 * of_nat i)"
proof -
  assume a: "page_aligned b" "i < 1024"
  obtain k where "unat b = 4096 * k"
    using a(1) unfolding page_aligned_iff_unat by (metis dvdE mod_0_imp_dvd)
  then have "unat b + 4 * i = 4 * (1024 * k + i)" by simp
  then show "aligned4 (b + 4 * of_nat i)"
    unfolding aligned4_iff_unat unat_slot [OF a] by (metis mod_mult_self1_is_0)
qed

lemma entry_set_entry:
  assumes "page_aligned b" and "page_aligned c" and "i < 1024" and "j < 1024"
  shows "entry (set_entry b i v m) c j = (if b = c \<and> i = j then v else entry m c j)"
  using read32_write32 [OF slot_aligned slot_aligned, OF assms(1,3,2,4), of v m] slot_inj [OF assms]
  by (auto simp: eq_commute)

lemma pd_idx_less: "pd_idx va < 1024"
proof -
  have "unat va < 4294967296" using unsigned_less [of va, where 'a = nat] by simp
  moreover have "pd_idx va = unat va div 4194304"
    by (simp add: pd_idx_def unsigned_drop_bit_eq drop_bit_eq_div unat_div)
  ultimately show ?thesis by simp
qed

lemma pt_idx_less: "pt_idx va < 1024"
proof -
  have "drop_bit 12 va AND 0x3FF \<le> 0x3FF" by (simp add: word_and_le1)
  then show ?thesis by (simp add: pt_idx_def word_le_nat_alt)
qed

lemma unat_page_off:
  assumes "page_aligned b" and "d < 0x1000"
  shows "unat (b + d) = unat b + unat d"
proof -
  obtain k where k: "unat b = 4096 * k"
    using assms(1) unfolding page_aligned_iff_unat by (metis dvdE mod_0_imp_dvd)
  moreover have "unat b < 4294967296" using unsigned_less [of b, where 'a = nat] by simp
  moreover have "unat d < 4096" using assms(2) by (simp add: word_less_nat_alt)
  ultimately have "unat b + unat d < 2 ^ 32" by simp
  then show ?thesis by (simp add: unat_word_ariths(1))
qed

lemma page_off_inj:
  assumes "page_aligned b" and "page_aligned c" and "d < 0x1000" and "e < 0x1000" and "b + d = c + e"
  shows "b = c"
proof -
  obtain k l where kl: "unat b = 4096 * k" "unat c = 4096 * l"
    using assms(1,2) unfolding page_aligned_iff_unat by (metis dvdE mod_0_imp_dvd)
  have lt: "unat d < 4096" "unat e < 4096" using assms(3,4) by (simp_all add: word_less_nat_alt)
  have "4096 * k + unat d = 4096 * l + unat e"
    using unat_page_off [OF assms(1,3)] unat_page_off [OF assms(2,4)] assms(5) kl by simp
  then have "(4096 * k + unat d) div 4096 = (4096 * l + unat e) div 4096" by simp
  then have "k = l" using lt by simp
  then show ?thesis using kl by (simp add: word_unat_eq_iff)
qed

lemma page_index_inj:
  assumes "page_aligned a" and "page_aligned b" and "unat (a div FRAME) = unat (b div FRAME)"
  shows "a = b"
proof -
  obtain k l where kl: "unat a = 4096 * k" "unat b = 4096 * l"
    using assms(1,2) unfolding page_aligned_iff_unat by (metis dvdE mod_0_imp_dvd)
  then have "unat (a div FRAME) = k" "unat (b div FRAME) = l" by (simp_all add: unat_div FRAME_def)
  then show ?thesis using assms(3) kl by (simp add: word_unat_eq_iff)
qed

lemma slot_offset:
  assumes "i < 1024" and "j < 4"
  shows "4 * of_nat i + j < (0x1000 :: u32)"
proof -
  have "unat (of_nat (4 * i) :: u32) = 4 * i" using assms(1) by (simp only: unat_of_nat) simp
  then have "unat (4 * of_nat i :: u32) = 4 * i" by simp
  moreover have "unat j < 4" using assms(2) by (simp add: word_less_nat_alt)
  ultimately have "unat (4 * of_nat i + j) = 4 * i + unat j"
    using assms(1) by (simp add: unat_word_ariths(1))
  then show ?thesis using assms(1) \<open>unat j < 4\<close> by (simp add: word_less_nat_alt)
qed

lemma zero_frame_byte:
  assumes "page_aligned f" and "page_aligned c" and "d < 0x1000"
  shows "zero_frame f m (c + d) = (if c = f then 0 else m (c + d))"
proof (cases "c = f")
  case True
  then show ?thesis using assms(3) by (simp add: zero_frame_def)
next
  case False
  have "\<not> c + d - f < 0x1000"
  proof
    assume "c + d - f < 0x1000"
    moreover have "f + (c + d - f) = c + d" by simp
    ultimately show False using page_off_inj [OF assms(1,2) _ assms(3)] False by blast
  qed
  then show ?thesis using False by (simp add: zero_frame_def)
qed

lemma entry_zero_frame:
  assumes "page_aligned f" and "page_aligned c" and "i < 1024"
  shows "entry (zero_frame f m) c i = (if c = f then 0 else entry m c i)"
proof -
  have b: "zero_frame f m (c + 4 * of_nat i + j) = (if c = f then 0 else m (c + 4 * of_nat i + j))"
    if "j < 4" for j
    using zero_frame_byte [OF assms(1,2) slot_offset [OF assms(3) that], of m]
    by (simp add: add.assoc)
  show ?thesis
    using b [of 0] b [of 1] b [of 2] b [of 3] by (simp add: read32_def of_le32_def)
qed

subsection \<open>Well-formed directories\<close>

definition protected_page :: "mm_state \<Rightarrow> u32 \<Rightarrow> bool" where
  \<comment> \<open>the allocator will not hand out this page\<close>
  "protected_page mm a \<longleftrightarrow> (unat (a div FRAME) < IDENT_PAGES \<longrightarrow> frame_used mm (unat (a div FRAME)))"

abbreviation pde_present :: "mm_state \<Rightarrow> u32 \<Rightarrow> nat \<Rightarrow> bool" where
  "pde_present mm pdir i \<equiv> entry (kmem mm) pdir i AND MM_PRESENT \<noteq> 0"

abbreviation table_of :: "mm_state \<Rightarrow> u32 \<Rightarrow> nat \<Rightarrow> u32" where
  "table_of mm pdir i \<equiv> page_of (entry (kmem mm) pdir i)"

definition pd_wf :: "mm_state \<Rightarrow> u32 \<Rightarrow> bool" where
  "pd_wf mm pdir \<longleftrightarrow> frames_inv mm \<and> frame_used mm 0 \<and> page_aligned pdir \<and> protected_page mm pdir \<and>
     (\<forall>i < 1024. pde_present mm pdir i \<longrightarrow> table_of mm pdir i \<noteq> pdir \<and> protected_page mm (table_of mm pdir i)) \<and>
     (\<forall>i < 1024. \<forall>j < 1024. i \<noteq> j \<longrightarrow> pde_present mm pdir i \<longrightarrow> pde_present mm pdir j \<longrightarrow>
        table_of mm pdir i \<noteq> table_of mm pdir j)"

lemma mm_get_pte_alt:
  "mm_get_pte pdir va mm =
    (if pde_present mm pdir (pd_idx va) then entry (kmem mm) (table_of mm pdir (pd_idx va)) (pt_idx va) else 0)"
  by (simp add: mm_get_pte_def Let_def)

lemma frame_alloc_cases:
  assumes "frames_inv mm" and "frame_used mm 0"
  obtains (full) "mm_frame_alloc mm = (0, mm)" "\<forall>i < IDENT_PAGES. frame_used mm i"
  | (fresh) f i mm' where "mm_frame_alloc mm = (f, mm')" "f \<noteq> 0" "page_aligned f" "i < IDENT_PAGES"
      "unat (f div FRAME) = i" "\<not> frame_used mm i" "kmem mm' = kmem mm" "frames_inv mm'"
      "\<And>j. frame_used mm' j \<longleftrightarrow> frame_used mm j \<or> j = i"
proof (cases "frame_take mm")
  case (Pair r mm')
  show ?thesis
  proof (cases r)
    case None
    then have "mm_frame_alloc mm = (0, mm)" "fst (frame_take mm) = None"
      using Pair by (auto simp: mm_frame_alloc_def frame_take_def split: option.splits)
    then show ?thesis using full frames.alloc_full [OF assms(1)] by simp
  next
    case (Some i)
    then have take: "frame_take mm = (Some i, mm')" using Pair by simp
    note fr = frames.alloc_fresh [OF assms(1) take]
    have idx: "unat ((of_nat i * FRAME) div FRAME) = i" using frame_address_index fr by blast
    have "i \<noteq> 0" using fr assms(2) by metis
    then have "of_nat i * FRAME \<noteq> 0" using idx by (metis div_0 unat_0)
    moreover have "page_aligned (of_nat i * FRAME)"
      using fr by (simp add: page_aligned_iff_unat unat_frame_address)
    moreover have "kmem mm' = kmem mm" using take by (auto simp: frame_take_def split: option.splits)
    moreover have "frames_inv mm'" using frames.invar_alloc [OF assms(1)] take by simp
    ultimately show ?thesis
      using fr idx take by (intro fresh [of "of_nat i * FRAME" mm' i]) (auto simp: mm_frame_alloc_def)
  qed
qed

lemma pd_wf_tables:
  assumes "pd_wf mm pdir" and "i < 1024" and "pde_present mm pdir i"
  shows "table_of mm pdir i \<noteq> pdir" "protected_page mm (table_of mm pdir i)"
    "\<And>j. j < 1024 \<Longrightarrow> pde_present mm pdir j \<Longrightarrow> table_of mm pdir j = table_of mm pdir i \<longleftrightarrow> j = i"
  using assms unfolding pd_wf_def by blast+

lemma write_pte:
  fixes v :: u32
  assumes wf: "pd_wf mm pdir" and pr: "pde_present mm pdir i" and i: "i < 1024" and j: "j < 1024"
    and mm'_def: "mm' = mm\<lparr>kmem := set_entry (table_of mm pdir i) j v (kmem mm)\<rparr>"
  shows "pd_wf mm' pdir"
    and "mm_get_pte pdir va mm' = (if pd_idx va = i \<and> pt_idx va = j then v else mm_get_pte pdir va mm)"
proof -
  have al: "page_aligned pdir" using wf by (simp add: pd_wf_def)
  have pde: "entry (kmem mm') pdir k = entry (kmem mm) pdir k" if "k < 1024" for k
    using entry_set_entry [OF page_aligned_page_of al j that] pd_wf_tables(1) [OF wf i pr]
    by (simp add: mm'_def)
  have used: "frame_used mm' k = frame_used mm k" for k by (simp add: mm'_def frame_used_def)
  then show "pd_wf mm' pdir"
    using wf pde unfolding pd_wf_def protected_page_def
    by (simp add: mm'_def frames_inv_def)
  show "mm_get_pte pdir va mm' = (if pd_idx va = i \<and> pt_idx va = j then v else mm_get_pte pdir va mm)"
  proof (cases "pde_present mm pdir (pd_idx va)")
    case True
    then have "table_of mm pdir (pd_idx va) = table_of mm pdir i \<longleftrightarrow> pd_idx va = i"
      using pd_wf_tables(3) [OF wf i pr pd_idx_less] by simp
    then have "entry (kmem mm') (table_of mm pdir (pd_idx va)) (pt_idx va) =
        (if pd_idx va = i \<and> pt_idx va = j then v
         else entry (kmem mm) (table_of mm pdir (pd_idx va)) (pt_idx va))"
      using entry_set_entry [OF page_aligned_page_of page_aligned_page_of j pt_idx_less]
      by (auto simp: mm'_def)
    then show ?thesis using True by (simp add: mm_get_pte_alt pde pd_idx_less)
  next
    case False
    then have "pd_idx va \<noteq> i" using pr by auto
    then show ?thesis using False by (simp add: mm_get_pte_alt pde pd_idx_less)
  qed
qed

lemma page_of_aligned: "page_aligned f \<Longrightarrow> page_of f = f"
proof -
  assume "page_aligned f"
  moreover have "f = (f AND 0xFFF) OR (f AND NOT 0xFFF)" by (simp add: bit_eq_iff bit_simps) auto
  ultimately show ?thesis by (simp add: page_aligned_def)
qed

lemma page_of_flags:
  assumes "page_aligned f"
  shows "page_of (f OR PAGE_FLAGS) = f" and "(f OR PAGE_FLAGS) AND MM_PRESENT \<noteq> 0"
proof -
  have "PAGE_FLAGS = 7" by (simp add: PAGE_FLAGS_def MM_PRESENT_def MM_RW_def MM_USER_def)
  moreover have "(7 :: u32) AND NOT 0xFFF = 0" by simp
  moreover have "f AND NOT 0xFFF = f" using page_of_aligned [OF assms] .
  ultimately show "page_of (f OR PAGE_FLAGS) = f"
    by (simp add: bit.conj_disj_distrib2)
  have "odd (f OR 7)" by (simp add: even_or_iff)
  then show "(f OR PAGE_FLAGS) AND MM_PRESENT \<noteq> 0"
    by (simp add: \<open>PAGE_FLAGS = 7\<close> MM_PRESENT_def and_one_eq odd_iff_mod_2_eq_one)
qed

lemma ensure_table_spec:
  assumes wf: "pd_wf mm pdir" and eq: "ensure_table pdir va mm = (ok, mm1)"
  shows "\<not> ok \<Longrightarrow> mm1 = mm \<and> (\<forall>i < IDENT_PAGES. frame_used mm i)"
    and "ok \<Longrightarrow> pd_wf mm1 pdir \<and> pde_present mm1 pdir (pd_idx va) \<and>
           (\<forall>va'. mm_get_pte pdir va' mm1 = mm_get_pte pdir va' mm)"
proof -
  have al: "page_aligned pdir" and fi: "frames_inv mm" "frame_used mm 0"
    using wf by (simp_all add: pd_wf_def)
  let ?i = "pd_idx va"
  have "(\<not> ok \<longrightarrow> mm1 = mm \<and> (\<forall>i < IDENT_PAGES. frame_used mm i)) \<and>
    (ok \<longrightarrow> pd_wf mm1 pdir \<and> pde_present mm1 pdir ?i \<and>
       (\<forall>va'. mm_get_pte pdir va' mm1 = mm_get_pte pdir va' mm))"
  proof (cases "pde_present mm pdir ?i")
    case True
    then show ?thesis using eq wf by (simp add: ensure_table_def)
  next
    case absent: False
    from fi show ?thesis
    proof (cases rule: frame_alloc_cases)
      case full
      then show ?thesis using eq absent by (simp add: ensure_table_def)
    next
      case (fresh f n mm')
      have f: "f \<noteq> pdir" and ft: "\<And>k. k < 1024 \<Longrightarrow> pde_present mm pdir k \<Longrightarrow> table_of mm pdir k \<noteq> f"
        using wf fresh unfolding pd_wf_def protected_page_def by metis+
      have mm1: "ok" "mm1 = mm'\<lparr>kmem := set_entry pdir ?i (f OR PAGE_FLAGS) (zero_frame f (kmem mm))\<rparr>"
        using eq absent fresh by (simp_all add: ensure_table_def)
      have pde: "entry (kmem mm1) pdir k = (if k = ?i then f OR PAGE_FLAGS else entry (kmem mm) pdir k)"
        if "k < 1024" for k
        using entry_set_entry [OF al al pd_idx_less that] entry_zero_frame [OF fresh(3) al that] f
        by (simp add: mm1)
      have tab: "entry (kmem mm1) t k = (if t = f then 0 else entry (kmem mm) t k)"
        if "k < 1024" "page_aligned t" "t \<noteq> pdir" for t k
        using entry_set_entry [OF al that(2) pd_idx_less that(1)] entry_zero_frame [OF fresh(3) that(2,1)] that(3)
        by (simp add: mm1)
      have used1: "frame_used mm1 k \<longleftrightarrow> frame_used mm k \<or> k = n" for k
        using fresh(9) [of k] by (simp add: mm1 frame_used_def)
      have prot: "protected_page mm1 a" if "protected_page mm a" for a
        using that by (simp add: protected_page_def used1)
      have protf: "protected_page mm1 f" using fresh(5) by (simp add: protected_page_def used1)
      note pf = page_of_flags [OF fresh(3)]
      have "frames_inv mm1" "frame_used mm1 0"
        using fresh(8) fi(2) used1 by (simp_all add: mm1 frames_inv_def)
      moreover have "protected_page mm1 pdir" using prot wf by (simp add: pd_wf_def)
      moreover have "table_of mm1 pdir k \<noteq> pdir \<and> protected_page mm1 (table_of mm1 pdir k)"
        if "k < 1024" "pde_present mm1 pdir k" for k
        using that pde [OF that(1)] pf f protf prot pd_wf_tables(1,2) [OF wf that(1)]
        by (cases "k = ?i") auto
      moreover have "table_of mm1 pdir k \<noteq> table_of mm1 pdir l"
        if "k < 1024" "l < 1024" "k \<noteq> l" "pde_present mm1 pdir k" "pde_present mm1 pdir l" for k l
        using that pde [OF that(1)] pde [OF that(2)] pf ft pd_wf_tables(3) [OF wf that(2) _ that(1)]
        by (cases "k = ?i"; cases "l = ?i") fastforce+
      ultimately have "pd_wf mm1 pdir" using al unfolding pd_wf_def by blast
      moreover have "pde_present mm1 pdir ?i" using pde [OF pd_idx_less] pf by simp
      moreover have "mm_get_pte pdir va' mm1 = mm_get_pte pdir va' mm" for va'
      proof (cases "pd_idx va' = ?i")
        case True
        then show ?thesis
          using absent pde [OF pd_idx_less] pf tab [OF pt_idx_less fresh(3) f] by (simp add: mm_get_pte_alt)
      next
        case False
        then show ?thesis
          using pde [OF pd_idx_less] tab [OF pt_idx_less page_aligned_page_of] ft [OF pd_idx_less]
            pd_wf_tables(1) [OF wf pd_idx_less]
          by (auto simp: mm_get_pte_alt)
      qed
      ultimately show ?thesis using mm1(1) by blast
    qed
  qed
  then show "\<not> ok \<Longrightarrow> mm1 = mm \<and> (\<forall>i < IDENT_PAGES. frame_used mm i)"
    and "ok \<Longrightarrow> pd_wf mm1 pdir \<and> pde_present mm1 pdir ?i \<and>
           (\<forall>va'. mm_get_pte pdir va' mm1 = mm_get_pte pdir va' mm)" by blast+
qed

lemma same_page_iff: "pd_idx v = pd_idx w \<and> pt_idx v = pt_idx w \<longleftrightarrow> page_of v = page_of w"
proof -
  have m: "(0x3FF :: u32) = mask 10" "(0xFFF :: u32) = mask 12" by (simp_all add: mask_eq_exp_minus_1)
  have "pd_idx v = pd_idx w \<longleftrightarrow> drop_bit 22 v = drop_bit 22 w"
    by (simp add: pd_idx_def word_unat_eq_iff)
  moreover have "pt_idx v = pt_idx w \<longleftrightarrow> drop_bit 12 v AND 0x3FF = drop_bit 12 w AND 0x3FF"
    by (simp add: pt_idx_def word_unat_eq_iff)
  moreover have "drop_bit 22 v = drop_bit 22 w \<and> drop_bit 12 v AND 0x3FF = drop_bit 12 w AND 0x3FF \<longleftrightarrow>
    (\<forall>n. 12 \<le> n \<and> n < 32 \<longrightarrow> bit v n = bit w n)"
  proof
    assume eq: "drop_bit 22 v = drop_bit 22 w \<and> drop_bit 12 v AND 0x3FF = drop_bit 12 w AND 0x3FF"
    have "bit v n = bit w n" if n: "12 \<le> n \<and> n < 32" for n
    proof (cases "22 \<le> n")
      case True
      have "bit (drop_bit 22 v) (n - 22) = bit (drop_bit 22 w) (n - 22)" using eq by simp
      then show ?thesis using True by (simp add: bit_simps)
    next
      case False
      have "bit (drop_bit 12 v AND 0x3FF) (n - 12) = bit (drop_bit 12 w AND 0x3FF) (n - 12)" using eq by simp
      then show ?thesis using False n by (simp only: m) (auto simp: bit_simps)
    qed
    then show "\<forall>n. 12 \<le> n \<and> n < 32 \<longrightarrow> bit v n = bit w n" by blast
  next
    assume eq: "\<forall>n. 12 \<le> n \<and> n < 32 \<longrightarrow> bit v n = bit w n"
    have eq': "bit v n = bit w n" if "12 \<le> n" for n
      using eq that bit_imp_le_length [of v n] bit_imp_le_length [of w n] by (cases "n < 32") auto
    have "drop_bit 22 v = drop_bit 22 w"
      by (intro bit_eqI) (simp add: bit_simps eq')
    moreover have "drop_bit 12 v AND 0x3FF = drop_bit 12 w AND 0x3FF"
      by (intro bit_eqI) (simp add: m bit_simps eq')
    ultimately show "drop_bit 22 v = drop_bit 22 w \<and> drop_bit 12 v AND 0x3FF = drop_bit 12 w AND 0x3FF" by blast
  qed
  moreover have pb: "bit (page_of x) n \<longleftrightarrow> bit x n \<and> 12 \<le> n \<and> n < 32" for x n
    unfolding m by (auto simp: bit_simps dest: bit_imp_le_length)
  have "page_of v = page_of w \<longleftrightarrow> (\<forall>n. 12 \<le> n \<and> n < 32 \<longrightarrow> bit v n = bit w n)"
    unfolding bit_eq_iff [of "page_of v"] pb by auto
  ultimately show ?thesis by blast
qed

lemma mm_map_at_spec:
  assumes wf: "pd_wf mm pdir" and eq: "mm_map_at pdir va pa flags mm = (r, mm')"
  shows "pd_wf mm' pdir"
    and "r = 0 \<longleftrightarrow> mm_get_pte pdir va mm AND MM_PRESENT = 0 \<and>
      (pde_present mm pdir (pd_idx va) \<or> (\<exists>i < IDENT_PAGES. \<not> frame_used mm i))"
    and "mm_get_pte pdir va' mm' =
      (if r = 0 \<and> page_of va' = page_of va then page_of pa OR flags else mm_get_pte pdir va' mm)"
    and "r \<noteq> 0 \<longrightarrow> r = -1"
proof -
  obtain ok mm1 where en: "ensure_table pdir va mm = (ok, mm1)" by fastforce
  note sp = ensure_table_spec [OF wf en]
  have full: "ok \<longleftrightarrow> pde_present mm pdir (pd_idx va) \<or> (\<exists>i < IDENT_PAGES. \<not> frame_used mm i)"
  proof
    assume "ok"
    show "pde_present mm pdir (pd_idx va) \<or> (\<exists>i < IDENT_PAGES. \<not> frame_used mm i)"
    proof (rule ccontr)
      assume no: "\<not> ?thesis"
      have "frames_inv mm" "frame_used mm 0" using wf by (simp_all add: pd_wf_def)
      then have "mm_frame_alloc mm = (0, mm)" by (cases rule: frame_alloc_cases) (use no in auto)
      then show False using no en \<open>ok\<close> by (simp add: ensure_table_def)
    qed
  next
    assume "pde_present mm pdir (pd_idx va) \<or> (\<exists>i < IDENT_PAGES. \<not> frame_used mm i)"
    then show ok using en sp(1) by (auto simp: ensure_table_def split: if_splits)
  qed
  have "pd_wf mm' pdir \<and> (r \<noteq> 0 \<longrightarrow> r = -1) \<and>
    (r = 0 \<longleftrightarrow> ok \<and> mm_get_pte pdir va mm AND MM_PRESENT = 0) \<and>
    mm_get_pte pdir va' mm' =
      (if r = 0 \<and> page_of va' = page_of va then page_of pa OR flags else mm_get_pte pdir va' mm)"
  proof (cases ok)
    case False
    then show ?thesis using sp(1) eq en wf by (auto simp: mm_map_at_def)
  next
    case True
    then have 1: "pd_wf mm1 pdir" "pde_present mm1 pdir (pd_idx va)"
        "\<And>v. mm_get_pte pdir v mm1 = mm_get_pte pdir v mm" using sp(2) by auto
    have pte: "entry (kmem mm1) (table_of mm1 pdir (pd_idx va)) (pt_idx va) = mm_get_pte pdir va mm"
      using 1(2) 1(3) [of va] by (simp add: mm_get_pte_alt)
    show ?thesis
    proof (cases "mm_get_pte pdir va mm AND MM_PRESENT = 0")
      case absent: True
      then have res: "r = 0"
          "mm' = mm1\<lparr>kmem := set_entry (table_of mm1 pdir (pd_idx va)) (pt_idx va) (page_of pa OR flags) (kmem mm1)\<rparr>"
        using eq en True pte by (auto simp: mm_map_at_def)
      show ?thesis
        using write_pte [OF 1(1,2) pd_idx_less pt_idx_less res(2)] 1(3) res(1) True absent
          same_page_iff [of va' va] by simp
    next
      case False
      then have "r = -1" "mm' = mm1" using eq en True pte by (auto simp: mm_map_at_def)
      then show ?thesis using 1 False by simp
    qed
  qed
  then show "pd_wf mm' pdir"
    and "r = 0 \<longleftrightarrow> mm_get_pte pdir va mm AND MM_PRESENT = 0 \<and>
      (pde_present mm pdir (pd_idx va) \<or> (\<exists>i < IDENT_PAGES. \<not> frame_used mm i))"
    and "mm_get_pte pdir va' mm' =
      (if r = 0 \<and> page_of va' = page_of va then page_of pa OR flags else mm_get_pte pdir va' mm)"
    and "r \<noteq> 0 \<longrightarrow> r = -1"
    using full by blast+
qed

lemma mm_map_at_failed:
  assumes wf: "pd_wf mm pdir" and eq: "mm_map_at pdir va pa flags mm = (r, mm')" and "r \<noteq> 0"
  shows "mm' = mm"
proof -
  obtain ok mm1 where en: "ensure_table pdir va mm = (ok, mm1)" by fastforce
  note sp = ensure_table_spec [OF wf en]
  show ?thesis
  proof (cases ok)
    case False
    then show ?thesis using sp(1) eq en by (simp add: mm_map_at_def)
  next
    case True
    then have "pde_present mm1 pdir (pd_idx va)" "mm_get_pte pdir va mm1 = mm_get_pte pdir va mm"
      using sp(2) by auto
    moreover have "mm' = mm1" "entry (kmem mm1) (table_of mm1 pdir (pd_idx va)) (pt_idx va) AND MM_PRESENT \<noteq> 0"
      using eq en True assms(3) by (auto simp: mm_map_at_def Let_def split: if_splits)
    ultimately have "pde_present mm pdir (pd_idx va)" by (auto simp: mm_get_pte_alt split: if_splits)
    then show ?thesis using en \<open>mm' = mm1\<close> by (simp add: ensure_table_def)
  qed
qed

lemma pd_wf_mono:
  assumes wf: "pd_wf mm pdir" and inv: "frames_inv mm'"
    and used: "\<And>i. frame_used mm i \<Longrightarrow> frame_used mm' i"
    and mem: "\<And>t k. k < 1024 \<Longrightarrow> page_aligned t \<Longrightarrow> protected_page mm t \<Longrightarrow>
                entry (kmem mm') t k = entry (kmem mm) t k"
  shows "pd_wf mm' pdir" and "mm_get_pte pdir va mm' = mm_get_pte pdir va mm"
    and "i < 1024 \<Longrightarrow> entry (kmem mm') pdir i = entry (kmem mm) pdir i"
proof -
  have pde: "entry (kmem mm') pdir i = entry (kmem mm) pdir i" if "i < 1024" for i
    using mem [OF that] wf by (simp add: pd_wf_def)
  then show "i < 1024 \<Longrightarrow> entry (kmem mm') pdir i = entry (kmem mm) pdir i" .
  have prot: "protected_page mm' t" if "protected_page mm t" for t
    using that used by (simp add: protected_page_def)
  show "pd_wf mm' pdir"
    using wf inv used prot pde unfolding pd_wf_def by auto
  show "mm_get_pte pdir va mm' = mm_get_pte pdir va mm"
    using pde [OF pd_idx_less] mem [OF pt_idx_less page_aligned_page_of] pd_wf_tables(2) [OF wf pd_idx_less]
    by (auto simp: mm_get_pte_alt)
qed

lemma write32_other_page:
  assumes "page_aligned b" and "page_aligned p" and "p \<noteq> b" and "i < 1024" and "d < 0x1000"
  shows "set_entry b i v m (p + d) = m (p + d)"
proof -
  have "p + d \<noteq> b + 4 * of_nat i + j" if "j < 4" for j
    using page_off_inj [OF assms(2,1) assms(5) slot_offset [OF assms(4) that]] assms(3)
    by (metis add.assoc)
  from this [of 0] this [of 1] this [of 2] this [of 3] show ?thesis
    by (simp add: write32_def)
qed

lemma frame_free_used:
  assumes "frames_inv mm" and "unat (f div FRAME) < IDENT_PAGES"
  shows "frame_used (mm_frame_free f mm) j \<longleftrightarrow> frame_used mm j \<and> j \<noteq> unat (f div FRAME)"
    and "frames_inv (mm_frame_free f mm)" and "kmem (mm_frame_free f mm) = kmem mm"
proof -
  have len: "length (bitmap_clear i bm) = length bm" for i bm by (simp add: bitmap_clear_def)
  show "frame_used (mm_frame_free f mm) j \<longleftrightarrow> frame_used mm j \<and> j \<noteq> unat (f div FRAME)"
    "frames_inv (mm_frame_free f mm)" "kmem (mm_frame_free f mm) = kmem mm"
    using assms frame_index_ok [OF assms]
    by (auto simp: mm_frame_free_def frame_used_def bitmap_test_clear frames_inv_def len Let_def)
qed

definition data_frame :: "mm_state \<Rightarrow> u32 \<Rightarrow> u32 \<Rightarrow> bool" where
  \<comment> \<open>a frame in use that is neither the directory nor one of its tables\<close>
  "data_frame mm pdir p \<longleftrightarrow> page_aligned p \<and> p \<noteq> 0 \<and> unat (p div FRAME) < IDENT_PAGES \<and>
     frame_used mm (unat (p div FRAME)) \<and> p \<noteq> pdir \<and>
     (\<forall>i < 1024. pde_present mm pdir i \<longrightarrow> table_of mm pdir i \<noteq> p)"

lemma data_frameD:
  assumes "data_frame mm pdir p"
  shows "page_aligned p" "p \<noteq> 0" "unat (p div FRAME) < IDENT_PAGES" "frame_used mm (unat (p div FRAME))"
    "p \<noteq> pdir" "\<And>i. i < 1024 \<Longrightarrow> pde_present mm pdir i \<Longrightarrow> table_of mm pdir i \<noteq> p"
  using assms by (auto simp: data_frame_def)

lemma ensure_table_keeps:
  assumes wf: "pd_wf mm pdir" and en: "ensure_table pdir va mm = (ok, mm1)" and d: "data_frame mm pdir p"
  shows "data_frame mm1 pdir p" and "d < 0x1000 \<Longrightarrow> kmem mm1 (p + d) = kmem mm (p + d)"
    and "frame_used mm j \<Longrightarrow> frame_used mm1 j"
proof -
  have al: "page_aligned pdir" and fi: "frames_inv mm" "frame_used mm 0"
    using wf by (simp_all add: pd_wf_def)
  note p = data_frameD [OF d]
  have "data_frame mm1 pdir p \<and> (\<forall>d. d < 0x1000 \<longrightarrow> kmem mm1 (p + d) = kmem mm (p + d)) \<and>
    (\<forall>j. frame_used mm j \<longrightarrow> frame_used mm1 j)"
  proof (cases "pde_present mm pdir (pd_idx va)")
    case True
    then show ?thesis using en d by (auto simp: ensure_table_def)
  next
    case False
    from fi show ?thesis
    proof (cases rule: frame_alloc_cases)
      case full
      then show ?thesis using en False d by (auto simp: ensure_table_def)
    next
      case (fresh f n mm2)
      then have f: "f \<noteq> p" "f \<noteq> pdir" using p(4) wf by (auto simp: pd_wf_def protected_page_def)
      have mm1: "mm1 = mm2\<lparr>kmem := set_entry pdir (pd_idx va) (f OR PAGE_FLAGS) (zero_frame f (kmem mm))\<rparr>"
        using en False fresh by (simp add: ensure_table_def)
      have pde: "entry (kmem mm1) pdir i = (if i = pd_idx va then f OR PAGE_FLAGS else entry (kmem mm) pdir i)"
        if "i < 1024" for i
        using entry_set_entry [OF al al pd_idx_less that] entry_zero_frame [OF fresh(3) al that] f
        by (simp add: mm1)
      have used: "frame_used mm1 j" if "frame_used mm j" for j
        using fresh(9) [of j] that by (simp add: mm1 frame_used_def)
      moreover have "table_of mm1 pdir i \<noteq> p" if "i < 1024" "pde_present mm1 pdir i" for i
        using that pde [OF that(1)] page_of_flags(1) [OF fresh(3)] f p(6) by (auto split: if_splits)
      moreover have "kmem mm1 (p + d) = kmem mm (p + d)" if "d < 0x1000" for d
        using write32_other_page [OF al p(1) p(5) pd_idx_less that] zero_frame_byte [OF fresh(3) p(1) that] f
        by (simp add: mm1)
      ultimately show ?thesis using p by (auto simp: data_frame_def)
    qed
  qed
  then show "data_frame mm1 pdir p" and "d < 0x1000 \<Longrightarrow> kmem mm1 (p + d) = kmem mm (p + d)"
    and "frame_used mm j \<Longrightarrow> frame_used mm1 j" by blast+
qed

lemma map_at_keeps_page:
  \<comment> \<open>mapping writes to the directory, to the table of the address, or to a free frame\<close>
  assumes wf: "pd_wf mm pdir" and eq: "mm_map_at pdir va pa flags mm = (r, mm')" and d: "data_frame mm pdir p"
  shows "data_frame mm' pdir p" and "d < 0x1000 \<Longrightarrow> kmem mm' (p + d) = kmem mm (p + d)"
    and "frame_used mm j \<Longrightarrow> frame_used mm' j"
proof -
  obtain ok mm1 where en: "ensure_table pdir va mm = (ok, mm1)" by fastforce
  note 1 = ensure_table_keeps [OF wf en d]
  note p = data_frameD [OF 1(1)]
  have "data_frame mm' pdir p \<and> (\<forall>d. d < 0x1000 \<longrightarrow> kmem mm' (p + d) = kmem mm1 (p + d)) \<and>
    (\<forall>j. frame_used mm' j = frame_used mm1 j)"
  proof (cases "mm' = mm1")
    case True
    then show ?thesis using 1(1) by simp
  next
    case False
    then have ok and mm': "mm' = mm1\<lparr>kmem := set_entry (table_of mm1 pdir (pd_idx va)) (pt_idx va) (page_of pa OR flags) (kmem mm1)\<rparr>"
      using eq en by (auto simp: mm_map_at_def Let_def split: if_splits)
    then have 2: "pd_wf mm1 pdir" "pde_present mm1 pdir (pd_idx va)" using ensure_table_spec(2) [OF wf en] by auto
    have al: "page_aligned pdir" using wf by (simp add: pd_wf_def)
    have "entry (kmem mm') pdir i = entry (kmem mm1) pdir i" if "i < 1024" for i
      using entry_set_entry [OF page_aligned_page_of al pt_idx_less that]
        pd_wf_tables(1) [OF 2(1) pd_idx_less 2(2)] by (simp add: mm')
    moreover have "frame_used mm' j = frame_used mm1 j" for j by (simp add: mm' frame_used_def)
    moreover have "kmem mm' (p + d) = kmem mm1 (p + d)" if "d < 0x1000" for d
      using write32_other_page [OF page_aligned_page_of p(1) _ pt_idx_less that] p(6) [OF pd_idx_less 2(2)]
      by (simp add: mm')
    ultimately show ?thesis using p by (simp add: data_frame_def)
  qed
  then show "data_frame mm' pdir p" and "d < 0x1000 \<Longrightarrow> kmem mm' (p + d) = kmem mm (p + d)"
    and "frame_used mm j \<Longrightarrow> frame_used mm' j" using 1(2,3) by simp_all
qed

subsection \<open>Properties\<close>

definition demo_mm :: mm_state where
  \<comment> \<open>an empty directory above the managed memory, and one frame in use\<close>
  "demo_mm = \<lparr>kmem = (\<lambda>_. 0), frame_bitmap = 1 # replicate 127 0\<rparr>"

lemma demo_mm_wf: "pd_wf demo_mm 0x2000000"
  by (simp add: pd_wf_def frames_inv_def frame_used_def bitmap_test_def protected_page_def page_aligned_def
      demo_mm_def IDENT_PAGES_def NUM_PT_def DIR_SIZE_def FRAME_def read32_def of_le32_def unat_div)

text \<open>
  C12. Mapping a page. On a well-formed directory \<open>mm_map_at\<close> succeeds exactly if the page is not
  mapped and its table exists or a frame is free for it; then the entry of the page is the physical
  page with the flags and the entry of every other address is what it was. If it fails it returns
  -1 and changes nothing, not even the allocator. The directory stays well formed.
\<close>
theorem mm_map_at_correct:
  assumes "pd_wf mm pdir" and "mm_map_at pdir va pa flags mm = (r, mm')"
  shows "pd_wf mm' pdir \<and> r \<in> {0, -1} \<and>
    (r = 0 \<longleftrightarrow> mm_get_pte pdir va mm AND MM_PRESENT = 0 \<and>
      (pde_present mm pdir (pd_idx va) \<or> (\<exists>i < IDENT_PAGES. \<not> frame_used mm i))) \<and>
    (\<forall>va'. mm_get_pte pdir va' mm' =
      (if r = 0 \<and> page_of va' = page_of va then page_of pa OR flags else mm_get_pte pdir va' mm)) \<and>
    (r = 0 \<or> mm' = mm)"
  using mm_map_at_spec [OF assms] mm_map_at_failed [OF assms] by blast

theorem mm_map_at_correct_witness:
  "\<exists>r mm'. mm_map_at 0x2000000 0x8048000 0x5000 7 demo_mm = (r, mm') \<and> pd_wf mm' 0x2000000 \<and> r = 0 \<and>
    mm_get_pte 0x2000000 0x8048123 mm' = 0x5007"
proof -
  obtain r mm' where eq: "mm_map_at 0x2000000 0x8048000 0x5000 7 demo_mm = (r, mm')" by fastforce
  have "mm_get_pte 0x2000000 0x8048000 demo_mm = 0"
    by (simp add: mm_get_pte_def Let_def demo_mm_def read32_def of_le32_def)
  moreover have "\<not> frame_used demo_mm 1" "1 < IDENT_PAGES"
    by (simp_all add: frame_used_def bitmap_test_def demo_mm_def IDENT_PAGES_def NUM_PT_def DIR_SIZE_def)
  ultimately have "r = 0" "pd_wf mm' 0x2000000" "mm_get_pte 0x2000000 0x8048123 mm' = 0x5007"
    using mm_map_at_correct [OF demo_mm_wf eq] by (auto simp del: One_nat_def)
  then show ?thesis using eq by blast
qed

lemma mm_alloc_at_spec:
  assumes wf: "pd_wf mm pdir" and eq: "mm_alloc_at pdir va flags mm = (r, mm')"
  shows "pd_wf mm' pdir \<and>
    ((\<exists>f. r = va \<and> mm_get_pte pdir va mm AND MM_PRESENT = 0 \<and> page_aligned f \<and> f \<noteq> 0 \<and> \<not> frame_used mm (unat (f div FRAME)) \<and>
        data_frame mm' pdir f \<and> (\<forall>d. d < 0x1000 \<longrightarrow> kmem mm' (f + d) = 0) \<and>
        (\<forall>va'. mm_get_pte pdir va' mm' =
           (if page_of va' = page_of va then f OR flags else mm_get_pte pdir va' mm))) \<or>
     (r = 0 \<and> (\<forall>i. frame_used mm' i = frame_used mm i) \<and>
        (\<forall>va'. mm_get_pte pdir va' mm' = mm_get_pte pdir va' mm)))"
proof -
  have fi: "frames_inv mm" "frame_used mm 0" using wf by (simp_all add: pd_wf_def)
  from fi show ?thesis
  proof (cases rule: frame_alloc_cases)
    case full
    then show ?thesis using eq wf by (auto simp: mm_alloc_at_def)
  next
    case (fresh f n mm1)
    define mm2 where "mm2 = mm1\<lparr>kmem := zero_frame f (kmem mm)\<rparr>"
    obtain r3 mm3 where map: "mm_map_at pdir va f flags mm2 = (r3, mm3)" by fastforce
    have used2: "frame_used mm2 j \<longleftrightarrow> frame_used mm j \<or> j = n" for j
      using fresh(9) [of j] by (simp add: mm2_def frame_used_def)
    have ptoff: "t \<noteq> f" if "protected_page mm t" for t
      using that fresh(4-6) by (auto simp: protected_page_def)
    have m2: "entry (kmem mm2) t k = entry (kmem mm) t k"
      if "k < 1024" "page_aligned t" "protected_page mm t" for t k
      using entry_zero_frame [OF fresh(3) that(2,1)] ptoff [OF that(3)] by (simp add: mm2_def)
    have inv2: "frames_inv mm2" using fresh(8) by (simp add: mm2_def frames_inv_def)
    note mono = pd_wf_mono [OF wf inv2 _ m2]
    have wf2: "pd_wf mm2 pdir" and view2: "\<And>v. mm_get_pte pdir v mm2 = mm_get_pte pdir v mm"
      and pde2: "\<And>i. i < 1024 \<Longrightarrow> entry (kmem mm2) pdir i = entry (kmem mm) pdir i"
      using mono used2 by auto
    note spec = mm_map_at_spec [OF wf2 map]
    show ?thesis
    proof (cases "r3 = 0")
      case True
      then have res: "r = va" "mm' = mm3"
        using eq fresh(1,2,7) map by (simp_all add: mm_alloc_at_def mm2_def)
      have "frame_used mm2 (unat (f div FRAME))" "f \<noteq> pdir"
        using used2 fresh(5) ptoff wf by (auto simp: pd_wf_def)
      moreover have "table_of mm2 pdir i \<noteq> f" if "i < 1024" "pde_present mm2 pdir i" for i
        using pd_wf_tables(2) [OF wf that(1)] that(2) ptoff pde2 [OF that(1)] by auto
      moreover have "unat (f div FRAME) < IDENT_PAGES" using fresh(4,5) by simp
      ultimately have "data_frame mm2 pdir f" using fresh(2,3) by (simp add: data_frame_def)
      from map_at_keeps_page [OF wf2 map this]
      have keep: "\<And>d. d < 0x1000 \<Longrightarrow> kmem mm3 (f + d) = kmem mm2 (f + d)" and "data_frame mm3 pdir f"
        by auto
      moreover have "kmem mm2 (f + d) = 0" if "d < 0x1000" for d
        using zero_frame_byte [OF fresh(3,3) that] by (simp add: mm2_def)
      moreover have "page_of f = f" using page_of_aligned [OF fresh(3)] .
      ultimately show ?thesis using res spec fresh True view2 by (intro conjI disjI1 exI [of _ f]) auto
    next
      case False
      then have res: "r = 0" "mm' = mm_frame_free f mm2"
        using eq fresh(1,2,7) map spec(4) mm_map_at_failed [OF wf2 map]
        by (simp_all add: mm_alloc_at_def mm2_def)
      have idx: "unat (f div FRAME) < IDENT_PAGES" using fresh(4,5) by simp
      note free = frame_free_used [OF inv2 idx]
      have used': "frame_used mm' j = frame_used mm j" for j
        using free(1) used2 fresh(5,6) by (auto simp: res)
      have "entry (kmem mm') t k = entry (kmem mm) t k"
        if "k < 1024" "page_aligned t" "protected_page mm t" for t k
        using m2 [OF that] free(3) by (simp add: res)
      then have "pd_wf mm' pdir" "mm_get_pte pdir v mm' = mm_get_pte pdir v mm" for v
        using pd_wf_mono [OF wf, of mm'] free(2) used' by (auto simp: res)
      then show ?thesis using res(1) used' by blast
    qed
  qed
qed

lemma map_at_used_mono:
  assumes "frames_inv mm" "frame_used mm 0" and "mm_map_at pdir va pa flags mm = (r, mm')" and "frame_used mm j"
  shows "frame_used mm' j"
proof -
  obtain ok mm1 where en: "ensure_table pdir va mm = (ok, mm1)" by fastforce
  have "frame_used mm1 j"
    using assms(1,2)
  proof (cases rule: frame_alloc_cases)
    case full
    then show ?thesis using en assms(4) by (auto simp: ensure_table_def split: if_splits)
  next
    case (fresh f n mm2)
    have "frame_used (mm2\<lparr>kmem := x\<rparr>) j" for x
      using fresh(9) [of j] assms(4) by (simp add: frame_used_def)
    then show ?thesis
      using en assms(4) fresh(1,2) by (auto simp: ensure_table_def split: if_splits)
  qed
  moreover have "frame_used (mm1\<lparr>kmem := x\<rparr>) j = frame_used mm1 j" for x by (simp add: frame_used_def)
  ultimately show ?thesis using assms(3) en by (auto simp: mm_map_at_def Let_def split: if_splits)
qed

lemma mm_alloc_at_used_mono:
  assumes inv: "frames_inv mm" "frame_used mm 0" and eq: "mm_alloc_at pdir va flags mm = (r, mm')"
    and "frame_used mm j" and "r \<noteq> 0"
  shows "frame_used mm' j"
  using inv
proof (cases rule: frame_alloc_cases)
  case full
  then show ?thesis using eq assms(4) by (auto simp: mm_alloc_at_def)
next
  case (fresh f n mm1)
  let ?mm2 = "mm1\<lparr>kmem := zero_frame f (kmem mm1)\<rparr>"
  obtain r3 mm3 where map: "mm_map_at pdir va f flags ?mm2 = (r3, mm3)" by fastforce
  have "mm' = mm3" using eq fresh(1,2) map assms(5) by (auto simp: mm_alloc_at_def split: if_splits)
  moreover have "frame_used ?mm2 i = frame_used mm1 i" for i by (simp add: frame_used_def)
  moreover have "frames_inv ?mm2" using fresh(8) by (simp add: frames_inv_def)
  moreover have "frame_used mm1 0" "frame_used mm1 j" using fresh(9) inv(2) assms(4) by simp_all
  ultimately show ?thesis using map_at_used_mono [OF _ _ map] by blast
qed

lemma mm_alloc_at_keeps:
  assumes wf: "pd_wf mm pdir" and eq: "mm_alloc_at pdir va flags mm = (r, mm')" and d: "data_frame mm pdir p"
  shows "data_frame mm' pdir p" and "d < 0x1000 \<Longrightarrow> kmem mm' (p + d) = kmem mm (p + d)"
    and "frame_used mm j \<Longrightarrow> frame_used mm' j"
proof -
  have fi: "frames_inv mm" "frame_used mm 0" using wf by (simp_all add: pd_wf_def)
  note p = data_frameD [OF d]
  from fi have "data_frame mm' pdir p \<and> (\<forall>d. d < 0x1000 \<longrightarrow> kmem mm' (p + d) = kmem mm (p + d)) \<and>
    (\<forall>j. frame_used mm j \<longrightarrow> frame_used mm' j)"
  proof (cases rule: frame_alloc_cases)
    case full
    then show ?thesis using eq d by (auto simp: mm_alloc_at_def)
  next
    case (fresh f n mm1)
    define mm2 where "mm2 = mm1\<lparr>kmem := zero_frame f (kmem mm)\<rparr>"
    obtain r3 mm3 where map: "mm_map_at pdir va f flags mm2 = (r3, mm3)" by fastforce
    have used2: "frame_used mm2 j \<longleftrightarrow> frame_used mm j \<or> j = n" for j
      using fresh(9) [of j] by (simp add: mm2_def frame_used_def)
    have off: "t \<noteq> f" if "protected_page mm t" for t
      using that fresh(4-6) by (auto simp: protected_page_def)
    have m2: "entry (kmem mm2) t k = entry (kmem mm) t k"
      if "k < 1024" "page_aligned t" "protected_page mm t" for t k
      using entry_zero_frame [OF fresh(3) that(2,1)] off [OF that(3)] by (simp add: mm2_def)
    have inv2: "frames_inv mm2" using fresh(8) by (simp add: mm2_def frames_inv_def)
    have wf2: "pd_wf mm2 pdir" and pde2: "\<And>i. i < 1024 \<Longrightarrow> entry (kmem mm2) pdir i = entry (kmem mm) pdir i"
      using pd_wf_mono [OF wf inv2 _ m2] used2 by auto
    have "f \<noteq> p" using p(4) fresh(5,6) by auto
    then have c2: "kmem mm2 (p + d) = kmem mm (p + d)" if "d < 0x1000" for d
      using zero_frame_byte [OF fresh(3) p(1) that] by (simp add: mm2_def)
    have "data_frame mm2 pdir p" using p used2 pde2 by (simp add: data_frame_def)
    note k = map_at_keeps_page [OF wf2 map this]
    show ?thesis
    proof (cases "r3 = 0")
      case True
      then have "mm' = mm3" using eq fresh(1,2,7) map by (simp add: mm_alloc_at_def mm2_def)
      then show ?thesis using k c2 used2 by simp
    next
      case False
      then have res: "mm' = mm_frame_free f mm2" "mm3 = mm2"
        using eq fresh(1,2,7) map mm_map_at_spec(4) [OF wf2 map] mm_map_at_failed [OF wf2 map]
        by (simp_all add: mm_alloc_at_def mm2_def)
      have idx: "unat (f div FRAME) < IDENT_PAGES" using fresh(4,5) by simp
      note free = frame_free_used [OF inv2 idx]
      have "frame_used mm' j" if "frame_used mm j" for j
        using free(1) used2 fresh(5,6) that by (auto simp: res)
      then show ?thesis using p pde2 c2 free(3) by (simp add: res data_frame_def)
    qed
  qed
  then show "data_frame mm' pdir p" and "d < 0x1000 \<Longrightarrow> kmem mm' (p + d) = kmem mm (p + d)"
    and "frame_used mm j \<Longrightarrow> frame_used mm' j" by blast+
qed

text \<open>
  C13. Allocating a page. \<open>mm_alloc_at\<close> either maps a page frame that nobody had, filled with zeros,
  at the address, where nothing was mapped, and leaves every other mapping alone; or it returns 0, and then neither a mapping
  nor the set of frames in use has changed: the frame taken on the way is given back.
\<close>
theorem mm_alloc_at_correct:
  assumes "pd_wf mm pdir" and "mm_alloc_at pdir va flags mm = (r, mm')"
  shows "pd_wf mm' pdir \<and>
    ((\<exists>f. r = va \<and> mm_get_pte pdir va mm AND MM_PRESENT = 0 \<and> page_aligned f \<and> f \<noteq> 0 \<and> \<not> frame_used mm (unat (f div FRAME)) \<and>
        data_frame mm' pdir f \<and> (\<forall>d. d < 0x1000 \<longrightarrow> kmem mm' (f + d) = 0) \<and>
        (\<forall>va'. mm_get_pte pdir va' mm' =
           (if page_of va' = page_of va then f OR flags else mm_get_pte pdir va' mm))) \<or>
     (r = 0 \<and> (\<forall>i. frame_used mm' i = frame_used mm i) \<and>
        (\<forall>va'. mm_get_pte pdir va' mm' = mm_get_pte pdir va' mm)))"
  using mm_alloc_at_spec [OF assms] .

theorem mm_alloc_at_correct_witness:
  "\<exists>r mm'. mm_alloc_at 0x2000000 0x8048000 7 demo_mm = (r, mm') \<and> pd_wf mm' 0x2000000"
proof -
  obtain r mm' where eq: "mm_alloc_at 0x2000000 0x8048000 7 demo_mm = (r, mm')" by fastforce
  then show ?thesis using mm_alloc_at_correct [OF demo_mm_wf eq] by blast
qed

lemma mm_unmap_at_spec:
  assumes wf: "pd_wf mm pdir"
    and own: "page_of (mm_get_pte pdir va mm) \<noteq> pdir" "page_of (mm_get_pte pdir va mm) \<noteq> 0"
      "\<And>i. i < 1024 \<Longrightarrow> pde_present mm pdir i \<Longrightarrow> table_of mm pdir i \<noteq> page_of (mm_get_pte pdir va mm)"
    and eq: "mm_unmap_at pdir va mm = (r, mm')"
  shows "if mm_get_pte pdir va mm AND MM_PRESENT = 0 then r = -1 \<and> mm' = mm
    else r = 0 \<and> pd_wf mm' pdir \<and>
      (\<forall>i. frame_used mm' i \<longleftrightarrow> frame_used mm i \<and> i \<noteq> unat (page_of (mm_get_pte pdir va mm) div FRAME)) \<and>
      (\<forall>va'. mm_get_pte pdir va' mm' = (if page_of va' = page_of va then 0 else mm_get_pte pdir va' mm))"
proof -
  let ?pte = "mm_get_pte pdir va mm" and ?i = "pd_idx va" and ?j = "pt_idx va"
  let ?f = "page_of ?pte"
  show ?thesis
  proof (cases "?pte AND MM_PRESENT = 0")
    case True
    then show ?thesis using eq by (auto simp: mm_unmap_at_def mm_get_pte_alt Let_def split: if_splits)
  next
    case False
    then have pr: "pde_present mm pdir ?i" by (auto simp: mm_get_pte_alt split: if_splits)
    define mm1 where "mm1 = mm_frame_free ?f mm"
    have res: "r = 0" "mm' = mm1\<lparr>kmem := set_entry (table_of mm pdir ?i) ?j 0 (kmem mm1)\<rparr>"
      using eq False pr by (simp_all add: mm_unmap_at_def mm_get_pte_alt mm1_def Let_def)
    have fi: "frames_inv mm" "frame_used mm 0" "page_aligned pdir" using wf by (simp_all add: pd_wf_def)
    have used1: "frame_used mm1 k \<longleftrightarrow> frame_used mm k \<and> k \<noteq> unat (?f div FRAME)" for k
      using frame_free_used(1) [OF fi(1)] by (cases "unat (?f div FRAME) < IDENT_PAGES")
        (auto simp: mm1_def mm_frame_free_def frame_used_def)
    have m1: "kmem mm1 = kmem mm" "frames_inv mm1"
      using fi(1) by (simp_all add: mm1_def mm_frame_free_def frames_inv_def bitmap_clear_def Let_def)
    have prot1: "protected_page mm1 a" if "protected_page mm a" "page_aligned a" "a \<noteq> ?f" for a
      using that page_index_inj [OF that(2) page_aligned_page_of] by (auto simp: protected_page_def used1)
    have "unat (?f div FRAME) \<noteq> 0"
      using page_index_inj [OF page_aligned_page_of, of 0 ?pte] own(2) by (auto simp: page_aligned_def)
    then have "frame_used mm1 0" using fi(2) used1 by simp
    then have wf1: "pd_wf mm1 pdir"
      using wf m1 own prot1 fi(3) page_aligned_page_of unfolding pd_wf_def by (auto simp: m1(1))
    have view1: "mm_get_pte pdir v mm1 = mm_get_pte pdir v mm" for v
      by (simp only: mm_get_pte_def m1(1))
    have "pde_present mm1 pdir ?i" "mm' = mm1\<lparr>kmem := set_entry (table_of mm1 pdir ?i) ?j 0 (kmem mm1)\<rparr>"
      using pr res(2) m1 by simp_all
    note w = write_pte [OF wf1 this(1) pd_idx_less pt_idx_less this(2)]
    moreover have "frame_used mm' k = frame_used mm1 k" for k by (simp add: res frame_used_def)
    ultimately show ?thesis
      using False res(1) used1 view1 same_page_iff [of _ va] by simp
  qed
qed

lemma mm_unmap_at_keeps:
  assumes wf: "pd_wf mm pdir" and eq: "mm_unmap_at pdir va mm = (r, mm')"
    and own: "mm_get_pte pdir va mm AND MM_PRESENT \<noteq> 0 \<Longrightarrow> data_frame mm pdir (page_of (mm_get_pte pdir va mm))"
    and d: "data_frame mm pdir p" and ne: "page_of (mm_get_pte pdir va mm) \<noteq> p"
  shows "data_frame mm' pdir p"
proof (cases "mm_get_pte pdir va mm AND MM_PRESENT = 0")
  case True
  then have "mm' = mm" using eq by (auto simp: mm_unmap_at_def mm_get_pte_alt Let_def split: if_splits)
  then show ?thesis using d by simp
next
  case False
  let ?f = "page_of (mm_get_pte pdir va mm)" and ?i = "pd_idx va"
  note own = data_frameD [OF own [OF False]]
  note p = data_frameD [OF d]
  have pr: "pde_present mm pdir ?i" using False by (auto simp: mm_get_pte_alt split: if_splits)
  have al: "page_aligned pdir" using wf by (simp add: pd_wf_def)
  have mm': "mm' = (mm_frame_free ?f mm)\<lparr>kmem := set_entry (table_of mm pdir ?i) (pt_idx va) 0 (kmem (mm_frame_free ?f mm))\<rparr>"
    using eq False pr by (simp add: mm_unmap_at_def mm_get_pte_alt Let_def)
  have k: "kmem (mm_frame_free x mm) = kmem mm" for x by (simp add: mm_frame_free_def Let_def)
  have "entry (kmem mm') pdir i = entry (kmem mm) pdir i" if "i < 1024" for i
    using entry_set_entry [OF page_aligned_page_of al pt_idx_less that] pd_wf_tables(1) [OF wf pd_idx_less pr]
    by (simp add: mm' k)
  moreover have "frame_used mm' (unat (p div FRAME))"
    using frame_free_used(1) [of mm ?f] own(3) wf p(4) page_index_inj [OF p(1) own(1)] ne
    by (auto simp: mm' pd_wf_def frame_used_def)
  ultimately show ?thesis using p by (simp add: data_frame_def)
qed

text \<open>
  C14. Unmapping a page that is mapped succeeds: its entry is 0 afterwards, its frame is free again
  and no other frame is, and every other mapping is what it was. (The page is assumed not to be the
  directory or one of its tables.) An address that is not mapped gives -1 and no change.
\<close>
theorem mm_unmap_at_correct:
  assumes wf: "pd_wf mm pdir"
    and own: "page_of (mm_get_pte pdir va mm) \<noteq> pdir" "page_of (mm_get_pte pdir va mm) \<noteq> 0"
      "\<And>i. i < 1024 \<Longrightarrow> pde_present mm pdir i \<Longrightarrow> table_of mm pdir i \<noteq> page_of (mm_get_pte pdir va mm)"
    and eq: "mm_unmap_at pdir va mm = (r, mm')"
  shows "if mm_get_pte pdir va mm AND MM_PRESENT = 0 then r = -1 \<and> mm' = mm
    else r = 0 \<and> pd_wf mm' pdir \<and>
      (\<forall>i. frame_used mm' i \<longleftrightarrow> frame_used mm i \<and> i \<noteq> unat (page_of (mm_get_pte pdir va mm) div FRAME)) \<and>
      (\<forall>va'. mm_get_pte pdir va' mm' = (if page_of va' = page_of va then 0 else mm_get_pte pdir va' mm))"
  using mm_unmap_at_spec [OF assms(1-3) _ eq] own(3) by simp

definition demo_mapped :: mm_state where
  \<comment> \<open>the directory with one page mapped: entry 32 refers to the table at 0x3000, whose entry 72 maps
      the frame at 0x5000\<close>
  "demo_mapped = \<lparr>kmem = write32 0x3120 0x5007 (write32 0x2000080 0x3007 (\<lambda>_. 0)),
     frame_bitmap = 0x29 # replicate 127 0\<rparr>"

lemma demo_mapped_entry:
  assumes "i < 1024"
  shows "entry (kmem demo_mapped) 0x2000000 i = (if i = 32 then 0x3007 else 0)"
proof -
  have al: "page_aligned 0x2000000" "page_aligned 0x3000" by (simp_all add: page_aligned_def)
  have km: "kmem demo_mapped = set_entry 0x3000 72 0x5007 (set_entry 0x2000000 32 0x3007 (\<lambda>_. 0))"
    by (simp add: demo_mapped_def)
  have "entry (\<lambda>_. 0) t i = 0" for t by (simp add: read32_def of_le32_def)
  then show ?thesis
    unfolding km using entry_set_entry [OF al(2,1) _ assms, of 72] entry_set_entry [OF al(1,1) _ assms, of 32]
    by auto
qed

lemma demo_mapped_wf: "pd_wf demo_mapped 0x2000000"
proof -
  have present: "pde_present demo_mapped 0x2000000 i \<longleftrightarrow> i = 32" if "i < 1024" for i
    using demo_mapped_entry [OF that] by (simp add: MM_PRESENT_def)
  have tab: "table_of demo_mapped 0x2000000 32 = 0x3000" using demo_mapped_entry [of 32] by simp
  have "frames_inv demo_mapped" "frame_used demo_mapped 0" "frame_used demo_mapped 3"
    by (simp_all add: frames_inv_def frame_used_def bitmap_test_def demo_mapped_def IDENT_PAGES_def
        NUM_PT_def DIR_SIZE_def)
  moreover have "page_aligned 0x2000000" by (simp add: page_aligned_def)
  moreover have "protected_page demo_mapped 0x3000" "protected_page demo_mapped 0x2000000"
    using \<open>frame_used demo_mapped 3\<close>
    by (simp_all add: protected_page_def FRAME_def unat_div IDENT_PAGES_def NUM_PT_def DIR_SIZE_def)
  ultimately show ?thesis unfolding pd_wf_def using present tab by auto
qed

lemma demo_mapped_pte: "mm_get_pte 0x2000000 0x8048000 demo_mapped = 0x5007"
proof -
  have al: "page_aligned 0x3000" by (simp add: page_aligned_def)
  have idx: "pd_idx 0x8048000 = 32" "pt_idx 0x8048000 = 72" by (simp_all add: pd_idx_def pt_idx_def)
  have "entry (kmem demo_mapped) 0x3000 72 = 0x5007"
    using entry_set_entry [OF al al, of 72 72 "0x5007"] by (simp add: demo_mapped_def)
  then show ?thesis using demo_mapped_entry [of 32] by (simp add: mm_get_pte_alt idx MM_PRESENT_def)
qed

theorem mm_unmap_at_correct_witness:
  "\<exists>mm'. mm_unmap_at 0x2000000 0x8048000 demo_mapped = (0, mm') \<and> pd_wf mm' 0x2000000 \<and>
    \<not> frame_used mm' 5 \<and> mm_get_pte 0x2000000 0x8048000 mm' = 0"
proof -
  obtain r mm' where eq: "mm_unmap_at 0x2000000 0x8048000 demo_mapped = (r, mm')" by fastforce
  have "table_of demo_mapped 0x2000000 i \<noteq> 0x5000"
    if "i < 1024" "pde_present demo_mapped 0x2000000 i" for i
    using demo_mapped_entry [OF that(1)] that(2) by (simp split: if_splits)
  then have "r = 0 \<and> pd_wf mm' 0x2000000 \<and> \<not> frame_used mm' 5 \<and> mm_get_pte 0x2000000 0x8048000 mm' = 0"
    using mm_unmap_at_correct [OF demo_mapped_wf _ _ _ eq]
    by (simp add: demo_mapped_pte MM_PRESENT_def FRAME_def unat_div)
  then show ?thesis using eq by blast
qed

end
