(* ===== verification/Signal.thy ===== *)
theory Signal
  imports Process
begin

text \<open>
  Signals (\<open>kernel/signal.c\<close>): the system calls on masks and handlers, delivery on the way back to
  user mode, and \<open>rt_sigreturn\<close>. The user's memory, which the code reaches by loading the task's
  page directory, is an argument; the \<open>iret\<close> frame on the kernel stack is a record.
\<close>

subsection \<open>Data\<close>

definition SIGKILL :: nat where "SIGKILL = 9"
definition SIGSTOP :: nat where "SIGSTOP = 19"
definition SIGCONT :: nat where "SIGCONT = 18"
definition SIG_DFL :: u32 where "SIG_DFL = 0"
definition SIG_IGN :: u32 where "SIG_IGN = 1"
definition SA_NODEFER :: u32 where "SA_NODEFER = 0x40000000"

record sigaction =
  sa_handler :: u32
  sa_mask :: u32
  sa_flags :: u32

record sigframe =
  saved_eip :: u32
  saved_cs :: u32
  saved_eflags :: u32
  saved_esp :: u32
  saved_ss :: u32
  saved_mask :: u32
  trampoline :: "u8 list"

record iret_frame =
  i_eip :: u32
  i_cs :: u32
  i_eflags :: u32
  i_user_esp :: u32
  i_ss :: u32

definition sigframe_bytes :: "sigframe \<Rightarrow> u8 list" where
  \<comment> \<open>the packed layout of \<open>struct sigframe\<close>\<close>
  "sigframe_bytes sf = le32 (saved_eip sf) @ le32 (saved_cs sf) @ le32 (saved_eflags sf) @
     le32 (saved_esp sf) @ le32 (saved_ss sf) @ le32 (saved_mask sf) @ trampoline sf"

definition unblockable :: u32 where
  \<comment> \<open>\<open>(1 << (SIGKILL - 1)) | (1 << (SIGSTOP - 1))\<close>\<close>
  "unblockable = sigbit SIGKILL OR sigbit SIGSTOP"

subsection \<open>System calls\<close>

definition signal_default_terminates :: "nat \<Rightarrow> bool" where
  "signal_default_terminates sig \<longleftrightarrow> \<not> (int sig = SIGCHLD \<or> sig = SIGCONT)"

definition sys_kill :: "int \<Rightarrow> int \<Rightarrow> sched_state \<Rightarrow> int \<times> sched_state" where
  "sys_kill p sig s =
     (if sig < 1 \<or> sig \<ge> int NSIG then (-1, s)
      else if p \<le> 0 then (-1, s)
      else (0, signal_send p sig s))"

definition sys_signal :: "int \<Rightarrow> u32 \<Rightarrow> sched_state \<Rightarrow> int \<times> sched_state" where
  "sys_signal signum handler s =
     (case scheduler_get_current s of
        None \<Rightarrow> (-1, s)
      | Some c \<Rightarrow>
          if signum < 1 \<or> signum \<ge> int NSIG then (-1, s)
          else if signum = int SIGKILL \<or> signum = int SIGSTOP then (-1, s)
          else (sint (signal_handlers (tasks s c) ! nat signum),
                upd_task c (\<lambda>t. t\<lparr>signal_handlers := (signal_handlers t)[nat signum := handler]\<rparr>) s))"

definition sys_rt_sigaction ::
    "int \<Rightarrow> sigaction option \<Rightarrow> bool \<Rightarrow> sched_state \<Rightarrow> int \<times> sigaction option \<times> sched_state" where
  \<comment> \<open>the middle component is what \<open>*oldact\<close> is set to, if \<open>oldact\<close> is not null\<close>
  "sys_rt_sigaction signum act oldact s =
     (case scheduler_get_current s of
        None \<Rightarrow> (-1, None, s)
      | Some c \<Rightarrow>
          if signum < 1 \<or> signum \<ge> int NSIG then (-1, None, s)
          else if signum = int SIGKILL \<or> signum = int SIGSTOP then (-1, None, s)
          else (let n = nat signum; t = tasks s c;
                    old = (if oldact
                           then Some \<lparr>sa_handler = signal_handlers t ! n,
                                      sa_mask = signal_handlers_mask t ! n,
                                      sa_flags = signal_handlers_flags t ! n\<rparr>
                           else None)
                in (0, old,
                    (case act of
                       None \<Rightarrow> s
                     | Some a \<Rightarrow> upd_task c (\<lambda>t. t\<lparr>
                         signal_handlers := (signal_handlers t)[n := sa_handler a],
                         signal_handlers_mask := (signal_handlers_mask t)[n := sa_mask a],
                         signal_handlers_flags := (signal_handlers_flags t)[n := sa_flags a]\<rparr>) s))))"

definition sigprocmask_apply :: "int \<Rightarrow> u32 \<Rightarrow> u32 \<Rightarrow> u32 option" where
  \<comment> \<open>the \<open>switch (how)\<close>\<close>
  "sigprocmask_apply how new_mask old_mask =
     (if how = 0 then Some (old_mask OR new_mask)
      else if how = 1 then Some (old_mask AND NOT new_mask)
      else if how = 2 then Some new_mask
      else None)"

definition sys_rt_sigprocmask ::
    "int \<Rightarrow> u32 option \<Rightarrow> bool \<Rightarrow> sched_state \<Rightarrow> int \<times> u32 option \<times> sched_state" where
  "sys_rt_sigprocmask how newset oldset s =
     (case scheduler_get_current s of
        None \<Rightarrow> (-1, None, s)
      | Some c \<Rightarrow>
         (let old = (if oldset then Some (signal_mask (tasks s c)) else None) in
          case newset of
            None \<Rightarrow> (0, old, s)
          | Some new_mask \<Rightarrow>
             (case sigprocmask_apply how new_mask (signal_mask (tasks s c)) of
                None \<Rightarrow> (-1, old, s)
              | Some m \<Rightarrow> (0, old,
                  upd_task c (\<lambda>t. t\<lparr>signal_mask := m AND NOT unblockable\<rparr>) s))))"

definition sys_rt_sigreturn ::
    "mem \<Rightarrow> iret_frame \<Rightarrow> sched_state \<Rightarrow> int \<times> iret_frame \<times> sched_state" where
  "sys_rt_sigreturn um fr s =
     (case scheduler_get_current s of
        None \<Rightarrow> (-1, fr, s)
      | Some c \<Rightarrow>
         (let a = signal_sigframe (tasks s c) in
          if a = 0 then (-1, fr, s)
          else (0,
                \<lparr>i_eip = read32 um a, i_cs = read32 um (a + 4), i_eflags = read32 um (a + 8),
                 i_user_esp = read32 um (a + 12), i_ss = read32 um (a + 16)\<rparr>,
                upd_task c (\<lambda>t. t\<lparr>signal_sigframe := 0, signal_mask := read32 um (a + 20)\<rparr>) s)))"

subsection \<open>Delivery\<close>

definition lowest_signal :: "u32 \<Rightarrow> nat option" where
  "lowest_signal pending = find (\<lambda>sig. pending AND sigbit sig \<noteq> 0) [1..<NSIG]"

definition push_sigframe ::
    "nat \<Rightarrow> u32 \<Rightarrow> nat \<Rightarrow> iret_frame \<Rightarrow> mem \<Rightarrow> sched_state \<Rightarrow> iret_frame \<times> mem \<times> sched_state" where
  \<comment> \<open>the user-handler part of \<open>signal_check_and_deliver\<close>\<close>
  "push_sigframe c handler sig fr um s =
     (let t = tasks s c;
          old_esp = i_user_esp fr;
          sf = \<lparr>saved_eip = i_eip fr, saved_cs = i_cs fr, saved_eflags = i_eflags fr,
                saved_esp = old_esp, saved_ss = i_ss fr, saved_mask = signal_mask t,
                trampoline = [0xB8, 0xAD, 0x00, 0x00, 0x00, 0xCD, 0x80, 0x00]\<rparr>;
          frame_esp = old_esp - 32;
          trampoline_addr = frame_esp + 24;
          new_esp = frame_esp - 8;
          um1 = write_bytes new_esp (le32 trampoline_addr) um;
          um2 = write_bytes (new_esp + 4) (le32 (of_nat sig)) um1;
          um3 = write_bytes frame_esp (sigframe_bytes sf) um2;
          mask1 = (if signal_handlers_flags t ! sig AND SA_NODEFER = 0
                   then signal_mask t OR sigbit sig else signal_mask t);
          mask2 = mask1 OR signal_handlers_mask t ! sig;
          mask3 = mask2 AND NOT unblockable
      in (fr\<lparr>i_eip := handler, i_user_esp := new_esp\<rparr>, um3,
          upd_task c (\<lambda>t. t\<lparr>signal_sigframe := frame_esp, signal_mask := mask3\<rparr>) s))"

lemma bit_sigbit: "1 \<le> sig \<Longrightarrow> bit (sigbit sig) n \<longleftrightarrow> n = sig - 1 \<and> n < 32"
  by (auto simp: sigbit_def bit_simps)

lemma and_sigbit: "w AND sigbit sig \<noteq> 0 \<longleftrightarrow> bit w (sig - 1)"
  by (simp add: sigbit_def push_bit_eq_mult and_exp_eq_0_iff_not_bit)

lemma clear_bit_less:
  assumes "bit (w :: u32) n"
  shows "unat (w AND NOT (push_bit n 1)) < unat w"
proof -
  have "w AND NOT (push_bit n 1) \<noteq> w"
  proof
    assume "w AND NOT (push_bit n 1) = w"
    then have "bit (w AND NOT (push_bit n 1)) n = bit w n" by simp
    moreover have "n < 32" using assms bit_imp_le_length by fastforce
    ultimately show False using assms by (simp add: bit_simps)
  qed
  moreover have "w AND NOT (push_bit n 1) \<le> w" by (simp add: word_and_le2)
  ultimately show ?thesis by (simp add: word_less_nat_alt [symmetric])
qed

lemma lowest_signal_Some:
  assumes "lowest_signal pending = Some sig"
  shows "1 \<le> sig" "sig < NSIG" "bit pending (sig - 1)"
  using assms find_SomeD [of _ "[1..<NSIG]" sig]
  by (auto simp: lowest_signal_def NSIG_def and_sigbit dest!: find_SomeD)

lemma clear_lowest_less:
  "lowest_signal pending = Some sig \<Longrightarrow> unat (pending AND NOT (sigbit sig)) < unat pending"
  unfolding sigbit_def by (rule clear_bit_less) (rule lowest_signal_Some(3))

function deliver_loop ::
    "nat \<Rightarrow> u32 \<Rightarrow> iret_frame \<Rightarrow> mem \<Rightarrow> sched_state \<Rightarrow> (iret_frame \<times> mem \<times> sched_state) option" where
  \<comment> \<open>\<open>while (pending)\<close> in \<open>signal_check_and_deliver\<close>\<close>
  "deliver_loop c pending fr um s =
     (if pending = 0 then Some (fr, um, s)
      else case lowest_signal pending of
        None \<Rightarrow> Some (fr, um, s)
      | Some sig \<Rightarrow>
         (let pending' = pending AND NOT (sigbit sig);
              s1 = upd_task c (\<lambda>t. t\<lparr>pending_signals := pending_signals t AND NOT (sigbit sig)\<rparr>) s;
              handler = signal_handlers (tasks s1 c) ! sig
          in if sig = SIGKILL \<or> sig = SIGSTOP then do {
               s2 \<leftarrow> task_exit (task_set_exit_status (int sig) s1);
               Some (fr, um, s2)
             }
             else if handler = SIG_IGN then deliver_loop c pending' fr um s1
             else if handler = SIG_DFL then
               (if \<not> signal_default_terminates sig then deliver_loop c pending' fr um s1
                else do {
                  s2 \<leftarrow> task_exit (task_set_exit_status (int sig) s1);
                  Some (fr, um, s2)
                })
             else Some (push_sigframe c handler sig fr um s1)))"
  by pat_completeness auto

termination deliver_loop
proof (relation "measure (\<lambda>(c, pending, fr, um, s). unat pending)")
qed (auto simp: clear_lowest_less)

definition signal_check_and_deliver ::
    "iret_frame \<Rightarrow> mem \<Rightarrow> sched_state \<Rightarrow> (iret_frame \<times> mem \<times> sched_state) option" where
  "signal_check_and_deliver fr um s =
     (case scheduler_get_current s of
        None \<Rightarrow> Some (fr, um, s)
      | Some c \<Rightarrow>
          if \<not> is_user (tasks s c) then Some (fr, um, s)
          else if i_cs fr \<noteq> 0x1B then Some (fr, um, s)
          else deliver_loop c (pending_signals (tasks s c) AND NOT (signal_mask (tasks s c))) fr um s)"

declare deliver_loop.simps [simp del]

subsection \<open>A handler call and its return\<close>

lemma length_sigframe_bytes: "length (sigframe_bytes sf) = 24 + length (trampoline sf)"
  by (simp add: sigframe_bytes_def)

lemma read32_sigframe:
  assumes "length (trampoline sf) = 8"
  shows "read32 (write_bytes a (sigframe_bytes sf) m) a = saved_eip sf"
    and "read32 (write_bytes a (sigframe_bytes sf) m) (a + 4) = saved_cs sf"
    and "read32 (write_bytes a (sigframe_bytes sf) m) (a + 8) = saved_eflags sf"
    and "read32 (write_bytes a (sigframe_bytes sf) m) (a + 12) = saved_esp sf"
    and "read32 (write_bytes a (sigframe_bytes sf) m) (a + 16) = saved_ss sf"
    and "read32 (write_bytes a (sigframe_bytes sf) m) (a + 20) = saved_mask sf"
proof -
  have r: "read32 (write_bytes a (sigframe_bytes sf) m) (a + of_nat k) =
           of_le32 (take 4 (drop k (sigframe_bytes sf)))" if "k \<le> 20" for k
    using that assms by (intro read32_write_bytes) (simp_all add: length_sigframe_bytes)
  show "read32 (write_bytes a (sigframe_bytes sf) m) a = saved_eip sf"
    using r [of 0] by (simp add: sigframe_bytes_def of_le32_le32)
  show "read32 (write_bytes a (sigframe_bytes sf) m) (a + 4) = saved_cs sf"
    using r [of 4] by (simp add: sigframe_bytes_def of_le32_le32)
  show "read32 (write_bytes a (sigframe_bytes sf) m) (a + 8) = saved_eflags sf"
    using r [of 8] by (simp add: sigframe_bytes_def of_le32_le32)
  show "read32 (write_bytes a (sigframe_bytes sf) m) (a + 12) = saved_esp sf"
    using r [of 12] by (simp add: sigframe_bytes_def of_le32_le32)
  show "read32 (write_bytes a (sigframe_bytes sf) m) (a + 16) = saved_ss sf"
    using r [of 16] by (simp add: sigframe_bytes_def of_le32_le32)
  show "read32 (write_bytes a (sigframe_bytes sf) m) (a + 20) = saved_mask sf"
    using r [of 20] by (simp add: sigframe_bytes_def of_le32_le32)
qed

lemma push_sigframe_effect:
  assumes "push_sigframe c h sig fr um s = (fr', um', s')"
  obtains um2 sf m where
    "um' = write_bytes (i_user_esp fr - 32) (sigframe_bytes sf) um2"
    "sf = \<lparr>saved_eip = i_eip fr, saved_cs = i_cs fr, saved_eflags = i_eflags fr,
        saved_esp = i_user_esp fr, saved_ss = i_ss fr, saved_mask = signal_mask (tasks s c),
        trampoline = [0xB8, 0xAD, 0x00, 0x00, 0x00, 0xCD, 0x80, 0x00]\<rparr>"
    "um2 = write_bytes (i_user_esp fr - 32 - 8 + 4) (le32 (of_nat sig))
       (write_bytes (i_user_esp fr - 32 - 8) (le32 (i_user_esp fr - 32 + 24)) um)"
    "fr' = fr\<lparr>i_eip := h, i_user_esp := i_user_esp fr - 32 - 8\<rparr>"
    "s' = upd_task c (\<lambda>t. t\<lparr>signal_sigframe := i_user_esp fr - 32, signal_mask := m\<rparr>) s"
    "m AND unblockable = 0"
proof -
  have "(w AND NOT unblockable) AND unblockable = 0" for w :: u32
    by (simp add: bit_eq_iff bit_simps)
  then show ?thesis
    using assms by (intro that [OF _ refl refl]) (auto simp: push_sigframe_def Let_def)
qed

lemma sigreturn_undoes_push:
  assumes "current_task s = Some c" and "i_user_esp fr \<noteq> 32"
    and "push_sigframe c h sig fr um s = (fr', um', s')"
  shows "sys_rt_sigreturn um' fr'' s' = (0, fr, upd_task c (\<lambda>t. t\<lparr>signal_sigframe := 0\<rparr>) s)"
proof -
  obtain um2 sf m where eff:
    "um' = write_bytes (i_user_esp fr - 32) (sigframe_bytes sf) um2"
    "sf = \<lparr>saved_eip = i_eip fr, saved_cs = i_cs fr, saved_eflags = i_eflags fr,
        saved_esp = i_user_esp fr, saved_ss = i_ss fr, saved_mask = signal_mask (tasks s c),
        trampoline = [0xB8, 0xAD, 0x00, 0x00, 0x00, 0xCD, 0x80, 0x00]\<rparr>"
    "s' = upd_task c (\<lambda>t. t\<lparr>signal_sigframe := i_user_esp fr - 32, signal_mask := m\<rparr>) s"
    using push_sigframe_effect [OF assms(3)] by metis
  have len: "length (trampoline sf) = 8" using eff(2) by simp
  have "upd_task c (\<lambda>t. t\<lparr>signal_sigframe := 0, signal_mask := saved_mask sf\<rparr>) s' =
        upd_task c (\<lambda>t. t\<lparr>signal_sigframe := 0\<rparr>) s"
    by (simp add: eff(2,3) upd_task_def fun_eq_iff)
  then show ?thesis
    using assms(1,2) read32_sigframe [OF len, of "i_user_esp fr - 32" um2]
    by (simp add: sys_rt_sigreturn_def scheduler_get_current_def eff(1,3) Let_def) (simp add: eff(2))
qed

lemma write_bytes_below:
  \<comment> \<open>a word just below a copied object is not touched\<close>
  assumes "d \<in> {4, 8}" and "length bs \<le> 32"
  shows "read32 (write_bytes a bs m) (a - d) = read32 m (a - d)"
proof -
  have far: "write_bytes a bs m (a - e) = m (a - e)" if "e \<in> {1, 2, 3, 4, 5, 6, 7, 8}" for e
  proof -
    have "unat (- e) \<ge> 32"
      using that by (auto simp: unat_eq_nat_uint uint_word_ariths)
    then show ?thesis using assms(2) by (subst write_bytes_apply) simp_all
  qed
  have "a - d + 1 = a - (d - 1)" "a - d + 2 = a - (d - 2)" "a - d + 3 = a - (d - 3)"
    by (simp_all add: algebra_simps)
  then show ?thesis
    using far [of d] far [of "d - 1"] far [of "d - 2"] far [of "d - 3"] assms(1)
    by (auto simp: read32_def)
qed

lemma read32_le32_bytes: "read32 (write_bytes a (le32 w) m) a = w"
  using read32_write_bytes [of 0 "le32 w" a m] by (simp add: of_le32_le32)

lemma push_sigframe_call:
  assumes "push_sigframe c h sig fr um s = (fr', um', s')"
  shows "i_eip fr' = h"
    and "read32 um' (i_user_esp fr') = i_user_esp fr - 8"
    and "read32 um' (i_user_esp fr' + 4) = of_nat sig"
    and "map um' [i_user_esp fr - 8, i_user_esp fr - 7, i_user_esp fr - 6, i_user_esp fr - 5,
           i_user_esp fr - 4, i_user_esp fr - 3, i_user_esp fr - 2] =
         [0xB8, 0xAD, 0, 0, 0, 0xCD, 0x80]"
proof -
  let ?e = "i_user_esp fr - 32"
  obtain um2 sf m where eff:
    "um' = write_bytes ?e (sigframe_bytes sf) um2"
    "sf = \<lparr>saved_eip = i_eip fr, saved_cs = i_cs fr, saved_eflags = i_eflags fr,
        saved_esp = i_user_esp fr, saved_ss = i_ss fr, saved_mask = signal_mask (tasks s c),
        trampoline = [0xB8, 0xAD, 0x00, 0x00, 0x00, 0xCD, 0x80, 0x00]\<rparr>"
    "um2 = write_bytes (?e - 8 + 4) (le32 (of_nat sig)) (write_bytes (?e - 8) (le32 (?e + 24)) um)"
    "fr' = fr\<lparr>i_eip := h, i_user_esp := ?e - 8\<rparr>"
    using push_sigframe_effect [OF assms] by metis
  have len: "length (sigframe_bytes sf) = 32" by (simp add: length_sigframe_bytes eff(2))
  show "i_eip fr' = h" using eff(4) by simp
  have "read32 um' (?e - 8) = read32 um2 (?e - 8)"
    using len by (simp only: eff(1)) (intro write_bytes_below; simp)
  also have "\<dots> = read32 um2 (?e - 4 - 4)" by simp
  also have "\<dots> = read32 (write_bytes (?e - 8) (le32 (?e + 24)) um) (?e - 4 - 4)"
    using write_bytes_below [of 4 "le32 (of_nat sig)" "?e - 4"] by (simp add: eff(3))
  also have "\<dots> = ?e + 24" using read32_le32_bytes [of "?e - 8"] by simp
  finally show "read32 um' (i_user_esp fr') = i_user_esp fr - 8" using eff(4) by simp
  have "read32 um' (?e - 4) = read32 um2 (?e - 4)"
    using len by (simp only: eff(1)) (intro write_bytes_below; simp)
  also have "\<dots> = of_nat sig" using read32_le32_bytes [of "?e - 4" "of_nat sig"] by (simp add: eff(3))
  finally show "read32 um' (i_user_esp fr' + 4) = of_nat sig" using eff(4) by simp
  have tr: "um' (?e + of_nat k) = sigframe_bytes sf ! k" if "k < 32" for k
  proof -
    have "unat (of_nat k :: u32) = k" using that by (simp add: unat_of_nat)
    then show ?thesis using that len by (simp add: eff(1) write_bytes_apply)
  qed
  have "sigframe_bytes sf ! (24 + j) = trampoline sf ! j" for j
    by (simp add: sigframe_bytes_def nth_append)
  then have "um' (?e + of_nat (24 + j)) = trampoline sf ! j" if "j < 8" for j
    using tr [of "24 + j"] that by simp
  from this [of 0] this [of 1] this [of 2] this [of 3] this [of 4] this [of 5] this [of 6]
  show "map um' [i_user_esp fr - 8, i_user_esp fr - 7, i_user_esp fr - 6, i_user_esp fr - 5,
           i_user_esp fr - 4, i_user_esp fr - 3, i_user_esp fr - 2] =
         [0xB8, 0xAD, 0, 0, 0, 0xCD, 0x80]"
    by (simp add: eff(2))
qed

subsection \<open>Which signal is acted on\<close>

definition actionable :: "task \<Rightarrow> nat \<Rightarrow> bool" where
  \<comment> \<open>the signal kills, or runs a handler\<close>
  "actionable t sig \<longleftrightarrow> sig = SIGKILL \<or> sig = SIGSTOP \<or>
     (signal_handlers t ! sig \<noteq> SIG_IGN \<and>
      (signal_handlers t ! sig = SIG_DFL \<longrightarrow> signal_default_terminates sig))"

definition act_on ::
    "nat \<Rightarrow> nat \<Rightarrow> iret_frame \<Rightarrow> mem \<Rightarrow> sched_state \<Rightarrow> (iret_frame \<times> mem \<times> sched_state) option" where
  "act_on c sig fr um s =
     (if sig = SIGKILL \<or> sig = SIGSTOP \<or> signal_handlers (tasks s c) ! sig = SIG_DFL
      then map_option (\<lambda>s2. (fr, um, s2)) (task_exit (task_set_exit_status (int sig) s))
      else Some (push_sigframe c (signal_handlers (tasks s c) ! sig) sig fr um s))"

definition deliver_spec ::
    "nat \<Rightarrow> u32 \<Rightarrow> iret_frame \<Rightarrow> mem \<Rightarrow> sched_state \<Rightarrow> (iret_frame \<times> mem \<times> sched_state) option" where
  \<comment> \<open>the lowest actionable signal of \<open>pending\<close> is acted on; it and the ones below it are consumed\<close>
  "deliver_spec c pending fr um s =
     (let clear = (\<lambda>k. upd_task c
            (\<lambda>t. t\<lparr>pending_signals := pending_signals t AND NOT (take_bit k pending)\<rparr>) s)
      in case find (\<lambda>sig. bit pending (sig - 1) \<and> actionable (tasks s c) sig) [1..<NSIG] of
           None \<Rightarrow> Some (fr, um, clear 31)
         | Some sig \<Rightarrow> act_on c sig fr um (clear sig))"

lemma lowest_signal_None: "lowest_signal pending = None \<longleftrightarrow> take_bit 31 pending = 0"
proof -
  have "lowest_signal pending = None \<longleftrightarrow> (\<forall>sig \<in> {1..<32}. \<not> bit pending (sig - 1))"
    by (simp add: lowest_signal_def find_None_iff and_sigbit NSIG_def) auto
  also have "\<dots> \<longleftrightarrow> (\<forall>n < 31. \<not> bit pending n)"
  proof
    assume *: "\<forall>sig \<in> {1..<32}. \<not> bit pending (sig - 1)"
    show "\<forall>n < 31. \<not> bit pending n" using * by (auto dest: bspec [of _ _ "Suc _"])
  qed auto
  also have "\<dots> \<longleftrightarrow> take_bit 31 pending = 0"
    by (auto simp: bit_eq_iff bit_simps)
  finally show ?thesis .
qed

lemma lowest_signal_below:
  assumes "lowest_signal pending = Some sig" and "n < sig - 1"
  shows "\<not> bit pending n"
proof -
  obtain i where i: "i < length [1..<NSIG]" "sig = [1..<NSIG] ! i"
      "\<forall>j < i. \<not> bit pending ([1..<NSIG] ! j - 1)"
    using assms(1) by (auto simp: lowest_signal_def find_Some_iff and_sigbit)
  then have "sig = i + 1" by (simp add: NSIG_def)
  then have "n < i" using assms(2) by simp
  then show ?thesis using i(1,3) by (auto simp: NSIG_def)
qed

lemma find_same:
  "(\<And>x. x \<in> set xs \<Longrightarrow> P x = Q x) \<Longrightarrow> find P xs = find Q xs"
  by (induction xs) auto

lemma take_bit_lowest:
  assumes "lowest_signal pending = Some sig"
  shows "take_bit sig pending = sigbit sig"
proof (rule bit_eqI)
  fix n
  have sig: "1 \<le> sig" "bit pending (sig - 1)" using lowest_signal_Some [OF assms] by auto
  show "bit (take_bit sig pending) n = bit (sigbit sig) n"
    using lowest_signal_below [OF assms, of n] sig lowest_signal_Some(2) [OF assms]
    by (cases "n < sig - 1"; cases "n = sig - 1") (auto simp: bit_simps bit_sigbit NSIG_def)
qed

lemma deliver_skip:
  \<comment> \<open>an ignored lowest signal makes no difference to the specification\<close>
  assumes low: "lowest_signal pending = Some sig" and ign: "\<not> actionable (tasks s c) sig"
  shows "deliver_spec c (pending AND NOT (sigbit sig)) fr um
           (upd_task c (\<lambda>t. t\<lparr>pending_signals := pending_signals t AND NOT (sigbit sig)\<rparr>) s)
         = deliver_spec c pending fr um s"
proof -
  let ?p = "pending AND NOT (sigbit sig)"
  let ?s = "upd_task c (\<lambda>t. t\<lparr>pending_signals := pending_signals t AND NOT (sigbit sig)\<rparr>) s"
  note l = lowest_signal_Some [OF low]
  have act: "actionable (t\<lparr>pending_signals := w\<rparr>) k = actionable t k" for t w k
    by (simp add: actionable_def)
  have bits: "bit ?p n \<longleftrightarrow> bit pending n \<and> n \<noteq> sig - 1" for n
    using l by (auto simp: bit_simps bit_sigbit NSIG_def dest: bit_imp_le_length)
  have find: "find (\<lambda>k. bit ?p (k - 1) \<and> actionable (tasks ?s c) k) [1..<NSIG] =
              find (\<lambda>k. bit pending (k - 1) \<and> actionable (tasks s c) k) [1..<NSIG]"
  proof (rule find_same)
    fix k assume "k \<in> set [1..<NSIG]"
    then have "k - 1 = sig - 1 \<longleftrightarrow> k = sig" using l(1) by auto
    then show "(bit ?p (k - 1) \<and> actionable (tasks ?s c) k) =
               (bit pending (k - 1) \<and> actionable (tasks s c) k)"
      using ign by (auto simp: act bits)
  qed
  have clear: "upd_task c (\<lambda>t. t\<lparr>pending_signals := pending_signals t AND NOT (take_bit k ?p)\<rparr>) ?s =
      upd_task c (\<lambda>t. t\<lparr>pending_signals := pending_signals t AND NOT (take_bit k pending)\<rparr>) s"
    if "sig \<le> k" for k
  proof -
    have "w AND NOT (sigbit sig) AND NOT (take_bit k ?p) = w AND NOT (take_bit k pending)" for w
      using l that by (intro bit_eqI) (auto simp: bit_simps bits bit_sigbit NSIG_def)
    then show ?thesis by (simp add: upd_task_def and.assoc)
  qed
  have ge: "sig \<le> k" if f: "find (\<lambda>k. bit pending (k - 1) \<and> actionable (tasks s c) k) [1..<NSIG] = Some k" for k
  proof (rule ccontr)
    assume "\<not> sig \<le> k"
    moreover have k: "bit pending (k - 1)" "1 \<le> k" using find_SomeD [OF f] by auto
    ultimately have "k - 1 < sig - 1" by linarith
    then show False using lowest_signal_below [OF low, of "k - 1"] k by simp
  qed
  have "sig \<le> 31" using l(2) by (simp add: NSIG_def)
  show ?thesis
  proof (cases "find (\<lambda>k. bit pending (k - 1) \<and> actionable (tasks s c) k) [1..<NSIG]")
    case None
    then show ?thesis unfolding deliver_spec_def find Let_def
      by (simp only: clear [OF \<open>sig \<le> 31\<close>] option.case)
  next
    case (Some k)
    then show ?thesis unfolding deliver_spec_def find Let_def
      by (simp only: clear [OF ge [OF Some]] option.case)
  qed
qed

lemma deliver_spec_none:
  assumes "lowest_signal pending = None"
  shows "deliver_spec c pending fr um s = Some (fr, um, s)"
proof -
  have "take_bit 31 pending = 0" using assms lowest_signal_None by simp
  moreover from this have "\<not> bit pending (k - 1)" if "k \<in> {1..<32}" for k
    using that by (auto simp: bit_eq_iff bit_simps)
  then have "find (\<lambda>sig. bit pending (sig - 1) \<and> actionable (tasks s c) sig) [1..<NSIG] = None"
    by (auto simp: find_None_iff NSIG_def)
  moreover have "upd_task c (\<lambda>t. t\<lparr>pending_signals := pending_signals t\<rparr>) s = s"
    by (simp add: upd_task_def)
  ultimately show ?thesis by (simp add: deliver_spec_def Let_def)
qed

lemma deliver_spec_lowest:
  assumes low: "lowest_signal pending = Some sig" and act: "actionable (tasks s c) sig"
  shows "deliver_spec c pending fr um s =
    act_on c sig fr um (upd_task c (\<lambda>t. t\<lparr>pending_signals := pending_signals t AND NOT (sigbit sig)\<rparr>) s)"
proof -
  note l = lowest_signal_Some [OF low]
  have "find (\<lambda>k. bit pending (k - 1) \<and> actionable (tasks s c) k) [1..<NSIG] = Some sig"
    using l act lowest_signal_below [OF low]
    by (auto simp: find_Some_iff NSIG_def intro!: exI [of _ "sig - 1"])
  then show ?thesis by (simp add: deliver_spec_def Let_def take_bit_lowest [OF low])
qed

lemma deliver_loop_eq_spec:
  "deliver_loop c pending fr um s = deliver_spec c pending fr um s"
proof (induction c pending fr um s rule: deliver_loop.induct)
  case (1 c pending fr um s)
  show ?case
  proof (cases "pending = 0 \<or> lowest_signal pending = None")
    case True
    then have "lowest_signal pending = None" by (auto simp: lowest_signal_None)
    then show ?thesis using True by (subst deliver_loop.simps) (simp add: deliver_spec_none)
  next
    case False
    then obtain sig where nz: "pending \<noteq> 0" and low: "lowest_signal pending = Some sig" by auto
    show ?thesis
    proof (cases "actionable (tasks s c) sig")
      case True
      then show ?thesis
        using nz low
        by (subst deliver_loop.simps)
          (auto simp: deliver_spec_lowest act_on_def actionable_def Let_def SIG_IGN_def SIG_DFL_def
            map_option_case Option.bind_def split: option.split)
    next
      case False
      then show ?thesis
        using nz low "1.IH" [OF nz low refl refl refl] deliver_skip [OF low False]
        by (subst deliver_loop.simps) (auto simp: actionable_def Let_def)
    qed
  qed
qed

subsection \<open>Signals that cannot be blocked\<close>

definition kill_unmasked :: "sched_state \<Rightarrow> bool" where
  "kill_unmasked s \<longleftrightarrow> (\<forall>i. signal_mask (tasks s i) AND unblockable = 0)"

lemma cleared_and_unblockable: "(w AND NOT unblockable) AND unblockable = 0"
  by (simp add: bit_eq_iff bit_simps)

lemma kill_unmasked_upd:
  assumes "kill_unmasked s" and "signal_mask (f (tasks s i)) AND unblockable = 0"
  shows "kill_unmasked (upd_task i f s)"
  using assms by (simp add: kill_unmasked_def)

lemma kill_unmasked_sigprocmask:
  "kill_unmasked s \<Longrightarrow> kill_unmasked (snd (snd (sys_rt_sigprocmask how new old s)))"
  by (auto simp: sys_rt_sigprocmask_def Let_def cleared_and_unblockable split: option.split
      intro!: kill_unmasked_upd)

lemma kill_unmasked_same:
  "kill_unmasked s \<Longrightarrow> same_tasks s s' \<Longrightarrow> kill_unmasked s'"
  unfolding kill_unmasked_def same_tasks_def by (metis unsched_fields(6))

lemma kill_unmasked_wake: "kill_unmasked s \<Longrightarrow> kill_unmasked (task_wake p s)"
  by (auto simp: task_wake_def kill_unmasked_def split: option.split)

lemma kill_unmasked_send: "kill_unmasked s \<Longrightarrow> kill_unmasked (signal_send p sig s)"
  by (auto simp: signal_send_def kill_unmasked_def split: option.split)

lemma kill_unmasked_exit:
  assumes "sched_inv s xs" and "kill_unmasked s"
  shows "\<exists>s'. task_exit s = Some s' \<and> kill_unmasked s'"
proof (cases "current_task s")
  case None
  then show ?thesis using assms by (simp add: task_exit_def scheduler_get_current_def)
next
  case (Some c)
  define s1 where "s1 = upd_task c (\<lambda>t. t\<lparr>t_state := TASK_STATE_EXITED\<rparr>) s"
  define s2 where "s2 = (if parent_pid (tasks s1 c) \<ge> 0
    then signal_send (parent_pid (tasks s1 c)) SIGCHLD (task_wake (parent_pid (tasks s1 c)) s1)
    else s1)"
  have "sched_inv s1 xs" using assms(1) by (auto simp: s1_def task_wf_def intro!: sched_inv_upd)
  then have inv2: "sched_inv s2 xs" by (simp add: s2_def sched_inv_wake sched_inv_signal_send)
  have "kill_unmasked s1" using assms(2) by (simp add: s1_def kill_unmasked_def)
  then have "kill_unmasked s2" by (simp add: s2_def kill_unmasked_wake kill_unmasked_send)
  moreover have "task_exit s = schedule s2"
    using Some by (simp add: task_exit_def scheduler_get_current_def Let_def task_yield_def
        s1_def s2_def)
  ultimately show ?thesis using schedule_inv [OF inv2] kill_unmasked_same by fastforce
qed

lemma kill_unmasked_deliver:
  assumes "sched_inv s xs" and "kill_unmasked s"
  shows "\<exists>r. deliver_spec c pending fr um s = Some r \<and> kill_unmasked (snd (snd r))"
proof -
  define cl where "cl k = upd_task c
    (\<lambda>t. t\<lparr>pending_signals := pending_signals t AND NOT (take_bit k pending)\<rparr>) s" for k :: nat
  have inv: "sched_inv (cl k) xs" and km: "kill_unmasked (cl k)" for k
    using assms(1,2) by (auto simp: cl_def task_wf_def kill_unmasked_def intro!: sched_inv_upd)
  have act: "\<exists>r. act_on c sig fr um (cl k) = Some r \<and> kill_unmasked (snd (snd r))" for sig k
  proof (cases "sig = SIGKILL \<or> sig = SIGSTOP \<or> signal_handlers (tasks (cl k) c) ! sig = SIG_DFL")
    case True
    have "kill_unmasked (task_set_exit_status (int sig) (cl k))"
      using km [of k] by (auto simp: task_set_exit_status_def kill_unmasked_def split: option.split)
    moreover have "sched_inv (task_set_exit_status (int sig) (cl k)) xs"
      using inv [of k] by (auto simp: task_set_exit_status_def task_wf_def split: option.split
          intro!: sched_inv_upd)
    ultimately show ?thesis using True kill_unmasked_exit by (fastforce simp: act_on_def)
  next
    case False
    obtain fr' um' s' where
      p: "push_sigframe c (signal_handlers (tasks (cl k) c) ! sig) sig fr um (cl k) = (fr', um', s')"
      using prod_cases3 by blast
    then obtain m a' where "s' = upd_task c (\<lambda>t. t\<lparr>signal_sigframe := a', signal_mask := m\<rparr>) (cl k)"
        "m AND unblockable = 0"
      by (rule push_sigframe_effect) blast
    then have "kill_unmasked s'" using km [of k] by (auto intro!: kill_unmasked_upd)
    then show ?thesis using False p by (simp add: act_on_def)
  qed
  then show ?thesis
    using km [of 31]
    by (auto simp: deliver_spec_def Let_def cl_def [symmetric] split: option.splits)
qed

subsection \<open>A frame changed by its program\<close>

lemma sigreturn_of_changed_frame:
  \<comment> \<open>\<open>rt_sigreturn\<close> after the program has overwritten the saved mask and code segment\<close>
  assumes "current_task s = Some c" and esp: "aligned4 (i_user_esp fr)" "i_user_esp fr \<noteq> 32"
    and push: "push_sigframe c h sig fr um s = (fr1, um1, s1)"
    and um2: "um2 = write32 (i_user_esp fr - 12) m (write32 (i_user_esp fr - 28) cs um1)"
  shows "sys_rt_sigreturn um2 fr1 s1 =
    (0, fr\<lparr>i_cs := cs\<rparr>, upd_task c (\<lambda>t. t\<lparr>signal_sigframe := 0, signal_mask := m\<rparr>) s)"
proof -
  obtain um0 sf m1 where eff:
    "um1 = write_bytes (i_user_esp fr - 32) (sigframe_bytes sf) um0"
    "sf = \<lparr>saved_eip = i_eip fr, saved_cs = i_cs fr, saved_eflags = i_eflags fr,
        saved_esp = i_user_esp fr, saved_ss = i_ss fr, saved_mask = signal_mask (tasks s c),
        trampoline = [0xB8, 0xAD, 0x00, 0x00, 0x00, 0xCD, 0x80, 0x00]\<rparr>"
    "s1 = upd_task c (\<lambda>t. t\<lparr>signal_sigframe := i_user_esp fr - 32, signal_mask := m1\<rparr>) s"
    using push_sigframe_effect [OF push] by metis
  define a where "a = i_user_esp fr - 32"
  have "aligned4 a" using aligned4_add [OF esp(1), of "- 32"] by (simp add: a_def)
  then have al: "aligned4 (a + k)" if "k \<in> {4, 8, 12, 16, 20}" for k
    using aligned4_add [of a k] that by auto
  have um: "um2 = write32 (a + 20) m (write32 (a + 4) cs um1)" by (simp add: um2 a_def)
  have len: "length (trampoline sf) = 8" using eff(2) by simp
  note rd = read32_sigframe [OF len, of a um0, folded a_def, folded eff(1) [folded a_def]]
  have "read32 um2 a = i_eip fr" "read32 um2 (a + 4) = cs" "read32 um2 (a + 8) = i_eflags fr"
    "read32 um2 (a + 12) = i_user_esp fr" "read32 um2 (a + 16) = i_ss fr" "read32 um2 (a + 20) = m"
    using rd \<open>aligned4 a\<close> al by (simp_all add: um read32_write32) (simp_all add: eff(2))
  moreover have "upd_task c (\<lambda>t. t\<lparr>signal_sigframe := 0, signal_mask := m\<rparr>) s1 =
      upd_task c (\<lambda>t. t\<lparr>signal_sigframe := 0, signal_mask := m\<rparr>) s"
    by (simp add: eff(3) upd_task_def fun_eq_iff)
  ultimately show ?thesis
    using assms(1) esp(2)
    by (simp add: sys_rt_sigreturn_def scheduler_get_current_def eff(3) a_def [symmetric] Let_def) (simp add: a_def)
qed

lemma deliver_only_kill:
  assumes "pending AND sigbit SIGKILL = pending"
  shows "deliver_loop c pending fr um s =
    (if pending = 0 then Some (fr, um, s)
     else map_option (\<lambda>s'. (fr, um, s')) (task_exit (task_set_exit_status (int SIGKILL)
       (upd_task c (\<lambda>t. t\<lparr>pending_signals := pending_signals t AND NOT (sigbit SIGKILL)\<rparr>) s))))"
proof (cases "pending = 0")
  case False
  have b: "n = SIGKILL - 1" if "bit pending n" for n
  proof -
    have "bit (pending AND sigbit SIGKILL) n" using assms that by simp
    then show ?thesis by (simp add: bit_simps bit_sigbit SIGKILL_def)
  qed
  obtain n where "bit pending n" using False by (auto simp: bit_eq_iff)
  then have eight: "bit pending 8" using b [of n] by (simp add: SIGKILL_def)
  have low: "\<not> bit pending j" if "j < 8" for j using b [of j] that by (auto simp: SIGKILL_def)
  have "lowest_signal pending = Some SIGKILL"
    unfolding lowest_signal_def find_Some_iff and_sigbit
    by (rule exI [of _ 8]) (simp add: NSIG_def SIGKILL_def eight low)
  then show ?thesis
    using False by (subst deliver_loop.simps) (simp add: Let_def map_option_case Option.bind_def split: option.split)
qed (simp add: deliver_loop.simps)

subsection \<open>Properties\<close>

definition demo_user :: sched_state where
  \<comment> \<open>the running task is a user task with SIGUSR1 pending and a handler for it\<close>
  "demo_user = upd_task 1 (\<lambda>t. t\<lparr>is_user := True, pending_signals := sigbit 10,
     signal_handlers := (signal_handlers t)[10 := 0x8048000]\<rparr>) demo_sched"

definition demo_frame :: iret_frame where
  "demo_frame = \<lparr>i_eip = 0x8048123, i_cs = 0x1B, i_eflags = 0x202, i_user_esp = 0xBFFFF000, i_ss = 0x23\<rparr>"

lemma demo_user_inv: "sched_inv demo_user [0, 1, 2]"
  unfolding demo_user_def using demo_sched_inv by (rule sched_inv_upd) (auto simp: task_wf_def)

lemma demo_user_current: "current_task demo_user = Some 1" "is_user (tasks demo_user 1)"
  by (simp_all add: demo_user_def demo_sched_def)

lemma demo_user_masks: "kill_unmasked demo_user"
  by (auto simp: kill_unmasked_def demo_user_def demo_sched_def demo_task_def zero_task_def)

text \<open>
  C5. Signals are acted on lowest number first. On the way back to a user-mode task the delivery
  loop, which consumes pending signals one by one, ends, and does what the specification says: the
  lowest pending and unmasked signal that kills or has a handler is acted on, that signal and the
  ignored ones below it are no longer pending, and the ones above it stay pending.
\<close>
theorem signal_delivery_lowest_first:
  assumes "current_task s = Some c" and "is_user (tasks s c)" and "i_cs fr = 0x1B"
  shows "signal_check_and_deliver fr um s =
    deliver_spec c (pending_signals (tasks s c) AND NOT (signal_mask (tasks s c))) fr um s"
  using assms
  by (simp add: signal_check_and_deliver_def scheduler_get_current_def deliver_loop_eq_spec)

theorem signal_delivery_lowest_first_witness:
  "signal_check_and_deliver demo_frame (\<lambda>_. 0) demo_user =
    deliver_spec 1 (pending_signals (tasks demo_user 1) AND NOT (signal_mask (tasks demo_user 1)))
      demo_frame (\<lambda>_. 0) demo_user"
  by (rule signal_delivery_lowest_first [OF demo_user_current]) (simp add: demo_frame_def)

text \<open>
  C6. A handler call and its return. The frame built for a handler makes \<open>iret\<close> enter the handler
  with the signal number as its argument and, as its return address, code that loads
  \<open>SYS_rt_sigreturn\<close> (0xAD) and traps. If the user's memory is as delivery left it, that system call
  then restores the interrupted registers and the signal mask exactly.
\<close>
theorem handler_call_and_sigreturn:
  assumes "current_task s = Some c" and "i_user_esp fr \<noteq> 32"
  shows "case push_sigframe c h sig fr um s of (fr', um', s') \<Rightarrow>
    i_eip fr' = h \<and> read32 um' (i_user_esp fr' + 4) = of_nat sig \<and>
    read32 um' (i_user_esp fr') = i_user_esp fr - 8 \<and>
    map um' [i_user_esp fr - 8, i_user_esp fr - 7, i_user_esp fr - 6, i_user_esp fr - 5,
             i_user_esp fr - 4, i_user_esp fr - 3, i_user_esp fr - 2] = [0xB8, 0xAD, 0, 0, 0, 0xCD, 0x80] \<and>
    sys_rt_sigreturn um' fr'' s' = (0, fr, upd_task c (\<lambda>t. t\<lparr>signal_sigframe := 0\<rparr>) s)"
proof -
  obtain fr' um' s' where p: "push_sigframe c h sig fr um s = (fr', um', s')"
    using prod_cases3 by blast
  show ?thesis
    using push_sigframe_call [OF p] sigreturn_undoes_push [OF assms p] by (simp add: p)
qed

theorem handler_call_and_sigreturn_witness:
  "case push_sigframe 1 0x8048000 10 demo_frame (\<lambda>_. 0) demo_user of (fr', um', s') \<Rightarrow>
    i_eip fr' = 0x8048000 \<and> read32 um' (i_user_esp fr' + 4) = of_nat 10 \<and>
    read32 um' (i_user_esp fr') = i_user_esp demo_frame - 8 \<and>
    map um' [i_user_esp demo_frame - 8, i_user_esp demo_frame - 7, i_user_esp demo_frame - 6,
             i_user_esp demo_frame - 5, i_user_esp demo_frame - 4, i_user_esp demo_frame - 3,
             i_user_esp demo_frame - 2] = [0xB8, 0xAD, 0, 0, 0, 0xCD, 0x80] \<and>
    sys_rt_sigreturn um' demo_frame s' =
      (0, demo_frame, upd_task 1 (\<lambda>t. t\<lparr>signal_sigframe := 0\<rparr>) demo_user)"
  by (rule handler_call_and_sigreturn [OF demo_user_current(1)]) (simp add: demo_frame_def)

text \<open>
  C7. SIGKILL and SIGSTOP stay deliverable: neither \<open>rt_sigprocmask\<close>, whatever its arguments, nor
  the delivery of a signal, whatever mask its handler was installed with, lets a task block them.
\<close>
theorem kill_and_stop_stay_unblocked:
  assumes "sched_inv s xs" and "kill_unmasked s"
  shows "kill_unmasked (snd (snd (sys_rt_sigprocmask how new old s))) \<and>
    (\<exists>fr' um' s'. signal_check_and_deliver fr um s = Some (fr', um', s') \<and> kill_unmasked s')"
proof -
  have "\<exists>r. signal_check_and_deliver fr um s = Some r \<and> kill_unmasked (snd (snd r))"
    using kill_unmasked_deliver [OF assms] assms(2)
    by (simp add: signal_check_and_deliver_def deliver_loop_eq_spec split: option.split)
  then show ?thesis using kill_unmasked_sigprocmask [OF assms(2)] by fastforce
qed

theorem kill_and_stop_stay_unblocked_witness:
  "kill_unmasked (snd (snd (sys_rt_sigprocmask 2 (Some (NOT 0)) False demo_user))) \<and>
    (\<exists>fr' um' s'. signal_check_and_deliver demo_frame (\<lambda>_. 0) demo_user = Some (fr', um', s') \<and>
       kill_unmasked s')"
  by (rule kill_and_stop_stay_unblocked [OF demo_user_inv demo_user_masks])

text \<open>
  C8. \<open>rt_sigreturn\<close> is the exception. A handler that overwrites the mask and the code segment of the frame
  delivery put on the user's stack gets exactly those: the interrupted context comes back with that
  code segment, that word becomes the mask of the task, unchecked, and no other task and nothing else of the task
  changes. A SIGKILL sent to the task afterwards, when nothing else is deliverable, ends it if and
  only if that word has the bit of SIGKILL clear; otherwise it stays pending and the task runs on.
\<close>
theorem sigreturn_trusts_user_frame:
  assumes inv: "sched_inv s xs" and cur: "current_task s = Some c" and user: "is_user (tasks s c)"
    and alive: "t_state (tasks s c) \<noteq> TASK_STATE_EXITED" and pend: "pending_signals (tasks s c) AND NOT m = 0"
    and esp: "aligned4 (i_user_esp fr)" "i_user_esp fr \<noteq> 32" and mode: "i_cs fr' = 0x1B"
    and push: "push_sigframe c h sig fr um s = (fr1, um1, s1)"
    and um2: "um2 = write32 (i_user_esp fr - 12) m (write32 (i_user_esp fr - 28) cs um1)"
    and s2: "s2 = upd_task c (\<lambda>t. t\<lparr>signal_sigframe := 0, signal_mask := m\<rparr>) s"
    and s3: "s3 = signal_send (int c) (int SIGKILL) s2"
  shows "sys_rt_sigreturn um2 fr1 s1 = (0, fr\<lparr>i_cs := cs\<rparr>, s2) \<and>
    bit (pending_signals (tasks s3 c)) (SIGKILL - 1) \<and>
    signal_check_and_deliver fr' um' s3 =
      (if m AND sigbit SIGKILL \<noteq> 0 then Some (fr', um', s3)
       else map_option (\<lambda>s4. (fr', um', s4)) (task_exit (task_set_exit_status (int SIGKILL)
         (upd_task c (\<lambda>t. t\<lparr>pending_signals := pending_signals t AND NOT (sigbit SIGKILL)\<rparr>) s3))))"
proof -
  have c: "c < next_pid s" "\<forall>i < next_pid s. pid (tasks s i) = int i" using inv cur by (auto simp: sched_inv_def task_inv_def)
  have kill: "bit (sigbit SIGKILL) n \<longleftrightarrow> n = SIGKILL - 1" for n by (auto simp: bit_sigbit SIGKILL_def)
  have "find (\<lambda>i. pid (tasks s2 i) = int c \<and> t_state (tasks s2 i) \<noteq> TASK_STATE_EXITED) [0..<next_pid s2] = Some c"
    using c alive by (auto simp: s2 find_upt_Some_iff)
  then have s3': "s3 = upd_task c (\<lambda>t. t\<lparr>pending_signals := pending_signals t OR sigbit SIGKILL,
      t_state := (if t_state t = TASK_STATE_BLOCKED then TASK_STATE_READY else t_state t)\<rparr>) s2"
    by (simp add: s3 signal_send_def SIGKILL_def NSIG_def)
  let ?p = "pending_signals (tasks s3 c) AND NOT (signal_mask (tasks s3 c))"
  have p: "?p = sigbit SIGKILL AND NOT m"
    using pend by (simp add: s3' s2) (simp add: bit_eq_iff bit_simps; blast)
  then have "?p = 0 \<longleftrightarrow> m AND sigbit SIGKILL \<noteq> 0"
    using and_sigbit [of "NOT m" SIGKILL] and_sigbit [of m SIGKILL]
    by (simp add: and.commute [of _ "NOT m"] SIGKILL_def bit_not_iff_eq)
  moreover have "?p AND sigbit SIGKILL = ?p" using p by (simp add: and.commute and.left_commute)
  ultimately have "signal_check_and_deliver fr' um' s3 =
      (if m AND sigbit SIGKILL \<noteq> 0 then Some (fr', um', s3)
       else map_option (\<lambda>s4. (fr', um', s4)) (task_exit (task_set_exit_status (int SIGKILL)
         (upd_task c (\<lambda>t. t\<lparr>pending_signals := pending_signals t AND NOT (sigbit SIGKILL)\<rparr>) s3))))"
    using deliver_only_kill [of ?p c fr' um' s3] cur user mode
    by (simp add: signal_check_and_deliver_def scheduler_get_current_def s3' s2)
  moreover have "bit (pending_signals (tasks s3 c)) (SIGKILL - 1)" by (simp add: s3' s2 bit_simps kill)
  ultimately show ?thesis using sigreturn_of_changed_frame [OF cur esp push um2] s2 by simp
qed

theorem sigreturn_trusts_user_frame_witness:
  "\<exists>fr1 um1 s1 s2. push_sigframe 1 0x8048000 10 demo_frame (\<lambda>_. 0) demo_user = (fr1, um1, s1) \<and>
    sys_rt_sigreturn (write32 0xBFFFEFF4 (NOT 0) (write32 0xBFFFEFE4 8 um1)) fr1 s1 =
      (0, demo_frame\<lparr>i_cs := 8\<rparr>, s2) \<and>
    signal_check_and_deliver demo_frame (\<lambda>_. 0) (signal_send 1 (int SIGKILL) s2) =
      Some (demo_frame, (\<lambda>_. 0), signal_send 1 (int SIGKILL) s2)"
proof -
  obtain fr1 um1 s1 where p: "push_sigframe 1 0x8048000 10 demo_frame (\<lambda>_. 0) demo_user = (fr1, um1, s1)"
    using prod_cases3 by blast
  have st: "t_state (tasks demo_user 1) \<noteq> TASK_STATE_EXITED"
    by (simp add: demo_user_def demo_sched_def demo_task_def)
  have esp: "aligned4 (i_user_esp demo_frame)" "i_user_esp demo_frame \<noteq> 32" "i_cs demo_frame = 0x1B"
    by (simp_all add: demo_frame_def)
  have "NOT 0 AND sigbit SIGKILL \<noteq> 0" by (simp add: sigbit_def SIGKILL_def)
  then show ?thesis
    using p sigreturn_trusts_user_frame [OF demo_user_inv demo_user_current st _ esp p refl refl refl,
        of "NOT 0" 8 "\<lambda>_. 0"]
    by (simp add: demo_frame_def)
qed

end
