(* ===== verification/Paths.thy ===== *)
theory Paths
  imports Prelude
begin

text \<open>
  The path handling of \<open>kernel/syscall.c\<close>: \<open>normalize_path\<close>, which rewrites an absolute path in
  place, and \<open>build_abs_path\<close>, which puts the working directory in front of a relative one. The main
  lemma shows that the in-place rewriting computes the components of the path with \<open>.\<close> and \<open>..\<close>
  resolved.
\<close>

abbreviation NUL :: char where "NUL \<equiv> CHR 0x00"
abbreviation SLASH :: char where "SLASH \<equiv> CHR ''/''"

subsection \<open>Copying strings\<close>

definition strncpy_buf :: "nat \<Rightarrow> string \<Rightarrow> string" where
  \<comment> \<open>the \<open>n\<close> bytes that \<open>strncpy(dest, src, n)\<close> stores\<close>
  "strncpy_buf n src = take n src @ replicate (n - length src) NUL"

subsection \<open>normalize_path\<close>

primrec back_up :: "string \<Rightarrow> nat \<Rightarrow> nat" where
  \<comment> \<open>\<open>while (o > 0 && out[o - 1] != '/') o--\<close>\<close>
  "back_up out 0 = 0"
| "back_up out (Suc n) = (if out ! n \<noteq> SLASH then back_up out n else Suc n)"

definition skip_slashes :: "string \<Rightarrow> nat \<Rightarrow> nat" where
  "skip_slashes out i = i + length (takeWhile (\<lambda>c. c = SLASH) (drop i out))"

definition comp_end :: "string \<Rightarrow> nat \<Rightarrow> nat" where
  "comp_end out i = i + length (takeWhile (\<lambda>c. c \<noteq> NUL \<and> c \<noteq> SLASH) (drop i out))"

definition push_comp :: "string \<Rightarrow> nat \<Rightarrow> nat \<Rightarrow> nat \<Rightarrow> (string \<times> nat) option" where
  \<comment> \<open>append the component of \<open>len\<close> bytes at \<open>start\<close> to the \<open>o\<close> bytes written so far\<close>
  "push_comp out n start len =
     (let (out, n) = (if out ! (n - 1) \<noteq> SLASH then (out[n := SLASH], n + 1) else (out, n)) in do {
        must (n + len \<le> length out);
        Some (put_bytes n (get_bytes start len out) out, n + len)
      })"

lemma comp_end_progress:
  assumes "skip_slashes out i < length out" and "out ! skip_slashes out i \<noteq> NUL"
  shows "i < comp_end out (skip_slashes out i)"
proof -
  let ?j = "skip_slashes out i"
  have j: "i \<le> ?j" by (simp add: skip_slashes_def)
  have r: "dropWhile (\<lambda>c. c = SLASH) (drop i out) = drop ?j out"
    by (simp add: skip_slashes_def dropWhile_eq_drop add.commute)
  have "drop ?j out \<noteq> []" using assms(1) by simp
  then have "hd (drop ?j out) \<noteq> SLASH" using hd_dropWhile [of "\<lambda>c. c = SLASH" "drop i out"] r by simp
  then have "out ! ?j \<noteq> SLASH" using assms(1) by (simp add: hd_drop_conv_nth)
  then have "takeWhile (\<lambda>c. c \<noteq> NUL \<and> c \<noteq> SLASH) (drop ?j out) \<noteq> []"
    using assms by (simp add: Cons_nth_drop_Suc [symmetric])
  then have "0 < length (takeWhile (\<lambda>c. c \<noteq> NUL \<and> c \<noteq> SLASH) (drop ?j out))" by (rule length_greater_0_conv [THEN iffD2])
  then show ?thesis using j unfolding comp_end_def by linarith
qed

lemma push_comp_length: "push_comp out n start len = Some (out', n') \<Longrightarrow> start + len \<le> length out \<Longrightarrow> length out' = length out"
  by (auto simp: push_comp_def must_bind_eq_Some length_put_bytes length_get_bytes Let_def split: if_splits)

lemma comp_end_le: "i \<le> length out \<Longrightarrow> comp_end out i \<le> length out"
  using length_takeWhile_le [of "\<lambda>c. c \<noteq> NUL \<and> c \<noteq> SLASH" "drop i out"] by (simp add: comp_end_def)

function norm_loop :: "string \<Rightarrow> nat \<Rightarrow> nat \<Rightarrow> (string \<times> nat) option" where
  \<comment> \<open>\<open>while (out[i])\<close>; the result is the buffer and the length of the path in it\<close>
  "norm_loop out n i =
     (let start = skip_slashes out i; e = comp_end out start; len = e - start in
      if \<not> start < length out \<or> out ! start = NUL then Some (out, n)
      else if len = 1 \<and> out ! start = CHR ''.'' then norm_loop out n e
      else if len = 2 \<and> out ! start = CHR ''.'' \<and> out ! (start + 1) = CHR ''.'' then
        norm_loop out (if n > 1 then back_up out (n - 1) else n) e
      else
        (case push_comp out n start len of
           None \<Rightarrow> None
         | Some (out', n') \<Rightarrow> norm_loop out' n' e))"
  by pat_completeness auto

termination norm_loop
proof (relation "measure (\<lambda>(out, n, i). length out - i)")
  fix out n i start e len x2 x y
  assume a: "start = skip_slashes out i" "e = comp_end out start" "len = e - start"
    "\<not> (\<not> start < length out \<or> out ! start = NUL)"
  then have p: "i < e" "e \<le> length out" "start + len \<le> length out"
    using comp_end_progress [of out i] comp_end_le [of start out] by (auto simp: comp_end_def)
  then show "((out, n, e), out, n, i) \<in> measure (\<lambda>(out, n, i). length out - i)"
    "((out, if 1 < n then back_up out (n - 1) else n, e), out, n, i) \<in> measure (\<lambda>(out, n, i). length out - i)"
    by auto
  assume "push_comp out n start len = Some x2" "(x, y) = x2"
  then have "length x = length out" using push_comp_length p(3) by metis
  then show "((x, y, e), out, n, i) \<in> measure (\<lambda>(out, n, i). length out - i)" using p by auto
qed simp

declare norm_loop.simps [simp del]

definition normalize_path :: "string \<Rightarrow> string option" where
  \<comment> \<open>the new contents of \<open>path\<close>\<close>
  "normalize_path path =
     (let out = strncpy_buf 255 path @ [NUL] in
      if out ! 0 \<noteq> SLASH then Some path
      else do {
        (out, n) \<leftarrow> norm_loop out 1 1;
        must (n < 256);
        Some (c_str (out[n := NUL]))
      })"

subsection \<open>Components\<close>

function comps :: "string \<Rightarrow> string list" where
  \<comment> \<open>the non-empty strings between the slashes\<close>
  "comps p = (let q = dropWhile (\<lambda>c. c = SLASH) p in
     if q = [] then [] else takeWhile (\<lambda>c. c \<noteq> SLASH) q # comps (dropWhile (\<lambda>c. c \<noteq> SLASH) q))"
  by pat_completeness auto

termination comps
proof (relation "measure length")
  fix p q :: string
  assume q: "q = dropWhile (\<lambda>c. c = SLASH) p" "q \<noteq> []"
  then have "hd q \<noteq> SLASH" using hd_dropWhile by blast
  then have "length (dropWhile (\<lambda>c. c \<noteq> SLASH) q) < length q"
    using q(2) length_dropWhile_le [of "\<lambda>c. c \<noteq> SLASH" "tl q"] by (cases q) auto
  then show "(dropWhile (\<lambda>c. c \<noteq> SLASH) q, p) \<in> measure length"
    using q(1) length_dropWhile_le [of "\<lambda>c. c = SLASH" p] by simp
qed simp

declare comps.simps [simp del]

definition resolve_comp :: "string list \<Rightarrow> string \<Rightarrow> string list" where
  "resolve_comp acc c = (if c = ''.'' then acc else if c = ''..'' then butlast acc else acc @ [c])"

definition render :: "string list \<Rightarrow> bool \<Rightarrow> string" where
  \<comment> \<open>a path with these components, with a trailing slash if \<open>tr\<close>\<close>
  "render acc tr = (if acc = [] then [SLASH] else concat (map (Cons SLASH) acc) @ (if tr then [SLASH] else []))"

definition is_comp :: "string \<Rightarrow> bool" where
  "is_comp c \<longleftrightarrow> c \<noteq> [] \<and> SLASH \<notin> set c \<and> NUL \<notin> set c"

lemma comps_Nil [simp]: "comps [] = []"
  by (simp add: comps.simps)

lemma comps_slash [simp]: "comps (SLASH # p) = comps p"
  by (subst (1 2) comps.simps) simp

lemma comps_comp:
  assumes "c \<noteq> []" and "SLASH \<notin> set c" and "r = [] \<or> hd r = SLASH"
  shows "comps (c @ r) = c # comps r"
proof -
  have "dropWhile (\<lambda>x. x = SLASH) (c @ r) = c @ r" using assms(1,2) by (cases c) auto
  moreover have "takeWhile (\<lambda>x. x \<noteq> SLASH) (c @ r) = c" "dropWhile (\<lambda>x. x \<noteq> SLASH) (c @ r) = r"
    using assms(2,3) by (cases r; auto simp: takeWhile_append dropWhile_append)+
  ultimately show ?thesis using assms(1) by (subst comps.simps) simp
qed

lemma comps_render: "(\<And>c. c \<in> set acc \<Longrightarrow> is_comp c) \<Longrightarrow> comps (render acc tr) = acc"
proof -
  have "comps (concat (map (Cons SLASH) acc) @ (if tr then [SLASH] else [])) = acc" if "\<forall>c \<in> set acc. is_comp c"
    using that
  proof (induction acc)
    case (Cons c acc)
    have "comps (c @ concat (map (Cons SLASH) acc) @ (if tr then [SLASH] else [])) = c # acc"
      using Cons by (subst comps_comp) (auto simp: is_comp_def hd_append split: if_splits dest: hd_in_set, (cases acc; simp)+)
    then show ?case by simp
  qed simp
  then show "(\<And>c. c \<in> set acc \<Longrightarrow> is_comp c) \<Longrightarrow> comps (render acc tr) = acc" by (auto simp: render_def)
qed

lemma back_up_slash:
  "n \<le> length out \<Longrightarrow> take n out = a @ SLASH # b \<Longrightarrow> SLASH \<notin> set b \<Longrightarrow> back_up out n = Suc (length a)"
proof (induction n arbitrary: b)
  case (Suc n)
  have t: "take (Suc n) out = take n out @ [out ! n]" using Suc.prems(1) by (simp add: take_Suc_conv_app_nth)
  show ?case
  proof (cases b rule: rev_cases)
    case Nil
    then have "out ! n = SLASH" "take n out = a" using Suc.prems(2) t by simp_all
    then show ?thesis using Suc.prems(1) by (auto simp: min_def)
  next
    case (snoc b' x)
    then have "out ! n = x" "take n out = a @ SLASH # b'" using Suc.prems(2) t by simp_all
    then show ?thesis using Suc snoc by auto
  qed
qed simp

lemma back_up_render:
  assumes "acc \<noteq> []" and "\<And>c. c \<in> set acc \<Longrightarrow> is_comp c" and "take n out = render acc tr" and "n \<le> length out"
  shows "1 < n" and "take (back_up out (n - 1)) out = render (butlast acc) True" and "back_up out (n - 1) < n"
proof -
  obtain xs c where acc: "acc = xs @ [c]" using assms(1) by (cases acc rule: rev_cases) auto
  have c: "is_comp c" using assms(2) acc by simp
  let ?a = "concat (map (Cons SLASH) xs)"
  have r: "render acc tr = ?a @ SLASH # c @ (if tr then [SLASH] else [])" by (simp add: render_def acc)
  have "n = length (render acc tr)" using assms(3,4) by (metis length_take min.absorb2)
  moreover have "0 < length c" using c by (simp add: is_comp_def)
  ultimately show n: "1 < n" using r by simp
  define b where "b = (if tr then c else butlast c)"
  have b: "SLASH \<notin> set b" using c by (auto simp: b_def is_comp_def dest: in_set_butlastD)
  have "take (n - 1) out = butlast (take n out)" using assms(4) by (simp add: butlast_take)
  also have "\<dots> = ?a @ SLASH # b" using c unfolding assms(3) r b_def by (auto simp: butlast_append is_comp_def)
  finally have t: "take (n - 1) out = ?a @ SLASH # b" .
  have k: "back_up out (n - 1) = Suc (length ?a)" using back_up_slash [OF _ t b] assms(4) by simp
  have "length (take (n - 1) out) = n - 1" using assms(4) by simp
  then have le: "Suc (length ?a) \<le> n - 1" unfolding t by simp
  then show "back_up out (n - 1) < n" using k n by simp
  have "take (Suc (length ?a)) out = take (Suc (length ?a)) (take (n - 1) out)" using le by (simp add: min_def)
  also have "\<dots> = ?a @ [SLASH]" unfolding t by simp
  finally show "take (back_up out (n - 1)) out = render (butlast acc) True" unfolding k by (simp add: render_def acc)
qed

lemma comps_slashes: "set s \<subseteq> {SLASH} \<Longrightarrow> comps (s @ t) = comps t"
proof -
  assume "set s \<subseteq> {SLASH}"
  then have "dropWhile (\<lambda>c. c = SLASH) (s @ t) = dropWhile (\<lambda>c. c = SLASH) t" by (induction s) auto
  then show ?thesis by (simp add: comps.simps [of "s @ t"] comps.simps [of t])
qed

text \<open>The bytes from position \<open>i\<close> on are slashes, then a component, then the rest.\<close>

lemma next_comp:
  assumes "NUL \<in> set (drop i out)"
  obtains s c z where "drop i out = s @ c @ z" and "set s \<subseteq> {SLASH}" and "skip_slashes out i = i + length s"
    and "comp_end out (i + length s) = i + length s + length c" and "NUL \<in> set z"
    and "SLASH \<notin> set c \<and> NUL \<notin> set c" and "hd z = SLASH \<or> hd z = NUL"
    and "c_str (drop i out) = s @ c @ c_str z" and "c = [] \<Longrightarrow> hd z = NUL"
proof -
  define s where "s = takeWhile (\<lambda>c. c = SLASH) (drop i out)"
  define r where "r = dropWhile (\<lambda>c. c = SLASH) (drop i out)"
  define c where "c = takeWhile (\<lambda>c. c \<noteq> NUL \<and> c \<noteq> SLASH) r"
  define z where "z = dropWhile (\<lambda>c. c \<noteq> NUL \<and> c \<noteq> SLASH) r"
  have s: "set s \<subseteq> {SLASH}" unfolding s_def by (auto dest: set_takeWhileD)
  have c: "SLASH \<notin> set c \<and> NUL \<notin> set c" unfolding c_def by (auto dest: set_takeWhileD)
  have rz: "r = c @ z" unfolding c_def z_def by simp
  have split: "drop i out = s @ c @ z" unfolding s_def rz [symmetric] unfolding r_def by simp
  have "NUL \<in> set s \<or> NUL \<in> set c \<or> NUL \<in> set z" using assms unfolding split by simp
  moreover have "NUL \<notin> set s" using s by auto
  ultimately have nul: "NUL \<in> set z" using c by simp
  then have ne: "z \<noteq> []" by auto
  have hz: "hd z = SLASH \<or> hd z = NUL" using hd_dropWhile [of "\<lambda>c. c \<noteq> NUL \<and> c \<noteq> SLASH" r] ne unfolding z_def by blast
  have r: "drop (i + length s) out = r" unfolding s_def r_def by (simp add: dropWhile_eq_drop add.commute)
  have "takeWhile (\<lambda>x. x \<noteq> NUL) (s @ c @ z) = s @ c @ takeWhile (\<lambda>x. x \<noteq> NUL) z"
  proof -
    have "takeWhile (\<lambda>x. x \<noteq> NUL) ((s @ c) @ z) = (s @ c) @ takeWhile (\<lambda>x. x \<noteq> NUL) z"
      using s c by (intro takeWhile_append2) auto
    then show ?thesis by simp
  qed
  then have cs: "c_str (drop i out) = s @ c @ c_str z" by (simp add: c_str_def split)
  have "hd z = NUL" if "c = []"
  proof -
    have "r = z" using rz that by simp
    then have "hd z \<noteq> SLASH" using hd_dropWhile [of "\<lambda>c. c = SLASH" "drop i out"] ne unfolding r_def by blast
    then show ?thesis using hz by blast
  qed
  moreover have "skip_slashes out i = i + length s" by (simp add: skip_slashes_def s_def)
  moreover have "comp_end out (i + length s) = i + length s + length c" by (simp add: comp_end_def r c_def)
  ultimately show thesis using that [OF split s _ _ nul c hz cs] by blast
qed

subsection \<open>The loop\<close>

definition norm_inv :: "string \<Rightarrow> nat \<Rightarrow> nat \<Rightarrow> string list \<Rightarrow> nat \<Rightarrow> bool" where
  \<comment> \<open>the first \<open>n\<close> bytes are a path with components \<open>acc\<close>, the path to go on with starts at \<open>i\<close> and ends at \<open>k\<close>\<close>
  "norm_inv out n i acc k \<longleftrightarrow>
     (\<forall>c \<in> set acc. is_comp c) \<and> (\<exists>tr. take n out = render acc tr) \<and> 0 < n \<and> n \<le> i \<and> NUL \<in> set (drop i out) \<and>
     (out ! (n - 1) \<noteq> SLASH \<longrightarrow> hd (drop i out) = SLASH \<or> hd (drop i out) = NUL) \<and> i + length (c_str (drop i out)) = k"

lemma render_push:
  assumes "\<forall>c \<in> set acc. is_comp c" and "take n out = render acc tr" and "0 < n" and "n \<le> length out"
  shows "(if out ! (n - 1) \<noteq> SLASH then render acc tr @ [SLASH] else render acc tr) @ c = render (acc @ [c]) False"
proof -
  have n: "length (render acc tr) = n" using assms(2,4) by (metis length_take min.absorb2)
  have l: "out ! (n - 1) = last (render acc tr)"
    using assms(2-4) n by (metis Suc_pred' last_conv_nth length_0_conv lessI less_numeral_extra(3) nth_take)
  show ?thesis
  proof (cases "acc = [] \<or> tr")
    case True
    then have "last (render acc tr) = SLASH" by (auto simp: render_def)
    then show ?thesis using True l by (auto simp: render_def)
  next
    case False
    then obtain xs x where acc: "acc = xs @ [x]" by (cases acc rule: rev_cases) auto
    then have x: "x \<noteq> []" "SLASH \<notin> set x" using assms(1) by (auto simp: is_comp_def)
    have r: "render acc tr = concat (map (Cons SLASH) xs) @ SLASH # x" using False by (simp add: render_def acc)
    then have "last (render acc tr) = last x" using x by simp
    moreover have "last x \<noteq> SLASH" using x last_in_set [of x] by metis
    ultimately show ?thesis using l r by (simp add: render_def acc)
  qed
qed

lemma push_comp_ok:
  assumes "n1 = (if out ! (n - 1) \<noteq> SLASH then n + 1 else n)" and "0 < n" and "n1 \<le> start" and "start + len \<le> length out"
  shows "\<exists>out'. push_comp out n start len = Some (out', n1 + len) \<and> length out' = length out \<and>
    take (n1 + len) out' = (if out ! (n - 1) \<noteq> SLASH then take n out @ [SLASH] else take n out) @ get_bytes start len out \<and>
    drop (start + len) out' = drop (start + len) out"
proof -
  let ?out1 = "if out ! (n - 1) \<noteq> SLASH then out[n := SLASH] else out"
  let ?out' = "put_bytes n1 (get_bytes start len ?out1) ?out1"
  have g: "get_bytes start len ?out1 = get_bytes start len out" using assms(1,3) by (auto simp: get_bytes_def)
  have len: "length (get_bytes start len out) = len" using assms(4) by (simp add: length_get_bytes)
  have fit: "n1 + len \<le> length out" using assms(3,4) by simp
  have t: "take n1 ?out1 = (if out ! (n - 1) \<noteq> SLASH then take n out @ [SLASH] else take n out)"
    using assms(1,3,4) fit by (auto simp: take_Suc_conv_app_nth)
  have "take (n1 + len) ?out' = take n1 ?out1 @ get_bytes start len out"
    using fit len g by (simp add: put_bytes_def)
  moreover have "drop (start + len) ?out' = drop (start + len) out"
    using fit len g assms(1,3) by (auto simp: put_bytes_def)
  moreover have "length ?out' = length out" using fit len g by (auto simp: length_put_bytes)
  moreover have "push_comp out n start len = Some (?out', n1 + len)"
    using assms(1) fit by (auto simp: push_comp_def Let_def)
  ultimately show ?thesis using t by auto
qed

lemma comp_step:
  assumes "NUL \<in> set (drop i out)"
  obtains (stop) "comps (c_str (drop i out)) = []" and "\<And>n. norm_loop out n i = Some (out, n)"
  | (comp) start c where "is_comp c" and "skip_slashes out i = start" and "comp_end out start = start + length c"
      and "start + length c < length out" and "out ! start \<noteq> NUL" and "get_bytes start (length c) out = c"
      and "comps (c_str (drop i out)) = c # comps (c_str (drop (start + length c) out))"
      and "NUL \<in> set (drop (start + length c) out)" and "i \<le> start"
      and "hd (drop (start + length c) out) = SLASH \<or> hd (drop (start + length c) out) = NUL"
      and "i + length (c_str (drop i out)) = start + length c + length (c_str (drop (start + length c) out))"
      and "hd (drop i out) = SLASH \<or> hd (drop i out) = NUL \<Longrightarrow> i < start"
proof -
  obtain s c z where sp: "drop i out = s @ c @ z" "set s \<subseteq> {SLASH}" "skip_slashes out i = i + length s"
    "comp_end out (i + length s) = i + length s + length c" "NUL \<in> set z"
    "SLASH \<notin> set c \<and> NUL \<notin> set c" "hd z = SLASH \<or> hd z = NUL" "c_str (drop i out) = s @ c @ c_str z"
    "c = [] \<Longrightarrow> hd z = NUL"
    using next_comp [OF assms] by blast
  have z: "z \<noteq> []" using sp(5) by auto
  have d: "drop (i + length s) out = c @ z" using sp(1) by (metis add.commute append_eq_conv_conj drop_drop)
  have de: "drop (i + length s + length c) out = z" using d by (metis add.commute append_eq_conv_conj drop_drop)
  have lt: "i + length s + length c < length out" using de z by (metis drop_all not_le_imp_less)
  show thesis
  proof (cases "c = []")
    case True
    then have hz: "hd z = NUL" by (rule sp(9))
    then have "c_str z = []" using z by (cases z) (auto simp: c_str_def)
    then have cs: "comps (c_str (drop i out)) = []" using sp(2,8) True comps_slashes [of s "[]"] by simp
    have "out ! (i + length s) = NUL" using d True hz lt by (simp add: hd_drop_conv_nth [symmetric])
    then have "norm_loop out n i = Some (out, n)" for n using sp(3) by (subst norm_loop.simps) (simp add: Let_def)
    then show thesis using stop cs by blast
  next
    case False
    then have c: "is_comp c" using sp(6) by (simp add: is_comp_def)
    have "c_str z = [] \<or> hd (c_str z) = SLASH" using sp(7) z by (cases z) (auto simp: c_str_def)
    then have cs: "comps (c_str (drop i out)) = c # comps (c_str z)"
      unfolding sp(8) comps_slashes [OF sp(2)] using c by (intro comps_comp) (auto simp: is_comp_def)
    have "out ! (i + length s) = hd c" using d False lt by (simp add: hd_drop_conv_nth [symmetric])
    then have nn: "out ! (i + length s) \<noteq> NUL" using sp(6) False hd_in_set by metis
    have g: "get_bytes (i + length s) (length c) out = c" by (simp add: get_bytes_def d)
    have "s \<noteq> []" if "hd (drop i out) = SLASH \<or> hd (drop i out) = NUL"
    proof
      assume "s = []"
      then have "hd (drop i out) = hd c" using sp(1) False by simp
      then show False using that sp(6) False hd_in_set [of c] by metis
    qed
    then show thesis
      using comp [OF c sp(3,4) lt nn g] cs sp(5,7,8) unfolding de by simp
  qed
qed

lemma comp_is_dots:
  assumes "get_bytes start (length c) out = c" and "start + length c \<le> length out"
  shows "length c = 1 \<and> out ! start = CHR ''.'' \<longleftrightarrow> c = ''.''"
    and "length c = 2 \<and> out ! start = CHR ''.'' \<and> out ! (start + 1) = CHR ''.'' \<longleftrightarrow> c = ''..''"
proof -
  have "out ! (start + k) = c ! k" if "k < length c" for k using nth_get_bytes [of start "length c" out k] assms that by simp
  from this [of 0] this [of 1] show "length c = 1 \<and> out ! start = CHR ''.'' \<longleftrightarrow> c = ''.''"
    "length c = 2 \<and> out ! start = CHR ''.'' \<and> out ! (start + 1) = CHR ''.'' \<longleftrightarrow> c = ''..''"
    by (auto simp: length_Suc_conv numeral_2_eq_2)
qed

lemma norm_inv_pop:
  assumes "norm_inv out n i acc k" and "acc \<noteq> []" and "n \<le> length out" and "i \<le> e" and "NUL \<in> set (drop e out)"
    and "hd (drop e out) = SLASH \<or> hd (drop e out) = NUL" and "e + length (c_str (drop e out)) = k"
  shows "norm_inv out (back_up out (n - 1)) e (butlast acc) k" and "1 < n"
proof -
  note inv = assms(1) [unfolded norm_inv_def]
  obtain tr where tr: "take n out = render acc tr" using inv by blast
  note b = back_up_render [OF assms(2) _ tr assms(3)]
  show "1 < n" using b(1) inv by blast
  have "0 < back_up out (n - 1)" using b(2) inv by (cases "back_up out (n - 1)") (auto simp: render_def split: if_splits)
  then show "norm_inv out (back_up out (n - 1)) e (butlast acc) k"
    using inv b(2,3) assms(4-7) by (auto simp: norm_inv_def dest: in_set_butlastD)
qed

lemma norm_inv_push:
  assumes "norm_inv out n i acc k" and "is_comp c" and "get_bytes start (length c) out = c" and "i \<le> start"
    and "hd (drop i out) = SLASH \<or> hd (drop i out) = NUL \<Longrightarrow> i < start" and "start + length c \<le> length out"
    and "NUL \<in> set (drop (start + length c) out)"
    and "hd (drop (start + length c) out) = SLASH \<or> hd (drop (start + length c) out) = NUL"
    and "start + length c + length (c_str (drop (start + length c) out)) = k"
  obtains out1 n1 where "push_comp out n start (length c) = Some (out1, n1)" and "length out1 = length out"
    and "drop (start + length c) out1 = drop (start + length c) out" and "norm_inv out1 n1 (start + length c) (acc @ [c]) k"
proof -
  note inv = assms(1) [unfolded norm_inv_def]
  obtain tr where tr: "take n out = render acc tr" using inv by blast
  define n1 where "n1 = (if out ! (n - 1) \<noteq> SLASH then n + 1 else n)"
  have n1: "n1 \<le> start" using inv assms(4,5) by (auto simp: n1_def)
  have n0: "0 < n" "n \<le> length out" using inv assms(4,6) by auto
  obtain out1 where p: "push_comp out n start (length c) = Some (out1, n1 + length c)" "length out1 = length out"
    "take (n1 + length c) out1 = (if out ! (n - 1) \<noteq> SLASH then take n out @ [SLASH] else take n out) @ c"
    "drop (start + length c) out1 = drop (start + length c) out"
    using push_comp_ok [OF n1_def n0(1) n1 assms(6)] assms(3) by auto
  have "take (n1 + length c) out1 = render (acc @ [c]) False"
    using p(3) render_push [OF _ tr n0] inv tr by auto
  then have "norm_inv out1 (n1 + length c) (start + length c) (acc @ [c]) k"
    using inv p(4) n1 assms(2,7-9) by (auto simp: norm_inv_def n1_def)
  then show thesis using that p by blast
qed

lemma norm_loop_ok:
  assumes "norm_inv out n i acc k"
  shows "\<exists>out' n' acc' tr. norm_loop out n i = Some (out', n') \<and> take n' out' = render acc' tr \<and>
    acc' = foldl resolve_comp acc (comps (c_str (drop i out))) \<and> (\<forall>c \<in> set acc'. is_comp c) \<and>
    0 < n' \<and> n' \<le> k \<and> length out' = length out"
  using assms
proof (induction "comps (c_str (drop i out))" arbitrary: out n i acc)
  case Nil
  note inv = Nil.prems [unfolded norm_inv_def]
  have nul: "NUL \<in> set (drop i out)" using inv by blast
  obtain tr where tr: "take n out = render acc tr" using inv by blast
  from nul show ?case
  proof (cases rule: comp_step)
    case stop
    then show ?thesis using inv tr by (intro exI [of _ out] exI [of _ n] exI [of _ acc] exI [of _ tr]) auto
  next
    case (comp start c)
    then show ?thesis using Nil.hyps by simp
  qed
next
  case (Cons x xs)
  note inv = Cons.prems [unfolded norm_inv_def]
  have nul: "NUL \<in> set (drop i out)" using inv by blast
  obtain tr where tr: "take n out = render acc tr" using inv by blast
  from nul show ?case
  proof (cases rule: comp_step)
    case stop
    then show ?thesis using Cons.hyps by simp
  next
    case (comp start c)
    let ?e = "start + length c"
    have le: "?e \<le> length out" using comp(4) by simp
    note dots = comp_is_dots [OF comp(6) le]
    have xs: "x = c" "xs = comps (c_str (drop ?e out))" using Cons.hyps(2) comp(7) by simp_all
    have k: "?e + length (c_str (drop ?e out)) = k" using comp(11) inv by simp
    have step: "norm_loop out n i =
        (if c = ''.'' then norm_loop out n ?e
         else if c = ''..'' then norm_loop out (if n > 1 then back_up out (n - 1) else n) ?e
         else case push_comp out n start (length c) of None \<Rightarrow> None | Some (out', n') \<Rightarrow> norm_loop out' n' ?e)"
    proof -
      have g: "\<not> (\<not> start < length out \<or> out ! start = NUL)" and l: "?e - start = length c" using comp(4,5) by auto
      show ?thesis by (subst norm_loop.simps) (simp only: Let_def comp(2,3) l g dots if_False)
    qed
    have next_step: ?thesis if "norm_loop out n i = norm_loop out1 n1 ?e" and "norm_inv out1 n1 ?e (resolve_comp acc c) k"
      and "drop ?e out1 = drop ?e out" and "length out1 = length out" for out1 n1
      using Cons.hyps(1) [of ?e out1 n1 "resolve_comp acc c"] that xs comp(7) by simp
    consider "c = ''.''" | "c = ''..''" "acc = []" | "c = ''..''" "acc \<noteq> []" | "c \<noteq> ''.''" "c \<noteq> ''..''" by blast
    then show ?thesis
    proof cases
      case 1
      then have "norm_inv out n ?e (resolve_comp acc c) k"
        using inv comp(8,9,10) k by (auto simp: norm_inv_def resolve_comp_def)
      then show ?thesis using next_step [of out n] step 1 by simp
    next
      case 2
      have "length (take n out) = 1" using tr 2(2) by (simp add: render_def)
      then have "n = 1" using inv le comp(9) by simp
      moreover have "norm_inv out n ?e (resolve_comp acc c) k"
        using inv comp(8,9,10) k 2 by (auto simp: norm_inv_def resolve_comp_def)
      ultimately show ?thesis using next_step [of out n] step 2 by simp
    next
      case 3
      have "n \<le> length out" using inv le comp(9) by simp
      then have "norm_inv out (back_up out (n - 1)) ?e (resolve_comp acc c) k" "1 < n"
        using norm_inv_pop [OF Cons.prems 3(2), of ?e] comp(8-10) k 3(1) by (simp_all add: resolve_comp_def)
      then show ?thesis using next_step [of out "back_up out (n - 1)"] step 3(1) by simp
    next
      case 4
      from norm_inv_push [OF Cons.prems comp(1,6,9,12) le comp(8,10) k]
      obtain out1 n1 where "push_comp out n start (length c) = Some (out1, n1)" "length out1 = length out"
        "drop ?e out1 = drop ?e out" "norm_inv out1 n1 ?e (acc @ [c]) k" by blast
      then show ?thesis using next_step [of out1 n1] step 4 by (simp add: resolve_comp_def)
    qed
  qed
qed

subsection \<open>The whole function\<close>

lemma NUL_render: "\<forall>c \<in> set acc. is_comp c \<Longrightarrow> NUL \<notin> set (render acc tr)"
  by (auto simp: render_def is_comp_def)

lemma c_str_terminated:
  assumes "n < length out" and "NUL \<notin> set (take n out)"
  shows "c_str (out[n := NUL]) = take n out"
proof -
  have "out[n := NUL] = take n out @ NUL # drop (Suc n) out" using assms(1) by (simp add: upd_conv_take_nth_drop)
  moreover have "c_str (take n out @ NUL # drop (Suc n) out) = take n out"
    unfolding c_str_def using assms(2) by (subst takeWhile_append2) auto
  ultimately show ?thesis by simp
qed

lemma replicate_Suc_conv_snoc: "replicate (Suc n) x = replicate n x @ [x]"
  by (simp add: replicate_append_same)

definition dots :: "string set" where "dots = {''.'', ''..''}"

lemma no_dots: "set acc \<inter> dots = {} \<Longrightarrow> set (foldl resolve_comp acc cs) \<inter> dots = {}"
proof (induction cs arbitrary: acc)
  case (Cons c cs)
  have "set (resolve_comp acc c) \<inter> dots = {}"
  proof (cases "c \<in> dots")
    case True
    then have "set (resolve_comp acc c) \<subseteq> set acc" by (auto simp: resolve_comp_def dots_def dest: in_set_butlastD)
    then show ?thesis using Cons.prems by blast
  next
    case False
    then have "resolve_comp acc c = acc @ [c]" unfolding resolve_comp_def dots_def by auto
    then show ?thesis using Cons.prems False by simp
  qed
  then show ?case using Cons.IH by simp
qed simp

text \<open>
  C30. Normalising a path. For an absolute path that fits its buffer \<open>normalize_path\<close>, which rewrites
  the path in place in one buffer, returns an absolute path, no longer than the old one, whose
  components are those of the old path with \<open>.\<close> left out and \<open>..\<close> taking back the component before
  it, the root being its own parent; so neither occurs in the result.
\<close>
theorem normalize_path_correct:
  assumes "hd p = SLASH" and "p \<noteq> []" and "NUL \<notin> set p" and "length p \<le> 255"
  shows "\<exists>r. normalize_path p = Some r \<and> hd r = SLASH \<and> length r \<le> length p \<and>
    comps r = foldl resolve_comp [] (comps p) \<and> set (comps r) \<inter> {''.'', ''..''} = {}"
proof -
  obtain q where p: "p = SLASH # q" using assms(1,2) by (cases p) auto
  define out where "out = p @ replicate (256 - length p) NUL"
  have out: "strncpy_buf 255 p @ [NUL] = out"
  proof -
    have "256 - length p = Suc (255 - length p)" using assms(4) by simp
    then show ?thesis using assms(4) by (simp only: strncpy_buf_def out_def replicate_Suc_conv_snoc) simp
  qed
  have len: "length out = 256" using assms(4) by (simp add: out_def)
  have d: "drop 1 out = q @ replicate (256 - length p) NUL" by (simp add: out_def p)
  have cq: "c_str (drop 1 out) = q"
    unfolding d c_str_def using assms(3,4) p by (subst takeWhile_append2) (auto simp: takeWhile_eq_Nil_iff)
  have "take 1 out = render [] False" by (simp add: out_def p render_def)
  then have "norm_inv out 1 1 [] (length p)"
    using d cq assms(4) by (auto simp: norm_inv_def out_def p intro!: exI [of _ False])
  from norm_loop_ok [OF this] cq
  obtain out' n' acc' tr where l: "norm_loop out 1 1 = Some (out', n')" "take n' out' = render acc' tr"
    "acc' = foldl resolve_comp [] (comps q)" "\<forall>c \<in> set acc'. is_comp c" "0 < n'" "n' \<le> length p" "length out' = length out"
    by auto
  have "c_str (out'[n' := NUL]) = render acc' tr"
    using c_str_terminated [of n' out'] NUL_render [OF l(4)] l(2,6,7) len assms(4) by simp
  then have r: "normalize_path p = Some (render acc' tr)"
    using l(1,6) assms(4) out by (simp add: normalize_path_def out_def p)
  have cr: "comps (render acc' tr) = acc'" using l(4) by (intro comps_render) blast
  show ?thesis
  proof (intro exI conjI)
    show "normalize_path p = Some (render acc' tr)" by (rule r)
    show "hd (render acc' tr) = SLASH" by (cases acc') (simp_all add: render_def)
    show "length (render acc' tr) \<le> length p" unfolding l(2) [symmetric] using l(6) by simp
    show "comps (render acc' tr) = foldl resolve_comp [] (comps p)" using cr l(3) by (simp add: p)
    show "set (comps (render acc' tr)) \<inter> {''.'', ''..''} = {}"
      unfolding cr unfolding l(3) dots_def [symmetric] by (rule no_dots) simp
  qed
qed

theorem normalize_path_correct_witness:
  "\<exists>r. normalize_path ''/usr/./lib/../bin//sh'' = Some r \<and> comps r = [''usr'', ''bin'', ''sh'']"
proof -
  have "comps ''/usr/./lib/../bin//sh'' = [''usr'', ''.'', ''lib'', ''..'', ''bin'', ''sh'']" by (simp add: comps.simps)
  then show ?thesis
    using normalize_path_correct [of "''/usr/./lib/../bin//sh''"] by (auto simp: resolve_comp_def)
qed

subsection \<open>Absolute paths\<close>

definition at_cwd :: "string \<Rightarrow> string \<Rightarrow> string option" where
  \<comment> \<open>the working directory, a slash unless it ends in one, and the path\<close>
  "at_cwd cwd path = do {
     must (cwd \<noteq> []);
     Some (cwd @ (if last cwd \<noteq> SLASH then [SLASH] else []) @ path)
   }"

definition build_abs_path :: "string \<Rightarrow> string \<Rightarrow> nat \<Rightarrow> string option" where
  \<comment> \<open>what is in \<open>out\<close> afterwards; \<open>None\<close> also if the function returns without having stored anything there\<close>
  "build_abs_path cwd path out_size =
     (if take 1 path = [SLASH] then normalize_path (take (out_size - 1) path)
      else if length cwd + length path + 2 > out_size then None
      else at_cwd cwd path \<bind> normalize_path)"

end
