(* ===== verification/Keyboard.thy ===== *)
theory Keyboard
  imports Interfaces Task
begin

text \<open>
  The PS/2 keyboard driver \<open>drivers/ps2/kbd.c\<close>: the ring of characters between the interrupt
  handler and the readers, the bit map of keys held down, and the translation of scan codes.
  The output buffer of the controller is part of the state: \<open>ps2_out\<close> holds the scan codes not
  yet read, and a read of an empty buffer returns the last byte again. The driver refines a
  keyboard that keeps a set of held keys and a list of typed characters.
\<close>

section \<open>The driver\<close>

definition KBD_BUFFER_SIZE :: nat where "KBD_BUFFER_SIZE = 256"
definition SIGINT :: int where "SIGINT = 2"

record keyboard =
  kbd_buffer :: "u8 list"
  kbd_head :: nat
  kbd_tail :: nat
  kbd_shift :: bool
  kbd_caps :: bool
  kbd_key_state :: "u8 list"
  ps2_out :: "u8 list"
  ps2_last :: u8

definition kbd_scan_normal :: "u8 list" where
  "kbd_scan_normal = [0, 0x1B] @ str_bytes ''1234567890-='' @ [8, 9] @ str_bytes ''qwertyuiop[]'' @
     [10, 0] @ str_bytes ''asdfghjkl;'' @ [39, 96, 0, 92] @ str_bytes ''zxcvbnm,./'' @
     [0] @ str_bytes ''*'' @ [0] @ str_bytes '' '' @ replicate 70 0"

definition kbd_scan_shift :: "u8 list" where
  "kbd_scan_shift = [0, 0x1B] @ str_bytes ''!@#$%^&*()_+'' @ [8, 9] @ str_bytes ''QWERTYUIOP{}'' @
     [10, 0] @ str_bytes ''ASDFGHJKL:'' @ [34, 126, 0, 124] @ str_bytes ''ZXCVBNM<>?'' @
     [0] @ str_bytes ''*'' @ [0] @ str_bytes '' '' @ replicate 70 0"

definition kbd_push :: "u8 \<Rightarrow> keyboard \<Rightarrow> keyboard" where
  "kbd_push c k =
     (let nxt = (kbd_head k + 1) mod KBD_BUFFER_SIZE in
      if nxt \<noteq> kbd_tail k then k\<lparr>kbd_buffer := (kbd_buffer k)[kbd_head k := c], kbd_head := nxt\<rparr>
      else k)"

definition kbd_get :: "keyboard \<Rightarrow> (u8 \<times> keyboard) option" where
  \<comment> \<open>the ring half of \<open>kbd_pop\<close>: the character itself, before it is widened to \<open>int\<close>\<close>
  "kbd_get k =
     (if kbd_head k = kbd_tail k then None
      else Some (kbd_buffer k ! kbd_tail k, k\<lparr>kbd_tail := (kbd_tail k + 1) mod KBD_BUFFER_SIZE\<rparr>))"

definition kbd_pop :: "keyboard \<Rightarrow> int \<times> keyboard" where
  "kbd_pop k = (case kbd_get k of None \<Rightarrow> (-1, k) | Some (c, k') \<Rightarrow> (sint c, k'))"

definition key_held :: "u8 \<Rightarrow> keyboard \<Rightarrow> bool" where
  "key_held sc k \<longleftrightarrow> kbd_key_state k ! (unat sc div 8) AND push_bit (unat sc mod 8) 1 \<noteq> 0"

definition mark_key :: "u8 \<Rightarrow> keyboard \<Rightarrow> keyboard" where
  "mark_key sc k = (let ks = kbd_key_state k; i = unat sc div 8 in
     k\<lparr>kbd_key_state := ks[i := ks ! i OR push_bit (unat sc mod 8) 1]\<rparr>)"

definition unmark_key :: "u8 \<Rightarrow> keyboard \<Rightarrow> keyboard" where
  "unmark_key sc k = (let ks = kbd_key_state k; i = unat sc div 8 in
     k\<lparr>kbd_key_state := ks[i := ks ! i AND NOT (push_bit (unat sc mod 8) 1)]\<rparr>)"

definition send_interrupt :: "sched_state \<Rightarrow> sched_state" where
  \<comment> \<open>Ctrl+C\<close>
  "send_interrupt s = (case scheduler_get_current s of
       None \<Rightarrow> s
     | Some c \<Rightarrow> signal_send (pid (tasks s c)) SIGINT s)"

definition key_char :: "u8 \<Rightarrow> keyboard \<Rightarrow> u8" where
  "key_char sc k =
     (let c = (if kbd_shift k then kbd_scan_shift ! unat sc else kbd_scan_normal ! unat sc) in
      if 97 \<le> c \<and> c \<le> 122 \<and> kbd_caps k then c - 0x20 else c)"

definition kbd_process_scancode :: "u8 \<Rightarrow> keyboard \<Rightarrow> sched_state \<Rightarrow> keyboard \<times> sched_state" where
  "kbd_process_scancode scancode k s =
     (if scancode AND 0x80 \<noteq> 0 then
        (let sc = scancode AND 0x7F; k1 = unmark_key sc k in
         (if sc = 0x2A \<or> sc = 0x36 then k1\<lparr>kbd_shift := False\<rparr> else k1, s))
      else if key_held scancode k then (k, s)
      else (let k1 = mark_key scancode k in
        if scancode = 0x1D then (k1, s)
        else if scancode = 0x2A \<or> scancode = 0x36 then (k1\<lparr>kbd_shift := True\<rparr>, s)
        else if scancode = 0x3A then (k1\<lparr>kbd_caps := \<not> kbd_caps k1\<rparr>, s)
        else if key_held 0x1D k1 \<and> scancode = 0x2E then (k1, send_interrupt s)
        else (let c = key_char scancode k1 in (if c \<noteq> 0 then kbd_push c k1 else k1, s))))"

definition in_ps2_data :: "keyboard \<Rightarrow> u8 \<times> keyboard" where
  "in_ps2_data k = (case ps2_out k of
       [] \<Rightarrow> (ps2_last k, k)
     | b # bs \<Rightarrow> (b, k\<lparr>ps2_out := bs, ps2_last := b\<rparr>))"

definition kbd_irq_handler :: "keyboard \<Rightarrow> sched_state \<Rightarrow> keyboard \<times> sched_state" where
  "kbd_irq_handler k s = (let (scancode, k1) = in_ps2_data k in kbd_process_scancode scancode k1 s)"

definition kbd_poll_one :: "keyboard \<Rightarrow> sched_state \<Rightarrow> int \<times> keyboard \<times> sched_state" where
  "kbd_poll_one k s =
     (if ps2_out k = [] then (-1, k, s)
      else (let (scancode, k1) = in_ps2_data k;
                (k2, s1) = kbd_process_scancode scancode k1 s;
                (c, k3) = kbd_pop k2
            in (c, k3, s1)))"

fun kbd_read_loop :: "nat \<Rightarrow> keyboard \<Rightarrow> sched_state \<Rightarrow> u8 list \<times> keyboard \<times> sched_state" where
  "kbd_read_loop 0 k s = ([], k, s)"
| "kbd_read_loop (Suc n) k s =
     (let (c, k1) = kbd_pop k;
          (c, k2, s1) = (if c < 0 then kbd_poll_one k1 s else (c, k1, s)) in
      if c < 0 then ([], k2, s1)
      else (let (bs, k3, s2) = kbd_read_loop n k2 s1 in (word_of_int c # bs, k3, s2)))"

definition kbd_read :: "u32 \<Rightarrow> keyboard \<Rightarrow> sched_state \<Rightarrow> int \<times> u8 list \<times> keyboard \<times> sched_state" where
  "kbd_read nbyte k s =
     (let (bs, k1, s1) = kbd_read_loop (unat nbyte) k s in
      (sint (of_nat (length bs) :: u32), bs, k1, s1))"

definition kbd_reset :: "keyboard \<Rightarrow> keyboard" where
  \<comment> \<open>what \<open>ps2_keyboard_init\<close> sets\<close>
  "kbd_reset k = k\<lparr>kbd_head := 0, kbd_tail := 0, kbd_shift := False, kbd_caps := False,
     kbd_key_state := replicate 16 0\<rparr>"

definition init_keyboard :: keyboard where
  \<comment> \<open>the statics after start-up, with an empty controller\<close>
  "init_keyboard = \<lparr>kbd_buffer = replicate KBD_BUFFER_SIZE 0, kbd_head = 0, kbd_tail = 0,
     kbd_shift = False, kbd_caps = False, kbd_key_state = replicate 16 0, ps2_out = [], ps2_last = 0\<rparr>"

section \<open>The ring is a queue\<close>

definition kbd_count :: "keyboard \<Rightarrow> nat" where
  "kbd_count k = (kbd_head k + KBD_BUFFER_SIZE - kbd_tail k) mod KBD_BUFFER_SIZE"

definition kbd_contents :: "keyboard \<Rightarrow> u8 list" where
  "kbd_contents k =
     map (\<lambda>i. kbd_buffer k ! ((kbd_tail k + i) mod KBD_BUFFER_SIZE)) [0..<kbd_count k]"

definition kbd_inv :: "keyboard \<Rightarrow> bool" where
  "kbd_inv k \<longleftrightarrow> length (kbd_buffer k) = KBD_BUFFER_SIZE \<and> kbd_head k < KBD_BUFFER_SIZE \<and>
     kbd_tail k < KBD_BUFFER_SIZE \<and> length (kbd_key_state k) = 16"

lemma length_kbd_contents [simp]: "length (kbd_contents k) = kbd_count k"
  by (simp add: kbd_contents_def)

lemma kbd_count_zero_iff: "kbd_inv k \<Longrightarrow> kbd_count k = 0 \<longleftrightarrow> kbd_head k = kbd_tail k"
  unfolding kbd_inv_def kbd_count_def KBD_BUFFER_SIZE_def by (auto simp: mod_if)

lemma kbd_head_eq:
  "kbd_inv k \<Longrightarrow> kbd_head k = (kbd_tail k + kbd_count k) mod KBD_BUFFER_SIZE"
  unfolding kbd_inv_def kbd_count_def by (simp add: mod_add_right_eq)

lemma kbd_count_less: "kbd_count k < KBD_BUFFER_SIZE"
  by (simp add: kbd_count_def KBD_BUFFER_SIZE_def)

lemma kbd_full_iff:
  "kbd_inv k \<Longrightarrow> (kbd_head k + 1) mod KBD_BUFFER_SIZE = kbd_tail k \<longleftrightarrow> kbd_count k = KBD_BUFFER_SIZE - 1"
  unfolding kbd_inv_def kbd_count_def KBD_BUFFER_SIZE_def by (auto simp: mod_if split: if_splits)

lemma kbd_push_full:
  "kbd_inv k \<Longrightarrow> kbd_count k = KBD_BUFFER_SIZE - 1 \<Longrightarrow> kbd_push c k = k"
  by (simp add: kbd_push_def kbd_full_iff [unfolded Suc_eq_plus1 [symmetric]])

lemma kbd_push_contents:
  assumes "kbd_inv k" and "kbd_count k < KBD_BUFFER_SIZE - 1"
  shows "kbd_contents (kbd_push c k) = kbd_contents k @ [c]" and "kbd_inv (kbd_push c k)"
proof -
  let ?N = "KBD_BUFFER_SIZE" and ?k = "kbd_push c k"
  have room: "(kbd_head k + 1) mod ?N \<noteq> kbd_tail k" using kbd_full_iff [OF assms(1)] assms(2) by auto
  have k': "?k = k\<lparr>kbd_buffer := (kbd_buffer k)[kbd_head k := c], kbd_head := (kbd_head k + 1) mod ?N\<rparr>"
    using room by (simp add: kbd_push_def Let_def)
  have N: "0 < ?N" by (simp add: KBD_BUFFER_SIZE_def)
  show inv: "kbd_inv ?k" using assms(1) N by (simp add: k' kbd_inv_def)
  have cnt: "kbd_count ?k = Suc (kbd_count k)"
    using assms unfolding k' kbd_inv_def kbd_count_def KBD_BUFFER_SIZE_def
    by (auto simp: mod_if split: if_splits)
  have hd: "kbd_head k = (kbd_tail k + kbd_count k) mod ?N" using assms(1) by (rule kbd_head_eq)
  have "(kbd_buffer k)[kbd_head k := c] ! ((kbd_tail k + i) mod ?N) = kbd_buffer k ! ((kbd_tail k + i) mod ?N)"
    if "i < kbd_count k" for i
    using ring_index_neq [OF that kbd_count_less, of "kbd_tail k"] hd by simp
  moreover have "(kbd_buffer k)[kbd_head k := c] ! kbd_head k = c"
    using assms(1) by (simp add: kbd_inv_def)
  ultimately show "kbd_contents ?k = kbd_contents k @ [c]"
    using hd cnt by (simp add: kbd_contents_def k')
qed

lemma kbd_get_contents:
  assumes "kbd_inv k" and "kbd_get k = Some (c, k')"
  shows "kbd_contents k = c # kbd_contents k'" and "kbd_inv k'"
proof -
  let ?N = "KBD_BUFFER_SIZE"
  have ne: "kbd_head k \<noteq> kbd_tail k" and c: "c = kbd_buffer k ! kbd_tail k"
    and k': "k' = k\<lparr>kbd_tail := (kbd_tail k + 1) mod ?N\<rparr>"
    using assms(2) by (auto simp: kbd_get_def split: if_splits)
  have cnt: "kbd_count k = Suc (kbd_count k')"
    using assms(1) ne unfolding k' kbd_inv_def kbd_count_def KBD_BUFFER_SIZE_def
    by (auto simp: mod_if split: if_splits)
  have "[0..<kbd_count k] = 0 # map Suc [0..<kbd_count k']"
    using cnt by (simp add: upt_conv_Cons map_Suc_upt)
  moreover have "((kbd_tail k + 1) mod ?N + i) mod ?N = (kbd_tail k + Suc i) mod ?N" for i
    by (simp add: mod_add_left_eq)
  moreover have "kbd_tail k mod ?N = kbd_tail k" using assms(1) by (simp add: kbd_inv_def)
  moreover have "kbd_tail k' = (kbd_tail k + 1) mod ?N" "kbd_buffer k' = kbd_buffer k"
    by (simp_all add: k')
  ultimately show "kbd_contents k = c # kbd_contents k'"
    unfolding kbd_contents_def c by simp
  show "kbd_inv k'" using assms(1) by (simp add: kbd_inv_def k' KBD_BUFFER_SIZE_def)
qed

interpretation keys: fifo kbd_contents "KBD_BUFFER_SIZE - 1" kbd_push kbd_get kbd_inv
proof unfold_locales
  show "kbd_inv q \<Longrightarrow> (kbd_get q = None) = (kbd_contents q = [])" for q
    using kbd_count_zero_iff [of q] by (simp add: kbd_get_def kbd_contents_def)
qed (simp_all add: kbd_push_contents kbd_get_contents)

section \<open>Keys\<close>

text \<open>
  The specification: a set of held keys, the two shift states, and for every scan code what the
  keyboard does with it.
\<close>

datatype key_action = Quiet | Typed u8 | Interrupt

type_synonym keys = "u8 set \<times> bool \<times> bool"

definition glyph :: "bool \<Rightarrow> bool \<Rightarrow> u8 \<Rightarrow> u8" where
  "glyph shift caps sc =
     (let c = (if shift then kbd_scan_shift else kbd_scan_normal) ! unat sc in
      if caps \<and> c \<in> {97..122} then c - 0x20 else c)"

fun key_event :: "u8 \<Rightarrow> keys \<Rightarrow> key_action \<times> keys" where
  "key_event sc (held, shift, caps) =
     (if 128 \<le> sc then
        (Quiet, held - {sc - 128}, shift \<and> sc - 128 \<notin> {0x2A, 0x36}, caps)
      else if sc \<in> held then (Quiet, held, shift, caps)
      else (if sc = 0x1D then Quiet
            else if sc \<in> {0x2A, 0x36, 0x3A} then Quiet
            else if sc = 0x2E \<and> 0x1D \<in> held then Interrupt
            else if glyph shift caps sc = 0 then Quiet else Typed (glyph shift caps sc),
            insert sc held, shift \<or> sc \<in> {0x2A, 0x36}, caps \<noteq> (sc = 0x3A)))"

fun key_events :: "u8 list \<Rightarrow> keys \<Rightarrow> key_action list \<times> keys" where
  "key_events [] ks = ([], ks)"
| "key_events (sc # scs) ks =
     (let (a, ks1) = key_event sc ks; (as, ks2) = key_events scs ks1 in (a # as, ks2))"

definition key_abs :: "keyboard \<Rightarrow> keys" where
  "key_abs k = ({sc. sc < 128 \<and> key_held sc k}, kbd_shift k, kbd_caps k)"

definition typed :: "key_action list \<Rightarrow> u8 list" where
  "typed as = concat (map (\<lambda>a. case a of Typed c \<Rightarrow> [c] | _ \<Rightarrow> []) as)"

definition interrupts :: "key_action list \<Rightarrow> nat" where
  "interrupts as = length (filter (\<lambda>a. a = Interrupt) as)"

lemma key_held_bit: "key_held sc k \<longleftrightarrow> bit (kbd_key_state k ! (unat sc div 8)) (unat sc mod 8)"
  unfolding key_held_def by (simp add: push_bit_eq_mult and_exp_eq_0_iff_not_bit)

lemma key_index:
  assumes "sc < (128 :: u8)"
  shows "unat sc div 8 < 16"
  using assms by (simp add: word_less_nat_alt)

lemma key_eq_iff: "unat a div 8 = unat b div 8 \<Longrightarrow> unat a mod 8 = unat b mod 8 \<longleftrightarrow> a = (b :: u8)"
  by (metis div_mult_mod_eq word_unat_eq_iff)

lemma mark_key_state:
  "kbd_key_state (mark_key sc k) = (kbd_key_state k)[unat sc div 8 :=
     kbd_key_state k ! (unat sc div 8) OR push_bit (unat sc mod 8) 1]"
  by (simp add: mark_key_def Let_def)

lemma unmark_key_state:
  "kbd_key_state (unmark_key sc k) = (kbd_key_state k)[unat sc div 8 :=
     kbd_key_state k ! (unat sc div 8) AND NOT (push_bit (unat sc mod 8) 1)]"
  by (simp add: unmark_key_def Let_def)

lemma key_held_mark:
  assumes "kbd_inv k" and "sc < 128"
  shows "key_held j (mark_key sc k) \<longleftrightarrow> j = sc \<or> key_held j k"
proof (cases "unat j div 8 = unat sc div 8")
  case True
  let ?w = "kbd_key_state k ! (unat sc div 8)"
  have "unat sc div 8 < length (kbd_key_state k)"
    using assms key_index [of sc] by (simp add: kbd_inv_def)
  then have "key_held j (mark_key sc k) \<longleftrightarrow> bit (?w OR push_bit (unat sc mod 8) 1) (unat j mod 8)"
    using True by (simp only: key_held_bit mark_key_state nth_list_update_eq)
  also have "\<dots> \<longleftrightarrow> bit ?w (unat j mod 8) \<or> unat j mod 8 = unat sc mod 8"
    by (rule bit_or_push) simp_all
  finally show ?thesis using True key_eq_iff [OF True] by (auto simp: key_held_bit)
next
  case False
  then show ?thesis by (auto simp: key_held_bit mark_key_def Let_def)
qed

lemma key_held_unmark:
  assumes "kbd_inv k" and "sc < 128"
  shows "key_held j (unmark_key sc k) \<longleftrightarrow> j \<noteq> sc \<and> key_held j k"
proof (cases "unat j div 8 = unat sc div 8")
  case True
  let ?w = "kbd_key_state k ! (unat sc div 8)"
  have "unat sc div 8 < length (kbd_key_state k)"
    using assms key_index [of sc] by (simp add: kbd_inv_def)
  then have "key_held j (unmark_key sc k) \<longleftrightarrow> bit (?w AND NOT (push_bit (unat sc mod 8) 1)) (unat j mod 8)"
    using True by (simp only: key_held_bit unmark_key_state nth_list_update_eq)
  also have "\<dots> \<longleftrightarrow> bit ?w (unat j mod 8) \<and> unat j mod 8 \<noteq> unat sc mod 8"
    by (rule bit_and_not_push) simp_all
  finally show ?thesis using True key_eq_iff [OF True] by (auto simp: key_held_bit)
next
  case False
  then show ?thesis by (auto simp: key_held_bit unmark_key_def Let_def)
qed

lemma mark_key_simps [simp]:
  "kbd_inv (mark_key sc k) = kbd_inv k" "kbd_contents (mark_key sc k) = kbd_contents k"
  "kbd_shift (mark_key sc k) = kbd_shift k" "kbd_caps (mark_key sc k) = kbd_caps k"
  "ps2_out (mark_key sc k) = ps2_out k"
  "kbd_inv (unmark_key sc k) = kbd_inv k" "kbd_contents (unmark_key sc k) = kbd_contents k"
  "kbd_shift (unmark_key sc k) = kbd_shift k" "kbd_caps (unmark_key sc k) = kbd_caps k"
  "ps2_out (unmark_key sc k) = ps2_out k"
  by (simp_all add: mark_key_def unmark_key_def Let_def kbd_inv_def kbd_contents_def kbd_count_def)

lemma kbd_upd_simps [simp]:
  "kbd_inv (k\<lparr>kbd_shift := b\<rparr>) = kbd_inv k" "kbd_contents (k\<lparr>kbd_shift := b\<rparr>) = kbd_contents k"
  "kbd_inv (k\<lparr>kbd_caps := b\<rparr>) = kbd_inv k" "kbd_contents (k\<lparr>kbd_caps := b\<rparr>) = kbd_contents k"
  "key_held j (k\<lparr>kbd_shift := b\<rparr>) = key_held j k" "key_held j (k\<lparr>kbd_caps := b\<rparr>) = key_held j k"
  "kbd_inv (k\<lparr>ps2_out := q, ps2_last := l\<rparr>) = kbd_inv k"
  "kbd_contents (k\<lparr>ps2_out := q, ps2_last := l\<rparr>) = kbd_contents k"
  "key_abs (k\<lparr>ps2_out := q, ps2_last := l\<rparr>) = key_abs k"
  by (simp_all add: kbd_inv_def kbd_contents_def kbd_count_def key_held_def key_abs_def)

lemma kbd_push_simps [simp]:
  "key_held j (kbd_push c k) = key_held j k" "kbd_shift (kbd_push c k) = kbd_shift k"
  "kbd_caps (kbd_push c k) = kbd_caps k" "ps2_out (kbd_push c k) = ps2_out k"
  by (simp_all add: kbd_push_def Let_def key_held_def)

lemma kbd_push_take:
  assumes "kbd_inv k"
  shows "kbd_inv (kbd_push c k) \<and>
    kbd_contents (kbd_push c k) = take (KBD_BUFFER_SIZE - 1) (kbd_contents k @ [c])"
proof (cases "kbd_count k < KBD_BUFFER_SIZE - 1")
  case True
  with assms show ?thesis by (simp add: kbd_push_contents)
next
  case False
  with kbd_count_less [of k] have "kbd_count k = KBD_BUFFER_SIZE - 1" by simp
  with assms show ?thesis by (simp add: kbd_push_full)
qed

lemma kbd_contents_take [simp]: "take (KBD_BUFFER_SIZE - Suc 0) (kbd_contents k) = kbd_contents k"
  using kbd_count_less [of k] by simp

lemma high_bit:
  fixes sc :: u8
  shows "sc AND 0x80 \<noteq> 0 \<longleftrightarrow> 128 \<le> sc"
    and "128 \<le> sc \<Longrightarrow> sc AND 0x7F = sc - 128"
    and "128 \<le> sc \<Longrightarrow> sc - 128 < 128"
proof -
  have lt: "unat sc < 256" using unsigned_less [of sc, where 'a = nat] by simp
  have "sc AND 0x80 \<noteq> 0 \<longleftrightarrow> bit sc 7"
    using and_exp_eq_0_iff_not_bit [of sc 7] by simp
  also have "\<dots> \<longleftrightarrow> odd (unat sc div 128)"
    using bit_unsigned_iff [of sc 7, where 'a = nat] by (simp add: bit_nat_def)
  also have "\<dots> \<longleftrightarrow> 128 \<le> unat sc"
    using lt by (cases "128 \<le> unat sc") (simp_all add: le_div_geq)
  finally show "sc AND 0x80 \<noteq> 0 \<longleftrightarrow> 128 \<le> sc" by (simp add: word_le_nat_alt)
  assume "128 \<le> sc"
  then have sub: "unat (sc - 128) = unat sc - 128" and ge: "128 \<le> unat sc"
    by (simp_all add: unat_sub word_le_nat_alt)
  show "sc - 128 < 128" using sub ge lt by (simp add: word_less_nat_alt)
  have "sc AND 0x7F = take_bit 7 sc" by (simp add: take_bit_eq_mask mask_eq_exp_minus_1)
  then have "unat (sc AND 0x7F) = unat sc mod 128"
    using unsigned_take_bit_eq [of 7 sc, where 'a = nat] by (simp add: take_bit_eq_mod)
  also have "\<dots> = unat sc - 128" using ge lt by (simp add: le_mod_geq)
  finally show "sc AND 0x7F = sc - 128" using sub by (simp add: word_unat_eq_iff)
qed

lemma key_char_glyph: "key_char sc k = glyph (kbd_shift k) (kbd_caps k) sc"
  by (simp add: key_char_def glyph_def Let_def)

lemma key_abs_simps:
  "kbd_inv k \<Longrightarrow> sc < 128 \<Longrightarrow> key_abs k = (held, shift, caps) \<Longrightarrow>
     key_abs (mark_key sc k) = (insert sc held, shift, caps)"
  "kbd_inv k \<Longrightarrow> sc < 128 \<Longrightarrow> key_abs k = (held, shift, caps) \<Longrightarrow>
     key_abs (unmark_key sc k) = (held - {sc}, shift, caps)"
  "key_abs k = (held, shift, caps) \<Longrightarrow> key_abs (k\<lparr>kbd_shift := b\<rparr>) = (held, b, caps)"
  "key_abs k = (held, shift, caps) \<Longrightarrow> key_abs (k\<lparr>kbd_caps := b\<rparr>) = (held, shift, b)"
  "key_abs (kbd_push c k) = key_abs k"
  by (auto simp: key_abs_def key_held_mark key_held_unmark)

lemma key_abs_D:
  assumes "key_abs k = (held, shift, caps)"
  shows "kbd_shift k = shift" and "kbd_caps k = caps"
    and "sc < 128 \<Longrightarrow> key_held sc k \<longleftrightarrow> sc \<in> held"
  using assms by (auto simp: key_abs_def)

lemma release_refines:
  assumes "kbd_inv k" and "128 \<le> sc" and "key_abs k = (held, shift, caps)"
  defines "k1 \<equiv> unmark_key (sc - 128) k"
  shows "kbd_process_scancode sc k s =
      (if sc - 128 \<in> {0x2A, 0x36} then k1\<lparr>kbd_shift := False\<rparr> else k1, s)"
    and "key_abs k1 = (held - {sc - 128}, shift, caps)"
proof -
  show "kbd_process_scancode sc k s =
      (if sc - 128 \<in> {0x2A, 0x36} then k1\<lparr>kbd_shift := False\<rparr> else k1, s)"
    using assms(2) by (simp add: kbd_process_scancode_def high_bit k1_def Let_def)
  have "sc - 128 < 128" using assms(2) by (rule high_bit)
  with assms(1,3) show "key_abs k1 = (held - {sc - 128}, shift, caps)"
    unfolding k1_def by (simp add: key_abs_simps(2))
qed

lemma process_scancode_refines:
  assumes "kbd_inv k" and "key_event sc (key_abs k) = (a, ks)"
    and "kbd_process_scancode sc k s = (k', s')"
  shows "kbd_inv k' \<and> key_abs k' = ks \<and>
    kbd_contents k' = take (KBD_BUFFER_SIZE - 1) (kbd_contents k @ typed [a]) \<and>
    s' = (send_interrupt ^^ interrupts [a]) s \<and> ps2_out k' = ps2_out k"
proof -
  obtain held shift caps where abs: "key_abs k = (held, shift, caps)" by (cases "key_abs k")
  note D = key_abs_D [OF abs]
  show ?thesis
  proof (cases "128 \<le> sc")
    case True
    note R = release_refines [OF assms(1) True abs]
    show ?thesis
    proof (cases "sc - 128 \<in> {0x2A, 0x36}")
      case shift: True
      with R(1) assms(3) have "k' = (unmark_key (sc - 128) k)\<lparr>kbd_shift := False\<rparr>" "s' = s"
        by simp_all
      with shift True assms(1,2) abs R(2) show ?thesis
        by (simp add: key_abs_simps typed_def interrupts_def)
    next
      case shift: False
      with R(1) assms(3) have "k' = unmark_key (sc - 128) k" "s' = s" by simp_all
      with shift True assms(1,2) abs R(2) show ?thesis by (simp add: typed_def interrupts_def)
    qed
  next
    case False
    then have lt: "sc < 128" and low: "\<not> (sc AND 0x80 \<noteq> 0)" by (simp_all add: high_bit)
    show ?thesis
    proof (cases "sc \<in> held")
      case True
      with D(3) lt low assms(3) have "k' = k" "s' = s" by (simp_all add: kbd_process_scancode_def)
      with True False lt assms(1,2) abs show ?thesis by (simp add: typed_def interrupts_def)
    next
      case fresh: False
      let ?k = "mark_key sc k" and ?g = "glyph shift caps sc"
      have abs1: "key_abs ?k = (insert sc held, shift, caps)"
        using assms(1) lt abs by (rule key_abs_simps)
      note D1 = key_abs_D [OF abs1]
      have ctrl: "key_held 0x1D ?k \<longleftrightarrow> 0x1D \<in> insert sc held" by (rule D1(3)) simp
      have step: "kbd_process_scancode sc k s =
        (if sc = 0x1D then (?k, s)
         else if sc = 0x2A \<or> sc = 0x36 then (?k\<lparr>kbd_shift := True\<rparr>, s)
         else if sc = 0x3A then (?k\<lparr>kbd_caps := \<not> caps\<rparr>, s)
         else if sc = 0x2E \<and> 0x1D \<in> held then (?k, send_interrupt s)
         else (if ?g \<noteq> 0 then kbd_push ?g ?k else ?k, s))"
        using low fresh D(3) [OF lt] D1(1,2) ctrl
        by (auto simp: kbd_process_scancode_def Let_def key_char_glyph)
      note prems = step assms(2,3) fresh lt abs1 key_abs_simps(3,4) [OF abs1] kbd_push_take [of ?k ?g]
      note facts = assms(1) abs key_abs_simps(5) typed_def interrupts_def
      consider "sc = 0x1D" | "sc = 0x2A \<or> sc = 0x36" | "sc = 0x3A"
        | "sc = 0x2E" "0x1D \<in> held" | "sc \<notin> {0x1D, 0x2A, 0x36, 0x3A}" "\<not> (sc = 0x2E \<and> 0x1D \<in> held)"
        by auto
      then show ?thesis
      proof cases
        case 1
        with prems show ?thesis by (auto simp: facts)
      next
        case 2
        with prems show ?thesis by (auto simp: facts)
      next
        case 3
        with prems show ?thesis by (auto simp: facts)
      next
        case 4
        with prems show ?thesis by (auto simp: facts)
      next
        case 5
        with prems show ?thesis by (auto simp: facts split: if_splits)
      qed
    qed
  qed
qed

section \<open>Typing and reading\<close>

fun kbd_irqs :: "nat \<Rightarrow> keyboard \<Rightarrow> sched_state \<Rightarrow> keyboard \<times> sched_state" where
  \<comment> \<open>that many keyboard interrupts\<close>
  "kbd_irqs 0 k s = (k, s)"
| "kbd_irqs (Suc n) k s = (let (k1, s1) = kbd_irq_handler k s in kbd_irqs n k1 s1)"

lemma typed_Cons: "typed (a # as) = typed [a] @ typed as"
  and interrupts_Cons: "interrupts (a # as) = interrupts as + interrupts [a]"
  by (simp_all add: typed_def interrupts_def)

lemma take_take_append: "take n (take n xs @ ys) = take n (xs @ ys)"
  by (cases "length xs \<le> n") simp_all

lemma kbd_irqs_refines:
  assumes "kbd_inv k" and "ps2_out k = scs" and "key_events scs (key_abs k) = (as, ks)"
    and "kbd_irqs (length scs) k s = (k', s')"
  shows "kbd_inv k' \<and> key_abs k' = ks \<and>
    kbd_contents k' = take (KBD_BUFFER_SIZE - 1) (kbd_contents k @ typed as) \<and>
    s' = (send_interrupt ^^ interrupts as) s \<and> ps2_out k' = []"
  using assms
proof (induction scs arbitrary: k s as)
  case Nil
  then show ?case by (simp add: typed_def interrupts_def)
next
  case (Cons sc scs)
  let ?k = "k\<lparr>ps2_out := scs, ps2_last := sc\<rparr>" and ?N = "KBD_BUFFER_SIZE - 1"
  obtain a ks1 bs where ev: "key_event sc (key_abs k) = (a, ks1)"
      and evs: "key_events scs ks1 = (bs, ks)" and as: "as = a # bs"
    using Cons.prems(3) by (auto simp: Let_def split: prod.splits)
  obtain k1 s1 where st: "kbd_process_scancode sc ?k s = (k1, s1)" by fastforce
  have rest: "kbd_irqs (length scs) k1 s1 = (k', s')"
    using Cons.prems(2,4) st by (simp add: kbd_irq_handler_def in_ps2_data_def)
  have R: "kbd_inv k1" "key_abs k1 = ks1"
      "kbd_contents k1 = take ?N (kbd_contents k @ typed [a])"
      "s1 = (send_interrupt ^^ interrupts [a]) s" "ps2_out k1 = scs"
    using process_scancode_refines [OF _ _ st, of a ks1] Cons.prems(1) ev by simp_all
  have "take ?N (take ?N (kbd_contents k @ typed [a]) @ typed bs)
      = take ?N ((kbd_contents k @ typed [a]) @ typed bs)"
    by (rule take_take_append)
  then show ?case
    using Cons.IH [OF R(1,5), of bs s1] evs R rest
    by (simp add: as typed_Cons [of a bs] interrupts_Cons [of a bs] funpow_add)
qed

text \<open>Every character the tables hold is below 128, so that \<open>kbd_pop\<close> is negative only for an empty ring.\<close>

definition ascii_keys :: "keyboard \<Rightarrow> bool" where
  "ascii_keys k \<longleftrightarrow> (\<forall>c \<in> set (kbd_contents k). c < 128)"

lemma sint_ascii: "c < (128 :: u8) \<Longrightarrow> 0 \<le> sint c \<and> word_of_int (sint c) = c"
  using high_bit(1) [of c] and_exp_eq_0_iff_not_bit [of c 7] bit_last_iff [of c] by (simp add: not_less [symmetric])

lemma read_loop_drains:
  assumes "kbd_inv k" and "ascii_keys k" and "ps2_out k = []"
  shows "\<exists>k'. kbd_read_loop n k s = (take n (kbd_contents k), k', s) \<and> kbd_inv k' \<and>
    kbd_contents k' = drop n (kbd_contents k) \<and> key_abs k' = key_abs k"
  using assms
proof (induction n arbitrary: k)
  case 0
  then show ?case by simp
next
  case (Suc n)
  show ?case
  proof (cases "kbd_get k")
    case None
    then have "kbd_contents k = []" using Suc.prems(1) by (simp add: keys.pop_None_iff)
    with None Suc.prems show ?thesis by (simp add: kbd_pop_def kbd_poll_one_def)
  next
    case (Some p)
    then obtain c k1 where p: "kbd_get k = Some (c, k1)" by (cases p) auto
    note C = kbd_get_contents [OF Suc.prems(1) p]
    have "c < 128" "ascii_keys k1" using Suc.prems(2) C(1) by (simp_all add: ascii_keys_def)
    moreover have "ps2_out k1 = []" "key_abs k1 = key_abs k"
      using p Suc.prems(3) by (auto simp: kbd_get_def key_abs_def key_held_def split: if_splits)
    ultimately show ?thesis
      using Suc.IH [OF C(2)] C(1) p sint_ascii [of c] by (auto simp: kbd_pop_def)
  qed
qed

lemma scan_tables_ascii:
  "length kbd_scan_normal = 128 \<and> length kbd_scan_shift = 128 \<and>
   (\<forall>c \<in> set kbd_scan_normal. c < 128) \<and> (\<forall>c \<in> set kbd_scan_shift. c < 128)"
  by (simp add: kbd_scan_normal_def kbd_scan_shift_def str_bytes_def)

lemma glyph_ascii: "sc < 128 \<Longrightarrow> glyph shift caps sc < 128"
proof -
  assume "sc < 128"
  let ?c = "(if shift then kbd_scan_shift else kbd_scan_normal) ! unat sc"
  have "unat sc < 128" using \<open>sc < 128\<close> by (simp add: word_less_nat_alt)
  then have "?c < 128" using scan_tables_ascii by simp
  moreover have "97 \<le> ?c \<Longrightarrow> ?c - 0x20 < 128"
    using calculation by (simp add: word_less_nat_alt word_le_nat_alt unat_sub)
  ultimately show ?thesis by (simp add: glyph_def Let_def)
qed

lemma typed_ascii:
  "key_events scs ks = (as, ks') \<Longrightarrow> \<forall>c \<in> set (typed as). c < 128"
proof (induction scs arbitrary: ks as)
  case Nil
  then show ?case by (simp add: typed_def)
next
  case (Cons sc scs)
  obtain held shift caps where ks: "ks = (held, shift, caps)" by (cases ks)
  obtain a ks1 bs where ev: "key_event sc ks = (a, ks1)"
      and evs: "key_events scs ks1 = (bs, ks')" and as: "as = a # bs"
    using Cons.prems by (auto simp: Let_def split: prod.splits)
  have "\<forall>c \<in> set (typed [a]). c < 128"
    using ev glyph_ascii [of sc shift caps] by (auto simp: ks typed_def not_le split: if_splits)
  with Cons.IH [OF evs] show ?case by (auto simp: as typed_Cons [of a bs])
qed

text \<open>
  C31. Typing reaches the reader. Let any scan codes wait in the controller while the
  interrupt handler runs once for each. Afterwards the driver is in the state that the
  specification keyboard reaches on them: the same keys are held, the shift states agree, and
  one \<open>SIGINT\<close> was sent to the current task for each Ctrl+C. A read then returns the characters
  typed, in order and after those that were waiting, up to the number asked for; repeated codes
  of a held key type nothing, and what does not fit into the 255 usable places of the ring is
  lost from the end.
\<close>

theorem typing_reaches_reader:
  assumes "kbd_inv k" and "ascii_keys k"
    and "key_events (ps2_out k) (key_abs k) = (as, ks)"
    and "kbd_irqs (length (ps2_out k)) k s = (k1, s1)"
  shows "\<exists>k2. kbd_read n k1 s1 =
      (let bs = take (unat n) (take (KBD_BUFFER_SIZE - 1) (kbd_contents k @ typed as)) in
       (int (length bs), bs, k2, (send_interrupt ^^ interrupts as) s)) \<and>
    kbd_inv k2 \<and> key_abs k2 = ks \<and>
    kbd_contents k2 = drop (unat n) (take (KBD_BUFFER_SIZE - 1) (kbd_contents k @ typed as))"
proof -
  note R = kbd_irqs_refines [OF assms(1) refl assms(3,4)]
  have "ascii_keys k1"
    using R assms(2) typed_ascii [OF assms(3)] by (auto simp: ascii_keys_def dest: in_set_takeD)
  then obtain k2 where k2: "kbd_read_loop (unat n) k1 s1 = (take (unat n) (kbd_contents k1), k2, s1)"
      "kbd_inv k2" "kbd_contents k2 = drop (unat n) (kbd_contents k1)" "key_abs k2 = key_abs k1"
    using read_loop_drains [of k1 "unat n" s1] R by auto
  let ?bs = "take (unat n) (kbd_contents k1)"
  have "length ?bs < 256" using kbd_count_less [of k1] by (simp add: KBD_BUFFER_SIZE_def)
  then have "sint (of_nat (length ?bs) :: u32) = int (length ?bs)"
    using sint_small [of "of_nat (length ?bs)"] by (simp add: word_less_nat_alt unat_of_nat)
  with k2 R show ?thesis by (auto simp: kbd_read_def Let_def)
qed

theorem typing_reaches_reader_witness:
  "\<exists>k1 s1 k2. kbd_irqs 6 (init_keyboard\<lparr>ps2_out := [0x2A, 0x23, 0x23, 0xAA, 0x17, 0x2A]\<rparr>) (init_sched 0 0)
       = (k1, s1) \<and> kbd_read 8 k1 s1 = (2, str_bytes ''Hi'', k2, init_sched 0 0) \<and> kbd_inv k2"
proof -
  let ?scs = "[0x2A, 0x23, 0x23, 0xAA, 0x17, 0x2A] :: u8 list"
  let ?k = "init_keyboard\<lparr>ps2_out := ?scs\<rparr>" and ?s = "init_sched 0 0"
  have inv: "kbd_inv ?k" and empty: "kbd_contents ?k = []"
    by (simp_all add: kbd_inv_def init_keyboard_def kbd_contents_def kbd_count_def KBD_BUFFER_SIZE_def)
  have "key_abs ?k = ({}, False, False)"
    by (auto simp: key_abs_def key_held_bit init_keyboard_def key_index)
  moreover have "key_events ?scs ({}, False, False) =
      ([Quiet, Typed 72, Quiet, Quiet, Typed 105, Quiet], {0x23, 0x17, 0x2A}, True, False)"
    by (auto simp: glyph_def kbd_scan_normal_def kbd_scan_shift_def str_bytes_def)
  ultimately have ev: "key_events (ps2_out ?k) (key_abs ?k) =
      ([Quiet, Typed 72, Quiet, Quiet, Typed 105, Quiet], {0x23, 0x17, 0x2A}, True, False)" by simp
  obtain k1 s1 where irqs: "kbd_irqs (length (ps2_out ?k)) ?k ?s = (k1, s1)" by fastforce
  have "ascii_keys ?k" by (simp add: ascii_keys_def empty)
  from typing_reaches_reader [OF inv this ev irqs, of 8]
  obtain k2 where "kbd_read 8 k1 s1 = (2, [72, 105], k2, ?s)" and "kbd_inv k2"
    by (auto simp: typed_def interrupts_def KBD_BUFFER_SIZE_def empty)
  moreover have "kbd_irqs 6 ?k ?s = (k1, s1)" using irqs by (simp add: numeral_eq_Suc)
  moreover have "str_bytes ''Hi'' = [72, 105]" by (simp add: str_bytes_def)
  ultimately show ?thesis by metis
qed

end
