(* ===== verification/Vga.thy ===== *)
theory Vga
  imports Interfaces
begin

text \<open>
  The text console \<open>drivers/vga/text.c\<close> and the terminal settings it shares with the keyboard:
  the 25 by 80 cells of the frame buffer at 0xB8000, the cursor all VGA files share, and the
  two cursor registers of the display controller. A store outside the 2000 cells is \<open>None\<close>. The
  driver refines a terminal given by rows and columns.
\<close>

section \<open>The driver\<close>

definition VGA_WIDTH :: nat where "VGA_WIDTH = 80"
definition VGA_HEIGHT :: nat where "VGA_HEIGHT = 25"

record vga =
  vga_cells :: "u16 list"
  cursor_x :: u8
  cursor_y :: u8
  crtc_high :: u8
  crtc_low :: u8

definition vga_color :: "bool \<Rightarrow> u8" where
  \<comment> \<open>\<open>stderr_priv.color\<close> and \<open>stdout_priv.color\<close>\<close>
  "vga_color err = (if err then 0x04 else 0x0F)"

definition vga_update_cursor :: "vga \<Rightarrow> vga" where
  "vga_update_cursor v =
     (let pos = of_nat (unat (cursor_y v) * VGA_WIDTH + unat (cursor_x v)) :: u16 in
      v\<lparr>crtc_high := ucast (drop_bit 8 pos), crtc_low := ucast (pos AND 0xFF)\<rparr>)"

definition vga_store :: "u16 \<Rightarrow> vga \<Rightarrow> vga option" where
  "vga_store w v = do {
     let i = unat (cursor_y v) * VGA_WIDTH + unat (cursor_x v);
     must (i < length (vga_cells v));
     Some (v\<lparr>vga_cells := (vga_cells v)[i := w]\<rparr>)
   }"

definition vga_char :: "u8 \<Rightarrow> u8 \<Rightarrow> vga \<Rightarrow> vga option" where
  \<comment> \<open>the \<open>switch\<close>; \<open>char\<close> is signed, so that bytes from 128 on set the attribute bits too\<close>
  "vga_char color c v =
     (if c = 10 then Some (v\<lparr>cursor_y := cursor_y v + 1, cursor_x := 0\<rparr>)
      else if c = 13 then Some (v\<lparr>cursor_x := 0\<rparr>)
      else if c = 8 then Some (if cursor_x v > 0 then v\<lparr>cursor_x := cursor_x v - 1\<rparr> else v)
      else do {
        v1 \<leftarrow> vga_store (scast c OR push_bit 8 (ucast color)) v;
        let v2 = v1\<lparr>cursor_x := cursor_x v1 + 1\<rparr>;
        Some (if unat (cursor_x v2) \<ge> VGA_WIDTH then v2\<lparr>cursor_x := 0, cursor_y := cursor_y v2 + 1\<rparr> else v2)
      })"

definition vga_scroll :: "u8 \<Rightarrow> vga \<Rightarrow> vga" where
  "vga_scroll color v =
     (if unat (cursor_y v) \<ge> VGA_HEIGHT then
        (let n = VGA_WIDTH * (VGA_HEIGHT - 1);
             moved = put_bytes 0 (get_bytes VGA_WIDTH n (vga_cells v)) (vga_cells v);
             blank = 32 OR push_bit 8 (ucast color);
             cleared = fold (\<lambda>x cs. cs[n + x := blank]) [0..<VGA_WIDTH] moved
         in v\<lparr>vga_cells := cleared, cursor_y := of_nat (VGA_HEIGHT - 1)\<rparr>)
      else v)"

primrec vga_write_loop :: "u8 \<Rightarrow> u8 list \<Rightarrow> vga \<Rightarrow> vga option" where
  "vga_write_loop color [] v = Some v"
| "vga_write_loop color (c # cs) v = do {
     v1 \<leftarrow> vga_char color c v;
     vga_write_loop color cs (vga_scroll color v1)
   }"

definition vga_text_write :: "bool \<Rightarrow> u8 list \<Rightarrow> vga \<Rightarrow> (int \<times> vga) option" where
  "vga_text_write err buf v = do {
     v1 \<leftarrow> vga_write_loop (vga_color err) buf v;
     Some (sint (of_nat (length buf) :: u32), vga_update_cursor v1)
   }"

definition vga_text_clear :: "vga \<Rightarrow> vga" where
  "vga_text_clear v = (let blank = 32 OR push_bit 8 0x0F in
     v\<lparr>vga_cells := fold (\<lambda>i cs. cs[i := blank]) [0..<VGA_WIDTH * VGA_HEIGHT] (vga_cells v)\<rparr>)"

subsection \<open>Terminal settings\<close>

definition NCCS :: nat where "NCCS = 19"
definition TERMIOS_SIZE :: nat where "TERMIOS_SIZE = 36"
definition TCGETS :: int where "TCGETS = 0x5401"
definition TCSETS :: int where "TCSETS = 0x5402"
definition TCSETSW :: int where "TCSETSW = 0x5403"
definition TCSETSF :: int where "TCSETSF = 0x5404"
definition ICANON :: u32 where "ICANON = 2"
definition ECHO :: u32 where "ECHO = 8"
definition ICRNL :: u32 where "ICRNL = 0x100"

record termios =
  c_iflag :: u32
  c_oflag :: u32
  c_cflag :: u32
  c_lflag :: u32
  c_cc :: "u8 list"
  c_pad :: u8 \<comment> \<open>the padding byte, which \<open>memcpy\<close> copies too\<close>

definition encode_termios :: "termios \<Rightarrow> u8 list" where
  "encode_termios t = le32 (c_iflag t) @ le32 (c_oflag t) @ le32 (c_cflag t) @ le32 (c_lflag t) @
     c_cc t @ [c_pad t]"

definition decode_termios :: "u8 list \<Rightarrow> termios" where
  "decode_termios bs = \<lparr>c_iflag = of_le32 (get_bytes 0 4 bs), c_oflag = of_le32 (get_bytes 4 4 bs),
     c_cflag = of_le32 (get_bytes 8 4 bs), c_lflag = of_le32 (get_bytes 12 4 bs),
     c_cc = get_bytes 16 NCCS bs, c_pad = bs ! 35\<rparr>"

definition tty_ioctl_termios :: "int \<Rightarrow> u8 list \<Rightarrow> termios \<Rightarrow> int \<times> u8 list \<times> termios" where
  \<comment> \<open>\<open>vga_ioctl\<close> and \<open>kbd_ioctl\<close>: the bytes at \<open>arg\<close> before and after the call\<close>
  "tty_ioctl_termios cmd arg t =
     (if cmd = TCGETS then (0, put_bytes 0 (encode_termios t) arg, t)
      else if cmd = TCSETS \<or> cmd = TCSETSW \<or> cmd = TCSETSF then
        (0, arg, decode_termios (get_bytes 0 TERMIOS_SIZE arg))
      else (-1, arg, t))"

definition init_termios :: termios where
  "init_termios = \<lparr>c_iflag = ICRNL, c_oflag = 0, c_cflag = 0, c_lflag = ECHO OR ICANON,
     c_cc = replicate NCCS 0, c_pad = 0\<rparr>"

definition vga_text_reset :: "vga \<Rightarrow> vga" where
  \<comment> \<open>what \<open>vga_text_init\<close> does to the screen\<close>
  "vga_text_reset v = vga_update_cursor ((vga_text_clear v)\<lparr>cursor_x := 0, cursor_y := 0\<rparr>)"

definition wf_termios :: "termios \<Rightarrow> bool" where
  "wf_termios t \<longleftrightarrow> length (c_cc t) = NCCS"

interpretation tios: packed_struct encode_termios decode_termios TERMIOS_SIZE wf_termios
  by unfold_locales (simp_all add: encode_termios_def decode_termios_def wf_termios_def NCCS_def
      TERMIOS_SIZE_def codec_simps get_bytes_def nth_append)

section \<open>A terminal of rows and columns\<close>

definition vga_wf :: "vga \<Rightarrow> bool" where
  "vga_wf v \<longleftrightarrow> length (vga_cells v) = VGA_WIDTH * VGA_HEIGHT \<and>
     unat (cursor_x v) < VGA_WIDTH \<and> unat (cursor_y v) < VGA_HEIGHT"

record terminal =
  glyph_at :: "nat \<Rightarrow> nat \<Rightarrow> u16"
  row :: nat
  col :: nat

definition term_of :: "vga \<Rightarrow> terminal" where
  "term_of v = \<lparr>glyph_at = (\<lambda>r c. if r < VGA_HEIGHT \<and> c < VGA_WIDTH then vga_cells v ! (r * VGA_WIDTH + c) else 0),
     row = unat (cursor_y v), col = unat (cursor_x v)\<rparr>"

definition new_line :: "u8 \<Rightarrow> terminal \<Rightarrow> terminal" where
  "new_line color t =
     (if row t + 1 < VGA_HEIGHT then t\<lparr>row := row t + 1, col := 0\<rparr>
      else t\<lparr>col := 0, glyph_at := (\<lambda>r c.
        if c < VGA_WIDTH \<and> r + 1 < VGA_HEIGHT then glyph_at t (r + 1) c
        else if c < VGA_WIDTH \<and> r + 1 = VGA_HEIGHT then 32 OR push_bit 8 (ucast color)
        else 0)\<rparr>)"

definition term_put :: "u8 \<Rightarrow> u8 \<Rightarrow> terminal \<Rightarrow> terminal" where
  "term_put color c t =
     (if c = 10 then new_line color t
      else if c = 13 then t\<lparr>col := 0\<rparr>
      else if c = 8 then t\<lparr>col := col t - 1\<rparr>
      else (let w = scast c OR push_bit 8 (ucast color);
                t1 = t\<lparr>glyph_at := (glyph_at t)(row t := (glyph_at t (row t))(col t := w))\<rparr>
            in if col t + 1 < VGA_WIDTH then t1\<lparr>col := col t + 1\<rparr> else new_line color t1))"

lemma fold_clear:
  "n + m \<le> length xs \<Longrightarrow> fold (\<lambda>x cs. cs[n + x := b]) [0..<m] xs = put_bytes n (replicate m b) xs"
proof (induction m)
  case 0
  then show ?case by simp
next
  case (Suc m)
  then show ?case
    by (intro nth_equalityI) (auto simp: buf_simps nth_list_update nth_append replicate_append_same [symmetric])
qed

lemma byte_suc: "unat (b :: u8) < 100 \<Longrightarrow> unat (b + 1) = unat b + 1"
  by (simp add: unat_word_ariths)

lemma vga_scroll_low: "unat (cursor_y v) < VGA_HEIGHT \<Longrightarrow> vga_scroll color v = v"
  by (simp add: vga_scroll_def)

lemma vga_line_feed:
  fixes color :: u8
  assumes "vga_wf v"
  defines "v' \<equiv> vga_scroll color (v\<lparr>cursor_y := cursor_y v + 1, cursor_x := 0\<rparr>)"
  shows "vga_wf v' \<and> term_of v' = new_line color (term_of v)"
proof -
  have len: "length (vga_cells v) = 2000" and y: "unat (cursor_y v) < 25"
    using assms(1) by (simp_all add: vga_wf_def VGA_WIDTH_def VGA_HEIGHT_def)
  have y1: "unat (cursor_y v + 1) = unat (cursor_y v) + 1" using y by (simp add: byte_suc)
  show ?thesis
  proof (cases "unat (cursor_y v) + 1 < VGA_HEIGHT")
    case True
    then show ?thesis using assms(1) y1
      by (simp add: v'_def vga_scroll_low vga_wf_def term_of_def new_line_def VGA_WIDTH_def cong: if_cong)
  next
    case False
    let ?b = "32 OR push_bit 8 (ucast color) :: u16"
    let ?cells = "put_bytes 1920 (replicate 80 ?b) (put_bytes 0 (get_bytes 80 1920 (vga_cells v)) (vga_cells v))"
    have v': "v' = v\<lparr>vga_cells := ?cells, cursor_y := 24, cursor_x := 0\<rparr>"
      using False y1 len
      by (simp add: v'_def vga_scroll_def VGA_HEIGHT_def VGA_WIDTH_def Let_def fold_clear buf_simps)
    have lc: "length ?cells = 2000" using len by (simp add: buf_simps)
    have cell: "?cells ! (r * 80 + c) = (if r + 1 < 25 then vga_cells v ! ((r + 1) * 80 + c) else ?b)"
      if "r < 25" "c < 80" for r c
      using that len by (auto simp: buf_simps algebra_simps)
    have "row (term_of v) + 1 = VGA_HEIGHT" using False y by (simp add: term_of_def VGA_HEIGHT_def)
    then show ?thesis
      using lc y False cell [of 24] by (auto simp: v' vga_wf_def term_of_def new_line_def VGA_HEIGHT_def
          VGA_WIDTH_def cell intro!: ext)
  qed
qed

lemma cell_index_eq:
  "c < VGA_WIDTH \<Longrightarrow> c' < VGA_WIDTH \<Longrightarrow> r * VGA_WIDTH + c = r' * VGA_WIDTH + c' \<longleftrightarrow> r = r' \<and> c = c'"
  by (metis add.commute div_mult_self3 div_less mod_less mod_mult_self3 add_0 less_nat_zero_code)

lemma vga_char_step:
  assumes "vga_wf v"
  shows "\<exists>v1. vga_char color c v = Some v1 \<and> vga_wf (vga_scroll color v1) \<and>
    term_of (vga_scroll color v1) = term_put color c (term_of v)"
proof -
  have len: "length (vga_cells v) = VGA_WIDTH * VGA_HEIGHT" and x: "unat (cursor_x v) < VGA_WIDTH"
      and y: "unat (cursor_y v) < VGA_HEIGHT"
    using assms by (simp_all add: vga_wf_def)
  consider "c = 10" | "c = 13" | "c = 8" | "c \<notin> {8, 10, 13}" by auto
  then show ?thesis
  proof cases
    case 1
    with vga_line_feed [OF assms, of color] show ?thesis by (simp add: vga_char_def term_put_def)
  next
    case 2
    with x y len show ?thesis
      by (simp add: vga_char_def term_put_def vga_scroll_low term_of_def vga_wf_def VGA_WIDTH_def cong: if_cong)
  next
    case 3
    have "unat (cursor_x v - 1) = unat (cursor_x v) - 1" if "0 < cursor_x v"
      using that by (simp add: unat_sub word_le_nat_alt word_less_nat_alt)
    with 3 x y len show ?thesis
      by (auto simp: vga_char_def term_put_def vga_scroll_low term_of_def vga_wf_def word_less_nat_alt cong: if_cong)
  next
    case 4
    let ?w = "scast c OR push_bit 8 (ucast color) :: u16"
    let ?i = "unat (cursor_y v) * VGA_WIDTH + unat (cursor_x v)"
    let ?v = "v\<lparr>vga_cells := (vga_cells v)[?i := ?w]\<rparr>"
    let ?t = "(term_of v)\<lparr>glyph_at := (glyph_at (term_of v))(row (term_of v) :=
      (glyph_at (term_of v) (row (term_of v)))(col (term_of v) := ?w))\<rparr>"
    have i: "?i < length (vga_cells v)" using x y by (simp add: len VGA_WIDTH_def VGA_HEIGHT_def)
    have st: "vga_store ?w v = Some ?v" using i by (simp add: vga_store_def)
    have wf: "vga_wf ?v" using assms by (simp add: vga_wf_def)
    have t: "term_of ?v = ?t"
      using i x y by (auto simp: term_of_def nth_list_update cell_index_eq intro!: ext)
    have x1: "unat (cursor_x v + 1) = unat (cursor_x v) + 1"
      using x by (intro byte_suc) (simp add: VGA_WIDTH_def)
    show ?thesis
    proof (cases "unat (cursor_x v) + 1 < VGA_WIDTH")
      case True
      then have "vga_char color c v = Some (?v\<lparr>cursor_x := cursor_x v + 1\<rparr>)"
        using 4 st x1 by (simp add: vga_char_def)
      moreover have "term_put color c (term_of v) = ?t\<lparr>col := col (term_of v) + 1\<rparr>"
        using 4 True by (simp add: term_put_def Let_def term_of_def)
      moreover have "term_of (?v\<lparr>cursor_x := cursor_x v + 1\<rparr>) = (term_of ?v)\<lparr>col := col (term_of v) + 1\<rparr>"
        using x1 by (simp add: term_of_def cong: if_cong)
      ultimately show ?thesis using True wf y x1 t by (simp add: vga_scroll_low vga_wf_def)
    next
      case False
      then have "vga_char color c v = Some (?v\<lparr>cursor_y := cursor_y ?v + 1, cursor_x := 0\<rparr>)"
        using 4 st x1 by (simp add: vga_char_def)
      moreover have "term_put color c (term_of v) = new_line color ?t"
        using 4 False by (simp add: term_put_def Let_def term_of_def)
      ultimately show ?thesis using vga_line_feed [OF wf, of color] t by simp
    qed
  qed
qed

lemma vga_write_loop_refines:
  "vga_wf v \<Longrightarrow> \<exists>v'. vga_write_loop color cs v = Some v' \<and> vga_wf v' \<and>
     term_of v' = fold (term_put color) cs (term_of v)"
proof (induction cs arbitrary: v)
  case Nil
  then show ?case by simp
next
  case (Cons c cs)
  obtain v1 where "vga_char color c v = Some v1" "vga_wf (vga_scroll color v1)"
      "term_of (vga_scroll color v1) = term_put color c (term_of v)"
    using vga_char_step [OF Cons.prems] by blast
  with Cons.IH [of "vga_scroll color v1"] show ?case by auto
qed

lemma u16_bytes: "unat (ucast (drop_bit 8 w) :: u8) * 256 + unat (ucast (w AND 0xFF) :: u8) = unat (w :: u16)"
proof -
  have lt: "unat w < 65536" using unsigned_less [of w, where 'a = nat] by simp
  have "w AND 0xFF = take_bit 8 w" by (simp add: take_bit_eq_mask mask_eq_exp_minus_1)
  then have "unat (ucast (w AND 0xFF) :: u8) = unat w mod 256"
    using unsigned_take_bit_eq [of 8 w, where 'a = nat] by (simp add: unsigned_ucast_eq take_bit_eq_mod)
  moreover have "unat (ucast (drop_bit 8 w) :: u8) = unat w div 256"
    using lt unsigned_drop_bit_eq [of 8 w, where 'a = nat]
    by (simp add: unsigned_ucast_eq take_bit_eq_mod drop_bit_eq_div)
  ultimately show ?thesis by simp
qed

text \<open>
  C32. The console stays on the screen. From a cursor inside the 25 rows and 80 columns, a write
  of any bytes to the console returns, having stored only into the 2000 cells of the frame
  buffer; it reports every byte written, the cursor is on the screen again, and what the
  screen shows and where the cursor stands is what a terminal that wraps and scrolls shows
  after those bytes. The controller's cursor register holds the cell the cursor is on.
\<close>

theorem vga_write_stays_on_screen:
  assumes "vga_wf v" and "length buf < 2 ^ 31"
  shows "\<exists>v'. vga_text_write err buf v = Some (int (length buf), v') \<and> vga_wf v' \<and>
    term_of v' = fold (term_put (vga_color err)) buf (term_of v) \<and>
    unat (crtc_high v') * 256 + unat (crtc_low v') = row (term_of v') * VGA_WIDTH + col (term_of v') \<and>
    unat (crtc_high v') * 256 + unat (crtc_low v') < length (vga_cells v')"
proof -
  have n: "sint (of_nat (length buf) :: u32) = int (length buf)"
    using sint_small [of "of_nat (length buf)"] assms(2) by (simp add: unat_of_nat)
  obtain v1 where v1: "vga_write_loop (vga_color err) buf v = Some v1" "vga_wf v1"
      "term_of v1 = fold (term_put (vga_color err)) buf (term_of v)"
    using vga_write_loop_refines [OF assms(1)] by blast
  define i where "i = unat (cursor_y v1) * VGA_WIDTH + unat (cursor_x v1)"
  have i: "i < 2000" using v1(2) by (simp add: i_def vga_wf_def VGA_WIDTH_def VGA_HEIGHT_def)
  then have "unat (of_nat i :: u16) = i" by (simp add: unat_of_nat)
  moreover have "vga_update_cursor v1 = v1\<lparr>crtc_high := ucast (drop_bit 8 (of_nat i :: u16)),
      crtc_low := ucast ((of_nat i :: u16) AND 0xFF)\<rparr>"
    by (simp only: vga_update_cursor_def i_def Let_def)
  ultimately have "unat (crtc_high (vga_update_cursor v1)) * 256 + unat (crtc_low (vga_update_cursor v1)) = i"
    using u16_bytes [of "of_nat i"] by simp
  moreover have "term_of (vga_update_cursor v1) = term_of v1" "vga_wf (vga_update_cursor v1)"
      "vga_cells (vga_update_cursor v1) = vga_cells v1"
    using v1(2) by (simp_all add: term_of_def vga_update_cursor_def Let_def vga_wf_def cong: if_cong)
  ultimately show ?thesis
    using v1 i by (auto simp: vga_text_write_def n i_def term_of_def vga_wf_def VGA_WIDTH_def VGA_HEIGHT_def)
qed

definition blank_vga :: vga where
  "blank_vga = \<lparr>vga_cells = replicate (VGA_WIDTH * VGA_HEIGHT) 0, cursor_x = 79, cursor_y = 24,
     crtc_high = 0, crtc_low = 0\<rparr>"

theorem vga_write_stays_on_screen_witness:
  "\<exists>v'. vga_text_write True [65] blank_vga = Some (1, v') \<and> vga_wf v' \<and>
     glyph_at (term_of v') 23 79 = 0x0441 \<and> row (term_of v') = 24 \<and> col (term_of v') = 0"
proof -
  have wf: "vga_wf blank_vga" by (simp add: vga_wf_def blank_vga_def VGA_WIDTH_def VGA_HEIGHT_def)
  have t: "fold (term_put (vga_color True)) [65] (term_of blank_vga) =
      (let t = (term_of blank_vga)\<lparr>glyph_at := (glyph_at (term_of blank_vga))(24 :=
         (glyph_at (term_of blank_vga) 24)(79 := 0x0441))\<rparr> in new_line 4 t)"
    by (simp add: term_put_def vga_color_def term_of_def blank_vga_def VGA_WIDTH_def VGA_HEIGHT_def)
  have "glyph_at (fold (term_put (vga_color True)) [65] (term_of blank_vga)) 23 79 = 0x0441 \<and>
      row (fold (term_put (vga_color True)) [65] (term_of blank_vga)) = 24 \<and>
      col (fold (term_put (vga_color True)) [65] (term_of blank_vga)) = 0"
    unfolding t by (simp add: new_line_def term_of_def blank_vga_def VGA_WIDTH_def VGA_HEIGHT_def)
  with vga_write_stays_on_screen [OF wf, of "[65]" True] show ?thesis by auto
qed

end
