(* ===== verification/Files.thy ===== *)
theory Files
  imports Vfs Pipe Paging Signal Paths Keyboard Vga
begin

text \<open>
  The whole kernel state, and the file layer that ties the components together: the read, write,
  ioctl and close operations of open files (\<open>kernel/vfs.c\<close>), the wrappers of
  \<open>kernel/devtmpfs.c\<close> that call a device driver, and the small drivers \<open>drivers/hello\<close>,
  \<open>drivers/null\<close> and \<open>drivers/tty\<close>.

  A read returns the value of the call and the bytes stored into the caller's buffer, or
  \<^const>\<open>Blocked\<close> when the task went to sleep inside a pipe; a write returns a
  \<^typ>\<open>write_outcome\<close> in the same way.
\<close>

section \<open>The kernel state\<close>

record kernel_state = fs_state +
  ksched :: sched_state
  kpipes :: pipe_state
  kmm :: mm_state
  kkbd :: keyboard
  kvga :: vga
  tty_termios :: termios
  kparts :: part_state
  tty_boot_in :: "nat option"    \<comment> \<open>the static variables of \<open>tty_get_stdin\<close> and \<open>tty_get_stdout\<close>\<close>
  tty_boot_out :: "nat option"
  sys_boot_in :: "nat option"    \<comment> \<open>those of \<open>sys_read\<close> and \<open>sys_write\<close>\<close>
  sys_boot_out :: "nat option"

abbreviation open_file_of :: "kernel_state \<Rightarrow> nat \<Rightarrow> open_file" where
  "open_file_of k f \<equiv> vfs_open_files k f"

definition current :: "kernel_state \<Rightarrow> task option" where
  \<comment> \<open>the task \<open>scheduler_get_current()\<close> points to\<close>
  "current k = map_option (tasks (ksched k)) (scheduler_get_current (ksched k))"

definition upd_current :: "(task \<Rightarrow> task) \<Rightarrow> kernel_state \<Rightarrow> kernel_state" where
  \<comment> \<open>an assignment through \<open>current\<close>, which is not null\<close>
  "upd_current g k = (case scheduler_get_current (ksched k) of
       None \<Rightarrow> k
     | Some c \<Rightarrow> k\<lparr>ksched := upd_task c g (ksched k)\<rparr>)"

section \<open>Small drivers\<close>

definition hello_read :: "u32 \<Rightarrow> u32 \<Rightarrow> (int \<times> u8 list) option" where
  "hello_read offset n =
     (let len = 8 in
      if offset \<ge> len then Some (0, [])
      else (let n = (if offset + n > len then len - offset else n) in do {
        must (unat offset + unat n \<le> 8);
        Some (sint n, get_bytes (unat offset) (unat n) (str_bytes ''hello fs''))
      }))"

definition null_read :: "u32 \<Rightarrow> u32 \<Rightarrow> int \<times> u8 list" where
  "null_read offset n = (0, [])"

definition null_write :: "u32 \<Rightarrow> u8 list \<Rightarrow> int" where
  "null_write offset src = sint (of_nat (length src) :: u32)"

definition devtmpfs_dev_null_read :: "u32 \<Rightarrow> u32 \<Rightarrow> int \<times> u8 list" where
  "devtmpfs_dev_null_read offset n = (-1, [])"

definition devtmpfs_dev_null_write :: "u32 \<Rightarrow> u8 list \<Rightarrow> int" where
  "devtmpfs_dev_null_write offset src = -1"

section \<open>Devices behind the device file system\<close>

definition device_of :: "nat \<Rightarrow> kernel_state \<Rightarrow> device_ops option" where
  \<comment> \<open>the driver table of the device an inode stands for\<close>
  "device_of n k = (case i_private (inode k n) of
       Device_Data d \<Rightarrow>
         if d < length (devtmpfs_devices k)
         then (case dev_kind (devtmpfs_devices k ! d) of Device_Vfs ops \<Rightarrow> Some ops | Device_Inode _ _ \<Rightarrow> None)
         else None
     | _ \<Rightarrow> None)"

definition devtmpfs_vfs_read :: "nat \<Rightarrow> u32 \<Rightarrow> u32 \<Rightarrow> kernel_state \<Rightarrow> ((int \<times> u8 list) \<times> kernel_state) option" where
  "devtmpfs_vfs_read n offset sz k = do {
     dev \<leftarrow> device_of n k;
     Some (case dev of
         Vga_Ops err \<Rightarrow> ((-1, []), k)
       | Kbd_Ops \<Rightarrow> (let (r, bs, kb, s) = kbd_read sz (kkbd k) (ksched k) in ((r, bs), k\<lparr>kkbd := kb, ksched := s\<rparr>))
       | Block_Dev_File_Ops bdev \<Rightarrow> (block_file_read (ext2_disks k) bdev offset sz, k))
   }"

definition devtmpfs_vfs_write :: "nat \<Rightarrow> u32 \<Rightarrow> u8 list \<Rightarrow> kernel_state \<Rightarrow> (int \<times> kernel_state) option" where
  "devtmpfs_vfs_write n offset src k = do {
     dev \<leftarrow> device_of n k;
     case dev of
       Vga_Ops err \<Rightarrow> do { (r, v) \<leftarrow> vga_text_write err src (kvga k); Some (r, k\<lparr>kvga := v\<rparr>) }
     | Kbd_Ops \<Rightarrow> Some (-1, k)
     | Block_Dev_File_Ops bdev \<Rightarrow>
         (let (r, ds) = block_file_write bdev offset (of_nat (length src)) src (ext2_disks k) in
          Some (r, k\<lparr>ext2_disks := ds\<rparr>))
   }"

definition devtmpfs_vfs_ioctl :: "nat \<Rightarrow> int \<Rightarrow> u8 list \<Rightarrow> kernel_state \<Rightarrow> ((int \<times> u8 list) \<times> kernel_state) option" where
  "devtmpfs_vfs_ioctl n cmd arg k = do {
     dev \<leftarrow> device_of n k;
     Some (case dev of
         Block_Dev_File_Ops bdev \<Rightarrow> ((-1, arg), k)
       | _ \<Rightarrow> (let (r, arg', t) = tty_ioctl_termios cmd arg (tty_termios k) in ((r, arg'), k\<lparr>tty_termios := t\<rparr>)))
   }"

section \<open>The terminal device\<close>

definition boot_file :: "string \<Rightarrow> kernel_state \<Rightarrow> (nat option \<times> kernel_state) option" where
  \<comment> \<open>the file opened once for a device while there is no task\<close>
  "boot_file name k = do {
     (ino, k1) \<leftarrow> vfs_resolve_path name k;
     Some (case ino of None \<Rightarrow> (None, k1) | Some n \<Rightarrow> vfs_open_file (Some n) k1)
   }"

definition tty_get_stdin :: "kernel_state \<Rightarrow> (nat option \<times> kernel_state) option" where
  "tty_get_stdin k =
     (case current k of
        Some t \<Rightarrow> Some (fd_table t ! 0, k)
      | None \<Rightarrow> if tty_boot_in k \<noteq> None then Some (tty_boot_in k, k)
                else do { (f, k1) \<leftarrow> boot_file ''/dev/kbd'' k; Some (f, k1\<lparr>tty_boot_in := f\<rparr>) })"

definition tty_get_stdout :: "kernel_state \<Rightarrow> (nat option \<times> kernel_state) option" where
  "tty_get_stdout k =
     (case current k of
        Some t \<Rightarrow> Some (fd_table t ! 1, k)
      | None \<Rightarrow> if tty_boot_out k \<noteq> None then Some (tty_boot_out k, k)
                else do { (f, k1) \<leftarrow> boot_file ''/dev/vga'' k; Some (f, k1\<lparr>tty_boot_out := f\<rparr>) })"

section \<open>Reading, writing and controlling an open file\<close>

definition pipe_of :: "open_file \<Rightarrow> nat option" where
  "pipe_of f = (case f_private f of Pipe_Data i \<Rightarrow> Some i | _ \<Rightarrow> None)"

definition inode_of_file :: "open_file \<Rightarrow> nat option option" where
  \<comment> \<open>\<open>(struct vfs_inode *)f->private_data\<close>: the inner \<open>None\<close> is a null pointer, the outer one a pipe read as an inode\<close>
  "inode_of_file f = (case f_private f of
       Inode_Data n \<Rightarrow> Some (Some n) | No_File_Data \<Rightarrow> Some None | Pipe_Data _ \<Rightarrow> None)"

partial_function (option) pack_dir ::
    "(nat \<Rightarrow> u32 \<Rightarrow> kernel_state \<Rightarrow> (vfs_dirent option \<times> kernel_state) option) \<Rightarrow> nat \<Rightarrow> u32 \<Rightarrow> u32 \<Rightarrow>
     u8 list \<Rightarrow> kernel_state \<Rightarrow> (u8 list \<times> kernel_state) option" where
  "pack_dir readdir n idx nbyte dst k = do {
     (r, k1) \<leftarrow> readdir n idx k;
     case r of
       None \<Rightarrow> Some (dst, k1)
     | Some dent \<Rightarrow>
         (let name = takeWhile (\<lambda>b. b \<noteq> 0) (d_name dent) in
          if int (length dst) + int (length name) + 1 > sint nbyte then Some (dst, k1)
          else pack_dir readdir n (idx + 1) nbyte (dst @ name @ [32]) k1)
   }"

definition advance :: "nat \<Rightarrow> int \<Rightarrow> kernel_state \<Rightarrow> kernel_state" where
  \<comment> \<open>\<open>if (ret > 0) f->pos += ret\<close>\<close>
  "advance f ret k = (if ret > 0 then upd_file f (\<lambda>x. x\<lparr>f_pos := f_pos x + word_of_int ret\<rparr>) k else k)"

definition pipe_file_read :: "nat \<Rightarrow> u32 \<Rightarrow> kernel_state \<Rightarrow> ((int \<times> u8 list) outcome \<times> kernel_state) option" where
  "pipe_file_read f nbyte k = do {
     (r, ps, s) \<leftarrow> pipe_read_op (pipe_of (open_file_of k f)) (unat nbyte) (kpipes k) (ksched k);
     Some (r, k\<lparr>kpipes := ps, ksched := s\<rparr>)
   }"

definition pipe_file_write :: "nat \<Rightarrow> u8 list \<Rightarrow> int \<Rightarrow> kernel_state \<Rightarrow> (write_outcome \<times> kernel_state) option" where
  "pipe_file_write f src sofar k = do {
     (r, ps, s) \<leftarrow> pipe_write_op (pipe_of (open_file_of k f)) src sofar (kpipes k) (ksched k);
     Some (r, k\<lparr>kpipes := ps, ksched := s\<rparr>)
   }"

definition inode_read :: "vfs_inode_ops \<Rightarrow> nat \<Rightarrow> u32 \<Rightarrow> u32 \<Rightarrow> kernel_state \<Rightarrow> ((int \<times> u8 list) \<times> kernel_state) option" where
  \<comment> \<open>\<open>inode->ops->read\<close> for all tables but that of the terminal; -1 where the field is null\<close>
  "inode_read ops n pos nbyte k = (case ops of
       Ext2_File_Ops \<Rightarrow> map_option (\<lambda>(r, bs, k1). ((r, bs), k1)) (ext2_inode_read n pos nbyte k)
     | Devtmpfs_Vfs_Inode_Ops \<Rightarrow> devtmpfs_vfs_read n pos nbyte k
     | Devtmpfs_Dev_Null_Ops \<Rightarrow> Some (devtmpfs_dev_null_read pos nbyte, k)
     | Hello_File_Ops \<Rightarrow> map_option (\<lambda>r. (r, k)) (hello_read pos nbyte)
     | Null_File_Ops \<Rightarrow> Some (null_read pos nbyte, k)
     | _ \<Rightarrow> Some ((-1, []), k))"

definition inode_write :: "vfs_inode_ops \<Rightarrow> nat \<Rightarrow> u32 \<Rightarrow> u8 list \<Rightarrow> kernel_state \<Rightarrow> (int \<times> kernel_state) option" where
  "inode_write ops n pos src k = (case ops of
       Ext2_File_Ops \<Rightarrow> ext2_inode_write n pos src k
     | Devtmpfs_Vfs_Inode_Ops \<Rightarrow> devtmpfs_vfs_write n pos src k
     | Devtmpfs_Dev_Null_Ops \<Rightarrow> Some (devtmpfs_dev_null_write pos src, k)
     | Null_File_Ops \<Rightarrow> Some (null_write pos src, k)
     | _ \<Rightarrow> Some (-1, k))"

partial_function (option) vfs_file_read :: "nat \<Rightarrow> u32 \<Rightarrow> kernel_state \<Rightarrow> ((int \<times> u8 list) outcome \<times> kernel_state) option" where
  \<comment> \<open>the terminal passes the call on to the standard input of the task; if that is the terminal
     again the recursion does not end\<close>
  "vfs_file_read f nbyte k = do {
     io \<leftarrow> inode_of_file (open_file_of k f);
     case io of
       None \<Rightarrow> Some (Returned (-1, []), k)
     | Some n \<Rightarrow>
        (case i_ops (inode k n) of
           None \<Rightarrow> Some (Returned (-1, []), k)
         | Some ops \<Rightarrow>
             if i_type (inode k n) = VFS_IDIR then
               (case readdir_op ops of
                  None \<Rightarrow> Some (Returned (-1, []), k)
                | Some rd \<Rightarrow> do {
                    (bs, k1) \<leftarrow> pack_dir rd n 0 nbyte [] k;
                    Some (Returned (int (length bs), bs), k1)
                  })
             else if ops = Tty_File_Ops then do {
               (g, k1) \<leftarrow> tty_get_stdin k;
               (r, k2) \<leftarrow> (case g of
                   None \<Rightarrow> Some (Returned (-1, []), k1)
                 | Some h \<Rightarrow>
                     (case f_ops (open_file_of k1 h) of
                        Some Vfs_File_Ops \<Rightarrow> vfs_file_read h nbyte k1
                      | Some Pipe_Read_Ops \<Rightarrow> pipe_file_read h nbyte k1
                      | _ \<Rightarrow> Some (Returned (-1, []), k1)));
               Some (r, case r of Returned (ret, _) \<Rightarrow> advance f ret k2 | Blocked \<Rightarrow> k2)
             }
             else do {
               ((ret, bs), k1) \<leftarrow> inode_read ops n (f_pos (open_file_of k f)) nbyte k;
               Some (Returned (ret, bs), advance f ret k1)
             })
   }"

partial_function (option) vfs_file_write :: "nat \<Rightarrow> u8 list \<Rightarrow> int \<Rightarrow> kernel_state \<Rightarrow> (write_outcome \<times> kernel_state) option" where
  \<comment> \<open>the third argument is 0, or what a blocked pipe write behind the terminal had written\<close>
  "vfs_file_write f src sofar k = do {
     io \<leftarrow> inode_of_file (open_file_of k f);
     case io of
       None \<Rightarrow> Some (Wrote (-1), k)
     | Some n \<Rightarrow>
        (case i_ops (inode k n) of
           None \<Rightarrow> Some (Wrote (-1), k)
         | Some ops \<Rightarrow>
             if ops = Tty_File_Ops then do {
               (g, k1) \<leftarrow> tty_get_stdout k;
               (r, k2) \<leftarrow> (case g of
                   None \<Rightarrow> Some (Wrote (-1), k1)
                 | Some h \<Rightarrow>
                     (case f_ops (open_file_of k1 h) of
                        Some Vfs_File_Ops \<Rightarrow> vfs_file_write h src sofar k1
                      | Some Pipe_Write_Ops \<Rightarrow> pipe_file_write h src sofar k1
                      | _ \<Rightarrow> Some (Wrote (-1), k1)));
               Some (r, case r of Wrote ret \<Rightarrow> advance f ret k2 | Write_Blocked _ _ \<Rightarrow> k2)
             }
             else do {
               (ret, k1) \<leftarrow> inode_write ops n (f_pos (open_file_of k f)) src k;
               Some (Wrote ret, advance f ret k1)
             })
   }"

partial_function (option) vfs_file_ioctl :: "nat \<Rightarrow> int \<Rightarrow> u8 list \<Rightarrow> kernel_state \<Rightarrow> ((int \<times> u8 list) \<times> kernel_state) option" where
  \<comment> \<open>the bytes at \<open>arg\<close> before and after\<close>
  "vfs_file_ioctl f cmd arg k = do {
     io \<leftarrow> inode_of_file (open_file_of k f);
     case io of
       None \<Rightarrow> Some ((-1, arg), k)
     | Some n \<Rightarrow>
        (case i_ops (inode k n) of
           Some Devtmpfs_Vfs_Inode_Ops \<Rightarrow> devtmpfs_vfs_ioctl n cmd arg k
         | Some Tty_File_Ops \<Rightarrow> do {
             (g, k1) \<leftarrow> tty_get_stdout k;
             case g of
               None \<Rightarrow> Some ((-1, arg), k1)
             | Some h \<Rightarrow>
                 (case f_ops (open_file_of k1 h) of
                    Some Vfs_File_Ops \<Rightarrow> vfs_file_ioctl h cmd arg k1
                  | _ \<Rightarrow> Some ((-1, arg), k1))
           }
         | _ \<Rightarrow> Some ((-1, arg), k))
   }"

definition file_read :: "nat \<Rightarrow> u32 \<Rightarrow> kernel_state \<Rightarrow> ((int \<times> u8 list) outcome \<times> kernel_state) option" where
  \<comment> \<open>\<open>f->ops->read(f, buf, len)\<close>, or -1 if a pointer on the way is null\<close>
  "file_read f nbyte k = (case f_ops (open_file_of k f) of
       Some Vfs_File_Ops \<Rightarrow> vfs_file_read f nbyte k
     | Some Pipe_Read_Ops \<Rightarrow> pipe_file_read f nbyte k
     | _ \<Rightarrow> Some (Returned (-1, []), k))"

definition file_write :: "nat \<Rightarrow> u8 list \<Rightarrow> kernel_state \<Rightarrow> (write_outcome \<times> kernel_state) option" where
  "file_write f src k = (case f_ops (open_file_of k f) of
       Some Vfs_File_Ops \<Rightarrow> vfs_file_write f src 0 k
     | Some Pipe_Write_Ops \<Rightarrow> pipe_file_write f src 0 k
     | _ \<Rightarrow> Some (Wrote (-1), k))"

definition file_close_op :: "nat \<Rightarrow> kernel_state \<Rightarrow> kernel_state" where
  \<comment> \<open>\<open>if (f->ops && f->ops->close) f->ops->close(f)\<close>; the table of plain files has no \<open>close\<close>\<close>
  "file_close_op f k = (case f_ops (open_file_of k f) of
       Some Pipe_Read_Ops \<Rightarrow>
         (let (_, ps, s) = pipe_close_read (pipe_of (open_file_of k f)) (kpipes k) (ksched k) in
          k\<lparr>kpipes := ps, ksched := s\<rparr>)
     | Some Pipe_Write_Ops \<Rightarrow>
         (let (_, ps, s) = pipe_close_write (pipe_of (open_file_of k f)) (kpipes k) (ksched k) in
          k\<lparr>kpipes := ps, ksched := s\<rparr>)
     | _ \<Rightarrow> k)"

definition vfs_close_file :: "nat \<Rightarrow> kernel_state \<Rightarrow> kernel_state" where
  "vfs_close_file f k =
     (let k1 = upd_file f (\<lambda>x. x\<lparr>f_refcount := f_refcount x - 1\<rparr>) k in
      if f_refcount (open_file_of k1 f) > 0 then k1
      else upd_file f (\<lambda>x. x\<lparr>f_ops := None, f_private := No_File_Data, f_pos := 0\<rparr>) (file_close_op f k1))"

section \<open>The zero-initialised kernel\<close>

definition zero_kernel :: "sched_state \<Rightarrow> mm_state \<Rightarrow> kernel_state" where
  \<comment> \<open>all static variables of the file layer as they are at start-up\<close>
  "zero_kernel s mm = \<lparr>
     vfs_inodes = (\<lambda>_. \<lparr>i_no = 0, i_size = 0, i_type = VFS_IFILE, i_mode = 0, i_ops = None, i_private = No_Data, i_rdev = 0\<rparr>),
     vfs_next_ino = 0,
     vfs_open_files = (\<lambda>_. \<lparr>f_ops = None, f_private = No_File_Data, f_pos = 0, f_refcount = 0, f_flags = 0\<rparr>),
     vfs_root = None, vfs_mounts = [],
     ext2_disks = (\<lambda>_ _ _. None), ext2_buf = replicate EXT2_BUF_SIZE 0,
     fs = \<lparr>fs_dev = None, fs_sb = decode_sb (replicate SB_SIZE 0), fs_block_size = 0, bgdesc_block = 0, bgdesc_count = 0\<rparr>,
     fs_pool_next = 0, ext2_data_pool = (\<lambda>_. 0), ext2_data_pool_next = 0,
     devtmpfs_devices = [], devtmpfs_dirs = (\<lambda>_. []), devtmpfs_dir_next = 0,
     devtmpfs_symlink_targets = (\<lambda>_. []), devtmpfs_symlink_next = 0,
     ksched = s, kpipes = \<lparr>pipe_pool = (\<lambda>_. zero_pipe), pipe_used = (\<lambda>_. False)\<rparr>, kmm = mm,
     kkbd = init_keyboard,
     kvga = \<lparr>vga_cells = replicate (VGA_WIDTH * VGA_HEIGHT) 0, cursor_x = 0, cursor_y = 0, crtc_high = 0, crtc_low = 0\<rparr>,
     tty_termios = \<lparr>c_iflag = 0, c_oflag = 0, c_cflag = 0, c_lflag = 0, c_cc = replicate NCCS 0, c_pad = 0\<rparr>,
     kparts = \<lparr>block_devices = [], part_bdevs = []\<rparr>,
     tty_boot_in = None, tty_boot_out = None, sys_boot_in = None, sys_boot_out = None\<rparr>"

end
