(* ===== verification/Sys_Mem.thy ===== *)
theory Sys_Mem
  imports Files "HOL-Library.Multiset"
begin

text \<open>
  The memory system calls of \<open>kernel/syscall.c\<close>: the list of mapped areas of a task,
  \<open>mmap2\<close>, \<open>munmap\<close>, \<open>mprotect\<close> and \<open>brk\<close>. The pages a loop over addresses visits
  are a list; its bounds are multiples of the page size, so that the loop variable never wraps.
\<close>

section \<open>Mapped areas\<close>

definition MMAP_BASE :: u32 where "MMAP_BASE = 0x40000000"
definition PROT_WRITE :: u32 where "PROT_WRITE = 2"
definition MAP_ANONYMOUS :: u32 where "MAP_ANONYMOUS = 32"
definition MAP_FIXED :: u32 where "MAP_FIXED = 16"

definition vma_hit :: "u32 \<Rightarrow> u32 \<Rightarrow> vm_area \<Rightarrow> bool" where
  \<comment> \<open>the overlap test of all the loops over the areas\<close>
  "vma_hit start stop v \<longleftrightarrow> start < vm_end v \<and> stop > vm_start v"

function gap_loop :: "vm_area list \<Rightarrow> u32 \<Rightarrow> u32 \<Rightarrow> u32" where
  "gap_loop vs len candidate =
     (let stop = candidate + len in
      if stop < candidate then 0
      else case find (vma_hit candidate stop) vs of
             None \<Rightarrow> candidate
           | Some v \<Rightarrow> if vm_end v + len < vm_end v then 0 else gap_loop vs len (vm_end v))"
  by pat_completeness auto
termination
proof (relation "measure (\<lambda>(_, _, c). 2 ^ 32 - unat c)")
  fix vs len candidate stop and v :: vm_area
  assume "find (vma_hit candidate stop) vs = Some v"
  then have "candidate < vm_end v" by (auto simp: vma_hit_def find_Some_iff)
  moreover have "unat (vm_end v) < 2 ^ 32" using unsigned_less [of "vm_end v", where 'a = nat] by simp
  ultimately show "((vs, len, vm_end v), vs, len, candidate) \<in> measure (\<lambda>(_, _, c). 2 ^ 32 - unat c)"
    by (simp add: word_less_nat_alt diff_less_mono2)
qed simp

declare gap_loop.simps [simp del]

definition vma_find_gap :: "task \<Rightarrow> u32 \<Rightarrow> u32" where
  "vma_find_gap t len = gap_loop (vmas t) len MMAP_BASE"

definition vma_add :: "u32 \<Rightarrow> u32 \<Rightarrow> u32 \<Rightarrow> u32 \<Rightarrow> task \<Rightarrow> int \<times> task" where
  "vma_add start stop prot flags t =
     (if length (vmas t) \<ge> MAX_VMA then (-1, t)
      else (0, t\<lparr>vmas := vmas t @ [\<lparr>vm_start = start, vm_end = stop, vm_prot = prot, vm_flags = flags\<rparr>]\<rparr>))"

primrec remove_loop :: "u32 \<Rightarrow> u32 \<Rightarrow> nat \<Rightarrow> vm_area list \<Rightarrow> vm_area list" where
  \<comment> \<open>from the last index down; the last area takes the place of a removed one\<close>
  "remove_loop start stop 0 vs = vs"
| "remove_loop start stop (Suc i) vs =
     remove_loop start stop i
       (if start \<ge> vm_end (vs ! i) \<or> stop \<le> vm_start (vs ! i) then vs
        else butlast (vs[i := last vs]))"

definition vma_remove :: "u32 \<Rightarrow> u32 \<Rightarrow> task \<Rightarrow> task" where
  "vma_remove start stop t = t\<lparr>vmas := remove_loop start stop (length (vmas t)) (vmas t)\<rparr>"

definition vma_update_prot :: "u32 \<Rightarrow> u32 \<Rightarrow> u32 \<Rightarrow> task \<Rightarrow> task" where
  "vma_update_prot start stop prot t =
     t\<lparr>vmas := map (\<lambda>v. if vma_hit start stop v then v\<lparr>vm_prot := prot\<rparr> else v) (vmas t)\<rparr>"

definition prot_to_page_flags :: "u32 \<Rightarrow> u32" where
  "prot_to_page_flags prot =
     (if prot = 0 then 0
      else (let f = MM_PRESENT OR MM_USER in if prot AND PROT_WRITE \<noteq> 0 then f OR MM_RW else f))"

section \<open>The system calls\<close>

definition round_up :: "u32 \<Rightarrow> u32" where
  "round_up a = page_of (a + 0xFFF)"

definition page_range :: "u32 \<Rightarrow> u32 \<Rightarrow> u32 list" where
  \<comment> \<open>\<open>for (page = va; page < end; page += FRAME)\<close>\<close>
  "page_range va stop = map (\<lambda>i. va + of_nat i * FRAME) [0..<(unat stop - unat va) div 4096]"

primrec alloc_pages :: "u32 \<Rightarrow> u32 \<Rightarrow> u32 list \<Rightarrow> mm_state \<Rightarrow> u32 list \<times> mm_state" where
  \<comment> \<open>allocate at each address until one fails; the addresses that are left\<close>
  "alloc_pages pdir flags [] mm = ([], mm)"
| "alloc_pages pdir flags (va # vas) mm =
     (let (r, mm1) = mm_alloc_at pdir va flags mm in
      if r = 0 then (va # vas, mm1) else alloc_pages pdir flags vas mm1)"

definition run_pages :: "u32 \<Rightarrow> u32 \<Rightarrow> u32 list" where
  \<comment> \<open>\<open>va + i * FRAME\<close> for \<open>i\<close> below \<open>pages\<close>\<close>
  "run_pages va len = map (\<lambda>i. va + of_nat i * FRAME) [0..<unat (len div FRAME)]"

definition unmap_pages :: "u32 \<Rightarrow> u32 list \<Rightarrow> mm_state \<Rightarrow> mm_state" where
  "unmap_pages pdir vas mm = fold (\<lambda>va mm. snd (mm_unmap_at pdir va mm)) vas mm"

definition sys_brk :: "u32 \<Rightarrow> kernel_state \<Rightarrow> int \<times> kernel_state" where
  "sys_brk addr k = (case current k of
       None \<Rightarrow> (-1, k)
     | Some t \<Rightarrow>
         if addr = 0 then (sint (program_break t), k)
         else
           (let new_brk = (if addr < brk_start t then brk_start t else addr);
                old_page = round_up (program_break t);
                new_page = round_up new_brk;
                (left, mm) = (if new_page > old_page
                              then alloc_pages (t_pdir t) PAGE_FLAGS (page_range old_page new_page) (kmm k)
                              else ([], kmm k))
            in if left \<noteq> [] then (sint (program_break t), k\<lparr>kmm := mm\<rparr>)
               else (sint new_brk, upd_current (\<lambda>t. t\<lparr>program_break := new_brk\<rparr>) (k\<lparr>kmm := mm\<rparr>))))"

definition mmap_address :: "u32 \<Rightarrow> u32 \<Rightarrow> u32 \<Rightarrow> task \<Rightarrow> u32 option" where
  \<comment> \<open>where the new area goes; \<open>None\<close> is the error return\<close>
  "mmap_address addr len flags t =
     (if flags AND MAP_FIXED \<noteq> 0 then
        (let va = page_of addr in
         if \<exists>v \<in> set (vmas t). vma_hit va (va + len) v then None else Some va)
      else (let va = vma_find_gap t len in if va = 0 then None else Some va))"

definition sys_mmap2 :: "u32 \<Rightarrow> u32 \<Rightarrow> u32 \<Rightarrow> u32 \<Rightarrow> int \<Rightarrow> u32 \<Rightarrow> kernel_state \<Rightarrow> int \<times> kernel_state" where
  "sys_mmap2 addr len0 prot flags fd offset k = (case current k of
       None \<Rightarrow> (-1, k)
     | Some t \<Rightarrow>
         (let len = round_up len0 in
          if len = 0 then (-1, k)
          else if flags AND MAP_ANONYMOUS = 0 then (-1, k)
          else case mmap_address addr len flags t of
            None \<Rightarrow> (-1, k)
          | Some va \<Rightarrow>
              (let pages = run_pages va len;
                   (left, mm) = alloc_pages (t_pdir t) (prot_to_page_flags prot) pages (kmm k);
                   mapped = take (length pages - length left) pages;
                   undone = k\<lparr>kmm := unmap_pages (t_pdir t) mapped mm\<rparr>
               in if left \<noteq> [] then (-1, undone)
                  else if fst (vma_add va (va + len) prot flags t) < 0 then (-1, undone)
                  else (sint va, upd_current (\<lambda>t. snd (vma_add va (va + len) prot flags t)) (k\<lparr>kmm := mm\<rparr>)))))"

definition unmap_present :: "u32 \<Rightarrow> u32 \<Rightarrow> mm_state \<Rightarrow> mm_state" where
  "unmap_present pdir page mm =
     (if mm_get_pte pdir page mm AND MM_PRESENT \<noteq> 0 then snd (mm_unmap_at pdir page mm) else mm)"

definition sys_munmap :: "u32 \<Rightarrow> u32 \<Rightarrow> kernel_state \<Rightarrow> int \<times> kernel_state" where
  "sys_munmap addr len k = (case current k of
       None \<Rightarrow> (-1, k)
     | Some t \<Rightarrow>
         (let va = page_of addr; stop = round_up (addr + len) in
          (0, upd_current (vma_remove va stop)
                (k\<lparr>kmm := fold (unmap_present (t_pdir t)) (page_range va stop) (kmm k)\<rparr>))))"

definition protect_page :: "u32 \<Rightarrow> u32 \<Rightarrow> u32 \<Rightarrow> mm_state \<Rightarrow> mm_state" where
  "protect_page pdir page_flags page mm =
     (let pte = mm_get_pte pdir page mm in
      if pte AND MM_PRESENT \<noteq> 0 then
        (let pt = page_of (entry (kmem mm) pdir (pd_idx page)) in
         mm\<lparr>kmem := set_entry pt (pt_idx page) (page_of pte OR page_flags) (kmem mm)\<rparr>)
      else mm)"

definition sys_mprotect :: "u32 \<Rightarrow> u32 \<Rightarrow> u32 \<Rightarrow> kernel_state \<Rightarrow> int \<times> kernel_state" where
  "sys_mprotect addr len prot k = (case current k of
       None \<Rightarrow> (-1, k)
     | Some t \<Rightarrow>
         (let va = page_of addr; stop = round_up (addr + len) in
          (0, upd_current (vma_update_prot va stop prot)
                (k\<lparr>kmm := fold (protect_page (t_pdir t) (prot_to_page_flags prot)) (page_range va stop) (kmm k)\<rparr>))))"

section \<open>The first gap\<close>

definition fits :: "vm_area list \<Rightarrow> u32 \<Rightarrow> u32 \<Rightarrow> bool" where
  \<comment> \<open>an area of that length can start there: it does not reach the top of the address space and meets no other\<close>
  "fits vs len a \<longleftrightarrow> unat a + unat len < 2 ^ 32 \<and> (\<forall>v \<in> set vs. \<not> vma_hit a (a + len) v)"

lemma no_wrap_iff: "a + len < (a :: u32) \<longleftrightarrow> \<not> unat a + unat len < 2 ^ 32"
proof (cases "unat a + unat len < 2 ^ 32")
  case True
  then show ?thesis by (simp add: word_less_nat_alt unat_word_ariths)
next
  case False
  have "unat len < 2 ^ 32" "unat a < 2 ^ 32"
    using unsigned_less [of len, where 'a = nat] unsigned_less [of a, where 'a = nat] by simp_all
  then have "unat (a + len) = unat a + unat len - 2 ^ 32"
    using False by (simp add: unat_word_ariths le_mod_geq)
  then show ?thesis using False \<open>unat len < 2 ^ 32\<close> by (simp add: word_less_nat_alt)
qed

lemma fits_mono_hit:
  assumes "vma_hit c (c + len) v" and "v \<in> set vs" and "c \<le> a" and "fits vs len a"
    and "unat c + unat len < 2 ^ 32"
  shows "vm_end v \<le> a"
proof (rule ccontr)
  assume "\<not> vm_end v \<le> a"
  moreover have "vm_start v < a + len"
    using assms by (simp add: vma_hit_def fits_def word_less_nat_alt word_le_nat_alt unat_word_ariths)
  ultimately have "vma_hit a (a + len) v" by (simp add: vma_hit_def)
  then show False using assms(2,4) by (auto simp: fits_def)
qed

definition first_fit :: "vm_area list \<Rightarrow> u32 \<Rightarrow> u32 \<Rightarrow> u32 \<Rightarrow> bool" where
  \<comment> \<open>the lowest address from \<open>c\<close> on that fits, or 0 if there is none\<close>
  "first_fit vs len c g \<longleftrightarrow>
     (let A = {a. c \<le> a \<and> fits vs len a} in
      if A = {} then g = 0 else g \<in> A \<and> (\<forall>a \<in> A. g \<le> a))"

lemma gap_loop_first_fit: "first_fit vs len c (gap_loop vs len c)"
proof (induction vs len c rule: gap_loop.induct)
  case (1 vs len c)
  show ?case
  proof (cases "c + len < c")
    case True
    then have "\<not> fits vs len a" if "c \<le> a" for a
      using that by (auto simp: no_wrap_iff fits_def word_le_nat_alt)
    with True show ?thesis by (auto simp: first_fit_def gap_loop.simps)
  next
    case nowrap: False
    then have small: "unat c + unat len < 2 ^ 32" by (simp add: no_wrap_iff)
    show ?thesis
    proof (cases "find (vma_hit c (c + len)) vs")
      case None
      then have "fits vs len c" using small by (auto simp: fits_def find_None_iff)
      with None nowrap show ?thesis by (auto simp: first_fit_def gap_loop.simps [of vs len c])
    next
      case (Some v)
      then have hit: "vma_hit c (c + len) v" "v \<in> set vs"
        by (auto simp: find_Some_iff)
      then have lt: "c < vm_end v" by (simp add: vma_hit_def)
      have "c \<le> a \<and> fits vs len a \<longleftrightarrow> vm_end v \<le> a \<and> fits vs len a" for a
        using fits_mono_hit [OF hit _ _ small, of a] lt by auto
      then have same: "first_fit vs len c g \<longleftrightarrow> first_fit vs len (vm_end v) g" for g
        unfolding first_fit_def by simp
      show ?thesis
      proof (cases "vm_end v + len < vm_end v")
        case True
        then have "\<not> fits vs len a" if "vm_end v \<le> a" for a
          using that by (auto simp: no_wrap_iff fits_def word_le_nat_alt)
        then show ?thesis using True Some nowrap unfolding same
          by (auto simp: first_fit_def gap_loop.simps [of vs len c])
      next
        case False
        then have "gap_loop vs len c = gap_loop vs len (vm_end v)"
          using Some nowrap by (subst gap_loop.simps) simp
        then show ?thesis unfolding same using "1.IH" [OF refl nowrap Some False] by simp
      qed
    qed
  qed
qed

section \<open>Areas stay well-formed\<close>

definition vma_ok :: "vm_area \<Rightarrow> bool" where
  "vma_ok v \<longleftrightarrow> vm_start v < vm_end v \<and> page_aligned (vm_start v) \<and> page_aligned (vm_end v)"

definition vmas_wf :: "vm_area list \<Rightarrow> bool" where
  \<comment> \<open>at most 16 areas, each a non-empty range of whole pages, and no two overlap\<close>
  "vmas_wf vs \<longleftrightarrow> length vs \<le> MAX_VMA \<and> (\<forall>v \<in> set vs. vma_ok v) \<and>
     (\<forall>i < length vs. \<forall>j < length vs. i \<noteq> j \<longrightarrow> \<not> vma_hit (vm_start (vs ! i)) (vm_end (vs ! i)) (vs ! j))"

lemma nth_swap_remove:
  "i < length vs \<Longrightarrow> j < length vs - 1 \<Longrightarrow>
     butlast (vs[i := last vs]) ! j = vs ! (if j = i then length vs - 1 else j)"
  by (cases vs rule: rev_cases) (auto simp: nth_butlast nth_append)

lemma mset_swap_remove:
  assumes "i < length vs"
  shows "mset (butlast (vs[i := last vs])) = mset vs - {#vs ! i#}"
proof (cases vs rule: rev_cases)
  case Nil
  then show ?thesis using assms by simp
next
  case (snoc us u)
  then show ?thesis
    using assms by (cases "i < length us") (auto simp: nth_append list_update_append mset_update butlast_append)
qed

lemma vmas_wf_swap_remove:
  assumes "vmas_wf vs" and "i < length vs"
  shows "vmas_wf (butlast (vs[i := last vs]))"
proof -
  let ?ws = "butlast (vs[i := last vs])"
  have "set ?ws \<subseteq> set vs"
    using mset_swap_remove [OF assms(2)] by (metis diff_subset_eq_self set_mset_mono set_mset_mset)
  moreover have "\<not> vma_hit (vm_start (?ws ! j)) (vm_end (?ws ! j)) (?ws ! l)"
    if "j < length ?ws" "l < length ?ws" "j \<noteq> l" for j l
    using assms that nth_swap_remove [OF assms(2), of j] nth_swap_remove [OF assms(2), of l]
    by (auto simp: vmas_wf_def split: if_splits)
  ultimately show ?thesis using assms(1) by (auto simp: vmas_wf_def)
qed

lemma remove_loop_wf: "vmas_wf vs \<Longrightarrow> i \<le> length vs \<Longrightarrow> vmas_wf (remove_loop start stop i vs)"
  by (induction i arbitrary: vs) (auto simp: vmas_wf_swap_remove)

lemma remove_loop_mset:
  assumes "i \<le> length vs" and "\<And>j. i \<le> j \<Longrightarrow> j < length vs \<Longrightarrow> \<not> vma_hit start stop (vs ! j)"
  shows "mset (remove_loop start stop i vs) = filter_mset (\<lambda>v. \<not> vma_hit start stop v) (mset vs)"
  using assms
proof (induction i arbitrary: vs)
  case 0
  then have "\<not> vma_hit start stop v" if "v \<in> set vs" for v
    using that by (auto simp: in_set_conv_nth)
  then show ?case by (simp flip: mset_filter)
next
  case (Suc i)
  have i: "i < length vs" using Suc.prems(1) by simp
  show ?case
  proof (cases "vma_hit start stop (vs ! i)")
    case False
    then have "start \<ge> vm_end (vs ! i) \<or> stop \<le> vm_start (vs ! i)" by (auto simp: vma_hit_def)
    moreover have "\<not> vma_hit start stop (vs ! j)" if "i \<le> j" "j < length vs" for j
      using that False Suc.prems(2) [of j] by (cases "i = j") auto
    ultimately show ?thesis using Suc.IH [of vs] i by simp
  next
    case True
    let ?ws = "butlast (vs[i := last vs])"
    have "\<not> vma_hit start stop (?ws ! j)" if "i \<le> j" "j < length ?ws" for j
      using that Suc.prems(2) nth_swap_remove [OF i, of j] by auto
    then have "mset (remove_loop start stop i ?ws) = filter_mset (\<lambda>v. \<not> vma_hit start stop v) (mset ?ws)"
      using i by (intro Suc.IH) auto
    also have "\<dots> = filter_mset (\<lambda>v. \<not> vma_hit start stop v) (mset vs)"
      using True by (simp add: mset_swap_remove [OF i])
    finally show ?thesis using True by (auto simp: vma_hit_def)
  qed
qed

lemma vmas_wf_update_prot:
  assumes "vmas_wf vs"
  shows "vmas_wf (map (\<lambda>v. if P v then v\<lparr>vm_prot := prot\<rparr> else v) vs)"
  using assms by (auto simp: vmas_wf_def vma_ok_def vma_hit_def)

lemma vmas_wf_snoc:
  assumes "vmas_wf vs" and "length vs < MAX_VMA" and "vma_ok w"
    and "\<forall>v \<in> set vs. \<not> vma_hit (vm_start w) (vm_end w) v"
  shows "vmas_wf (vs @ [w])"
proof -
  have "\<not> vma_hit (vm_start v) (vm_end v) w" if "v \<in> set vs" for v
    using assms(4) that by (auto simp: vma_hit_def)
  then show ?thesis
    using assms by (auto simp: vmas_wf_def nth_append less_Suc_eq)
qed

section \<open>Allocating and giving back a run of pages\<close>

lemma page_of_aligned_simp [simp]: "page_aligned f \<Longrightarrow> f AND - 4096 = f"
  using page_of_aligned [of f] by simp

definition fresh_page :: "u32 \<Rightarrow> u32 \<Rightarrow> u32 \<Rightarrow> mm_state \<Rightarrow> mm_state \<Rightarrow> u32 \<Rightarrow> bool" where
  \<comment> \<open>the page at \<open>va\<close> had no mapping and now has a frame of its own that nobody used, filled with zeros\<close>
  "fresh_page pdir va flags mm mm' f \<longleftrightarrow> mm_get_pte pdir va mm AND MM_PRESENT = 0 \<and>
     \<not> frame_used mm (unat (f div FRAME)) \<and> data_frame mm' pdir f \<and> mm_get_pte pdir va mm' = f OR flags \<and>
     (\<forall>d. d < 0x1000 \<longrightarrow> kmem mm' (f + d) = 0)"

lemma alloc_pages_spec:
  assumes "pd_wf mm pdir" and "alloc_pages pdir flags vas mm = (left, mm')"
    and "\<forall>va \<in> set vas. page_aligned va" and "distinct vas"
    and "0 \<in> set vas \<Longrightarrow> mm_get_pte pdir 0 mm AND MM_PRESENT \<noteq> 0"
  shows "pd_wf mm' pdir \<and> (\<exists>got fr. vas = got @ left \<and> inj_on fr (set got) \<and>
    (\<forall>va \<in> set got. va \<noteq> 0 \<and> fresh_page pdir va flags mm mm' (fr va)) \<and>
    (\<forall>va. page_of va \<notin> set got \<longrightarrow> mm_get_pte pdir va mm' = mm_get_pte pdir va mm) \<and>
    (\<forall>p. data_frame mm pdir p \<longrightarrow> data_frame mm' pdir p \<and> (\<forall>d. d < 0x1000 \<longrightarrow> kmem mm' (p + d) = kmem mm (p + d))))"
  using assms
proof (induction vas arbitrary: mm)
  case Nil
  then show ?case by auto
next
  case (Cons va vas)
  obtain r mm1 where al: "mm_alloc_at pdir va flags mm = (r, mm1)" by fastforce
  note sp = mm_alloc_at_spec [OF Cons.prems(1) al]
  note keep = mm_alloc_at_keeps [OF Cons.prems(1) al]
  have ava: "page_of va = va" using Cons.prems(3) by simp
  show ?case
  proof (cases "r = 0")
    case True
    then have "left = va # vas" "mm' = mm1" using Cons.prems(2) al by simp_all
    moreover have "mm_get_pte pdir v mm1 = mm_get_pte pdir v mm" for v
      using sp True Cons.prems(5) by auto
    ultimately show ?thesis using sp keep by (intro conjI exI [of _ "[]"] exI [of _ id]) auto
  next
    case False
    then have rest: "alloc_pages pdir flags vas mm1 = (left, mm')" using Cons.prems(2) al by simp
    obtain f where f: "va \<noteq> 0" "mm_get_pte pdir va mm AND MM_PRESENT = 0" "\<not> frame_used mm (unat (f div FRAME))"
        "data_frame mm1 pdir f" "\<And>d. d < 0x1000 \<Longrightarrow> kmem mm1 (f + d) = 0"
        "\<And>v. mm_get_pte pdir v mm1 = (if page_of v = va then f OR flags else mm_get_pte pdir v mm)"
        and wf1: "pd_wf mm1 pdir"
      using sp False ava by auto
    have "mm_get_pte pdir 0 mm1 AND MM_PRESENT \<noteq> 0" if "0 \<in> set vas"
      using that Cons.prems(4,5) f(1) f(6) [of 0] by auto
    then obtain got fr where IH: "pd_wf mm' pdir" "vas = got @ left" "inj_on fr (set got)"
        "\<forall>v \<in> set got. v \<noteq> 0 \<and> fresh_page pdir v flags mm1 mm' (fr v)"
        "\<forall>v. page_of v \<notin> set got \<longrightarrow> mm_get_pte pdir v mm' = mm_get_pte pdir v mm1"
        "\<forall>p. data_frame mm1 pdir p \<longrightarrow> data_frame mm' pdir p \<and> (\<forall>d. d < 0x1000 \<longrightarrow> kmem mm' (p + d) = kmem mm1 (p + d))"
      using Cons.IH [OF wf1 rest] Cons.prems(3,4) by auto
    have notin: "va \<notin> set got" using Cons.prems(4) IH(2) by auto
    define fr' where "fr' = fr(va := f)"
    have fr': "fr' va = f" "\<And>v. v \<in> set got \<Longrightarrow> fr' v = fr v" using notin by (auto simp: fr'_def)
    have mono: "frame_used mm j \<Longrightarrow> frame_used mm1 j" for j
      using mm_alloc_at_used_mono [OF _ _ al _ False] Cons.prems(1) by (simp add: pd_wf_def)
    have "fr v \<noteq> f" if "v \<in> set got" for v
      using IH(4) that data_frameD(4) [OF f(4)] by (auto simp: fresh_page_def)
    then have "inj_on fr' (set (va # got))" using IH(3) notin fr' by (simp add: inj_on_def) metis
    moreover have "fresh_page pdir va flags mm mm' f"
      using f IH(5,6) notin ava by (auto simp: fresh_page_def)
    moreover have "fresh_page pdir v flags mm mm' (fr v)" if "v \<in> set got" for v
    proof -
      have "page_of v = v" using Cons.prems(3) IH(2) that by simp
      then have "mm_get_pte pdir v mm1 = mm_get_pte pdir v mm" using f(6) [of v] notin that by auto
      then show ?thesis using IH(4) that mono by (auto simp: fresh_page_def)
    qed
    ultimately show ?thesis
      using IH(1,2,4,5,6) f(1,6) keep notin by (intro conjI exI [of _ "va # got"] exI [of _ fr']) (auto simp: fr')
  qed
qed

lemma page_flags_cases: "prot_to_page_flags prot \<in> {0, 5, 7}"
  by (simp add: prot_to_page_flags_def MM_PRESENT_def MM_USER_def MM_RW_def)

lemma low_bits_aligned:
  assumes "page_aligned f" and "flags \<in> {0, 5, 7}"
  shows "page_of (f OR flags) = f" and "(f OR flags) AND MM_PRESENT = flags AND MM_PRESENT"
proof -
  have "flags AND NOT 0xFFF = 0" using assms(2) by auto
  then show "page_of (f OR flags) = f" using assms(1) by (simp add: bit.conj_disj_distrib2)
  have "f AND 1 = (f AND 0xFFF) AND 1" by (simp only: and.assoc) simp
  also have "\<dots> = 0 AND 1" using assms(1) by (simp only: page_aligned_def)
  finally have "f AND 1 = 0" by simp
  then show "(f OR flags) AND MM_PRESENT = flags AND MM_PRESENT"
    by (simp add: bit.conj_disj_distrib2 MM_PRESENT_def)
qed

lemma unmap_pages_spec:
  assumes "pd_wf mm pdir" and "flags \<in> {0, 5, 7}" and "distinct vas" and "inj_on fr (set vas)"
    and "\<forall>va \<in> set vas. page_aligned va \<and> data_frame mm pdir (fr va) \<and> mm_get_pte pdir va mm = fr va OR flags"
  shows "pd_wf (unmap_pages pdir vas mm) pdir \<and>
    (\<forall>va. mm_get_pte pdir va (unmap_pages pdir vas mm) =
       (if page_of va \<in> set vas \<and> flags \<noteq> 0 then 0 else mm_get_pte pdir va mm))"
  using assms
proof (induction vas arbitrary: mm)
  case Nil
  then show ?case by (simp add: unmap_pages_def)
next
  case (Cons va vas)
  obtain r mm1 where un: "mm_unmap_at pdir va mm = (r, mm1)" by fastforce
  have step: "unmap_pages pdir (va # vas) mm = unmap_pages pdir vas mm1" by (simp add: unmap_pages_def un)
  have d: "data_frame mm pdir (fr va)" and pte: "mm_get_pte pdir va mm = fr va OR flags" and al: "page_aligned va"
    using Cons.prems(5) by simp_all
  note df = data_frameD [OF d]
  note low = low_bits_aligned [OF df(1) Cons.prems(2)]
  have pg: "page_of (mm_get_pte pdir va mm) = fr va" using low(1) pte by simp
  have pres: "mm_get_pte pdir va mm AND MM_PRESENT = 0 \<longleftrightarrow> flags = 0"
    using low(2) pte Cons.prems(2) by (auto simp: MM_PRESENT_def)
  have u: "if flags = 0 then r = -1 \<and> mm1 = mm
    else r = 0 \<and> pd_wf mm1 pdir \<and>
      (\<forall>v. mm_get_pte pdir v mm1 = (if page_of v = va then 0 else mm_get_pte pdir v mm))"
    using mm_unmap_at_spec [OF Cons.prems(1) _ _ _ un] df(2,5,6) pres al unfolding pg by auto
  have other: "mm_get_pte pdir w mm1 = mm_get_pte pdir w mm" "data_frame mm1 pdir (fr w)" if "w \<in> set vas" for w
  proof -
    have w: "page_aligned w" "w \<noteq> va" "data_frame mm pdir (fr w)" using Cons.prems(3,5) that by auto
    then show "mm_get_pte pdir w mm1 = mm_get_pte pdir w mm" using u by (auto split: if_splits)
    have "fr va \<noteq> fr w" using Cons.prems(4) that w(2) by (auto simp: inj_on_def)
    then show "data_frame mm1 pdir (fr w)"
      using mm_unmap_at_keeps [OF Cons.prems(1) un _ w(3)] d pg by simp
  qed
  have "pd_wf mm1 pdir" using u Cons.prems(1) by (auto split: if_splits)
  then have "pd_wf (unmap_pages pdir vas mm1) pdir \<and>
    (\<forall>v. mm_get_pte pdir v (unmap_pages pdir vas mm1) =
       (if page_of v \<in> set vas \<and> flags \<noteq> 0 then 0 else mm_get_pte pdir v mm1))"
    using Cons.prems other by (intro Cons.IH) auto
  then show ?case unfolding step using u by (auto split: if_splits)
qed

section \<open>Properties\<close>

lemma current_simps [simp]:
  "current (k\<lparr>kmm := mm\<rparr>) = current k"
  "current (upd_current g k) = map_option g (current k)"
  "kmm (upd_current g k) = kmm k"
  by (simp_all add: current_def upd_current_def scheduler_get_current_def split: option.split)

lemma page_aligned_add: "page_aligned a \<Longrightarrow> page_aligned b \<Longrightarrow> page_aligned (a + b)"
proof -
  assume "page_aligned a" "page_aligned b"
  then have "(unat a + unat b) mod 4096 = 0"
    unfolding page_aligned_iff_unat by (simp add: mod_add_eq [of "unat a" 4096 "unat b", symmetric])
  moreover have "unat (a + b) mod 4096 = (unat a + unat b) mod 4096"
    by (simp add: unat_word_ariths mod_mod_cancel)
  ultimately show ?thesis by (simp add: page_aligned_iff_unat)
qed

lemma page_aligned_frame: "page_aligned (of_nat i * FRAME)"
proof -
  have "unat (of_nat i * FRAME) mod 4096 = (i * 4096) mod 4096"
    by (simp add: FRAME_def unat_word_ariths unat_of_nat mod_mod_cancel mod_mult_left_eq)
  then show ?thesis by (simp add: page_aligned_iff_unat)
qed

lemma run_pages_ok:
  assumes "page_aligned va"
  shows "\<forall>a \<in> set (run_pages va len). page_aligned a" and "distinct (run_pages va len)"
proof -
  show "\<forall>a \<in> set (run_pages va len). page_aligned a"
    using assms by (auto simp: run_pages_def page_aligned_add page_aligned_frame)
  have "unat len div 4096 < 1048576" using unsigned_less [of len, where 'a = nat] by simp
  then have n: "unat (len div FRAME) < 1048576" by (simp add: unat_div FRAME_def)
  have "inj_on (\<lambda>i. va + of_nat i * FRAME) {0..<unat (len div FRAME)}"
  proof (rule inj_onI)
    fix i j assume ij: "i \<in> {0..<unat (len div FRAME)}" "j \<in> {0..<unat (len div FRAME)}"
      and "va + of_nat i * FRAME = va + of_nat j * FRAME"
    then have eq: "unat (of_nat i * FRAME) = unat (of_nat j * FRAME)" by simp
    have "unat (of_nat k * FRAME) = k * 4096" if "k < 1048576" for k
      using that by (simp add: FRAME_def unat_word_ariths unat_of_nat)
    then show "i = j" using eq ij n by simp
  qed
  then show "distinct (run_pages va len)" by (simp add: run_pages_def distinct_map)
qed

lemma gap_loop_range: "gap_loop vs len c \<in> {0, c} \<union> vm_end ` set vs"
proof (induction vs len c rule: gap_loop.induct)
  case (1 vs len c)
  have "v \<in> set vs" if "find (vma_hit c (c + len)) vs = Some v" for v
    using that by (auto simp: find_Some_iff)
  then show ?case
    using 1 by (subst gap_loop.simps) (auto simp: Let_def split: option.split)
qed

lemma mmap_address_ok:
  assumes "vmas_wf (vmas t)" and "mmap_address addr len flags t = Some va"
    and "flags AND MAP_FIXED \<noteq> 0 \<longrightarrow> unat (page_of addr) + unat len < 2 ^ 32"
  shows "page_aligned va" and "fits (vmas t) len va"
    and "flags AND MAP_FIXED = 0 \<Longrightarrow> va \<noteq> 0 \<and> first_fit (vmas t) len MMAP_BASE va"
proof -
  have "page_aligned va \<and> fits (vmas t) len va \<and> (flags AND MAP_FIXED = 0 \<longrightarrow> va \<noteq> 0 \<and> first_fit (vmas t) len MMAP_BASE va)"
  proof (cases "flags AND MAP_FIXED = 0")
    case False
    then show ?thesis
      using assms(2,3) page_aligned_page_of [of addr]
      by (auto simp: mmap_address_def Let_def fits_def split: if_splits)
  next
    case True
    then have va: "va = gap_loop (vmas t) len MMAP_BASE" "va \<noteq> 0"
      using assms(2) by (auto simp: mmap_address_def vma_find_gap_def Let_def split: if_splits)
    have ff: "first_fit (vmas t) len MMAP_BASE va" using gap_loop_first_fit va(1) by simp
    have "page_aligned MMAP_BASE" by (simp add: page_aligned_def MMAP_BASE_def)
    moreover have "\<forall>v \<in> set (vmas t). page_aligned (vm_end v)" using assms(1) by (simp add: vmas_wf_def vma_ok_def)
    ultimately have "page_aligned va" using gap_loop_range [of "vmas t" len MMAP_BASE] va by auto
    moreover have "fits (vmas t) len va" using ff va(2) by (auto simp: first_fit_def Let_def split: if_splits)
    ultimately show ?thesis using va(2) ff by simp
  qed
  then show "page_aligned va" and "fits (vmas t) len va"
    and "flags AND MAP_FIXED = 0 \<Longrightarrow> va \<noteq> 0 \<and> first_fit (vmas t) len MMAP_BASE va" by auto
qed

lemma mmap2_areas:
  assumes "current k = Some t"
  shows "\<exists>t'. current (snd (sys_mmap2 addr len prot flags fd off k)) = Some t' \<and>
    (vmas t' = vmas t \<or>
     (\<exists>va. mmap_address addr (round_up len) flags t = Some va \<and> round_up len \<noteq> 0 \<and> length (vmas t) < MAX_VMA \<and>
        vmas t' = vmas t @ [\<lparr>vm_start = va, vm_end = va + round_up len, vm_prot = prot, vm_flags = flags\<rparr>]))"
  using assms
  by (auto simp: sys_mmap2_def Let_def vma_add_def split: option.split prod.split)

text \<open>
  C33. Where a mapping goes. \<open>vma_find_gap\<close> returns, and its result is the lowest address from
  \<open>MMAP_BASE\<close> on at which an area of the given length neither overlaps an area of the task nor
  runs past the end of the 32-bit address space; it is 0 exactly if there is no such address.
\<close>

theorem vma_find_gap_first_fit:
  "if \<exists>a. MMAP_BASE \<le> a \<and> unat a + unat len < 2 ^ 32 \<and> (\<forall>v \<in> set (vmas t). \<not> vma_hit a (a + len) v)
   then (let g = vma_find_gap t len in
     MMAP_BASE \<le> g \<and> unat g + unat len < 2 ^ 32 \<and> (\<forall>v \<in> set (vmas t). \<not> vma_hit g (g + len) v) \<and>
     (\<forall>a. MMAP_BASE \<le> a \<and> unat a + unat len < 2 ^ 32 \<and> (\<forall>v \<in> set (vmas t). \<not> vma_hit a (a + len) v) \<longrightarrow> g \<le> a))
   else vma_find_gap t len = 0"
  using gap_loop_first_fit [of "vmas t" len MMAP_BASE]
  unfolding first_fit_def vma_find_gap_def fits_def Let_def by (auto split: if_splits)

text \<open>
  C34. The areas of a task stay well-formed: at most 16 of them, each a non-empty range of whole
  pages, no two overlapping. \<open>mmap2\<close> (for a fixed address: if the request does not reach the top
  of the address space), \<open>munmap\<close>, \<open>mprotect\<close> and \<open>brk\<close> all keep this; \<open>munmap\<close> removes exactly
  the areas that meet the range, each of them whole.
\<close>

theorem memory_calls_keep_areas:
  assumes "current k = Some t" and "vmas_wf (vmas t)"
    and "flags AND MAP_FIXED \<noteq> 0 \<longrightarrow> unat (page_of addr) + unat (round_up len) < 2 ^ 32"
  shows "\<exists>t1 t2 t3 t4.
    current (snd (sys_mmap2 addr len prot flags fd off k)) = Some t1 \<and> vmas_wf (vmas t1) \<and>
    current (snd (sys_munmap addr len k)) = Some t2 \<and> vmas_wf (vmas t2) \<and>
      mset (vmas t2) = filter_mset (\<lambda>v. \<not> vma_hit (page_of addr) (round_up (addr + len)) v) (mset (vmas t)) \<and>
    current (snd (sys_mprotect addr len prot k)) = Some t3 \<and> vmas_wf (vmas t3) \<and>
    current (snd (sys_brk addr k)) = Some t4 \<and> vmas t4 = vmas t"
proof -
  obtain t1 where t1: "current (snd (sys_mmap2 addr len prot flags fd off k)) = Some t1"
      "vmas t1 = vmas t \<or>
       (\<exists>va. mmap_address addr (round_up len) flags t = Some va \<and> round_up len \<noteq> 0 \<and> length (vmas t) < MAX_VMA \<and>
        vmas t1 = vmas t @ [\<lparr>vm_start = va, vm_end = va + round_up len, vm_prot = prot, vm_flags = flags\<rparr>])"
    using mmap2_areas [OF assms(1)] by blast
  have "vmas_wf (vmas t1)"
    using t1(2)
  proof (elim disjE exE conjE)
    assume "vmas t1 = vmas t"
    then show ?thesis using assms(2) by simp
  next
    fix va assume va: "mmap_address addr (round_up len) flags t = Some va" and "round_up len \<noteq> 0"
      and "length (vmas t) < MAX_VMA"
      and t1: "vmas t1 = vmas t @ [\<lparr>vm_start = va, vm_end = va + round_up len, vm_prot = prot, vm_flags = flags\<rparr>]"
    note ok = mmap_address_ok [OF assms(2) va assms(3)]
    have "va < va + round_up len"
      using ok(2) \<open>round_up len \<noteq> 0\<close> unat_gt_0 [of "round_up len"]
      by (simp add: fits_def word_less_nat_alt unat_word_ariths)
    moreover have "page_aligned (va + round_up len)"
      using ok(1) by (intro page_aligned_add) (simp_all only: round_up_def page_aligned_page_of)
    ultimately show ?thesis
      unfolding t1 using ok assms(2) \<open>length (vmas t) < MAX_VMA\<close>
      by (intro vmas_wf_snoc) (auto simp: vma_ok_def fits_def)
  qed
  moreover have "current (snd (sys_munmap addr len k)) =
      Some (vma_remove (page_of addr) (round_up (addr + len)) t)"
    using assms(1) by (simp add: sys_munmap_def Let_def)
  moreover have "current (snd (sys_mprotect addr len prot k)) =
      Some (vma_update_prot (page_of addr) (round_up (addr + len)) prot t)"
    using assms(1) by (simp add: sys_mprotect_def Let_def)
  moreover have "\<exists>t4. current (snd (sys_brk addr k)) = Some t4 \<and> vmas t4 = vmas t"
    using assms(1) by (auto simp: sys_brk_def Let_def split: prod.split)
  moreover have "vmas_wf (vmas (vma_remove (page_of addr) (round_up (addr + len)) t))"
      "mset (vmas (vma_remove (page_of addr) (round_up (addr + len)) t)) =
         filter_mset (\<lambda>v. \<not> vma_hit (page_of addr) (round_up (addr + len)) v) (mset (vmas t))"
      "vmas_wf (vmas (vma_update_prot (page_of addr) (round_up (addr + len)) prot t))"
    using assms(2) remove_loop_wf remove_loop_mset [of "length (vmas t)" "vmas t"] vmas_wf_update_prot
    by (simp_all add: vma_remove_def vma_update_prot_def)
  ultimately show ?thesis using t1(1) by blast
qed

definition demo_areas :: "vm_area list" where
  "demo_areas = [\<lparr>vm_start = 0x40000000, vm_end = 0x40002000, vm_prot = 3, vm_flags = 34\<rparr>,
     \<lparr>vm_start = 0x40002000, vm_end = 0x40003000, vm_prot = 1, vm_flags = 34\<rparr>]"

theorem vma_find_gap_first_fit_witness:
  "vma_find_gap (zero_task\<lparr>vmas := demo_areas\<rparr>) 0x1000 = 0x40003000"
proof -
  let ?t = "zero_task\<lparr>vmas := demo_areas\<rparr>"
  let ?fits = "\<lambda>a. MMAP_BASE \<le> a \<and> unat a + unat (0x1000 :: u32) < 2 ^ 32 \<and>
    (\<forall>v \<in> set (vmas ?t). \<not> vma_hit a (a + 0x1000) v)"
  have top: "?fits 0x40003000" by (simp add: MMAP_BASE_def demo_areas_def vma_hit_def)
  define g where "g = vma_find_gap ?t 0x1000"
  have ex: "\<exists>a. ?fits a" using top by (rule exI)
  have "?fits g \<and> (\<forall>a. ?fits a \<longrightarrow> g \<le> a)"
    using vma_find_gap_first_fit [of "0x1000" ?t] unfolding if_P [OF ex] Let_def g_def by blast
  with top have g: "?fits g" "g \<le> 0x40003000" by blast+
  have "unat g + 0x1000 = unat (g + 0x1000)" using g(1) by (simp add: unat_plus_simple [THEN iffD1] no_olen_add_nat)
  then have "unat g \<ge> 0x40003000"
    using g(1) by (auto simp: MMAP_BASE_def demo_areas_def vma_hit_def word_le_nat_alt word_less_nat_alt)
  then have "g = 0x40003000" using g(2) by (simp add: word_le_nat_alt word_unat_eq_iff)
  then show ?thesis by (simp add: g_def)
qed

definition demo_process :: "vm_area list \<Rightarrow> mm_state \<Rightarrow> kernel_state" where
  \<comment> \<open>one running task with those areas\<close>
  "demo_process vs mm = zero_kernel ((init_sched 0x100000 0x200000)\<lparr>
     tasks := (\<lambda>_. zero_task)(0 := (demo_task 0 TASK_STATE_RUNNING None)\<lparr>t_pdir := 0x2000000, vmas := vs\<rparr>),
     next_pid := 1, run_queue_head := Some 0, run_queue_tail := Some 0, current_task := Some 0\<rparr>) mm"

lemma demo_process_current:
  "current (demo_process vs mm) = Some ((demo_task 0 TASK_STATE_RUNNING None)\<lparr>t_pdir := 0x2000000, vmas := vs\<rparr>)"
  "kmm (demo_process vs mm) = mm"
  by (simp_all add: current_def demo_process_def zero_kernel_def scheduler_get_current_def init_sched_def)

lemma demo_areas_wf: "vmas_wf demo_areas"
  by (auto simp: vmas_wf_def vma_ok_def vma_hit_def demo_areas_def MAX_VMA_def page_aligned_def less_Suc_eq)

theorem memory_calls_keep_areas_witness:
  "\<exists>t2. current (snd (sys_munmap 0x40001000 0x1000 (demo_process demo_areas demo_mm))) = Some t2 \<and>
     vmas_wf (vmas t2) \<and> mset (vmas t2) = {#demo_areas ! 1#}"
proof -
  let ?k = "demo_process demo_areas demo_mm" and ?v = "0x40001000 :: u32"
  have "(0 :: u32) AND MAP_FIXED \<noteq> 0 \<longrightarrow> unat (page_of ?v) + unat (round_up 0x1000) < 2 ^ 32" by simp
  from memory_calls_keep_areas [OF demo_process_current(1) [of demo_areas demo_mm] _ this, of 0 0 0] demo_areas_wf
  obtain t2 where "current (snd (sys_munmap ?v 0x1000 ?k)) = Some t2" "vmas_wf (vmas t2)"
      "mset (vmas t2) = filter_mset (\<lambda>v. \<not> vma_hit (page_of ?v) (round_up (?v + 0x1000)) v) (mset demo_areas)"
    by auto
  moreover have "filter_mset (\<lambda>v. \<not> vma_hit (page_of ?v) (round_up (?v + 0x1000)) v) (mset demo_areas)
      = {#demo_areas ! 1#}"
    by (simp add: demo_areas_def vma_hit_def round_up_def)
  ultimately show ?thesis by metis
qed

definition same_mappings :: "u32 \<Rightarrow> mm_state \<Rightarrow> mm_state \<Rightarrow> bool" where
  \<comment> \<open>the same pages are mapped, each in the same way\<close>
  "same_mappings pdir mm mm' \<longleftrightarrow>
     (\<forall>va. (mm_get_pte pdir va mm' AND MM_PRESENT = 0 \<longleftrightarrow> mm_get_pte pdir va mm AND MM_PRESENT = 0) \<and>
           (mm_get_pte pdir va mm AND MM_PRESENT \<noteq> 0 \<longrightarrow> mm_get_pte pdir va mm' = mm_get_pte pdir va mm))"

lemma undone_mappings:
  assumes wf: "pd_wf mm pdir" and al: "alloc_pages pdir flags vas mm = (left, mm1)"
    and vas: "\<forall>va \<in> set vas. page_aligned va" "distinct vas" and flags: "flags \<in> {0, 5, 7}"
    and zero: "mm_get_pte pdir 0 mm AND MM_PRESENT \<noteq> 0"
  defines "mm2 \<equiv> unmap_pages pdir (take (length vas - length left) vas) mm1"
  shows "pd_wf mm2 pdir" and "same_mappings pdir mm mm2"
proof -
  obtain got fr where g: "pd_wf mm1 pdir" "vas = got @ left" "inj_on fr (set got)"
      "\<forall>va \<in> set got. fresh_page pdir va flags mm mm1 (fr va)"
      "\<forall>va. page_of va \<notin> set got \<longrightarrow> mm_get_pte pdir va mm1 = mm_get_pte pdir va mm"
    using alloc_pages_spec [OF wf al vas] zero by auto
  have mm2: "mm2 = unmap_pages pdir got mm1" using g(2) by (simp add: mm2_def)
  have "distinct got" "\<forall>va \<in> set got. page_aligned va \<and> data_frame mm1 pdir (fr va) \<and> mm_get_pte pdir va mm1 = fr va OR flags"
    using vas g(2,4) by (auto simp: fresh_page_def)
  note u = unmap_pages_spec [OF g(1) flags this(1) g(3) this(2)]
  then show "pd_wf mm2 pdir" by (simp add: mm2)
  have nop: "mm_get_pte pdir va mm AND MM_PRESENT = 0 \<and> mm_get_pte pdir va mm2 AND MM_PRESENT = 0"
    if "page_of va \<in> set got" for va
  proof -
    have f: "fresh_page pdir (page_of va) flags mm mm1 (fr (page_of va))" using g(4) that by blast
    have "mm_get_pte pdir (page_of va) x = mm_get_pte pdir va x" for x
      using same_page_iff [of "page_of va" va] by (simp add: mm_get_pte_alt)
    moreover have "(fr (page_of va) OR 0) AND MM_PRESENT = 0 AND MM_PRESENT"
      using low_bits_aligned(2) [of "fr (page_of va)" 0] f by (auto simp: fresh_page_def data_frame_def)
    ultimately show ?thesis using f u that by (auto simp: fresh_page_def mm2 MM_PRESENT_def)
  qed
  show "same_mappings pdir mm mm2"
    unfolding same_mappings_def
  proof
    fix va
    show "(mm_get_pte pdir va mm2 AND MM_PRESENT = 0 \<longleftrightarrow> mm_get_pte pdir va mm AND MM_PRESENT = 0) \<and>
           (mm_get_pte pdir va mm AND MM_PRESENT \<noteq> 0 \<longrightarrow> mm_get_pte pdir va mm2 = mm_get_pte pdir va mm)"
    proof (cases "page_of va \<in> set got")
      case True
      then show ?thesis using nop by blast
    next
      case False
      then show ?thesis using g(5) u by (simp add: mm2)
    qed
  qed
qed

lemma sint_aligned: "page_aligned va \<Longrightarrow> sint va \<noteq> -1"
proof
  assume "page_aligned va" "sint va = -1"
  moreover have "word_of_int (sint va) = va" by simp
  ultimately have "va = word_of_int (-1)" by metis
  then show False using \<open>page_aligned va\<close> by (simp add: page_aligned_def)
qed

lemma mmap2_refused:
  assumes "current k = Some t"
    and "round_up len = 0 \<or> flags AND MAP_ANONYMOUS = 0 \<or> mmap_address addr (round_up len) flags t = None"
  shows "sys_mmap2 addr len prot flags fd off k = (-1, k)"
  using assms by (elim disjE) (simp_all add: sys_mmap2_def Let_def)

lemma mmap2_attempt:
  assumes "current k = Some t" and "round_up len \<noteq> 0" and "flags AND MAP_ANONYMOUS \<noteq> 0"
    and "mmap_address addr (round_up len) flags t = Some va"
    and "alloc_pages (t_pdir t) (prot_to_page_flags prot) (run_pages va (round_up len)) (kmm k) = (left, mm)"
  shows "sys_mmap2 addr len prot flags fd off k =
    (if left = [] \<and> length (vmas t) < MAX_VMA
     then (sint va, upd_current (\<lambda>t. snd (vma_add va (va + round_up len) prot flags t)) (k\<lparr>kmm := mm\<rparr>))
     else (-1, k\<lparr>kmm := unmap_pages (t_pdir t)
       (take (length (run_pages va (round_up len)) - length left) (run_pages va (round_up len))) mm\<rparr>))"
  using assms by (simp add: sys_mmap2_def Let_def vma_add_def)

text \<open>
  C35. An anonymous mapping. Let the page directory of the current task be well-formed and page 0
  mapped, as the kernel's identity mapping has it. If \<open>mmap2\<close> returns -1 the same pages are
  mapped as before and the task is unchanged. Otherwise it returns the address chosen for the area, every page of the area, none
  of which was mapped, has a frame of its own that was free, filled with zeros and with the access
  asked for, every other mapping is unchanged, and the area is entered in the task's list.
\<close>

theorem mmap2_maps_fresh_pages:
  assumes cur: "current k = Some t" and wf: "pd_wf (kmm k) (t_pdir t)" "vmas_wf (vmas t)"
    and zero: "mm_get_pte (t_pdir t) 0 (kmm k) AND MM_PRESENT \<noteq> 0"
    and fixed: "flags AND MAP_FIXED \<noteq> 0 \<longrightarrow> unat (page_of addr) + unat (round_up len) < 2 ^ 32"
    and res: "sys_mmap2 addr len prot flags fd off k = (r, k')"
  shows "pd_wf (kmm k') (t_pdir t) \<and>
    (if r = -1 then current k' = Some t \<and> same_mappings (t_pdir t) (kmm k) (kmm k')
     else \<exists>va fr. mmap_address addr (round_up len) flags t = Some va \<and> r = sint va \<and>
       inj_on fr (set (run_pages va (round_up len))) \<and>
       (\<forall>a \<in> set (run_pages va (round_up len)).
          fresh_page (t_pdir t) a (prot_to_page_flags prot) (kmm k) (kmm k') (fr a)) \<and>
       (\<forall>a. page_of a \<notin> set (run_pages va (round_up len)) \<longrightarrow>
          mm_get_pte (t_pdir t) a (kmm k') = mm_get_pte (t_pdir t) a (kmm k)) \<and>
       current k' = Some (t\<lparr>vmas := vmas t @
         [\<lparr>vm_start = va, vm_end = va + round_up len, vm_prot = prot, vm_flags = flags\<rparr>]\<rparr>))"
proof (cases "round_up len = 0 \<or> flags AND MAP_ANONYMOUS = 0 \<or> mmap_address addr (round_up len) flags t = None")
  case True
  then have "r = -1" "k' = k" using res mmap2_refused [OF cur] by simp_all
  then show ?thesis using cur wf by (simp add: same_mappings_def)
next
  case False
  then obtain va where va: "mmap_address addr (round_up len) flags t = Some va" by auto
  let ?pages = "run_pages va (round_up len)" and ?fl = "prot_to_page_flags prot" and ?d = "t_pdir t"
  note ok = mmap_address_ok [OF wf(2) va fixed]
  note pg = run_pages_ok [OF ok(1), of "round_up len"]
  obtain left mm where al: "alloc_pages ?d ?fl ?pages (kmm k) = (left, mm)" by fastforce
  note eq = mmap2_attempt [OF cur _ _ va al, of fd off]
  note undo = undone_mappings [OF wf(1) al pg page_flags_cases zero]
  show ?thesis
  proof (cases "left = [] \<and> length (vmas t) < MAX_VMA")
    case True
    then have r: "r = sint va" "kmm k' = mm" "current k' = Some (t\<lparr>vmas := vmas t @
         [\<lparr>vm_start = va, vm_end = va + round_up len, vm_prot = prot, vm_flags = flags\<rparr>]\<rparr>)"
      using res eq False cur by (auto simp: vma_add_def)
    moreover obtain fr where "pd_wf mm ?d" "inj_on fr (set ?pages)"
        "\<forall>a \<in> set ?pages. fresh_page ?d a ?fl (kmm k) mm (fr a)"
        "\<forall>a. page_of a \<notin> set ?pages \<longrightarrow> mm_get_pte ?d a mm = mm_get_pte ?d a (kmm k)"
      using alloc_pages_spec [OF wf(1) al pg zero] True by auto
    ultimately show ?thesis using va sint_aligned [OF ok(1)] by auto
  next
    case fail: False
    then have "r = -1" "k' = k\<lparr>kmm := unmap_pages ?d (take (length ?pages - length left) ?pages) mm\<rparr>"
      using res eq False by auto
    then show ?thesis using undo cur by simp
  qed
qed

definition demo_low :: mm_state where
  \<comment> \<open>a directory in which page 0 is mapped\<close>
  "demo_low = snd (mm_map_at 0x2000000 0 0x5000 7 demo_mm)"

lemma demo_low_ok: "pd_wf demo_low 0x2000000" "mm_get_pte 0x2000000 0 demo_low = 0x5007"
proof -
  obtain r mm' where eq: "mm_map_at 0x2000000 0 0x5000 7 demo_mm = (r, mm')" by fastforce
  note sp = mm_map_at_spec [OF demo_mm_wf eq]
  have "mm_get_pte 0x2000000 0 demo_mm = 0"
    by (simp add: mm_get_pte_def Let_def demo_mm_def read32_def of_le32_def)
  moreover have "\<not> frame_used demo_mm 1" "1 < IDENT_PAGES"
    by (simp_all add: frame_used_def bitmap_test_def demo_mm_def IDENT_PAGES_def NUM_PT_def DIR_SIZE_def)
  ultimately have "r = 0" using sp(2) by (auto simp del: One_nat_def)
  then show "pd_wf demo_low 0x2000000" "mm_get_pte 0x2000000 0 demo_low = 0x5007"
    using sp(1) sp(3) [of 0] by (simp_all add: demo_low_def eq)
qed

theorem mmap2_maps_fresh_pages_witness:
  "\<exists>r k'. sys_mmap2 0 0x2000 3 34 (-1) 0 (demo_process [] demo_low) = (r, k') \<and> pd_wf (kmm k') 0x2000000 \<and>
     (r = -1 \<and> same_mappings 0x2000000 demo_low (kmm k') \<or>
      r = 0x40000000 \<and> (\<exists>f. fresh_page 0x2000000 0x40001000 7 demo_low (kmm k') f))"
proof -
  let ?k = "demo_process [] demo_low"
  obtain r k' where eq: "sys_mmap2 0 0x2000 3 34 (-1) 0 ?k = (r, k')" by fastforce
  have gap: "mmap_address 0 0x2000 34 t = Some 0x40000000" if "vmas t = []" for t
    using that by (simp add: mmap_address_def vma_find_gap_def gap_loop.simps MMAP_BASE_def MAP_FIXED_def)
  have run: "run_pages 0x40000000 0x2000 = [0x40000000, 0x40001000]"
    by (simp add: run_pages_def FRAME_def upt_conv_Cons)
  have up: "round_up 0x2000 = 0x2000" and fl: "prot_to_page_flags 3 = 7"
    by (simp_all add: round_up_def prot_to_page_flags_def PROT_WRITE_def MM_PRESENT_def MM_USER_def MM_RW_def)
  have hyp: "vmas_wf []" "mm_get_pte 0x2000000 0 demo_low AND MM_PRESENT \<noteq> 0"
    "(34 :: u32) AND MAP_FIXED \<noteq> 0 \<longrightarrow> unat (page_of 0 :: u32) + unat (round_up 0x2000) < 2 ^ 32"
    by (simp_all add: vmas_wf_def demo_low_ok MM_PRESENT_def MAP_FIXED_def up)
  show ?thesis
    using mmap2_maps_fresh_pages [OF demo_process_current(1) _ _ _ hyp(3) eq] hyp(1,2) demo_low_ok(1) eq
    by (auto simp: demo_process_current(2) up fl gap run split: if_splits)
qed

end
