(* ===== verification/Elf.thy ===== *)
theory Elf
  imports Sys_Mem
begin

text \<open>
  Executables (\<open>kernel/elf.c\<close>, \<open>kernel/elf.h\<close>): validation, the mapping of the loadable segments into
  a new page directory, the copy of their contents, and the end of the image. The file lies in
  identity-mapped frames; its headers are read where the code reads them, from memory.

  Loads and stores under a page directory other than the kernel's go through the two-level tables,
  as the processor does it; a page that is not present is \<^const>\<open>None\<close>, a fault inside the kernel.
\<close>

section \<open>Headers\<close>

definition ELF_MAGIC :: u32 where "ELF_MAGIC = 0x464C457F"
definition ELFCLASS32 :: u8 where "ELFCLASS32 = 1"
definition ELFDATA2LSB :: u8 where "ELFDATA2LSB = 1"
definition ET_EXEC :: u16 where "ET_EXEC = 2"
definition EM_386 :: u16 where "EM_386 = 3"
definition PT_LOAD :: u32 where "PT_LOAD = 1"
definition EHDR_SIZE :: nat where "EHDR_SIZE = 52"
definition PHDR_SIZE :: nat where "PHDR_SIZE = 32"

record elf32_ehdr =
  e_ident :: "u8 list"
  e_type :: u16
  e_machine :: u16
  e_version :: u32
  e_entry :: u32
  e_phoff :: u32
  e_shoff :: u32
  e_flags :: u32
  e_ehsize :: u16
  e_phentsize :: u16
  e_phnum :: u16
  e_shentsize :: u16
  e_shnum :: u16
  e_shstrndx :: u16

record elf32_phdr =
  p_type :: u32
  p_offset :: u32
  p_vaddr :: u32
  p_paddr :: u32
  p_filesz :: u32
  p_memsz :: u32
  p_flags :: u32
  p_align :: u32

definition encode_ehdr :: "elf32_ehdr \<Rightarrow> u8 list" where
  "encode_ehdr h = e_ident h @ le16 (e_type h) @ le16 (e_machine h) @ le32 (e_version h) @ le32 (e_entry h) @
     le32 (e_phoff h) @ le32 (e_shoff h) @ le32 (e_flags h) @ le16 (e_ehsize h) @ le16 (e_phentsize h) @
     le16 (e_phnum h) @ le16 (e_shentsize h) @ le16 (e_shnum h) @ le16 (e_shstrndx h)"

definition decode_ehdr :: "u8 list \<Rightarrow> elf32_ehdr" where
  "decode_ehdr bs = \<lparr>e_ident = get_bytes 0 16 bs, e_type = of_le16 (get_bytes 16 2 bs),
     e_machine = of_le16 (get_bytes 18 2 bs), e_version = of_le32 (get_bytes 20 4 bs),
     e_entry = of_le32 (get_bytes 24 4 bs), e_phoff = of_le32 (get_bytes 28 4 bs),
     e_shoff = of_le32 (get_bytes 32 4 bs), e_flags = of_le32 (get_bytes 36 4 bs),
     e_ehsize = of_le16 (get_bytes 40 2 bs), e_phentsize = of_le16 (get_bytes 42 2 bs),
     e_phnum = of_le16 (get_bytes 44 2 bs), e_shentsize = of_le16 (get_bytes 46 2 bs),
     e_shnum = of_le16 (get_bytes 48 2 bs), e_shstrndx = of_le16 (get_bytes 50 2 bs)\<rparr>"

definition encode_phdr :: "elf32_phdr \<Rightarrow> u8 list" where
  "encode_phdr p = le32 (p_type p) @ le32 (p_offset p) @ le32 (p_vaddr p) @ le32 (p_paddr p) @
     le32 (p_filesz p) @ le32 (p_memsz p) @ le32 (p_flags p) @ le32 (p_align p)"

definition decode_phdr :: "u8 list \<Rightarrow> elf32_phdr" where
  "decode_phdr bs = \<lparr>p_type = of_le32 (get_bytes 0 4 bs), p_offset = of_le32 (get_bytes 4 4 bs),
     p_vaddr = of_le32 (get_bytes 8 4 bs), p_paddr = of_le32 (get_bytes 12 4 bs),
     p_filesz = of_le32 (get_bytes 16 4 bs), p_memsz = of_le32 (get_bytes 20 4 bs),
     p_flags = of_le32 (get_bytes 24 4 bs), p_align = of_le32 (get_bytes 28 4 bs)\<rparr>"

interpretation ehdrs: packed_struct encode_ehdr decode_ehdr EHDR_SIZE "\<lambda>h. length (e_ident h) = 16"
  by unfold_locales (simp_all add: encode_ehdr_def decode_ehdr_def EHDR_SIZE_def codec_simps get_bytes_def)

interpretation phdrs: packed_struct encode_phdr decode_phdr PHDR_SIZE "\<lambda>_. True"
  by unfold_locales (simp_all add: encode_phdr_def decode_phdr_def PHDR_SIZE_def codec_simps get_bytes_def)

definition ehdr_at :: "mem \<Rightarrow> u32 \<Rightarrow> elf32_ehdr" where
  \<comment> \<open>\<open>*ehdr\<close>\<close>
  "ehdr_at m a = decode_ehdr (mem_bytes m a EHDR_SIZE)"

definition phdrs_of :: "mem \<Rightarrow> u32 \<Rightarrow> u32" where
  \<comment> \<open>the address of the program headers\<close>
  "phdrs_of m ehdr = ehdr + e_phoff (ehdr_at m ehdr)"

definition phdr_at :: "mem \<Rightarrow> u32 \<Rightarrow> nat \<Rightarrow> elf32_phdr" where
  \<comment> \<open>\<open>phdr[i]\<close>\<close>
  "phdr_at m phdr i = decode_phdr (mem_bytes m (phdr + of_nat (PHDR_SIZE * i)) PHDR_SIZE)"

section \<open>Operations\<close>

definition elf_validate :: "mem \<Rightarrow> u32 \<Rightarrow> int" where
  "elf_validate m ehdr =
     (if ehdr = 0 then -1
      else (let h = ehdr_at m ehdr in
        if of_le32 (get_bytes 0 4 (e_ident h)) \<noteq> ELF_MAGIC then -1
        else if e_ident h ! 4 \<noteq> ELFCLASS32 then -1
        else if e_ident h ! 5 \<noteq> ELFDATA2LSB then -1
        else if e_type h \<noteq> ET_EXEC then -1
        else if e_machine h \<noteq> EM_386 then -1
        else 0))"

definition segment_pages :: "elf32_phdr \<Rightarrow> u32 list" where
  "segment_pages ph = page_range (page_of (p_vaddr ph)) (round_up (p_vaddr ph + p_memsz ph))"

function load_segments :: "u32 \<Rightarrow> u32 \<Rightarrow> u32 \<Rightarrow> nat \<Rightarrow> mm_state \<Rightarrow> bool \<times> mm_state" where
  \<comment> \<open>the loop of \<open>elf_load\<close> from program header \<open>i\<close> on\<close>
  "load_segments ehdr phdr new_pdir i mm =
     (if \<not> i < unat (e_phnum (ehdr_at (kmem mm) ehdr)) then (True, mm)
      else (let ph = phdr_at (kmem mm) phdr i in
        if p_type ph \<noteq> PT_LOAD then load_segments ehdr phdr new_pdir (i + 1) mm
        else (let (left, mm1) = alloc_pages new_pdir PAGE_FLAGS (segment_pages ph) mm in
          if left \<noteq> [] then (False, mm1) else load_segments ehdr phdr new_pdir (i + 1) mm1)))"
  by pat_completeness auto
termination
proof (relation "measure (\<lambda>(_, _, _, i, _). 65536 - i)", goal_cases)
  case 1
  then show ?case by simp
next
  case (2 ehdr phdr new_pdir i mm)
  then show ?case using unsigned_less [of "e_phnum (ehdr_at (kmem mm) ehdr)", where 'a = nat] by simp
next
  case (3 ehdr phdr new_pdir i mm)
  then show ?case using unsigned_less [of "e_phnum (ehdr_at (kmem mm) ehdr)", where 'a = nat] by simp
qed

declare load_segments.simps [simp del]

definition elf_load :: "u32 \<Rightarrow> u32 \<Rightarrow> mm_state \<Rightarrow> u32 option \<times> mm_state" where
  \<comment> \<open>\<open>None\<close> is the return value -1, \<open>Some\<close> what \<open>*entry_out\<close> is set to\<close>
  "elf_load ehdr new_pdir mm =
     (if elf_validate (kmem mm) ehdr < 0 then (None, mm)
      else if new_pdir = 0 then (None, mm)
      else (let (ok, mm1) = load_segments ehdr (phdrs_of (kmem mm) ehdr) new_pdir 0 mm in
        (if ok then Some (e_entry (ehdr_at (kmem mm1) ehdr)) else None, mm1)))"

definition elf_brk_start :: "mem \<Rightarrow> u32 \<Rightarrow> u32" where
  "elf_brk_start m ehdr =
     round_up (fold (\<lambda>i top.
         let ph = phdr_at m (phdrs_of m ehdr) i; stop = p_vaddr ph + p_memsz ph in
         if p_type ph \<noteq> PT_LOAD then top else if stop > top then stop else top)
       [0..<unat (e_phnum (ehdr_at m ehdr))] 0)"

definition phys :: "u32 \<Rightarrow> u32 \<Rightarrow> mm_state \<Rightarrow> u32 option" where
  \<comment> \<open>the byte of memory that an access to \<open>va\<close> reaches while \<open>pdir\<close> is in CR3\<close>
  "phys pdir va mm =
     (let pte = mm_get_pte pdir va mm in
      if pte AND MM_PRESENT = 0 then None else Some (page_of pte + (va AND 0xFFF)))"

primrec vcopy :: "u32 \<Rightarrow> u32 \<Rightarrow> u32 \<Rightarrow> nat \<Rightarrow> mm_state \<Rightarrow> mm_state option" where
  \<comment> \<open>\<open>memcpy(dst, src, n)\<close> under a page directory\<close>
  "vcopy pdir dst src 0 mm = Some mm"
| "vcopy pdir dst src (Suc n) mm = do {
     s \<leftarrow> phys pdir src mm;
     d \<leftarrow> phys pdir dst mm;
     vcopy pdir (dst + 1) (src + 1) n (mm\<lparr>kmem := (kmem mm)(d := kmem mm s)\<rparr>)
   }"

fun vwrite :: "u32 \<Rightarrow> u32 \<Rightarrow> u8 list \<Rightarrow> mm_state \<Rightarrow> mm_state option" where
  \<comment> \<open>stores of kernel values under a page directory\<close>
  "vwrite pdir a [] mm = Some mm"
| "vwrite pdir a (b # bs) mm = do {
     p \<leftarrow> phys pdir a mm;
     vwrite pdir (a + 1) bs (mm\<lparr>kmem := (kmem mm)(p := b)\<rparr>)
   }"

function copy_segments :: "u32 \<Rightarrow> u32 \<Rightarrow> u32 \<Rightarrow> nat \<Rightarrow> mm_state \<Rightarrow> mm_state option" where
  \<comment> \<open>the loop of \<open>elf_copy_segments\<close> from program header \<open>i\<close> on, with \<open>pdir\<close> in CR3\<close>
  "copy_segments pdir ehdr phdr i mm =
     (if \<not> i < unat (e_phnum (ehdr_at (kmem mm) ehdr)) then Some mm
      else (let ph = phdr_at (kmem mm) phdr i in
        if p_type ph \<noteq> PT_LOAD then copy_segments pdir ehdr phdr (i + 1) mm
        else (case vcopy pdir (p_vaddr ph) (ehdr + p_offset ph) (unat (p_filesz ph)) mm of
            None \<Rightarrow> None
          | Some mm1 \<Rightarrow> copy_segments pdir ehdr phdr (i + 1) mm1)))"
  by pat_completeness auto
termination
proof (relation "measure (\<lambda>(_, _, _, i, _). 65536 - i)", goal_cases)
  case 1
  then show ?case by simp
next
  case (2 pdir ehdr phdr i mm)
  then show ?case using unsigned_less [of "e_phnum (ehdr_at (kmem mm) ehdr)", where 'a = nat] by simp
next
  case (3 pdir ehdr phdr i mm)
  then show ?case using unsigned_less [of "e_phnum (ehdr_at (kmem mm) ehdr)", where 'a = nat] by simp
qed

declare copy_segments.simps [simp del]

definition elf_copy_segments :: "u32 \<Rightarrow> u32 \<Rightarrow> mm_state \<Rightarrow> mm_state option" where
  "elf_copy_segments pdir ehdr mm = copy_segments pdir ehdr (phdrs_of (kmem mm) ehdr) 0 mm"

end
