(* ===== verification/Sys_File.thy ===== *)
theory Sys_File
  imports Files
begin

text \<open>
  The file system calls of \<open>kernel/syscall.c\<close> and \<open>kernel/pipe.c\<close>: opening and closing, reading
  and writing, duplicating descriptors, pipes, and the calls that take a path. A pointer argument that may be null is
  an \<open>option\<close>; a buffer the call fills is part of the result.

  The properties are about the reference counts of open files: every call keeps the number of
  descriptors that point to a file equal to its count.
\<close>

section \<open>Reading and writing\<close>

definition fd_file :: "int \<Rightarrow> task \<Rightarrow> nat option" where
  \<comment> \<open>the range check and the lookup; every caller returns -1 in both cases of \<open>None\<close>\<close>
  "fd_file fd t = (if fd < 0 \<or> fd \<ge> int VFS_MAX_FD then None else fd_table t ! nat fd)"

definition sys_write :: "int \<Rightarrow> u8 list \<Rightarrow> kernel_state \<Rightarrow> (write_outcome \<times> kernel_state) option" where
  "sys_write fd src k =
     (if fd < 0 \<or> fd \<ge> int VFS_MAX_FD then Some (Wrote (-1), k)
      else do {
        (f, k1) \<leftarrow> (case current k of
            Some t \<Rightarrow> Some (fd_table t ! nat fd, k)
          | None \<Rightarrow> if sys_boot_out k \<noteq> None then Some (sys_boot_out k, k)
                    else do { (f, k1) \<leftarrow> boot_file ''/dev/vga'' k; Some (f, k1\<lparr>sys_boot_out := f\<rparr>) });
        case f of None \<Rightarrow> Some (Wrote (-1), k1) | Some g \<Rightarrow> file_write g src k1
      })"

definition sys_read :: "int \<Rightarrow> u32 \<Rightarrow> kernel_state \<Rightarrow> ((int \<times> u8 list) outcome \<times> kernel_state) option" where
  "sys_read fd len k =
     (if fd < 0 \<or> fd \<ge> int VFS_MAX_FD then Some (Returned (-1, []), k)
      else do {
        (f, k1) \<leftarrow> (case current k of
            Some t \<Rightarrow> Some (fd_table t ! nat fd, k)
          | None \<Rightarrow> if sys_boot_in k \<noteq> None then Some (sys_boot_in k, k)
                    else do { (f, k1) \<leftarrow> boot_file ''/dev/kbd'' k; Some (f, k1\<lparr>sys_boot_in := f\<rparr>) });
        case f of None \<Rightarrow> Some (Returned (-1, []), k1) | Some g \<Rightarrow> file_read g len k1
      })"

definition sys_lseek :: "int \<Rightarrow> int \<Rightarrow> int \<Rightarrow> kernel_state \<Rightarrow> int \<times> kernel_state" where
  "sys_lseek fd offset whence k = (case current k of
       None \<Rightarrow> (-1, k)
     | Some t \<Rightarrow> (case fd_file fd t of
         None \<Rightarrow> (-1, k)
       | Some f \<Rightarrow>
           if whence = 0 \<or> whence = 1 then
             (let new_pos = (if whence = 0 then word_of_int offset
                             else f_pos (open_file_of k f) + word_of_int offset)
              in (sint new_pos, upd_file f (\<lambda>x. x\<lparr>f_pos := new_pos\<rparr>) k))
           else (-1, k)))"

definition sys_ioctl :: "int \<Rightarrow> int \<Rightarrow> u8 list \<Rightarrow> kernel_state \<Rightarrow> ((int \<times> u8 list) \<times> kernel_state) option" where
  "sys_ioctl fd cmd arg k = (case current k of
       None \<Rightarrow> Some ((-1, arg), k)
     | Some t \<Rightarrow> (case fd_file fd t of
         None \<Rightarrow> Some ((-1, arg), k)
       | Some f \<Rightarrow> (case f_ops (open_file_of k f) of
           Some Vfs_File_Ops \<Rightarrow> vfs_file_ioctl f cmd arg k
         | _ \<Rightarrow> Some ((-1, arg), k))))"

section \<open>Descriptors\<close>

definition free_fd :: "task \<Rightarrow> nat option" where
  "free_fd t = find (\<lambda>i. fd_table t ! i = None) [0..<VFS_MAX_FD]"

definition set_fd :: "nat \<Rightarrow> nat option \<Rightarrow> kernel_state \<Rightarrow> kernel_state" where
  "set_fd i f k = upd_current (\<lambda>t. t\<lparr>fd_table := (fd_table t)[i := f]\<rparr>) k"

definition O_CREAT :: u32 where "O_CREAT = 64"
definition O_TRUNC :: u32 where "O_TRUNC = 512"
definition O_APPEND :: u32 where "O_APPEND = 1024"

definition open_inode :: "task \<Rightarrow> string \<Rightarrow> u32 \<Rightarrow> u32 \<Rightarrow> kernel_state \<Rightarrow> (nat option \<times> kernel_state) option" where
  \<comment> \<open>the first half of \<open>sys_open\<close>: the inode of the path, created or truncated on the way\<close>
  "open_inode t abs_path flags mode k = do {
     (ino, k1) \<leftarrow> vfs_resolve_path abs_path k;
     case ino of
       None \<Rightarrow>
         if flags AND O_CREAT = 0 then Some (None, k1)
         else vfs_create_file abs_path (ucast (mode AND NOT (ucast (umask t)))) k1
     | Some n \<Rightarrow>
         if flags AND O_TRUNC \<noteq> 0 then
           (case i_ops (inode k1 n) of
              None \<Rightarrow> Some (Some n, k1)
            | Some ops \<Rightarrow> (case truncate_op ops of
                None \<Rightarrow> Some (Some n, k1)
              | Some trunc \<Rightarrow> do { (_, k2) \<leftarrow> trunc n 0 k1; Some (Some n, k2) }))
         else Some (Some n, k1)
   }"

definition install_fd :: "nat \<Rightarrow> u32 \<Rightarrow> kernel_state \<Rightarrow> int \<times> kernel_state" where
  \<comment> \<open>the second half: an open file for the inode, in the lowest free descriptor\<close>
  "install_fd n flags k =
     (case vfs_open_file_flags (Some n) flags k of
        (None, k1) \<Rightarrow> (-1, k1)
      | (Some f, k1) \<Rightarrow>
         (case current k1 of
            None \<Rightarrow> (-1, k1)
          | Some t \<Rightarrow> (case free_fd t of
              Some fd \<Rightarrow> (int fd, set_fd fd (Some f) k1)
            | None \<Rightarrow> (-1, vfs_close_file f k1))))"

definition sys_open :: "string option \<Rightarrow> u32 \<Rightarrow> u32 \<Rightarrow> kernel_state \<Rightarrow> (int \<times> kernel_state) option" where
  "sys_open pathname flags mode k = (case (current k, pathname) of
       (Some t, Some p) \<Rightarrow> do {
         abs_path \<leftarrow> build_abs_path (cwd t) p 512;
         (ino, k1) \<leftarrow> open_inode t abs_path flags mode k;
         Some (case ino of None \<Rightarrow> (-1, k1) | Some n \<Rightarrow> install_fd n flags k1)
       }
     | _ \<Rightarrow> Some (-1, k))"

definition sys_close :: "int \<Rightarrow> kernel_state \<Rightarrow> int \<times> kernel_state" where
  "sys_close fd k = (case current k of
       None \<Rightarrow> (-1, k)
     | Some t \<Rightarrow> (case fd_file fd t of
         None \<Rightarrow> (-1, k)
       | Some f \<Rightarrow> (0, vfs_close_file f (set_fd (nat fd) None k))))"

definition sys_dup2 :: "int \<Rightarrow> int \<Rightarrow> kernel_state \<Rightarrow> int \<times> kernel_state" where
  "sys_dup2 oldfd newfd k = (case current k of
       None \<Rightarrow> (-1, k)
     | Some t \<Rightarrow>
         if newfd < 0 \<or> newfd \<ge> int VFS_MAX_FD then (-1, k)
         else (case fd_file oldfd t of
           None \<Rightarrow> (-1, k)
         | Some f \<Rightarrow>
             if oldfd = newfd then (newfd, k)
             else
               (let k1 = (case fd_table t ! nat newfd of None \<Rightarrow> k | Some g \<Rightarrow> vfs_close_file g k);
                    k2 = upd_file f (\<lambda>x. x\<lparr>f_refcount := f_refcount x + 1\<rparr>) k1
                in (newfd, set_fd (nat newfd) (Some f) k2))))"

definition sys_dup :: "int \<Rightarrow> kernel_state \<Rightarrow> int \<times> kernel_state" where
  "sys_dup oldfd k = (case current k of
       None \<Rightarrow> (-1, k)
     | Some t \<Rightarrow> (case fd_file oldfd t of
         None \<Rightarrow> (-1, k)
       | Some f \<Rightarrow> (case free_fd t of
           None \<Rightarrow> (-1, k)
         | Some newfd \<Rightarrow> sys_dup2 oldfd (int newfd) k)))"

definition FD_CLOEXEC :: u32 where "FD_CLOEXEC = 1"

definition sys_fcntl64 :: "int \<Rightarrow> int \<Rightarrow> int \<Rightarrow> kernel_state \<Rightarrow> (int \<times> kernel_state) option" where
  \<comment> \<open>commands 0 to 4 are \<open>F_DUPFD\<close>, \<open>F_GETFD\<close>, \<open>F_SETFD\<close>, \<open>F_GETFL\<close>, \<open>F_SETFL\<close>; \<open>F_DUPFD\<close> starts its search
     at \<open>arg\<close>, before the table if that is negative\<close>
  "sys_fcntl64 fd cmd arg k = (case current k of
       None \<Rightarrow> Some (-1, k)
     | Some t \<Rightarrow> (case fd_file fd t of
         None \<Rightarrow> Some (-1, k)
       | Some f \<Rightarrow>
           if cmd = 0 then do {
             must (arg \<ge> 0);
             Some (case find (\<lambda>i. fd_table t ! i = None) [nat arg..<VFS_MAX_FD] of
                 None \<Rightarrow> (-1, k)
               | Some new_fd \<Rightarrow>
                   (int new_fd,
                    upd_current (\<lambda>t. t\<lparr>fd_flags := (fd_flags t)[new_fd := 0]\<rparr>)
                      (upd_file f (\<lambda>x. x\<lparr>f_refcount := f_refcount x + 1\<rparr>) (set_fd new_fd (Some f) k))))
           }
           else if cmd = 1 then Some (uint (fd_flags t ! nat fd), k)
           else if cmd = 2 then
             Some (0, upd_current (\<lambda>t. t\<lparr>fd_flags := (fd_flags t)[nat fd := ucast (word_of_int arg AND FD_CLOEXEC)]\<rparr>) k)
           else if cmd = 3 then Some (sint (f_flags (open_file_of k f)), k)
           else if cmd = 4 then
             Some (0, upd_file f (\<lambda>x. x\<lparr>f_flags := (f_flags x AND NOT O_APPEND) OR (word_of_int arg AND O_APPEND)\<rparr>) k)
           else Some (-1, k)))"

definition two_free_fds :: "task \<Rightarrow> (nat \<times> nat) option" where
  \<comment> \<open>the loop of \<open>sys_pipe\<close>: the two lowest free descriptors\<close>
  "two_free_fds t = (case filter (\<lambda>i. fd_table t ! i = None) [0..<VFS_MAX_FD] of
       rfd # wfd # _ \<Rightarrow> Some (rfd, wfd) | _ \<Rightarrow> None)"

definition pipe_file :: "file_ops \<Rightarrow> nat \<Rightarrow> nat \<Rightarrow> kernel_state \<Rightarrow> kernel_state" where
  "pipe_file ops p f k = upd_file f (\<lambda>x. x\<lparr>f_ops := Some ops, f_private := Pipe_Data p, f_pos := 0, f_refcount := 1\<rparr>) k"

definition drop_pipe :: "nat \<Rightarrow> kernel_state \<Rightarrow> kernel_state" where
  "drop_pipe p k = k\<lparr>kpipes := pipe_free p (upd_pipe p (\<lambda>x. x\<lparr>read_refs := 0, write_refs := 0\<rparr>) (kpipes k))\<rparr>"

definition sys_pipe :: "kernel_state \<Rightarrow> (int \<times> (nat \<times> nat) option) \<times> kernel_state" where
  \<comment> \<open>the pair stored to \<open>fds\<close>, if the call succeeds\<close>
  "sys_pipe k = (case current k of
       None \<Rightarrow> ((-1, None), k)
     | Some t \<Rightarrow> (case pipe_alloc (kpipes k) of
         (None, ps) \<Rightarrow> ((-1, None), k\<lparr>kpipes := ps\<rparr>)
       | (Some p, ps) \<Rightarrow>
          (case vfs_alloc_file (k\<lparr>kpipes := ps\<rparr>) of
             (None, k1) \<Rightarrow> ((-1, None), drop_pipe p k1)
           | (Some rfile, k1) \<Rightarrow>
              (let k2 = pipe_file Pipe_Read_Ops p rfile k1 in
               case vfs_alloc_file k2 of
                 (None, k3) \<Rightarrow> ((-1, None), drop_pipe p (upd_file rfile (\<lambda>x. x\<lparr>f_ops := None\<rparr>) k3))
               | (Some wfile, k3) \<Rightarrow>
                   (let k4 = pipe_file Pipe_Write_Ops p wfile k3 in
                    case two_free_fds t of
                      None \<Rightarrow> ((-1, None), vfs_close_file wfile (vfs_close_file rfile k4))
                    | Some (rfd, wfd) \<Rightarrow> ((0, Some (rfd, wfd)), set_fd wfd (Some wfile) (set_fd rfd (Some rfile) k4)))))))"

section \<open>Calls on paths\<close>

definition with_abs_path ::
    "(task \<Rightarrow> string \<Rightarrow> kernel_state \<Rightarrow> (int \<times> kernel_state) option) \<Rightarrow> string option \<Rightarrow> kernel_state \<Rightarrow>
     (int \<times> kernel_state) option" where
  \<comment> \<open>the frame of the calls on paths\<close>
  "with_abs_path call pathname k = (case (current k, pathname) of
       (Some t, Some p) \<Rightarrow> do { abs_path \<leftarrow> build_abs_path (cwd t) p 512; call t abs_path k }
     | _ \<Rightarrow> Some (-1, k))"

definition sys_access :: "string option \<Rightarrow> kernel_state \<Rightarrow> (int \<times> kernel_state) option" where
  "sys_access pathname k = with_abs_path (\<lambda>_. vfs_access) pathname k"

definition sys_mkdir :: "string option \<Rightarrow> u32 \<Rightarrow> kernel_state \<Rightarrow> (int \<times> kernel_state) option" where
  "sys_mkdir pathname mode k =
     with_abs_path (\<lambda>t p. vfs_mkdir p (ucast (mode AND NOT (ucast (umask t))))) pathname k"

definition sys_rmdir :: "string option \<Rightarrow> kernel_state \<Rightarrow> (int \<times> kernel_state) option" where
  "sys_rmdir pathname k = with_abs_path (\<lambda>_. vfs_rmdir) pathname k"

definition sys_unlink :: "string option \<Rightarrow> kernel_state \<Rightarrow> (int \<times> kernel_state) option" where
  "sys_unlink pathname k = with_abs_path (\<lambda>_. vfs_unlink) pathname k"

definition sys_symlink :: "string option \<Rightarrow> string option \<Rightarrow> kernel_state \<Rightarrow> (int \<times> kernel_state) option" where
  "sys_symlink target pathname k = (case target of
       None \<Rightarrow> Some (-1, k)
     | Some tgt \<Rightarrow> with_abs_path (\<lambda>_. vfs_symlink tgt) pathname k)"

definition sys_readlink :: "string option \<Rightarrow> int \<Rightarrow> kernel_state \<Rightarrow> ((int \<times> u8 list) \<times> kernel_state) option" where
  "sys_readlink pathname sz k = (case (current k, pathname) of
       (Some t, Some p) \<Rightarrow> do {
         abs_path \<leftarrow> build_abs_path (cwd t) p 512;
         (r, bs, k1) \<leftarrow> vfs_readlink abs_path (word_of_int sz) k;
         Some ((r, bs), k1)
       }
     | _ \<Rightarrow> Some ((-1, []), k))"

definition sys_chmod :: "string option \<Rightarrow> u32 \<Rightarrow> kernel_state \<Rightarrow> (int \<times> kernel_state) option" where
  "sys_chmod pathname mode k = with_abs_path (\<lambda>_ p. vfs_chmod p (ucast mode)) pathname k"

definition sys_mknod :: "string option \<Rightarrow> u32 \<Rightarrow> u32 \<Rightarrow> kernel_state \<Rightarrow> (int \<times> kernel_state) option" where
  "sys_mknod pathname mode dev k =
     with_abs_path (\<lambda>t p. vfs_mknod p (ucast (mode AND NOT (ucast (umask t)))) dev) pathname k"

definition sys_rename :: "string option \<Rightarrow> string option \<Rightarrow> kernel_state \<Rightarrow> (int \<times> kernel_state) option" where
  "sys_rename old_path new_path k = (case new_path of
       None \<Rightarrow> Some (-1, k)
     | Some n \<Rightarrow> with_abs_path (\<lambda>t abs_old k. do {
           abs_new \<leftarrow> build_abs_path (cwd t) n 512; vfs_rename abs_old abs_new k }) old_path k)"

definition sys_link :: "string option \<Rightarrow> string option \<Rightarrow> kernel_state \<Rightarrow> (int \<times> kernel_state) option" where
  "sys_link old_path new_path k = (case new_path of
       None \<Rightarrow> Some (-1, k)
     | Some n \<Rightarrow> with_abs_path (\<lambda>t abs_old k. do {
           abs_new \<leftarrow> build_abs_path (cwd t) n 512; vfs_link abs_old abs_new k }) old_path k)"

definition truncate_inode :: "nat \<Rightarrow> u32 \<Rightarrow> kernel_state \<Rightarrow> (int \<times> kernel_state) option" where
  "truncate_inode n len k = (case i_ops (inode k n) of
       None \<Rightarrow> Some (-1, k)
     | Some ops \<Rightarrow> (case truncate_op ops of None \<Rightarrow> Some (-1, k) | Some trunc \<Rightarrow> trunc n len k))"

definition sys_truncate64 :: "string option \<Rightarrow> u32 \<Rightarrow> kernel_state \<Rightarrow> (int \<times> kernel_state) option" where
  "sys_truncate64 pathname len k = with_abs_path (\<lambda>_ p k. do {
       (ino, k1) \<leftarrow> vfs_resolve_path p k;
       case ino of None \<Rightarrow> Some (-1, k1) | Some n \<Rightarrow> truncate_inode n len k1 }) pathname k"

definition resolve_path :: "task option \<Rightarrow> string option \<Rightarrow> kernel_state \<Rightarrow> (nat option \<times> kernel_state) option" where
  \<comment> \<open>\<open>strcpy\<close> into a buffer of 512 bytes: a longer path is \<open>None\<close>\<close>
  "resolve_path t pathname k = (case (t, pathname) of
       (Some tsk, Some p) \<Rightarrow>
         if take 1 p = [SLASH] then vfs_resolve_path p k
         else do {
           buf \<leftarrow> at_cwd (cwd tsk) p;
           must (length buf < 512);
           buf \<leftarrow> normalize_path buf;
           vfs_resolve_path buf k
         }
     | _ \<Rightarrow> Some (None, k))"

definition sys_stat :: "string option \<Rightarrow> kernel_state \<Rightarrow> ((int \<times> vfs_stat option) \<times> kernel_state) option" where
  \<comment> \<open>what is stored to \<open>buf\<close>, which is not null\<close>
  "sys_stat pathname k = (case pathname of
       None \<Rightarrow> Some ((-1, None), k)
     | Some p \<Rightarrow> do {
         (ino, k1) \<leftarrow> resolve_path (current k) (Some p) k;
         Some (case ino of
             None \<Rightarrow> ((-1, None), k1)
           | Some n \<Rightarrow> ((0, Some (vfs_inode_stat (inode k1 n))), k1))
       })"

definition sys_lstat :: "string option \<Rightarrow> kernel_state \<Rightarrow> ((int \<times> vfs_stat option) \<times> kernel_state) option" where
  "sys_lstat pathname k = sys_stat pathname k"

definition CWD_SIZE :: nat where "CWD_SIZE = 256"

definition sys_chdir :: "string option \<Rightarrow> kernel_state \<Rightarrow> (int \<times> kernel_state) option" where
  "sys_chdir pathname k = (case (current k, pathname) of
       (Some t, Some p) \<Rightarrow>
         if take 1 p = [SLASH] then do {
           (ino, k1) \<leftarrow> vfs_resolve_path p k;
           case ino of
             None \<Rightarrow> Some (-1, k1)
           | Some n \<Rightarrow>
               if i_type (inode k1 n) \<noteq> VFS_IDIR then Some (-1, k1)
               else do {
                 buf \<leftarrow> normalize_path (take 511 p);
                 Some (0, upd_current (\<lambda>t. t\<lparr>cwd := take (CWD_SIZE - 1) buf\<rparr>) k1)
               }
         }
         else do {
           buf \<leftarrow> at_cwd (cwd t) p;
           must (length buf < 512);
           buf \<leftarrow> normalize_path buf;
           (ino, k1) \<leftarrow> vfs_resolve_path buf k;
           case ino of
             None \<Rightarrow> Some (-1, k1)
           | Some n \<Rightarrow>
               if i_type (inode k1 n) \<noteq> VFS_IDIR then Some (-1, k1)
               else Some (0, upd_current (\<lambda>t. t\<lparr>cwd := take (CWD_SIZE - 1) buf\<rparr>) k1)
         }
     | _ \<Rightarrow> Some (-1, k))"

definition sys_getcwd :: "u32 \<Rightarrow> kernel_state \<Rightarrow> int \<times> u8 list" where
  "sys_getcwd sz k = (case current k of
       None \<Rightarrow> (-1, [])
     | Some t \<Rightarrow>
         if sz = 0 \<or> length (cwd t) + 1 > unat sz then (-1, [])
         else (int (length (cwd t)), str_bytes (cwd t) @ [0]))"

section \<open>Calls on the inode of a descriptor\<close>

definition with_fd_inode ::
    "'r \<Rightarrow> (nat \<Rightarrow> nat \<Rightarrow> kernel_state \<Rightarrow> ('r \<times> kernel_state) option) \<Rightarrow> int \<Rightarrow> kernel_state \<Rightarrow>
     ('r \<times> kernel_state) option" where
  \<comment> \<open>the descriptor's file and its inode; a pipe read as an inode is \<open>None\<close>\<close>
  "with_fd_inode err call fd k = (case current k of
       None \<Rightarrow> Some (err, k)
     | Some t \<Rightarrow> (case fd_file fd t of
         None \<Rightarrow> Some (err, k)
       | Some f \<Rightarrow> do {
           io \<leftarrow> inode_of_file (open_file_of k f);
           case io of None \<Rightarrow> Some (err, k) | Some n \<Rightarrow> call f n k
         }))"

definition sys_fstat :: "int \<Rightarrow> kernel_state \<Rightarrow> ((int \<times> vfs_stat option) \<times> kernel_state) option" where
  "sys_fstat fd k =
     with_fd_inode (-1, None) (\<lambda>f n k. Some ((0, Some (vfs_inode_stat (inode k n))), k)) fd k"

definition sys_fchmod :: "int \<Rightarrow> u32 \<Rightarrow> kernel_state \<Rightarrow> (int \<times> kernel_state) option" where
  "sys_fchmod fd mode k = with_fd_inode (-1) (\<lambda>f n. vfs_inode_chmod n (ucast mode)) fd k"

definition sys_ftruncate64 :: "int \<Rightarrow> u32 \<Rightarrow> kernel_state \<Rightarrow> (int \<times> kernel_state) option" where
  "sys_ftruncate64 fd len k = with_fd_inode (-1) (\<lambda>f n. truncate_inode n len) fd k"

definition dirent_record :: "vfs_dirent \<Rightarrow> u8 list \<Rightarrow> u8 list" where
  \<comment> \<open>one \<open>struct dirent\<close> over the bytes that were there: the two between name and type are not written\<close>
  "dirent_record dent old =
     (let name = takeWhile (\<lambda>b. b \<noteq> 0) (d_name dent); reclen = 12 + length name + 2 in
      le32 (d_ino dent) @ le32 0 @ le16 (of_nat reclen) @ name @ [0] @
      get_bytes (11 + length name) 2 old @ [d_type dent])"

partial_function (option) getdents_loop ::
    "(nat \<Rightarrow> u32 \<Rightarrow> kernel_state \<Rightarrow> (vfs_dirent option \<times> kernel_state) option) \<Rightarrow> nat \<Rightarrow> u32 \<Rightarrow> int \<Rightarrow>
     nat \<Rightarrow> u8 list \<Rightarrow> kernel_state \<Rightarrow> ((nat \<times> u32 \<times> u8 list) \<times> kernel_state) option" where
  \<comment> \<open>bytes written so far, the next index, and the caller's buffer\<close>
  "getdents_loop readdir n idx count sofar buf k = do {
     (r, k1) \<leftarrow> readdir n idx k;
     case r of
       None \<Rightarrow> Some ((sofar, idx, buf), k1)
     | Some dent \<Rightarrow>
         (let reclen = 12 + length (takeWhile (\<lambda>b. b \<noteq> 0) (d_name dent)) + 2 in
          if int sofar + int reclen > count then Some ((sofar, idx, buf), k1)
          else getdents_loop readdir n (idx + 1) count (sofar + reclen)
                 (put_bytes sofar (dirent_record dent (drop sofar buf)) buf) k1)
   }"

definition sys_getdents :: "int \<Rightarrow> u8 list \<Rightarrow> int \<Rightarrow> kernel_state \<Rightarrow> ((int \<times> u8 list) \<times> kernel_state) option" where
  \<comment> \<open>the bytes at \<open>dirp\<close> before and after\<close>
  "sys_getdents fd buf count k =
     (if count \<le> 0 then Some ((-1, buf), k)
      else with_fd_inode (-1, buf) (\<lambda>f n k. (case i_ops (inode k n) of
          None \<Rightarrow> Some ((-1, buf), k)
        | Some ops \<Rightarrow> (case readdir_op ops of
            None \<Rightarrow> Some ((-1, buf), k)
          | Some rd \<Rightarrow> do {
              ((sofar, idx, buf'), k1) \<leftarrow> getdents_loop rd n (f_pos (open_file_of k f)) count 0 buf k;
              Some ((int sofar, buf'), upd_file f (\<lambda>x. x\<lparr>f_pos := idx\<rparr>) k1)
            }))) fd k)"

section \<open>Counting references\<close>

definition fd_refs :: "kernel_state \<Rightarrow> nat \<Rightarrow> nat" where
  \<comment> \<open>the descriptors of all tasks that point to the file\<close>
  "fd_refs k f = (\<Sum>i < next_pid (ksched k). count_list (fd_table (tasks (ksched k) i)) (Some f))"

definition boot_refs :: "kernel_state \<Rightarrow> nat \<Rightarrow> nat" where
  "boot_refs k f = count_list [tty_boot_in k, tty_boot_out k, sys_boot_in k, sys_boot_out k] (Some f)"

abbreviation refs :: "kernel_state \<Rightarrow> nat \<Rightarrow> nat" where
  "refs k f \<equiv> fd_refs k f + boot_refs k f"

definition tables_ok :: "sched_state \<Rightarrow> bool" where
  "tables_ok s \<longleftrightarrow> (\<forall>i. length (fd_table (tasks s i)) = VFS_MAX_FD) \<and>
     (\<forall>i \<ge> next_pid s. fd_table (tasks s i) = replicate VFS_MAX_FD None) \<and>
     (\<forall>c. current_task s = Some c \<longrightarrow> c < next_pid s)"

definition balanced :: "(nat \<Rightarrow> int) \<Rightarrow> kernel_state \<Rightarrow> bool" where
  \<comment> \<open>the count of every open file exceeds its references by \<open>e\<close>; nothing points to a closed file\<close>
  "balanced e k \<longleftrightarrow> tables_ok (ksched k) \<and>
     (\<forall>f. if f_ops (open_file_of k f) = None then refs k f = 0 \<and> e f = 0
          else f < VFS_MAX_OPEN_FILES \<and> f_refcount (open_file_of k f) = int (refs k f) + e f \<and>
            0 < f_refcount (open_file_of k f))"

definition refs_inv :: "kernel_state \<Rightarrow> bool" where
  \<comment> \<open>every open file has a count equal to the references to it, at least one, and nothing
     points to a closed file\<close>
  "refs_inv k \<longleftrightarrow> tables_ok (ksched k) \<and>
     (\<forall>f. if f_ops (open_file_of k f) = None then refs k f = 0
          else f < VFS_MAX_OPEN_FILES \<and> f_refcount (open_file_of k f) = int (refs k f) \<and> 0 < refs k f)"

lemma refs_inv_balanced: "refs_inv k \<longleftrightarrow> balanced (\<lambda>_. 0) k"
  unfolding refs_inv_def balanced_def by (rule conj_cong, rule refl, rule iff_allI) auto

lemma count_list_update:
  "i < length xs \<Longrightarrow> count_list (xs[i := y]) x + of_bool (xs ! i = x) = count_list xs x + of_bool (y = x)"
proof (induction xs arbitrary: i)
  case Nil
  then show ?case by simp
next
  case (Cons a xs)
  then show ?case using Cons.IH [of "i - 1"] by (cases i) auto
qed

definition set_task_fd :: "nat \<Rightarrow> nat \<Rightarrow> nat option \<Rightarrow> sched_state \<Rightarrow> sched_state" where
  "set_task_fd c i x s = upd_task c (\<lambda>t. t\<lparr>fd_table := (fd_table t)[i := x]\<rparr>) s"

lemma set_fd_eq:
  "current_task (ksched k) = Some c \<Longrightarrow> set_fd i x k = k\<lparr>ksched := set_task_fd c i x (ksched k)\<rparr>"
  by (simp add: set_fd_def upd_current_def scheduler_get_current_def set_task_fd_def)

lemma fd_refs_set:
  assumes "tables_ok (ksched k)" and "c < next_pid (ksched k)" and "i < VFS_MAX_FD"
  shows "fd_refs (k\<lparr>ksched := set_task_fd c i x (ksched k)\<rparr>) f + of_bool (fd_table (tasks (ksched k) c) ! i = Some f) =
    fd_refs k f + of_bool (x = Some f)"
proof -
  let ?n = "next_pid (ksched k)" and ?t = "\<lambda>i. fd_table (tasks (ksched k) i)"
  let ?g = "\<lambda>j. count_list (?t j) (Some f)"
  have fin: "c \<in> {..<?n}" using assms(2) by simp
  have len: "i < length (?t c)" using assms(1,3) by (simp add: tables_ok_def)
  have "fd_refs (k\<lparr>ksched := set_task_fd c i x (ksched k)\<rparr>) f =
      (\<Sum>j < ?n. if j = c then count_list ((?t c)[i := x]) (Some f) else ?g j)"
    unfolding fd_refs_def set_task_fd_def by (auto intro!: sum.cong)
  also have "\<dots> = count_list ((?t c)[i := x]) (Some f) + (\<Sum>j \<in> {..<?n} - {c}. ?g j)"
    using sum.remove [OF finite_lessThan fin, of "\<lambda>j. if j = c then count_list ((?t c)[i := x]) (Some f) else ?g j"]
    by (auto intro!: sum.cong)
  finally show ?thesis
    using sum.remove [OF finite_lessThan fin, of ?g] count_list_update [OF len, of x "Some f"]
    by (simp add: fd_refs_def)
qed

lemma refs_pos:
  assumes "tables_ok (ksched k)" and "c < next_pid (ksched k)" and "i < VFS_MAX_FD"
    and "fd_table (tasks (ksched k) c) ! i = Some f"
  shows "0 < fd_refs k f"
  using fd_refs_set [OF assms(1-3), of None f] assms(4) by simp

lemma tables_ok_set:
  "tables_ok s \<Longrightarrow> c < next_pid s \<Longrightarrow> tables_ok (set_task_fd c i x s)"
  by (auto simp: tables_ok_def set_task_fd_def)

lemma balanced_open:
  assumes "balanced e k" and "f_ops (open_file_of k f) \<noteq> None"
  shows "f < VFS_MAX_OPEN_FILES" and "f_refcount (open_file_of k f) = int (refs k f) + e f"
    and "0 < f_refcount (open_file_of k f)"
  using spec [OF conjunct2 [OF assms(1) [unfolded balanced_def]], of f] assms(2) by simp_all

lemma balanced_closed:
  assumes "balanced e k" and "f_ops (open_file_of k f) = None"
  shows "fd_refs k f = 0" and "boot_refs k f = 0" and "e f = 0"
  using spec [OF conjunct2 [OF assms(1) [unfolded balanced_def]], of f] assms(2) by simp_all

lemma balancedI:
  assumes "tables_ok (ksched k)"
    and "\<And>f. f_ops (open_file_of k f) = None \<Longrightarrow> refs k f = 0 \<and> e f = 0"
    and "\<And>f. f_ops (open_file_of k f) \<noteq> None \<Longrightarrow> f < VFS_MAX_OPEN_FILES \<and>
      f_refcount (open_file_of k f) = int (refs k f) + e f \<and> 0 < f_refcount (open_file_of k f)"
  shows "balanced e k"
  unfolding balanced_def
proof (intro conjI allI)
  fix f
  show "if f_ops (open_file_of k f) = None then refs k f = 0 \<and> e f = 0
    else f < VFS_MAX_OPEN_FILES \<and> f_refcount (open_file_of k f) = int (refs k f) + e f \<and>
      0 < f_refcount (open_file_of k f)"
    unfolding if_bool_eq_conj using assms(2,3) [of f] by blast
qed (rule assms(1))

lemma balanced_set:
  assumes bal: "balanced e k" and c: "c < next_pid (ksched k)" and i: "i < VFS_MAX_FD"
    and x: "\<And>f. x = Some f \<Longrightarrow> f_ops (open_file_of k f) \<noteq> None"
  shows "balanced (\<lambda>f. e f + of_bool (fd_table (tasks (ksched k) c) ! i = Some f) - of_bool (x = Some f))
    (k\<lparr>ksched := set_task_fd c i x (ksched k)\<rparr>)"
proof -
  have ok: "tables_ok (ksched k)" using bal by (simp add: balanced_def)
  let ?k = "k\<lparr>ksched := set_task_fd c i x (ksched k)\<rparr>"
  have b: "boot_refs ?k f = boot_refs k f" for f by (simp add: boot_refs_def)
  show ?thesis
  proof (rule balancedI)
    show "tables_ok (ksched ?k)" using ok c by (simp add: tables_ok_set)
  next
    fix f assume "f_ops (open_file_of ?k f) = None"
    then have none: "f_ops (open_file_of k f) = None" by simp
    note cl = balanced_closed [OF bal none]
    have "x \<noteq> Some f" using x none by auto
    moreover have "fd_table (tasks (ksched k) c) ! i \<noteq> Some f" using cl refs_pos [OF ok c i] by auto
    ultimately show "refs ?k f = 0 \<and>
        e f + of_bool (fd_table (tasks (ksched k) c) ! i = Some f) - of_bool (x = Some f) = 0"
      using cl b fd_refs_set [OF ok c i, of x f] by simp
  next
    fix f assume "f_ops (open_file_of ?k f) \<noteq> None"
    then have some: "f_ops (open_file_of k f) \<noteq> None" by simp
    show "f < VFS_MAX_OPEN_FILES \<and> f_refcount (open_file_of ?k f) = int (refs ?k f) +
        (e f + of_bool (fd_table (tasks (ksched k) c) ! i = Some f) - of_bool (x = Some f)) \<and>
        0 < f_refcount (open_file_of ?k f)"
      using balanced_open [OF bal some] b fd_refs_set [OF ok c i, of x f]
      by (simp add: of_bool_def split: if_splits)
  qed
qed

lemma balanced_upd_file:
  assumes bal: "balanced e k"
    and "f_ops (g (open_file_of k f)) = None \<Longrightarrow> refs k f = 0 \<and> d = 0"
    and "f_ops (g (open_file_of k f)) \<noteq> None \<Longrightarrow> f < VFS_MAX_OPEN_FILES \<and>
      f_refcount (g (open_file_of k f)) = int (refs k f) + d \<and> 0 < f_refcount (g (open_file_of k f))"
  shows "balanced (e(f := d)) (upd_file f g k)"
proof -
  have r: "fd_refs (upd_file f g k) h = fd_refs k h" "boot_refs (upd_file f g k) h = boot_refs k h" for h
    by (simp_all add: fd_refs_def boot_refs_def upd_file_def)
  have fl: "open_file_of (upd_file f g k) h = (if h = f then g (open_file_of k f) else open_file_of k h)" for h
    by (simp add: upd_file_def)
  show ?thesis
  proof (rule balancedI)
    show "tables_ok (ksched (upd_file f g k))" using bal by (simp add: balanced_def upd_file_def)
  next
    fix h assume "f_ops (open_file_of (upd_file f g k) h) = None"
    then show "refs (upd_file f g k) h = 0 \<and> (e(f := d)) h = 0"
      unfolding fl r using assms(2) balanced_closed [OF bal, of h] by (cases "h = f") auto
  next
    fix h assume "f_ops (open_file_of (upd_file f g k) h) \<noteq> None"
    then show "h < VFS_MAX_OPEN_FILES \<and> f_refcount (open_file_of (upd_file f g k) h) =
        int (refs (upd_file f g k) h) + (e(f := d)) h \<and> 0 < f_refcount (open_file_of (upd_file f g k) h)"
      unfolding fl r using assms(3) balanced_open [OF bal, of h] by (cases "h = f") auto
  qed
qed

lemma balanced_incr:
  assumes "balanced e k" and "f_ops (open_file_of k f) \<noteq> None"
  shows "balanced (e(f := e f + 1)) (upd_file f (\<lambda>x. x\<lparr>f_refcount := f_refcount x + 1\<rparr>) k)"
  using balanced_open [OF assms] assms(2) by (intro balanced_upd_file [OF assms(1)]) auto

lemma refs_sched:
  assumes "next_pid s = next_pid (ksched k)" and "\<And>i. fd_table (tasks s i) = fd_table (tasks (ksched k) i)"
  shows "fd_refs (k\<lparr>kpipes := ps, ksched := s\<rparr>) f = fd_refs k f"
    and "boot_refs (k\<lparr>kpipes := ps, ksched := s\<rparr>) f = boot_refs k f"
  using assms by (simp_all add: fd_refs_def boot_refs_def)

lemma balanced_sched:
  \<comment> \<open>what the scheduler does to tasks leaves their descriptors alone\<close>
  assumes "balanced e k" and "next_pid s = next_pid (ksched k)" and "current_task s = current_task (ksched k)"
    and "\<And>i. fd_table (tasks s i) = fd_table (tasks (ksched k) i)"
  shows "balanced e (k\<lparr>kpipes := ps, ksched := s\<rparr>)"
proof -
  let ?k = "k\<lparr>kpipes := ps, ksched := s\<rparr>"
  have r: "fd_refs ?k f = fd_refs k f" "boot_refs ?k f = boot_refs k f" "open_file_of ?k f = open_file_of k f" for f
    using assms(2,4) by (simp_all add: refs_sched)
  have "tables_ok (ksched ?k)" using assms by (simp add: balanced_def tables_ok_def)
  then show ?thesis
    using assms(1) unfolding balanced_def r by blast
qed

lemma task_wake_simps [simp]:
  "next_pid (task_wake p s) = next_pid s" "current_task (task_wake p s) = current_task s"
  "fd_table (tasks (task_wake p s) i) = fd_table (tasks s i)"
  by (simp_all add: task_wake_def split: option.split)

lemma file_close_op_frame:
  obtains ps s where "file_close_op f k = k\<lparr>kpipes := ps, ksched := s\<rparr>"
    and "next_pid s = next_pid (ksched k)" and "current_task s = current_task (ksched k)"
    and "\<And>i. fd_table (tasks s i) = fd_table (tasks (ksched k) i)"
proof -
  have r: "\<exists>r ps s. pipe_close_read p pp ss = (r, ps, s) \<and> next_pid s = next_pid ss \<and>
      current_task s = current_task ss \<and> (\<forall>i. fd_table (tasks s i) = fd_table (tasks ss i))" for p pp ss
    by (auto simp: pipe_close_read_def wake_writer_def Let_def split: option.split)
  have w: "\<exists>r ps s. pipe_close_write p pp ss = (r, ps, s) \<and> next_pid s = next_pid ss \<and>
      current_task s = current_task ss \<and> (\<forall>i. fd_table (tasks s i) = fd_table (tasks ss i))" for p pp ss
    by (auto simp: pipe_close_write_def wake_reader_def Let_def split: option.split)
  consider "f_ops (open_file_of k f) = Some Pipe_Read_Ops" | "f_ops (open_file_of k f) = Some Pipe_Write_Ops"
    | "file_close_op f k = k"
    by (cases "f_ops (open_file_of k f)"; cases "the (f_ops (open_file_of k f))") (auto simp: file_close_op_def)
  then show ?thesis
  proof cases
    case 1
    then show ?thesis
      using r [of "pipe_of (open_file_of k f)" "kpipes k" "ksched k"] that by (auto simp: file_close_op_def)
  next
    case 2
    then show ?thesis
      using w [of "pipe_of (open_file_of k f)" "kpipes k" "ksched k"] that by (auto simp: file_close_op_def)
  next
    case 3
    then show ?thesis using that [of "ksched k" "kpipes k"] by simp
  qed
qed

lemma balanced_close:
  assumes bal: "balanced e k" and op: "f_ops (open_file_of k f) \<noteq> None" and e: "1 \<le> e f"
  shows "balanced (e(f := e f - 1)) (vfs_close_file f k)"
proof -
  let ?k1 = "upd_file f (\<lambda>x. x\<lparr>f_refcount := f_refcount x - 1\<rparr>) k"
  note o = balanced_open [OF bal op]
  show ?thesis
  proof (cases "f_refcount (open_file_of k f) - 1 > 0")
    case True
    then have "vfs_close_file f k = ?k1" by (simp add: vfs_close_file_def Let_def upd_file_def)
    moreover have "balanced (e(f := e f - 1)) ?k1"
      using True o op by (intro balanced_upd_file [OF bal]) auto
    ultimately show ?thesis by simp
  next
    case False
    obtain ps s where cl: "file_close_op f ?k1 = ?k1\<lparr>kpipes := ps, ksched := s\<rparr>" "next_pid s = next_pid (ksched ?k1)"
        "current_task s = current_task (ksched ?k1)" "\<And>i. fd_table (tasks s i) = fd_table (tasks (ksched ?k1) i)"
      using file_close_op_frame [of f ?k1] by blast
    let ?g = "\<lambda>x :: open_file. x\<lparr>f_refcount := f_refcount x - 1, f_ops := None, f_private := No_File_Data, f_pos := 0\<rparr>"
    have eq: "vfs_close_file f k = upd_file f ?g (k\<lparr>kpipes := ps, ksched := s\<rparr>)"
      using False by (simp add: vfs_close_file_def Let_def cl(1)) (simp add: upd_file_def)
    have "balanced e (k\<lparr>kpipes := ps, ksched := s\<rparr>)"
      using cl(2-4) by (intro balanced_sched [OF bal]) (simp_all add: upd_file_def)
    moreover have "refs (k\<lparr>kpipes := ps, ksched := s\<rparr>) f = refs k f"
      using cl(2,4) by (simp add: refs_sched upd_file_def)
    then have "refs (k\<lparr>kpipes := ps, ksched := s\<rparr>) f = 0 \<and> e f - 1 = 0" using False o e by simp
    ultimately show ?thesis unfolding eq by (intro balanced_upd_file) auto
  qed
qed

lemma balanced_alloc:
  assumes "balanced e k" and "f_ops (open_file_of k f) = None" and "f < VFS_MAX_OPEN_FILES"
    and "f_ops (g (open_file_of k f)) \<noteq> None" and "f_refcount (g (open_file_of k f)) = 1"
  shows "balanced (e(f := 1)) (upd_file f g k)"
  using balanced_closed [OF assms(1,2)] assms by (intro balanced_upd_file) auto

subsection \<open>Closing a file and clearing a descriptor commute\<close>

lemma set_task_fd_simps [simp]:
  "next_pid (set_task_fd c i x s) = next_pid s" "current_task (set_task_fd c i x s) = current_task s"
  "pid (tasks (set_task_fd c i x s) j) = pid (tasks s j)" "t_state (tasks (set_task_fd c i x s) j) = t_state (tasks s j)"
  "fd_table (tasks (set_task_fd c i x s) j) = (if j = c then (fd_table (tasks s c))[i := x] else fd_table (tasks s j))"
  by (simp_all add: set_task_fd_def)

lemma task_wake_set_task_fd: "task_wake p (set_task_fd c i x s) = set_task_fd c i x (task_wake p s)"
proof -
  have "upd_task j (\<lambda>t. t\<lparr>t_state := TASK_STATE_READY\<rparr>) (set_task_fd c i x s) =
      set_task_fd c i x (upd_task j (\<lambda>t. t\<lparr>t_state := TASK_STATE_READY\<rparr>) s)" for j
    by (auto simp: set_task_fd_def upd_task_def fun_eq_iff)
  then show ?thesis by (simp add: task_wake_def split: option.split)
qed

lemma pipe_close_set_task_fd:
  "pipe_close_read p ps (set_task_fd c i x s) =
     (let (r, ps', s') = pipe_close_read p ps s in (r, ps', set_task_fd c i x s'))"
  "pipe_close_write p ps (set_task_fd c i x s) =
     (let (r, ps', s') = pipe_close_write p ps s in (r, ps', set_task_fd c i x s'))"
  by (auto simp: pipe_close_read_def pipe_close_write_def wake_writer_def wake_reader_def Let_def
      task_wake_set_task_fd split: option.split)

lemma file_close_op_set:
  "file_close_op f (k\<lparr>ksched := set_task_fd c i x (ksched k)\<rparr>) =
     (file_close_op f k)\<lparr>ksched := set_task_fd c i x (ksched (file_close_op f k))\<rparr>"
  by (cases "f_ops (open_file_of k f)"; cases "the (f_ops (open_file_of k f))")
    (auto simp: file_close_op_def pipe_close_set_task_fd Let_def split: prod.split)

lemma upd_file_sched: "upd_file f g (k\<lparr>ksched := s\<rparr>) = (upd_file f g k)\<lparr>ksched := s\<rparr>"
  by (simp add: upd_file_def)

lemma ksched_upd_file [simp]: "ksched (upd_file f g k) = ksched k"
  by (simp add: upd_file_def)

lemma close_set_commute:
  "vfs_close_file f (k\<lparr>ksched := set_task_fd c i x (ksched k)\<rparr>) =
     (vfs_close_file f k)\<lparr>ksched := set_task_fd c i x (ksched (vfs_close_file f k))\<rparr>"
proof -
  let ?k1 = "upd_file f (\<lambda>x. x\<lparr>f_refcount := f_refcount x - 1\<rparr>) k"
  have "file_close_op f (?k1\<lparr>ksched := set_task_fd c i x (ksched ?k1)\<rparr>) =
      (file_close_op f ?k1)\<lparr>ksched := set_task_fd c i x (ksched (file_close_op f ?k1))\<rparr>"
    by (rule file_close_op_set)
  then show ?thesis
    by (simp add: vfs_close_file_def Let_def upd_file_sched)
qed

subsection \<open>Every operation keeps the counts\<close>

lemma current_SomeD:
  assumes "current k = Some t"
  obtains c where "current_task (ksched k) = Some c" and "t = tasks (ksched k) c"
  using assms by (auto simp: current_def scheduler_get_current_def)

lemma balanced_cur:
  assumes "balanced e k" and "current_task (ksched k) = Some c"
  shows "c < next_pid (ksched k)"
  using assms by (auto simp: balanced_def tables_ok_def)

lemma balanced_fd_open:
  assumes "balanced e k" and "c < next_pid (ksched k)" and "i < VFS_MAX_FD"
    and "fd_table (tasks (ksched k) c) ! i = Some f"
  shows "f_ops (open_file_of k f) \<noteq> None"
  using balanced_closed(1) [OF assms(1), of f] refs_pos [OF _ assms(2-4)] assms(1) by (auto simp: balanced_def)

lemma balanced_cong: "balanced e k \<Longrightarrow> (\<And>f. e f = e' f) \<Longrightarrow> balanced e' k"
  by (metis ext)

lemma free_fd_SomeD:
  assumes "free_fd t = Some i"
  shows "i < VFS_MAX_FD" and "fd_table t ! i = None"
  using assms by (auto simp: free_fd_def dest: find_upt_SomeD)

lemma install_fd_refs:
  assumes "refs_inv k" and cur: "current_task (ksched k) = Some c"
  shows "refs_inv (snd (install_fd n flags k))"
proof -
  have bal: "balanced (\<lambda>_. 0) k" using assms by (simp add: refs_inv_balanced)
  show ?thesis
  proof (cases "find (\<lambda>i. f_ops (vfs_open_files k i) = None) [0..<VFS_MAX_OPEN_FILES]")
    case None
    then show ?thesis using assms by (simp add: install_fd_def vfs_open_file_flags_def)
  next
    case (Some f)
    note f = find_upt_SomeD [OF Some]
    let ?k1 = "upd_file f (\<lambda>_. \<lparr>f_ops = Some Vfs_File_Ops, f_private = Inode_Data n, f_pos = 0, f_refcount = 1, f_flags = flags\<rparr>) k"
    have op: "vfs_open_file_flags (Some n) flags k = (Some f, ?k1)" using Some by (simp add: vfs_open_file_flags_def)
    have b1: "balanced ((\<lambda>_. 0)(f := 1)) ?k1" using f by (intro balanced_alloc [OF bal]) simp_all
    let ?t = "tasks (ksched ?k1) c"
    have cur1: "current_task (ksched ?k1) = Some c" using cur by simp
    then have ct: "current ?k1 = Some ?t" by (simp add: current_def scheduler_get_current_def)
    have fop: "f_ops (open_file_of ?k1 f) \<noteq> None" by (simp add: upd_file_def)
    note c = balanced_cur [OF b1 cur1]
    show ?thesis
    proof (cases "free_fd ?t")
      case None
      then have "install_fd n flags k = (-1, vfs_close_file f ?k1)" by (simp add: install_fd_def op ct del: ksched_upd_file)
      then show ?thesis
        using balanced_close [OF b1 fop] by (auto simp: refs_inv_balanced intro: balanced_cong)
    next
      case (Some i)
      note i = free_fd_SomeD [OF Some]
      then have "install_fd n flags k = (int i, ?k1\<lparr>ksched := set_task_fd c i (Some f) (ksched ?k1)\<rparr>)"
        using Some set_fd_eq [OF cur1] by (simp add: install_fd_def op ct del: ksched_upd_file)
      then show ?thesis
        using balanced_set [OF b1 c i(1), of "Some f"] i(2) fop
        by (auto simp: refs_inv_balanced simp del: ksched_upd_file intro: balanced_cong)
    qed
  qed
qed

lemma fd_file_SomeD:
  assumes "fd_file fd t = Some f"
  shows "0 \<le> fd" and "nat fd < VFS_MAX_FD" and "fd_table t ! nat fd = Some f"
  using assms by (auto simp: fd_file_def split: if_splits)

lemma clear_fd_refs:
  \<comment> \<open>a descriptor is cleared and its file closed\<close>
  assumes bal: "balanced (\<lambda>_. 0) k" and cn: "c < next_pid (ksched k)" and i: "i < VFS_MAX_FD"
    and f: "fd_table (tasks (ksched k) c) ! i = Some f"
  shows "balanced (\<lambda>_. 0) (vfs_close_file f (k\<lparr>ksched := set_task_fd c i None (ksched k)\<rparr>))"
proof -
  let ?k1 = "k\<lparr>ksched := set_task_fd c i None (ksched k)\<rparr>"
  have b1: "balanced (\<lambda>g. 0 + of_bool (fd_table (tasks (ksched k) c) ! i = Some g) - of_bool (None = Some g)) ?k1"
    by (rule balanced_set [OF bal cn i]) simp
  have "f_ops (open_file_of ?k1 f) \<noteq> None" using balanced_fd_open [OF bal cn i f] by simp
  from balanced_close [OF b1 this] show ?thesis using f by (auto intro: balanced_cong)
qed

lemma sys_close_refs:
  assumes "refs_inv k"
  shows "refs_inv (snd (sys_close fd k))"
proof (cases "\<exists>t f. current k = Some t \<and> fd_file fd t = Some f")
  case False
  then have "snd (sys_close fd k) = k" by (auto simp: sys_close_def split: option.split)
  then show ?thesis using assms by simp
next
  case True
  then obtain t f where t: "current k = Some t" and f: "fd_file fd t = Some f" by blast
  obtain c where c: "current_task (ksched k) = Some c" "t = tasks (ksched k) c" using current_SomeD [OF t] .
  note fd = fd_file_SomeD [OF f]
  have bal: "balanced (\<lambda>_. 0) k" using assms by (simp add: refs_inv_balanced)
  show ?thesis
    using clear_fd_refs [OF bal balanced_cur [OF bal c(1)] fd(2)] fd(3) c t f
    by (simp add: sys_close_def refs_inv_balanced set_fd_eq)
qed

lemma point_fd_refs:
  \<comment> \<open>a further descriptor for an open file, in a free place\<close>
  assumes bal: "balanced (\<lambda>_. 0) k" and cn: "c < next_pid (ksched k)" and i: "i < VFS_MAX_FD"
    and free: "fd_table (tasks (ksched k) c) ! i = None" and op: "f_ops (open_file_of k f) \<noteq> None"
  shows "balanced (\<lambda>_. 0) (upd_file f (\<lambda>x. x\<lparr>f_refcount := f_refcount x + 1\<rparr>)
    (k\<lparr>ksched := set_task_fd c i (Some f) (ksched k)\<rparr>))"
proof -
  let ?k1 = "k\<lparr>ksched := set_task_fd c i (Some f) (ksched k)\<rparr>"
  have b1: "balanced (\<lambda>g. 0 + of_bool (fd_table (tasks (ksched k) c) ! i = Some g) - of_bool (Some f = Some g)) ?k1"
    using op by (intro balanced_set [OF bal cn i]) simp
  have "f_ops (open_file_of ?k1 f) \<noteq> None" using op by simp
  from balanced_incr [OF b1 this] show ?thesis using free by (auto intro: balanced_cong)
qed

lemma vfs_close_file_frame:
  shows "g \<noteq> f \<Longrightarrow> open_file_of (vfs_close_file g k) f = open_file_of k f"
    and "current_task (ksched (vfs_close_file g k)) = current_task (ksched k)"
    and "next_pid (ksched (vfs_close_file g k)) = next_pid (ksched k)"
    and "fd_table (tasks (ksched (vfs_close_file g k)) i) = fd_table (tasks (ksched k) i)"
proof -
  let ?k = "upd_file g (\<lambda>x. x\<lparr>f_refcount := f_refcount x - 1\<rparr>) k"
  obtain ps s where op: "file_close_op g ?k = ?k\<lparr>kpipes := ps, ksched := s\<rparr>" "next_pid s = next_pid (ksched ?k)"
      "current_task s = current_task (ksched ?k)" "\<And>i. fd_table (tasks s i) = fd_table (tasks (ksched ?k) i)"
    by (rule file_close_op_frame [of g ?k]) (rule that)
  show "current_task (ksched (vfs_close_file g k)) = current_task (ksched k)"
    "next_pid (ksched (vfs_close_file g k)) = next_pid (ksched k)"
    "fd_table (tasks (ksched (vfs_close_file g k)) i) = fd_table (tasks (ksched k) i)"
    using op by (simp_all add: vfs_close_file_def Let_def)
  show "open_file_of (vfs_close_file g k) f = open_file_of k f" if "g \<noteq> f"
    using that op(1) by (simp add: vfs_close_file_def Let_def) (simp add: upd_file_def)
qed

lemma move_fd_refs:
  \<comment> \<open>a descriptor of \<open>g\<close> becomes one of another open file\<close>
  assumes bal: "balanced (\<lambda>_. 0) k" and cn: "c < next_pid (ksched k)" and i: "i < VFS_MAX_FD"
    and old: "fd_table (tasks (ksched k) c) ! i = Some g" and op: "f_ops (open_file_of k f) \<noteq> None" and ne: "g \<noteq> f"
  defines "k1 \<equiv> vfs_close_file g k"
  shows "balanced (\<lambda>_. 0) (upd_file f (\<lambda>x. x\<lparr>f_refcount := f_refcount x + 1\<rparr>)
    (k1\<lparr>ksched := set_task_fd c i (Some f) (ksched k1)\<rparr>))"
proof -
  let ?k = "k\<lparr>ksched := set_task_fd c i (Some f) (ksched k)\<rparr>"
  have b: "balanced (\<lambda>h. 0 + of_bool (fd_table (tasks (ksched k) c) ! i = Some h) - of_bool (Some f = Some h)) ?k"
    using op by (intro balanced_set [OF bal cn i]) simp
  have gop: "f_ops (open_file_of ?k g) \<noteq> None" using balanced_fd_open [OF bal cn i old] by simp
  let ?e = "\<lambda>h. if h = f then -1 else (0 :: int)"
  have "balanced ?e (vfs_close_file g ?k)"
    using balanced_close [OF b gop] old ne by (auto intro: balanced_cong)
  moreover have "f_ops (open_file_of (vfs_close_file g ?k) f) \<noteq> None" using op vfs_close_file_frame(1) [OF ne] by simp
  ultimately have "balanced (?e(f := ?e f + 1)) (upd_file f (\<lambda>x. x\<lparr>f_refcount := f_refcount x + 1\<rparr>) (vfs_close_file g ?k))"
    by (rule balanced_incr)
  then show ?thesis unfolding close_set_commute k1_def by (auto intro: balanced_cong)
qed

lemma two_fds_refs:
  assumes bal: "balanced (\<lambda>_. 0) k" and cn: "c < next_pid (ksched k)" and ij: "i < VFS_MAX_FD" "j < VFS_MAX_FD" "i \<noteq> j"
    and fds: "fd_table (tasks (ksched k) c) ! i = Some f" "fd_table (tasks (ksched k) c) ! j = Some f"
  shows "2 \<le> f_refcount (open_file_of k f)"
proof -
  have ok: "tables_ok (ksched k)" using bal by (simp add: balanced_def)
  let ?k = "k\<lparr>ksched := set_task_fd c i None (ksched k)\<rparr>"
  have "fd_refs ?k f + 1 = fd_refs k f" using fd_refs_set [OF ok cn ij(1), of None f] fds(1) by simp
  moreover have "0 < fd_refs ?k f"
    using ok cn ij fds(2) by (intro refs_pos [of ?k c j]) (auto simp: tables_ok_set)
  moreover have "f_refcount (open_file_of k f) = int (refs k f)"
    using balanced_open(2) [OF bal balanced_fd_open [OF bal cn ij(1) fds(1)]] by simp
  ultimately show ?thesis by simp
qed

lemma sys_dup2_refs:
  assumes "refs_inv k"
  shows "refs_inv (snd (sys_dup2 oldfd newfd k))"
proof (cases "\<exists>t f. current k = Some t \<and> fd_file oldfd t = Some f \<and> 0 \<le> newfd \<and> newfd < int VFS_MAX_FD \<and> oldfd \<noteq> newfd")
  case False
  then have "snd (sys_dup2 oldfd newfd k) = k" by (auto simp: sys_dup2_def split: option.split)
  then show ?thesis using assms by simp
next
  case True
  then obtain t f where t: "current k = Some t" and f: "fd_file oldfd t = Some f"
    and new: "0 \<le> newfd" "newfd < int VFS_MAX_FD" "oldfd \<noteq> newfd" by blast
  obtain c where c: "current_task (ksched k) = Some c" "t = tasks (ksched k) c" using current_SomeD [OF t] .
  note fd = fd_file_SomeD [OF f]
  have bal: "balanced (\<lambda>_. 0) k" using assms by (simp add: refs_inv_balanced)
  note cn = balanced_cur [OF bal c(1)]
  have i: "nat newfd < VFS_MAX_FD" using new by simp
  have op: "f_ops (open_file_of k f) \<noteq> None" using balanced_fd_open [OF bal cn fd(2)] fd(3) c(2) by simp
  let ?inc = "upd_file f (\<lambda>x. x\<lparr>f_refcount := f_refcount x + 1\<rparr>)"
  have eq: "snd (sys_dup2 oldfd newfd k) = (let k1 = (case fd_table t ! nat newfd of None \<Rightarrow> k | Some g \<Rightarrow> vfs_close_file g k)
      in ?inc (k1\<lparr>ksched := set_task_fd c (nat newfd) (Some f) (ksched k1)\<rparr>))"
    using t f new set_fd_eq c(1) vfs_close_file_frame(2)
    by (auto simp: sys_dup2_def Let_def set_fd_eq upd_file_sched split: option.split)
  show ?thesis
  proof (cases "fd_table t ! nat newfd")
    case None
    then show ?thesis
      using point_fd_refs [OF bal cn i _ op] c(2) by (simp add: eq refs_inv_balanced Let_def)
  next
    case (Some g)
    show ?thesis
    proof (cases "g = f")
      case False
      then show ?thesis
        using move_fd_refs [OF bal cn i _ op, of g] Some c(2) by (simp add: eq refs_inv_balanced Let_def)
    next
      case True
      have "nat oldfd \<noteq> nat newfd" using fd(1) new by simp
      then have two: "2 \<le> f_refcount (open_file_of k f)"
        using two_fds_refs [OF bal cn fd(2) i] fd(3) Some True c(2) by simp
      have k1: "vfs_close_file f k = upd_file f (\<lambda>x. x\<lparr>f_refcount := f_refcount x - 1\<rparr>) k"
        using two by (simp add: vfs_close_file_def Let_def upd_file_def)
      have "set_task_fd c (nat newfd) (Some f) (ksched k) = ksched k"
        using Some True c(2) list_update_id [of "fd_table (tasks (ksched k) c)" "nat newfd"]
        by (simp add: set_task_fd_def upd_task_def)
      then have "snd (sys_dup2 oldfd newfd k) = k"
        using Some True by (simp add: eq k1 upd_file_sched Let_def) (simp add: upd_file_def)
      then show ?thesis using assms by simp
    qed
  qed
qed

lemma sys_dup_refs:
  assumes "refs_inv k"
  shows "refs_inv (snd (sys_dup oldfd k))"
  using assms sys_dup2_refs [OF assms] by (simp add: sys_dup_def split: option.split)

lemma balanced_upd_current:
  \<comment> \<open>changes to the current task that leave its descriptors alone\<close>
  assumes bal: "balanced e k" and keep: "\<And>t. fd_table (g t) = fd_table t"
  shows "balanced e (upd_current g k)"
proof (cases "current_task (ksched k)")
  case None
  then show ?thesis using bal by (simp add: upd_current_def scheduler_get_current_def)
next
  case (Some c)
  then have "upd_current g k = k\<lparr>kpipes := kpipes k, ksched := upd_task c g (ksched k)\<rparr>"
    by (simp add: upd_current_def scheduler_get_current_def)
  moreover have "balanced e (k\<lparr>kpipes := kpipes k, ksched := upd_task c g (ksched k)\<rparr>)"
    by (rule balanced_sched [OF bal]) (simp_all add: upd_task_def keep)
  ultimately show ?thesis by simp
qed

lemma sys_fcntl64_refs:
  assumes inv: "refs_inv k" and res: "sys_fcntl64 fd cmd arg k = Some (r, k')"
  shows "refs_inv k'"
proof (cases "\<exists>t f. current k = Some t \<and> fd_file fd t = Some f")
  case False
  then show ?thesis using inv res by (auto simp: sys_fcntl64_def split: option.splits)
next
  case True
  then obtain t f where t: "current k = Some t" and f: "fd_file fd t = Some f" by blast
  obtain c where c: "current_task (ksched k) = Some c" "t = tasks (ksched k) c" using current_SomeD [OF t] .
  note fd = fd_file_SomeD [OF f]
  have bal: "balanced (\<lambda>_. 0) k" using inv by (simp add: refs_inv_balanced)
  note cn = balanced_cur [OF bal c(1)]
  have op: "f_ops (open_file_of k f) \<noteq> None" using balanced_fd_open [OF bal cn fd(2)] fd(3) c(2) by simp
  let ?inc = "\<lambda>x. x\<lparr>f_refcount := f_refcount x + 1\<rparr>"
  let ?fl = "\<lambda>x. x\<lparr>f_flags := (f_flags x AND NOT O_APPEND) OR (word_of_int arg AND O_APPEND)\<rparr>"
  consider (dup) new where "find (\<lambda>i. fd_table t ! i = None) [nat arg..<VFS_MAX_FD] = Some new"
      "k' = upd_current (\<lambda>t. t\<lparr>fd_flags := (fd_flags t)[new := 0]\<rparr>) (upd_file f ?inc (set_fd new (Some f) k))"
    | (same) "k' = k"
    | (setfd) "k' = upd_current (\<lambda>t. t\<lparr>fd_flags := (fd_flags t)[nat fd := ucast (word_of_int arg AND FD_CLOEXEC)]\<rparr>) k"
    | (setfl) "k' = upd_file f ?fl k"
    using res t f by (auto simp: sys_fcntl64_def must_def split: if_splits option.splits)
  then show ?thesis
  proof cases
    case dup
    have new: "new < VFS_MAX_FD" "fd_table t ! new = None" using dup(1) by (auto simp: find_Some_iff)
    have "balanced (\<lambda>_. 0) (upd_file f ?inc (set_fd new (Some f) k))"
      using point_fd_refs [OF bal cn new(1) _ op] new(2) c by (simp add: set_fd_eq)
    then show ?thesis unfolding dup(2) refs_inv_balanced by (rule balanced_upd_current) simp
  next
    case setfl
    have "balanced ((\<lambda>_. 0)(f := 0)) (upd_file f ?fl k)"
      using balanced_open [OF bal op] op by (intro balanced_upd_file [OF bal]) simp_all
    then show ?thesis unfolding setfl refs_inv_balanced by (rule balanced_cong) simp
  qed (use inv bal in \<open>simp_all add: refs_inv_balanced balanced_upd_current\<close>)
qed

lemma balanced_pipes: "balanced e (k\<lparr>kpipes := ps\<rparr>) \<longleftrightarrow> balanced e k"
  by (simp add: balanced_def fd_refs_def boot_refs_def)

lemma two_free_fdsD:
  assumes "two_free_fds t = Some (i, j)"
  shows "i < VFS_MAX_FD" "j < VFS_MAX_FD" "i \<noteq> j" "fd_table t ! i = None" "fd_table t ! j = None"
proof -
  let ?l = "filter (\<lambda>i. fd_table t ! i = None) [0..<VFS_MAX_FD]"
  obtain r where l: "?l = i # j # r" using assms by (auto simp: two_free_fds_def split: list.splits)
  have "set ?l = {i. i < VFS_MAX_FD \<and> fd_table t ! i = None}" and "distinct ?l" by auto
  then have "set (i # j # r) = {i. i < VFS_MAX_FD \<and> fd_table t ! i = None}" and "distinct (i # j # r)"
    unfolding l .
  then show "i < VFS_MAX_FD" "j < VFS_MAX_FD" "i \<noteq> j" "fd_table t ! i = None" "fd_table t ! j = None"
    by auto
qed

lemma pipe_file_refs:
  assumes bal: "balanced e k" and alloc: "vfs_alloc_file k = (Some f, k1)"
  shows "balanced (e(f := 1)) (pipe_file ops p f k1)"
    and "f_ops (open_file_of k f) = None" and "ksched (pipe_file ops p f k1) = ksched k"
    and "open_file_of (pipe_file ops p f k1) = (open_file_of k)(f := \<lparr>f_ops = Some ops, f_private = Pipe_Data p, f_pos = 0, f_refcount = 1, f_flags = 0\<rparr>)"
proof -
  let ?x = "\<lparr>f_ops = Some ops, f_private = Pipe_Data p, f_pos = 0, f_refcount = 1, f_flags = 0\<rparr>"
  have f: "f < VFS_MAX_OPEN_FILES" "f_ops (open_file_of k f) = None"
    and "k1 = upd_file f (\<lambda>x. \<lparr>f_ops = None, f_private = No_File_Data, f_pos = 0, f_refcount = 1, f_flags = 0\<rparr>) k"
    using alloc by (auto simp: vfs_alloc_file_def dest: find_upt_SomeD split: option.splits)
  then have eq: "pipe_file ops p f k1 = upd_file f (\<lambda>_. ?x) k" by (simp add: pipe_file_def upd_file_def)
  show "balanced (e(f := 1)) (pipe_file ops p f k1)" unfolding eq using f by (intro balanced_alloc [OF bal]) simp_all
  show "f_ops (open_file_of k f) = None" by (rule f)
  show "ksched (pipe_file ops p f k1) = ksched k" by (simp add: eq)
  show "open_file_of (pipe_file ops p f k1) = (open_file_of k)(f := ?x)" by (simp add: eq upd_file_def fun_eq_iff)
qed

lemma close_two_refs:
  assumes bal: "balanced ((\<lambda>_. 0)(r := 1, w := 1)) k" and ne: "r \<noteq> w"
    and "f_ops (open_file_of k r) \<noteq> None" and "f_ops (open_file_of k w) \<noteq> None"
  shows "balanced (\<lambda>_. 0) (vfs_close_file w (vfs_close_file r k))"
proof -
  have "balanced ((\<lambda>_. 0)(w := 1)) (vfs_close_file r k)"
    using balanced_close [OF bal assms(3)] ne by (auto intro: balanced_cong)
  moreover have "f_ops (open_file_of (vfs_close_file r k) w) \<noteq> None"
    using assms(4) vfs_close_file_frame(1) [OF ne] by simp
  ultimately have "balanced (((\<lambda>_. 0)(w := 1))(w := ((\<lambda>_. 0)(w := 1)) w - 1)) (vfs_close_file w (vfs_close_file r k))"
    by (rule balanced_close) simp
  then show ?thesis by (rule balanced_cong) simp
qed

lemma set_two_refs:
  assumes bal: "balanced ((\<lambda>_. 0)(r := 1, w := 1)) k" and ne: "r \<noteq> w" and cn: "c < next_pid (ksched k)"
    and ops: "f_ops (open_file_of k r) \<noteq> None" "f_ops (open_file_of k w) \<noteq> None"
    and ij: "i < VFS_MAX_FD" "j < VFS_MAX_FD" "i \<noteq> j"
    and free: "fd_table (tasks (ksched k) c) ! i = None" "fd_table (tasks (ksched k) c) ! j = None"
  shows "balanced (\<lambda>_. 0) (k\<lparr>ksched := set_task_fd c j (Some w) (set_task_fd c i (Some r) (ksched k))\<rparr>)"
proof -
  let ?k1 = "k\<lparr>ksched := set_task_fd c i (Some r) (ksched k)\<rparr>"
  have b1: "balanced ((\<lambda>_. 0)(w := 1)) ?k1"
    using balanced_set [OF bal cn ij(1), of "Some r"] ops free(1) ne by (auto intro: balanced_cong)
  have "balanced (\<lambda>f. ((\<lambda>_. 0)(w := 1)) f + of_bool (fd_table (tasks (ksched ?k1) c) ! j = Some f) - of_bool (Some w = Some f))
      (?k1\<lparr>ksched := set_task_fd c j (Some w) (ksched ?k1)\<rparr>)"
    using cn ops by (intro balanced_set [OF b1 _ ij(2)]) auto
  then show ?thesis using free(2) ij(3) by (auto intro: balanced_cong)
qed

lemma sys_pipe_refs:
  assumes inv: "refs_inv k"
  shows "refs_inv (snd (sys_pipe k))"
proof (cases "\<exists>t p ps r k1. current k = Some t \<and> pipe_alloc (kpipes k) = (Some p, ps) \<and>
    vfs_alloc_file (k\<lparr>kpipes := ps\<rparr>) = (Some r, k1)")
  case False
  have same: "k1 = k'" if "vfs_alloc_file k' = (None, k1)" for k' k1 :: kernel_state
    using that by (simp add: vfs_alloc_file_def split: option.splits)
  show ?thesis
    using False inv
    by (auto simp: sys_pipe_def drop_pipe_def refs_inv_balanced balanced_pipes dest!: same split: option.splits prod.splits)
next
  case True
  then obtain t p ps r k1 where t: "current k = Some t" and p: "pipe_alloc (kpipes k) = (Some p, ps)"
    and a1: "vfs_alloc_file (k\<lparr>kpipes := ps\<rparr>) = (Some r, k1)" by blast
  obtain c where c: "current_task (ksched k) = Some c" "t = tasks (ksched k) c" using current_SomeD [OF t] .
  have bal: "balanced (\<lambda>_. 0) (k\<lparr>kpipes := ps\<rparr>)" using inv by (simp add: refs_inv_balanced balanced_pipes)
  define k2 where "k2 = pipe_file Pipe_Read_Ops p r k1"
  note r = pipe_file_refs(1,3,4) [OF bal a1, of Pipe_Read_Ops p, folded k2_def]
  have rop: "f_ops (open_file_of k2 r) \<noteq> None" by (simp add: r(3))
  show ?thesis
  proof (cases "vfs_alloc_file k2")
    case (Pair w k3)
    show ?thesis
    proof (cases w)
      case None
      then have k3: "k3 = k2" using Pair by (auto simp: vfs_alloc_file_def split: option.splits)
      have "balanced ((\<lambda>_. 0)(r := 1, r := 0)) (upd_file r (\<lambda>x. x\<lparr>f_ops := None\<rparr>) k2)"
        using balanced_open [OF r(1) rop] by (intro balanced_upd_file [OF r(1)]) (simp_all add: r(3))
      then show ?thesis
        using t p a1 Pair None k3
        by (auto simp: sys_pipe_def k2_def [symmetric] Let_def refs_inv_balanced drop_pipe_def balanced_pipes intro: balanced_cong)
    next
      case (Some wfile)
      then have a2: "vfs_alloc_file k2 = (Some wfile, k3)" using Pair by simp
      define k4 where "k4 = pipe_file Pipe_Write_Ops p wfile k3"
      note w = pipe_file_refs(1,3,4) [OF r(1) a2, of Pipe_Write_Ops p, folded k4_def]
      have ne: "r \<noteq> wfile" using rop pipe_file_refs(2) [OF r(1) a2] by auto
      have ops: "f_ops (open_file_of k4 r) \<noteq> None" "f_ops (open_file_of k4 wfile) \<noteq> None" using ne by (simp_all add: w(3) r(3))
      have s4: "ksched k4 = ksched k" by (simp add: w(2) r(2))
      show ?thesis
      proof (cases "two_free_fds t")
        case None
        then show ?thesis
          using t p a1 a2 close_two_refs [OF w(1) ne ops]
          by (simp add: sys_pipe_def k2_def [symmetric] k4_def [symmetric] Let_def refs_inv_balanced)
      next
        case (Some ij)
        obtain i j where ij: "ij = (i, j)" by fastforce
        note free = two_free_fdsD [OF Some [unfolded ij]]
        have "c < next_pid (ksched k4)" using balanced_cur [OF w(1)] c(1) s4 by simp
        from set_two_refs [OF w(1) ne this ops free(1-3)] free(4,5) c
        have "balanced (\<lambda>_. 0) (k4\<lparr>ksched := set_task_fd c j (Some wfile) (set_task_fd c i (Some r) (ksched k4))\<rparr>)"
          by (simp add: s4)
        then show ?thesis
          using t p a1 a2 Some ij c(1) s4
          by (simp add: sys_pipe_def k2_def [symmetric] k4_def [symmetric] Let_def refs_inv_balanced set_fd_eq)
      qed
    qed
  qed
qed

end
