(* ===== verification/Sys_Proc.thy ===== *)
theory Sys_Proc
  imports Elf Sys_File
begin

text \<open>
  The system calls on processes (\<open>kernel/syscall.c\<close>) and \<open>task_fork\<close> (\<open>kernel/task.c\<close>): exit, fork,
  exec, wait, mount, identities, clocks and sleep. Addresses fixed by the linker (\<open>fork_return\<close>) and
  the frame pointer that \<open>sys_fork\<close> and \<open>sys_exec\<close> read from a register are arguments. Strings that a
  call reads from user memory are arguments too.
\<close>

section \<open>Exit, yield and wait\<close>

definition close_fd :: "nat \<Rightarrow> nat \<Rightarrow> kernel_state \<Rightarrow> kernel_state" where
  \<comment> \<open>one round of the loop of \<open>sys_exit\<close>\<close>
  "close_fd c i k = (case fd_table (tasks (ksched k) c) ! i of
       None \<Rightarrow> k
     | Some f \<Rightarrow> (let k1 = vfs_close_file f k in
         k1\<lparr>ksched := upd_task c (\<lambda>t. t\<lparr>fd_table := (fd_table t)[i := None]\<rparr>) (ksched k1)\<rparr>))"

definition sys_exit :: "int \<Rightarrow> kernel_state \<Rightarrow> kernel_state option" where
  \<comment> \<open>the state in which another task runs\<close>
  "sys_exit status k = do {
     let k1 = (case scheduler_get_current (ksched k) of
                 None \<Rightarrow> k
               | Some c \<Rightarrow> fold (close_fd c) [0..<VFS_MAX_FD] k);
     s \<leftarrow> task_exit (task_set_exit_status status (ksched k1));
     Some (k1\<lparr>ksched := s\<rparr>)
   }"

definition sys_yield :: "kernel_state \<Rightarrow> (int \<times> kernel_state) option" where
  "sys_yield k = do { s \<leftarrow> task_yield (ksched k); Some (0, k\<lparr>ksched := s\<rparr>) }"

definition sys_waitpid ::
    "int \<Rightarrow> int \<Rightarrow> kernel_state \<Rightarrow> ((int \<times> int option) outcome \<times> kernel_state) option" where
  "sys_waitpid p options k = do {
     (r, s) \<leftarrow> task_waitpid p options (ksched k);
     Some (r, k\<lparr>ksched := s\<rparr>)
   }"

definition LINUX_REBOOT_MAGIC1 :: u32 where "LINUX_REBOOT_MAGIC1 = 0xfee1dead"
definition LINUX_REBOOT_MAGIC2 :: u32 where "LINUX_REBOOT_MAGIC2 = 0x28121969"
definition LINUX_REBOOT_MAGIC2A :: u32 where "LINUX_REBOOT_MAGIC2A = 0x05121995"
definition LINUX_REBOOT_MAGIC2B :: u32 where "LINUX_REBOOT_MAGIC2B = 0x16041998"
definition LINUX_REBOOT_MAGIC2C :: u32 where "LINUX_REBOOT_MAGIC2C = 0x20112000"
definition LINUX_REBOOT_CMD_RESTART :: u32 where "LINUX_REBOOT_CMD_RESTART = 0x01234567"
definition LINUX_REBOOT_CMD_POWER_OFF :: u32 where "LINUX_REBOOT_CMD_POWER_OFF = 0x4321fedc"
definition LINUX_REBOOT_CMD_RESTART2 :: u32 where "LINUX_REBOOT_CMD_RESTART2 = 0xa1b2c3d4"
definition LINUX_REBOOT_CMD_HALT :: u32 where "LINUX_REBOOT_CMD_HALT = 0xcdef0123"

definition sys_reboot :: "u32 \<Rightarrow> u32 \<Rightarrow> u32 \<Rightarrow> int option" where
  \<comment> \<open>\<open>poweroff\<close>, \<open>restart\<close> and \<open>halt\<close> do not return\<close>
  "sys_reboot magic1 magic2 cmd =
     (if magic1 \<noteq> LINUX_REBOOT_MAGIC1 then Some (-1)
      else if magic2 \<notin> {LINUX_REBOOT_MAGIC2, LINUX_REBOOT_MAGIC2A, LINUX_REBOOT_MAGIC2B, LINUX_REBOOT_MAGIC2C}
      then Some (-1)
      else if cmd \<in> {LINUX_REBOOT_CMD_POWER_OFF, LINUX_REBOOT_CMD_RESTART, LINUX_REBOOT_CMD_RESTART2,
                     LINUX_REBOOT_CMD_HALT}
      then None else Some (-1))"

section \<open>Fork\<close>

definition fork_fd :: "nat \<Rightarrow> nat \<Rightarrow> nat \<Rightarrow> kernel_state \<Rightarrow> kernel_state" where
  \<comment> \<open>one round of the loop that copies the descriptors of \<open>parent\<close> to \<open>child\<close>\<close>
  "fork_fd parent child i k =
     (let p = tasks (ksched k) parent;
          k1 = k\<lparr>ksched := upd_task child (\<lambda>t. t\<lparr>fd_table := (fd_table t)[i := fd_table p ! i],
                 fd_flags := (fd_flags t)[i := fd_flags p ! i]\<rparr>) (ksched k)\<rparr>
      in case fd_table p ! i of
           None \<Rightarrow> k1
         | Some f \<Rightarrow> upd_file f (\<lambda>x. x\<lparr>f_refcount := f_refcount x + 1\<rparr>) k1)"

definition fork_stack ::
    "u32 \<Rightarrow> u32 \<Rightarrow> u32 \<Rightarrow> u32 \<Rightarrow> u32 \<Rightarrow> task \<Rightarrow> task \<Rightarrow> mem \<Rightarrow> u32 \<times> u32 \<times> mem" where
  \<comment> \<open>the child's kernel stack: its stack pointer, its frame pointer and the memory\<close>
  "fork_stack fork_return eip cs eflags parent_fp parent child m =
     (let parent_ebp_val = read32 m parent_fp;
          stack_bottom = t_stack parent + TASK_STACK_SIZE;
          child_end = t_stack child + TASK_STACK_SIZE;
          user_fork = (cs = GDT_USER_CODE);
          above = (if user_fork then 52 else 40);
          below_size = stack_bottom - (parent_fp + above);
          dest = child_end - below_size;
          m1 = memcpy_mem dest (parent_fp + above) below_size m;
          user_esp = read32 m1 (parent_fp + 44);
          user_stack_top = t_stack parent + TASK_STACK_SIZE div 2;
          m2 = (if user_fork \<and> user_esp \<ge> t_stack parent \<and> user_esp < user_stack_top
                then memcpy_mem (t_stack child + (user_esp - t_stack parent)) user_esp (user_stack_top - user_esp) m1
                else m1);
          (sp, m3) = push_words
            ((if user_fork then [GDT_USER_DATA, read32 m2 (parent_fp + 44)] else []) @ [eflags, cs, eip, fork_return])
            (dest + below_size) m2;
          child_ebp = (if parent_ebp_val \<ge> t_stack parent \<and> parent_ebp_val < t_stack parent + TASK_STACK_SIZE
                       then t_stack child + (parent_ebp_val - t_stack parent) else parent_ebp_val)
      in (sp, child_ebp, m3))"

definition fork_inherit :: "task \<Rightarrow> u32 \<Rightarrow> task \<Rightarrow> task" where
  \<comment> \<open>what the child takes over besides its descriptors\<close>
  "fork_inherit parent pd t = t\<lparr>t_pdir := pd, is_user := is_user parent, brk_start := brk_start parent,
     program_break := program_break parent, vmas := vmas parent, cwd := take 255 (cwd parent),
     umask := umask parent, sid := sid parent, pgid := pgid parent\<rparr>"

definition task_fork :: "u32 \<Rightarrow> u32 \<Rightarrow> u32 \<Rightarrow> u32 \<Rightarrow> u32 \<Rightarrow> kernel_state \<Rightarrow> (nat option \<times> kernel_state) option" where
  "task_fork fork_return eip cs eflags parent_fp k = (case scheduler_get_current (ksched k) of
       None \<Rightarrow> Some (None, k)
     | Some p \<Rightarrow>
        (case task_alloc (ksched k) of
           (None, s) \<Rightarrow> Some (None, k\<lparr>ksched := s\<rparr>)
         | (Some c, s) \<Rightarrow>
            (let name = take (TASK_NAME_LEN - 1) (t_name (tasks s p));
                 k1 = k\<lparr>ksched := upd_task c (\<lambda>t. t\<lparr>t_name := name\<rparr>) s\<rparr>;
                 k2 = fold (fork_fd p c) [0..<VFS_MAX_FD] k1;
                 parent = tasks (ksched k2) p;
                 k3 = k2\<lparr>ksched := upd_task c (\<lambda>t. t\<lparr>parent_pid := pid parent\<rparr>) (ksched k2)\<rparr>;
                 cloned = is_user parent \<and> t_pdir parent \<noteq> kernel_pdir (ksched k3);
                 (pd, mm) = (if cloned then mm_clone_pdir (t_pdir parent) (kmm k3) else (t_pdir parent, kmm k3));
                 k4 = k3\<lparr>kmm := mm\<rparr>
             in if cloned \<and> pd = 0
                then Some (None, k4\<lparr>ksched := upd_task c (\<lambda>t. t\<lparr>t_pdir := 0\<rparr>) (ksched k4)\<rparr>)
                else do {
                  let s4 = upd_task c (fork_inherit parent pd) (ksched k4);
                  let (sp, ebp, m) = fork_stack fork_return eip cs eflags parent_fp parent (tasks s4 c) (kmem mm);
                  s5 \<leftarrow> scheduler_add_task (Some c) (upd_task c (task_init_fork_context sp ebp) s4);
                  Some (Some c, k4\<lparr>ksched := s5, kmm := mm\<lparr>kmem := m\<rparr>\<rparr>)
                })))"

definition sys_fork :: "u32 \<Rightarrow> u32 \<Rightarrow> kernel_state \<Rightarrow> (int \<times> kernel_state) option" where
  \<comment> \<open>the trap frame lies above the frame pointer \<open>fp\<close>\<close>
  "sys_fork fork_return fp k = do {
     let m = kmem (kmm k);
     (c, k1) \<leftarrow> task_fork fork_return (read32 m (fp + 32)) (read32 m (fp + 36)) (read32 m (fp + 40)) fp k;
     Some (case c of None \<Rightarrow> -1 | Some c \<Rightarrow> pid (tasks (ksched k1) c), k1)
   }"

section \<open>Exec\<close>

definition USER_STACK_TOP :: u32 where "USER_STACK_TOP = 0xC0000000"
definition USER_STACK_SIZE :: u32 where "USER_STACK_SIZE = 0x1000"
definition MAX_EXEC_ARGS :: nat where "MAX_EXEC_ARGS = 16"
definition MAX_EXEC_ENVS :: nat where "MAX_EXEC_ENVS = 16"
definition MAX_EXEC_STRINGS :: u32 where "MAX_EXEC_STRINGS = 4096"

definition copy_kernel_mappings :: "u32 \<Rightarrow> u32 \<Rightarrow> mem \<Rightarrow> mem" where
  "copy_kernel_mappings kpd new_pdir m =
     fold (\<lambda>i m. set_entry new_pdir i (entry m kpd i) m) [0..<4] m"

primrec take_frames :: "nat \<Rightarrow> mm_state \<Rightarrow> bool \<times> u32 list \<times> mm_state" where
  \<comment> \<open>\<open>n\<close> frames for the file, or as many as there are\<close>
  "take_frames 0 mm = (True, [], mm)"
| "take_frames (Suc n) mm =
     (let (page, mm1) = mm_frame_alloc mm in
      if page = 0 then (False, [], mm1)
      else (let (ok, pages, mm2) = take_frames n mm1 in (ok, page # pages, mm2)))"

definition free_run :: "u32 \<Rightarrow> nat \<Rightarrow> mm_state \<Rightarrow> mm_state" where
  \<comment> \<open>\<open>num_pages\<close> frames from \<open>elf_buf\<close> on are freed\<close>
  "free_run elf_buf n mm = fold (\<lambda>i. mm_frame_free (elf_buf + of_nat i * 0x1000)) [0..<n] mm"

fun copy_strings :: "nat \<Rightarrow> string list \<Rightarrow> u32 \<Rightarrow> u32 list \<times> u8 list \<times> u32" where
  \<comment> \<open>a loop over \<open>argv\<close> or \<open>envp\<close>: the offsets of the strings, the bytes copied, and \<open>str_offset\<close>\<close>
  "copy_strings 0 ss off = ([], [], off)"
| "copy_strings n [] off = ([], [], off)"
| "copy_strings (Suc n) (s # ss) off =
     (let len = min (length s) (unat (MAX_EXEC_STRINGS - off - 1)) in
      if off + of_nat len + 1 > MAX_EXEC_STRINGS then ([], [], off)
      else (let (offs, bs, off') = copy_strings n ss (off + of_nat len + 1) in
        (off # offs, take (len + 1) (str_bytes s @ [0]) @ bs, off')))"

definition has_read :: "vfs_inode_ops \<Rightarrow> bool" where
  \<comment> \<open>\<open>ino->ops->read\<close> is called without a check\<close>
  "has_read ops \<longleftrightarrow> ops \<in> {Ext2_File_Ops, Devtmpfs_Vfs_Inode_Ops, Devtmpfs_Dev_Null_Ops, Hello_File_Ops, Null_File_Ops}"

definition exec_read :: "nat \<Rightarrow> kernel_state \<Rightarrow> ((bool \<times> u32 \<times> nat) \<times> kernel_state) option" where
  \<comment> \<open>read the file into frames: whether that went well, \<open>elf_buf\<close> and \<open>num_pages\<close>. The file is stored from the
     first frame on, wherever the others are.\<close>
  "exec_read n k = do {
     let file_size = i_size (inode k n);
     let num_pages = unat ((file_size + 0xFFF) div 0x1000);
     let (ok, pages, mm) = take_frames num_pages (kmm k);
     let elf_buf = (case pages of [] \<Rightarrow> 0 | p # _ \<Rightarrow> p);
     if \<not> ok then Some ((False, elf_buf, num_pages), k\<lparr>kmm := mm\<rparr>)
     else do {
       ops \<leftarrow> i_ops (inode k n);
       must (has_read ops);
       ((r, bs), k1) \<leftarrow> inode_read ops n 0 file_size (k\<lparr>kmm := mm\<rparr>);
       let k2 = k1\<lparr>kmm := (kmm k1)\<lparr>kmem := write_bytes elf_buf bs (kmem (kmm k1))\<rparr>\<rparr>;
       Some ((r \<ge> 0, elf_buf, num_pages), k2)
     }
   }"

definition exec_stack :: "u32 \<Rightarrow> u32 \<Rightarrow> u32 list \<Rightarrow> u32 list \<Rightarrow> u32 \<Rightarrow> mm_state \<Rightarrow> (u32 \<times> mm_state) option" where
  \<comment> \<open>the initial stack of the program: argc, argv, envp and the strings, under the new directory\<close>
  "exec_stack pd str_buf argvs envs str_offset mm = do {
     let argc = (of_nat (length argvs) :: u32);
     let envc = (of_nat (length envs) :: u32);
     let user_esp = USER_STACK_TOP - (4 + (argc + 1) * 4 + (envc + 1) * 4 + str_offset);
     let strings = user_esp + 4 + (argc + 1) * 4 + (envc + 1) * 4;
     mm1 \<leftarrow> vcopy pd strings str_buf (unat str_offset) mm;
     mm2 \<leftarrow> vwrite pd (user_esp + 4) (concat (map (\<lambda>off. le32 (strings + off)) argvs) @ le32 0) mm1;
     mm3 \<leftarrow> vwrite pd (user_esp + 4 + (argc + 1) * 4) (concat (map (\<lambda>off. le32 (strings + off)) envs) @ le32 0) mm2;
     mm4 \<leftarrow> vwrite pd user_esp (le32 argc) mm3;
     Some (user_esp, mm4)
   }"

definition exec_map :: "u32 \<Rightarrow> u32 \<Rightarrow> mm_state \<Rightarrow> (u32 \<times> u32) option \<times> mm_state" where
  \<comment> \<open>the new directory with the kernel's mappings, the segments and the stack page: directory and entry point, or
     \<open>None\<close> for a failure\<close>
  "exec_map kpd elf_buf mm =
     (let (new_pdir, mm1) = mm_frame_alloc mm in
      if new_pdir = 0 then (None, mm1)
      else
        (let mm2 = mm1\<lparr>kmem := copy_kernel_mappings kpd new_pdir (zero_frame new_pdir (kmem mm1))\<rparr>;
             (entry_point, mm3) = elf_load elf_buf new_pdir mm2
         in case entry_point of
              None \<Rightarrow> (None, mm_frame_free new_pdir mm3)
            | Some e \<Rightarrow>
                (let (left, mm4) = alloc_pages new_pdir PAGE_FLAGS
                       (page_range (USER_STACK_TOP - USER_STACK_SIZE) USER_STACK_TOP) mm3
                 in if left \<noteq> [] then (None, mm_frame_free new_pdir mm4) else (Some (new_pdir, e), mm4))))"

definition exec_run ::
    "string list option \<Rightarrow> string list option \<Rightarrow> u32 \<Rightarrow> u32 \<Rightarrow> nat \<Rightarrow> u32 \<Rightarrow> u32 \<Rightarrow> u32 \<Rightarrow> kernel_state \<Rightarrow> kernel_state option" where
  \<comment> \<open>from the copy of the strings on, which cannot fail any more: \<open>str_buf\<close> is their frame\<close>
  "exec_run argv envp fp elf_buf num_pages pd e str_buf k = do {
     let (argvs, abytes, off1) = (case argv of None \<Rightarrow> ([], [], 0) | Some ss \<Rightarrow> copy_strings MAX_EXEC_ARGS ss 0);
     let (envs, ebytes, str_offset) = (case envp of None \<Rightarrow> ([], [], off1) | Some ss \<Rightarrow> copy_strings MAX_EXEC_ENVS ss off1);
     let mm = (kmm k)\<lparr>kmem := write_bytes str_buf (abytes @ ebytes) (kmem (kmm k))\<rparr>;
     mm1 \<leftarrow> elf_copy_segments pd elf_buf mm;
     let brk = elf_brk_start (kmem mm1) elf_buf;
     (user_esp, mm2) \<leftarrow> exec_stack pd str_buf argvs envs str_offset (free_run elf_buf num_pages mm1);
     let mm3 = mm_frame_free str_buf mm2;
     let mm4 = mm3\<lparr>kmem := write32 (fp + 44) user_esp (write32 (fp + 32) e (kmem mm3))\<rparr>;
     c \<leftarrow> scheduler_get_current (ksched k);
     t \<leftarrow> task_set_pdir pd ((signal_init_task ((tasks (ksched k) c)\<lparr>brk_start := brk, program_break := brk\<rparr>))\<lparr>t_pdir := pd\<rparr>);
     Some (k\<lparr>ksched := upd_task c (\<lambda>_. t) (ksched k), kmm := mm4\<rparr>)
   }"

definition sys_exec ::
    "string option \<Rightarrow> string list option \<Rightarrow> string list option \<Rightarrow> u32 \<Rightarrow> kernel_state \<Rightarrow> (int \<times> kernel_state) option" where
  "sys_exec pathname argv envp fp k = (case current k of
       None \<Rightarrow> Some (-1, k)
     | Some t \<Rightarrow> do {
         (ino, k1) \<leftarrow> resolve_path (Some t) pathname k;
         case ino of
           None \<Rightarrow> Some (-1, k1)
         | Some n \<Rightarrow>
             if i_type (inode k1 n) \<noteq> VFS_IFILE then Some (-1, k1)
             else do {
               ((ok, elf_buf, num_pages), k2) \<leftarrow> exec_read n k1;
               let fail = (\<lambda>mm. (-1 :: int, k2\<lparr>kmm := (if elf_buf \<noteq> 0 then free_run elf_buf num_pages mm else mm)\<rparr>));
               if \<not> ok \<or> elf_validate (kmem (kmm k2)) elf_buf < 0 then Some (fail (kmm k2))
               else (case exec_map (kernel_pdir (ksched k2)) elf_buf (kmm k2) of
                   (None, mm) \<Rightarrow> Some (fail mm)
                 | (Some (pd, e), mm) \<Rightarrow>
                     (let (str_buf, mm1) = mm_frame_alloc mm in
                      if str_buf = 0 then Some (fail mm1)
                      else do {
                        k3 \<leftarrow> exec_run argv envp fp elf_buf num_pages pd e str_buf (k2\<lparr>kmm := mm1\<rparr>);
                        Some (0, k3)
                      }))
             }
       })"

section \<open>Mounting\<close>

definition kprintf :: "string \<Rightarrow> kernel_state \<Rightarrow> kernel_state option" where
  \<comment> \<open>\<open>printf\<close> inside the kernel: a \<open>write\<close> to descriptor 1 of the task that runs. A full pipe there would put the
     caller to sleep in the middle of its work: \<open>None\<close>\<close>
  "kprintf text k = do {
     (r, k1) \<leftarrow> sys_write 1 (str_bytes text) k;
     case r of Wrote _ \<Rightarrow> Some k1 | Write_Blocked _ _ \<Rightarrow> None
   }"

definition base_name :: "string \<Rightarrow> string" where
  \<comment> \<open>what follows the last slash\<close>
  "base_name p = rev (takeWhile (\<lambda>c. c \<noteq> SLASH) (rev p))"

definition mount_resolve_blockdev :: "string option \<Rightarrow> kernel_state \<Rightarrow> block_device option" where
  "mount_resolve_blockdev source k = (case source of
       None \<Rightarrow> None
     | Some p \<Rightarrow> block_find_device (Some (base_name p)) (block_devices (kparts k)))"

definition sys_mount :: "string option \<Rightarrow> string option \<Rightarrow> string option \<Rightarrow> kernel_state \<Rightarrow> (int \<times> kernel_state) option" where
  "sys_mount source target fstype k = (case (target, fstype) of
       (Some tgt, Some ty) \<Rightarrow> do {
         (ino, k1) \<leftarrow> vfs_resolve_path tgt k;
         case ino of
           None \<Rightarrow> Some (-1, k1)
         | Some mp \<Rightarrow> do {
             (fs_root, k2) \<leftarrow>
               (if ty = ''ext2'' then
                  (case mount_resolve_blockdev source k1 of
                     None \<Rightarrow> Some (None, k1)
                   | Some dev \<Rightarrow> do {
                       (r, k2) \<leftarrow> ext2_mount (Some dev) k1;
                       case r of
                         None \<Rightarrow> Some (None, k2)
                       | Some _ \<Rightarrow> do {
                           k3 \<leftarrow> kprintf (''ext2: mounted at '' @ tgt @ [CHR 0x0A]) k2;
                           Some (r, k3)
                         }
                     })
                else if ty = ''devtmpfs'' then devtmpfs_create_mount k1
                else Some (None, k1));
             Some (case fs_root of
                 None \<Rightarrow> (-1, k2)
               | Some _ \<Rightarrow> (case vfs_mount_create (Some mp) fs_root k2 of
                     (None, k3) \<Rightarrow> (-1, k3)
                   | (Some _, k3) \<Rightarrow> (0, k3)))
           }
       }
     | _ \<Rightarrow> Some (-1, k))"

definition sys_unmount :: "string option \<Rightarrow> kernel_state \<Rightarrow> (int \<times> kernel_state) option" where
  "sys_unmount target k = (case target of None \<Rightarrow> Some (-1, k) | Some p \<Rightarrow> vfs_unmount_path p k)"

section \<open>Identities\<close>

definition sys_getpid :: "kernel_state \<Rightarrow> int" where
  "sys_getpid k = (case current k of None \<Rightarrow> -1 | Some t \<Rightarrow> pid t)"

definition sys_getppid :: "kernel_state \<Rightarrow> int" where
  "sys_getppid k = (case current k of None \<Rightarrow> -1 | Some t \<Rightarrow> parent_pid t)"

definition sys_getuid32 :: int where "sys_getuid32 = 0"
definition sys_getgid32 :: int where "sys_getgid32 = 0"
definition sys_geteuid32 :: int where "sys_geteuid32 = 0"
definition sys_getegid32 :: int where "sys_getegid32 = 0"
definition sys_setuid32 :: "u32 \<Rightarrow> int" where "sys_setuid32 uid = 0"
definition sys_setgid32 :: "u32 \<Rightarrow> int" where "sys_setgid32 gid = 0"

definition sys_setpgid :: "int \<Rightarrow> int \<Rightarrow> kernel_state \<Rightarrow> int \<times> kernel_state" where
  "sys_setpgid p pg k = (case scheduler_get_current (ksched k) of
       None \<Rightarrow> (-1, k)
     | Some c \<Rightarrow>
        (let target = (if p = 0 then Some c
                       else find (\<lambda>i. pid (tasks (ksched k) i) = p) [0..<next_pid (ksched k)])
         in case target of
              None \<Rightarrow> (-1, k)
            | Some i \<Rightarrow> (0, k\<lparr>ksched := upd_task i (\<lambda>t. t\<lparr>pgid := (if pg = 0 then pid t else pg)\<rparr>) (ksched k)\<rparr>)))"

definition sys_setsid :: "kernel_state \<Rightarrow> int \<times> kernel_state" where
  "sys_setsid k = (case current k of
       None \<Rightarrow> (-1, k)
     | Some t \<Rightarrow> (pid t, upd_current (\<lambda>t. t\<lparr>sid := pid t, pgid := pid t\<rparr>) k))"

definition sys_umask :: "u32 \<Rightarrow> kernel_state \<Rightarrow> int \<times> kernel_state" where
  "sys_umask mode k = (case current k of
       None \<Rightarrow> (18, k)
     | Some t \<Rightarrow> (uint (umask t), upd_current (\<lambda>t. t\<lparr>umask := ucast (mode AND 0x1FF)\<rparr>) k))"

definition UTSNAME_LEN :: nat where "UTSNAME_LEN = 65"

definition uts_field :: "string \<Rightarrow> u8 list" where
  \<comment> \<open>\<open>memset\<close> to zero and \<open>strncpy\<close> of at most 64 bytes\<close>
  "uts_field s = (let bs = take (UTSNAME_LEN - 1) (str_bytes s) in bs @ replicate (UTSNAME_LEN - length bs) 0)"

definition sys_uname :: "bool \<Rightarrow> int \<times> u8 list" where
  \<comment> \<open>the argument is whether \<open>buf\<close> is given; the bytes of the structure\<close>
  "sys_uname buf =
     (if \<not> buf then (-1, [])
      else (0, concat (map uts_field [''HomunculOS'', ''homunculos'', ''0.1.0'', ''#1 Sat May 23 2026'', ''i686'', ''(none)''])))"

definition sys_sync :: int where "sys_sync = 0"
definition sys_fsync :: "int \<Rightarrow> int" where "sys_fsync fd = 0"

section \<open>Clocks\<close>

definition TICK_HZ :: u32 where "TICK_HZ = 100"

definition sys_times :: "kernel_state \<Rightarrow> int \<times> int list" where
  \<comment> \<open>the value and the four fields of \<open>*buf\<close>\<close>
  "sys_times k = (let ticks = scheduler_get_tick_count (ksched k) in (sint ticks, [sint ticks, 0, 0, 0]))"

definition sys_gettimeofday :: "bool \<Rightarrow> kernel_state \<Rightarrow> int \<times> (int \<times> int) option" where
  "sys_gettimeofday tv k =
     (if \<not> tv then (-1, None)
      else (let ticks = scheduler_get_tick_count (ksched k) in
        (0, Some (sint (ticks div TICK_HZ), sint ((ticks mod TICK_HZ) * 10000)))))"

definition sys_time :: "kernel_state \<Rightarrow> int" where
  \<comment> \<open>also what \<open>*tloc\<close> is set to\<close>
  "sys_time k = sint (scheduler_get_tick_count (ksched k) div TICK_HZ)"

definition timespec_of :: "u32 \<Rightarrow> int \<times> int" where
  "timespec_of ticks = (sint (ticks div TICK_HZ), sint ((ticks mod TICK_HZ) * 10000000))"

definition nanosleep_loop :: "nat \<Rightarrow> kernel_state \<Rightarrow> ((int \<times> int \<times> int) outcome \<times> kernel_state) option" where
  \<comment> \<open>the head of the loop, each time task \<open>c\<close> comes round to it: it returns, with the value and the time for \<open>*rem\<close>,
     or gives the processor away\<close>
  "nanosleep_loop c k =
     (let s = ksched k; t = tasks s c; now = scheduler_get_tick_count s;
          running = k\<lparr>ksched := upd_task c (\<lambda>t. t\<lparr>t_state := TASK_STATE_RUNNING\<rparr>) s\<rparr>
      in if now < wakeup_tick t then
           (if pending_signals t AND NOT (signal_mask t) \<noteq> 0
            then Some (Returned (-1, timespec_of (wakeup_tick t - now)), running)
            else do { s1 \<leftarrow> schedule s; Some (Blocked, k\<lparr>ksched := s1\<rparr>) })
         else Some (Returned (0, timespec_of (if wakeup_tick t > now then wakeup_tick t - now else 0)), running))"

definition sys_nanosleep :: "(int \<times> int) option \<Rightarrow> kernel_state \<Rightarrow> ((int \<times> int \<times> int) outcome \<times> kernel_state) option" where
  \<comment> \<open>a product beyond the range of \<open>int\<close> is undefined\<close>
  "sys_nanosleep req k = (case req of
       None \<Rightarrow> Some (Returned (-1, 0, 0), k)
     | Some (sec, nsec) \<Rightarrow>
         if sec < 0 \<or> nsec < 0 then Some (Returned (-1, 0, 0), k)
         else do {
           must (sec * 100 + nsec div 10000000 < 2 ^ 31);
           let ticks0 = (word_of_int (sec * 100 + nsec div 10000000) :: u32);
           let total_ticks = (if ticks0 = 0 then 1 else ticks0);
           case scheduler_get_current (ksched k) of
             None \<Rightarrow> Some (Returned (-1, 0, 0), k)
           | Some c \<Rightarrow>
               nanosleep_loop c (k\<lparr>ksched := upd_task c (\<lambda>t. t\<lparr>
                 wakeup_tick := scheduler_get_tick_count (ksched k) + total_ticks,
                 t_state := TASK_STATE_BLOCKED\<rparr>) (ksched k)\<rparr>)
         })"

section \<open>The table of system calls\<close>

datatype syscall =
    Call_exit | Call_fork | Call_read | Call_write | Call_exec | Call_waitpid | Call_open | Call_close | Call_mount
  | Call_unmount | Call_yield | Call_reboot | Call_getpid | Call_getppid | Call_uname | Call_lseek | Call_brk | Call_stat
  | Call_lstat | Call_fstat | Call_getdents | Call_chdir | Call_getcwd | Call_ioctl | Call_pipe | Call_dup2 | Call_access
  | Call_mkdir | Call_rmdir | Call_unlink | Call_symlink | Call_readlink | Call_time | Call_gettimeofday | Call_nanosleep
  | Call_sync | Call_fsync | Call_dup | Call_chmod | Call_fchmod | Call_link | Call_fcntl64 | Call_truncate64
  | Call_ftruncate64 | Call_rename | Call_mknod | Call_mmap2 | Call_munmap | Call_mprotect | Call_times | Call_kill
  | Call_signal | Call_rt_sigaction | Call_rt_sigreturn | Call_rt_sigprocmask | Call_umask | Call_getuid32 | Call_getgid32
  | Call_geteuid32 | Call_getegid32 | Call_setuid32 | Call_setgid32 | Call_setsid | Call_setpgid

definition syscall_init :: "(nat \<times> syscall) list" where
  \<comment> \<open>the assignments to \<open>systemcall_table\<close>, in order; \<open>Call_x\<close> stands for the address of \<open>sys_x\<close>\<close>
  "syscall_init = [(1, Call_exit), (252, Call_exit), (2, Call_fork), (3, Call_read), (4, Call_write), (11, Call_exec),
     (7, Call_waitpid), (5, Call_open), (6, Call_close), (21, Call_mount), (22, Call_unmount), (158, Call_yield),
     (88, Call_reboot), (20, Call_getpid), (64, Call_getppid), (122, Call_uname), (19, Call_lseek), (45, Call_brk),
     (106, Call_stat), (107, Call_lstat), (108, Call_fstat), (141, Call_getdents), (12, Call_chdir), (183, Call_getcwd),
     (54, Call_ioctl), (42, Call_pipe), (63, Call_dup2), (33, Call_access), (39, Call_mkdir), (40, Call_rmdir),
     (10, Call_unlink), (83, Call_symlink), (85, Call_readlink), (13, Call_time), (78, Call_gettimeofday),
     (162, Call_nanosleep), (36, Call_sync), (118, Call_fsync), (41, Call_dup), (15, Call_chmod), (94, Call_fchmod),
     (9, Call_link), (221, Call_fcntl64), (193, Call_truncate64), (194, Call_ftruncate64), (38, Call_rename),
     (14, Call_mknod), (192, Call_mmap2), (91, Call_munmap), (125, Call_mprotect), (43, Call_times), (37, Call_kill),
     (48, Call_signal), (174, Call_rt_sigaction), (173, Call_rt_sigreturn), (175, Call_rt_sigprocmask), (60, Call_umask),
     (199, Call_getuid32), (200, Call_getgid32), (201, Call_geteuid32), (202, Call_getegid32), (213, Call_setuid32),
     (214, Call_setgid32), (66, Call_setsid), (57, Call_setpgid)]"

definition systemcall_table :: "nat \<Rightarrow> syscall option" where
  \<comment> \<open>an entry of the table, or a null pointer\<close>
  "systemcall_table nr = map_of (rev syscall_init) nr"

lemma syscall_numbers:
  "distinct (map fst syscall_init)" "\<forall>(nr, _) \<in> set syscall_init. nr < 255"
  by (simp_all add: syscall_init_def)

section \<open>Descriptors and the scheduler\<close>

lemma balanced_tables:
  assumes bal: "balanced e k" and "next_pid s = next_pid (ksched k)"
    and "\<And>i. fd_table (tasks s i) = fd_table (tasks (ksched k) i)" and "\<And>c. current_task s = Some c \<Longrightarrow> c < next_pid s"
  shows "balanced e (k\<lparr>ksched := s\<rparr>)"
proof -
  let ?k = "k\<lparr>ksched := s\<rparr>"
  have r: "fd_refs ?k f = fd_refs k f" "boot_refs ?k f = boot_refs k f" "open_file_of ?k f = open_file_of k f" for f
    using assms(2,3) by (simp_all add: fd_refs_def boot_refs_def)
  have "tables_ok (ksched ?k)" using assms by (simp add: balanced_def tables_ok_def)
  then show ?thesis using bal unfolding balanced_def r by blast
qed

lemma same_tasks_tables:
  assumes "same_tasks s s'"
  shows "next_pid s' = next_pid s" and "fd_table (tasks s' i) = fd_table (tasks s i)"
proof -
  show "next_pid s' = next_pid s" using assms by (simp add: same_tasks_def)
  show "fd_table (tasks s' i) = fd_table (tasks s i)"
    by (rule unsched_fields(4)) (use assms in \<open>simp add: same_tasks_def\<close>)
qed

lemma balanced_task:
  assumes "balanced e k" and "\<And>t. fd_table (g t) = fd_table t"
  shows "balanced e (k\<lparr>ksched := upd_task i g (ksched k)\<rparr>)"
  using balanced_sched [OF assms(1), of "upd_task i g (ksched k)" "kpipes k"] assms(2) by simp

lemma balanced_mm: "balanced e (k\<lparr>kmm := mm\<rparr>) \<longleftrightarrow> balanced e k"
  by (simp add: balanced_def fd_refs_def boot_refs_def)

lemma task_wf_fd: "task_wf t \<Longrightarrow> task_wf (t\<lparr>fd_table := (fd_table t)[i := x]\<rparr>)"
  by (simp add: task_wf_def)

lemma sched_inv_set_task_fd: "sched_inv s xs \<Longrightarrow> sched_inv (set_task_fd c i x s) xs"
  unfolding set_task_fd_def by (rule sched_inv_upd) (simp_all add: task_wf_fd)

lemma file_close_op_sched: "sched_inv (ksched k) xs \<Longrightarrow> sched_inv (ksched (file_close_op f k)) xs"
  by (auto simp: file_close_op_def pipe_close_read_def pipe_close_write_def wake_writer_def wake_reader_def Let_def
      sched_inv_wake split: option.split file_ops.split prod.split)

lemma vfs_close_file_sched: "sched_inv (ksched k) xs \<Longrightarrow> sched_inv (ksched (vfs_close_file f k)) xs"
  by (simp add: vfs_close_file_def Let_def file_close_op_sched)

lemma close_fd_refs:
  assumes bal: "balanced (\<lambda>_. 0) k" and inv: "sched_inv (ksched k) xs" and i: "i < VFS_MAX_FD" and c: "c < next_pid (ksched k)"
  shows "balanced (\<lambda>_. 0) (close_fd c i k)" and "sched_inv (ksched (close_fd c i k)) xs"
    and "current_task (ksched (close_fd c i k)) = current_task (ksched k)"
    and "next_pid (ksched (close_fd c i k)) = next_pid (ksched k)"
    and "fd_table (tasks (ksched (close_fd c i k)) c) = (fd_table (tasks (ksched k) c))[i := None]"
proof -
  have *: "balanced (\<lambda>_. 0) (close_fd c i k) \<and> sched_inv (ksched (close_fd c i k)) xs \<and>
    current_task (ksched (close_fd c i k)) = current_task (ksched k) \<and>
    next_pid (ksched (close_fd c i k)) = next_pid (ksched k) \<and>
    fd_table (tasks (ksched (close_fd c i k)) c) = (fd_table (tasks (ksched k) c))[i := None]"
  proof (cases "fd_table (tasks (ksched k) c) ! i")
    case None
    then show ?thesis using bal inv list_update_id [of "fd_table (tasks (ksched k) c)" i] by (simp add: close_fd_def)
  next
    case (Some f)
    have eq: "close_fd c i k = vfs_close_file f (k\<lparr>ksched := set_task_fd c i None (ksched k)\<rparr>)"
      unfolding close_set_commute using Some by (simp add: close_fd_def set_task_fd_def Let_def)
    show ?thesis
      unfolding eq using clear_fd_refs [OF bal c i Some] inv
      by (simp add: vfs_close_file_sched sched_inv_set_task_fd vfs_close_file_frame)
  qed
  from * show "balanced (\<lambda>_. 0) (close_fd c i k)" and "sched_inv (ksched (close_fd c i k)) xs"
    and "current_task (ksched (close_fd c i k)) = current_task (ksched k)"
    and "next_pid (ksched (close_fd c i k)) = next_pid (ksched k)"
    and "fd_table (tasks (ksched (close_fd c i k)) c) = (fd_table (tasks (ksched k) c))[i := None]" by simp_all
qed

lemma close_all_refs:
  assumes "balanced (\<lambda>_. 0) k" and "sched_inv (ksched k) xs" and "c < next_pid (ksched k)" and "n \<le> VFS_MAX_FD"
  defines "k' \<equiv> fold (close_fd c) [0..<n] k"
  shows "balanced (\<lambda>_. 0) k' \<and> sched_inv (ksched k') xs \<and> current_task (ksched k') = current_task (ksched k) \<and>
    next_pid (ksched k') = next_pid (ksched k) \<and> (\<forall>i < n. fd_table (tasks (ksched k') c) ! i = None)"
  using assms(4) unfolding k'_def
proof (induction n)
  case 0
  then show ?case using assms(1,2) by simp
next
  case (Suc n)
  define k1 where "k1 = fold (close_fd c) [0..<n] k"
  have IH: "balanced (\<lambda>_. 0) k1" "sched_inv (ksched k1) xs" "current_task (ksched k1) = current_task (ksched k)"
      "next_pid (ksched k1) = next_pid (ksched k)" "\<forall>i < n. fd_table (tasks (ksched k1) c) ! i = None"
    using Suc by (simp_all add: k1_def)
  have "c < next_pid (ksched k1)" "n < VFS_MAX_FD" using IH(4) assms(3) Suc.prems by simp_all
  note cl = close_fd_refs [OF IH(1,2) this(2,1)]
  have "length (fd_table (tasks (ksched k1) c)) = VFS_MAX_FD" using IH(1) by (simp add: balanced_def tables_ok_def)
  then show ?case using IH cl Suc.prems by (simp add: k1_def [symmetric] nth_list_update less_Suc_eq)
qed

lemma task_exit_same:
  assumes "sched_inv s xs"
  shows "\<exists>s' xs'. task_exit (task_set_exit_status st s) = Some s' \<and> sched_inv s' xs' \<and>
    next_pid s' = next_pid s \<and> (\<forall>i. fd_table (tasks s' i) = fd_table (tasks s i))"
proof (cases "current_task s")
  case None
  then show ?thesis
    using assms by (auto simp: task_exit_def task_set_exit_status_def scheduler_get_current_def)
next
  case (Some c)
  define s1 where "s1 = upd_task c (\<lambda>t. t\<lparr>t_state := TASK_STATE_EXITED\<rparr>) (task_set_exit_status st s)"
  define s2 where "s2 = (if parent_pid (tasks s1 c) \<ge> 0
    then signal_send (parent_pid (tasks s1 c)) SIGCHLD (task_wake (parent_pid (tasks s1 c)) s1) else s1)"
  have "sched_inv (task_set_exit_status st s) xs"
    using assms Some by (auto simp: task_set_exit_status_def scheduler_get_current_def task_wf_def intro!: sched_inv_upd)
  then have "sched_inv s1 xs" by (auto simp: s1_def task_wf_def intro!: sched_inv_upd)
  then have "sched_inv s2 xs" by (simp add: s2_def sched_inv_wake sched_inv_signal_send)
  from schedule_inv [OF this] obtain s' xs' where s': "schedule s2 = Some s'" "sched_inv s' xs'" "same_tasks s2 s'"
    by blast
  have "next_pid s2 = next_pid s \<and> (\<forall>i. fd_table (tasks s2 i) = fd_table (tasks s i))"
    using Some by (auto simp: s2_def s1_def task_set_exit_status_def scheduler_get_current_def signal_send_def split: option.split)
  then have "next_pid s' = next_pid s \<and> (\<forall>i. fd_table (tasks s' i) = fd_table (tasks s i))"
    using same_tasks_tables [OF s'(3)] by simp
  moreover have "task_exit (task_set_exit_status st s) = schedule s2"
    using Some by (simp add: task_exit_def task_set_exit_status_def scheduler_get_current_def task_yield_def s2_def s1_def Let_def)
  ultimately show ?thesis using s'(1,2) by auto
qed

lemma sys_exit_refs:
  assumes "refs_inv k" and inv: "sched_inv (ksched k) xs" and cur: "current_task (ksched k) = Some c"
  shows "\<exists>k' xs'. sys_exit status k = Some k' \<and> refs_inv k' \<and> sched_inv (ksched k') xs' \<and>
    fd_table (tasks (ksched k') c) = replicate VFS_MAX_FD None"
proof -
  define k1 where "k1 = fold (close_fd c) [0..<VFS_MAX_FD] k"
  have bal: "balanced (\<lambda>_. 0) k" using assms(1) by (simp add: refs_inv_balanced)
  have cn: "c < next_pid (ksched k)" using inv cur by (auto simp: sched_inv_def)
  have k1: "balanced (\<lambda>_. 0) k1" "sched_inv (ksched k1) xs" "next_pid (ksched k1) = next_pid (ksched k)"
      "\<forall>i < VFS_MAX_FD. fd_table (tasks (ksched k1) c) ! i = None"
    using close_all_refs [OF bal inv cn order_refl] by (simp_all add: k1_def)
  obtain s' xs' where s': "task_exit (task_set_exit_status status (ksched k1)) = Some s'" "sched_inv s' xs'"
      "next_pid s' = next_pid (ksched k1)" "\<forall>i. fd_table (tasks s' i) = fd_table (tasks (ksched k1) i)"
    using task_exit_same [OF k1(2)] by blast
  have "balanced (\<lambda>_. 0) (k1\<lparr>ksched := s'\<rparr>)"
    using s' by (intro balanced_tables [OF k1(1)]) (auto simp: sched_inv_def)
  moreover have "fd_table (tasks s' c) = replicate VFS_MAX_FD None"
    using s'(4) k1(1,4) by (intro nth_equalityI) (auto simp: balanced_def tables_ok_def)
  moreover have "sys_exit status k = Some (k1\<lparr>ksched := s'\<rparr>)"
    using s'(1) cur by (simp add: sys_exit_def scheduler_get_current_def k1_def)
  ultimately show ?thesis using s'(2) by (auto simp: refs_inv_balanced)
qed

lemma alloc_task_refs:
  assumes bal: "balanced e k" and alloc: "task_alloc (ksched k) = (Some c, s)"
  shows "balanced e (k\<lparr>ksched := s\<rparr>)" and "c = next_pid (ksched k)" and "next_pid s = Suc c"
    and "fd_table (tasks s c) = replicate VFS_MAX_FD None" and "current_task s = current_task (ksched k)"
    and "\<And>j. j \<noteq> c \<Longrightarrow> tasks s j = tasks (ksched k) j" and "kernel_pdir s = kernel_pdir (ksched k)"
proof -
  show c: "c = next_pid (ksched k)" and n: "next_pid s = Suc c"
    and cur: "current_task s = current_task (ksched k)" and "kernel_pdir s = kernel_pdir (ksched k)"
    and other: "\<And>j. j \<noteq> c \<Longrightarrow> tasks s j = tasks (ksched k) j"
    using alloc by (auto simp: task_alloc_def Let_def split: if_splits)
  have ok: "tables_ok (ksched k)" using bal by (simp add: balanced_def)
  have tab: "fd_table (tasks s i) = fd_table (tasks (ksched k) i)" for i
    using alloc by (auto simp: task_alloc_def Let_def signal_init_task_def split: if_splits)
  show empty: "fd_table (tasks s c) = replicate VFS_MAX_FD None" using ok by (simp add: tab c tables_ok_def)
  let ?k = "k\<lparr>ksched := s\<rparr>"
  have "count_list (replicate n None) (Some f) = 0" for n and f :: nat by (induction n) auto
  then have r: "fd_refs ?k f = fd_refs k f" "boot_refs ?k f = boot_refs k f" "open_file_of ?k f = open_file_of k f" for f
    using ok by (simp_all add: fd_refs_def n tab c tables_ok_def boot_refs_def)
  have "tables_ok (ksched ?k)" using ok by (auto simp: tables_ok_def tab n c cur less_Suc_eq)
  then show "balanced e ?k" using bal unfolding balanced_def r by blast
qed

lemma fork_fd_refs:
  assumes bal: "balanced (\<lambda>_. 0) k" and pc: "p < next_pid (ksched k)" "c < next_pid (ksched k)" "p \<noteq> c"
    and i: "i < VFS_MAX_FD" and free: "fd_table (tasks (ksched k) c) ! i = None"
  shows "balanced (\<lambda>_. 0) (fork_fd p c i k)"
proof (cases "fd_table (tasks (ksched k) p) ! i")
  case None
  let ?g = "\<lambda>t. t\<lparr>fd_table := (fd_table t)[i := None], fd_flags := (fd_flags t)[i := fd_flags (tasks (ksched k) p) ! i]\<rparr>"
  have "fd_table (tasks (upd_task c ?g (ksched k)) j) = fd_table (tasks (ksched k) j)" for j
    using free list_update_id [of "fd_table (tasks (ksched k) c)" i] by simp
  then show ?thesis
    using balanced_tables [OF bal, of "upd_task c ?g (ksched k)"] None balanced_cur [OF bal] by (simp add: fork_fd_def Let_def)
next
  case (Some f)
  let ?inc = "\<lambda>x. x\<lparr>f_refcount := f_refcount x + 1\<rparr>" and ?k1 = "k\<lparr>ksched := set_task_fd c i (Some f) (ksched k)\<rparr>"
  let ?h = "\<lambda>t. t\<lparr>fd_flags := (fd_flags t)[i := fd_flags (tasks (ksched k) p) ! i]\<rparr>"
  have "balanced (\<lambda>_. 0) (upd_file f ?inc ?k1)"
    by (rule point_fd_refs [OF bal pc(2) i free balanced_fd_open [OF bal pc(1) i Some]])
  then have "balanced (\<lambda>_. 0) ((upd_file f ?inc ?k1)\<lparr>ksched := upd_task c ?h (ksched (upd_file f ?inc ?k1))\<rparr>)"
    by (rule balanced_task) simp
  moreover have "fork_fd p c i k = (upd_file f ?inc ?k1)\<lparr>ksched := upd_task c ?h (ksched (upd_file f ?inc ?k1))\<rparr>"
    using Some by (simp add: fork_fd_def Let_def upd_file_sched set_task_fd_def) (simp add: upd_task_def)
  ultimately show ?thesis by simp
qed

lemma fork_fd_frame:
  "next_pid (ksched (fork_fd p c i k)) = next_pid (ksched k)" "current_task (ksched (fork_fd p c i k)) = current_task (ksched k)"
  "kernel_pdir (ksched (fork_fd p c i k)) = kernel_pdir (ksched k)"
  "j \<noteq> c \<Longrightarrow> tasks (ksched (fork_fd p c i k)) j = tasks (ksched k) j"
  "fd_table (tasks (ksched (fork_fd p c i k)) c) = (fd_table (tasks (ksched k) c))[i := fd_table (tasks (ksched k) p) ! i]"
  by (simp_all add: fork_fd_def Let_def split: option.split)

lemma fork_fd_sched: "sched_inv (ksched k) xs \<Longrightarrow> sched_inv (ksched (fork_fd p c i k)) xs"
  by (auto simp: fork_fd_def Let_def task_wf_def split: option.split intro!: sched_inv_upd)

lemma fork_fds_refs:
  assumes "balanced (\<lambda>_. 0) k" and "sched_inv (ksched k) xs" and pc: "p < next_pid (ksched k)" "c < next_pid (ksched k)" "p \<noteq> c"
    and empty: "fd_table (tasks (ksched k) c) = replicate VFS_MAX_FD None" and "n \<le> VFS_MAX_FD"
  defines "k' \<equiv> fold (fork_fd p c) [0..<n] k"
  shows "balanced (\<lambda>_. 0) k' \<and> sched_inv (ksched k') xs \<and> next_pid (ksched k') = next_pid (ksched k) \<and>
    kernel_pdir (ksched k') = kernel_pdir (ksched k) \<and> current_task (ksched k') = current_task (ksched k) \<and>
    tasks (ksched k') p = tasks (ksched k) p \<and>
    (\<forall>i < VFS_MAX_FD. fd_table (tasks (ksched k') c) ! i = (if i < n then fd_table (tasks (ksched k) p) ! i else None))"
  using assms(7) unfolding k'_def
proof (induction n)
  case 0
  then show ?case using assms by simp
next
  case (Suc n)
  define k1 where "k1 = fold (fork_fd p c) [0..<n] k"
  have IH: "balanced (\<lambda>_. 0) k1" "sched_inv (ksched k1) xs" "next_pid (ksched k1) = next_pid (ksched k)"
      "kernel_pdir (ksched k1) = kernel_pdir (ksched k)" "current_task (ksched k1) = current_task (ksched k)"
      "tasks (ksched k1) p = tasks (ksched k) p"
      "\<forall>i < VFS_MAX_FD. fd_table (tasks (ksched k1) c) ! i = (if i < n then fd_table (tasks (ksched k) p) ! i else None)"
    using Suc by (simp_all add: k1_def)
  have n: "n < VFS_MAX_FD" using Suc.prems by simp
  have len: "length (fd_table (tasks (ksched k1) c)) = VFS_MAX_FD" using IH(1) by (simp add: balanced_def tables_ok_def)
  have "balanced (\<lambda>_. 0) (fork_fd p c n k1)"
    using pc IH(3,7) n by (intro fork_fd_refs [OF IH(1)]) simp_all
  then show ?case
    using IH(2-7) pc(3) len n
    by (simp add: k1_def [symmetric] fork_fd_frame fork_fd_sched nth_list_update less_Suc_eq)
qed

lemma fork_slot_refs:
  \<comment> \<open>the first half of \<open>task_fork\<close>: a slot with a name and the descriptors of the parent\<close>
  assumes "refs_inv k" and inv: "sched_inv (ksched k) xs" and p: "current_task (ksched k) = Some p"
    and alloc: "task_alloc (ksched k) = (Some c, s)"
    and k2_def: "k2 = fold (fork_fd p c) [0..<VFS_MAX_FD] (k\<lparr>ksched := upd_task c (\<lambda>t. t\<lparr>t_name := name\<rparr>) s\<rparr>)"
  shows "balanced (\<lambda>_. 0) k2" and "sched_inv (ksched k2) xs" and "c \<notin> set xs" and "c < next_pid (ksched k2)" and "p \<noteq> c"
    and "tasks (ksched k2) p = tasks (ksched k) p" and "fd_table (tasks (ksched k2) c) = fd_table (tasks (ksched k) p)"
    and "kernel_pdir (ksched k2) = kernel_pdir (ksched k)"
proof -
  let ?k1 = "k\<lparr>ksched := upd_task c (\<lambda>t. t\<lparr>t_name := name\<rparr>) s\<rparr>"
  have bal: "balanced (\<lambda>_. 0) k" using assms(1) by (simp add: refs_inv_balanced)
  note al = alloc_task_refs [OF bal alloc]
  have pn: "p < next_pid (ksched k)" using inv p by (auto simp: sched_inv_def)
  then show ne: "p \<noteq> c" using al(2) by simp
  show "c \<notin> set xs" using inv al(2) by (auto simp: sched_inv_def)
  have "balanced (\<lambda>_. 0) ?k1" using balanced_task [OF al(1), of "\<lambda>t. t\<lparr>t_name := name\<rparr>" c] by simp
  moreover have "sched_inv s xs" using sched_inv_alloc [OF inv] alloc by simp
  then have "sched_inv (ksched ?k1) xs" by (auto simp: task_wf_def intro!: sched_inv_upd)
  moreover have "p < next_pid (ksched ?k1)" "c < next_pid (ksched ?k1)" using pn al(2,3) by simp_all
  moreover have "fd_table (tasks (ksched ?k1) c) = replicate VFS_MAX_FD None" using al(4) by simp
  ultimately have k2: "balanced (\<lambda>_. 0) k2 \<and> sched_inv (ksched k2) xs \<and> next_pid (ksched k2) = next_pid (ksched ?k1) \<and>
    kernel_pdir (ksched k2) = kernel_pdir (ksched ?k1) \<and> current_task (ksched k2) = current_task (ksched ?k1) \<and>
    tasks (ksched k2) p = tasks (ksched ?k1) p \<and> (\<forall>i < VFS_MAX_FD. fd_table (tasks (ksched k2) c) ! i =
      (if i < VFS_MAX_FD then fd_table (tasks (ksched ?k1) p) ! i else None))"
    unfolding k2_def using ne by (intro fork_fds_refs) simp_all
  then show "balanced (\<lambda>_. 0) k2" and "sched_inv (ksched k2) xs" and "c < next_pid (ksched k2)"
    and "tasks (ksched k2) p = tasks (ksched k) p" and "kernel_pdir (ksched k2) = kernel_pdir (ksched k)"
    using al(2,3,6,7) ne by simp_all
  show "fd_table (tasks (ksched k2) c) = fd_table (tasks (ksched k) p)"
    using k2 al(6) ne bal by (intro nth_equalityI) (simp_all add: balanced_def tables_ok_def)
qed

lemma task_wf_inherit: "task_wf parent \<Longrightarrow> task_wf t \<Longrightarrow> task_wf (fork_inherit parent pd t)"
  by (simp add: task_wf_def fork_inherit_def)

lemma fork_add_refs:
  \<comment> \<open>the second half: the child inherits, gets its context and joins the run queue\<close>
  assumes "balanced (\<lambda>_. 0) k" and inv: "sched_inv (ksched k) xs" and c: "c \<notin> set xs" "c < next_pid (ksched k)"
    and parent: "task_wf parent"
  shows "\<exists>s. scheduler_add_task (Some c) (upd_task c (task_init_fork_context sp ebp) (upd_task c (fork_inherit parent pd) (ksched k))) = Some s \<and>
    balanced (\<lambda>_. 0) (k\<lparr>ksched := s, kmm := mm\<rparr>) \<and> sched_inv s (xs @ [c]) \<and>
    (\<forall>i. fd_table (tasks s i) = fd_table (tasks (ksched k) i))"
proof -
  define s1 where "s1 = upd_task c (fork_inherit parent pd) (ksched k)"
  define s2 where "s2 = upd_task c (task_init_fork_context sp ebp) s1"
  have "sched_inv s1 xs"
    unfolding s1_def by (rule sched_inv_upd [OF inv]) (simp_all add: task_wf_inherit [OF parent], simp_all add: fork_inherit_def)
  then have inv2: "sched_inv s2 xs"
    unfolding s2_def by (rule sched_inv_upd) (simp_all add: task_init_fork_context_def task_wf_def)
  have tab: "next_pid s2 = next_pid (ksched k)" "\<And>i. fd_table (tasks s2 i) = fd_table (tasks (ksched k) i)"
    by (simp_all add: s2_def s1_def fork_inherit_def task_init_fork_context_def)
  obtain s where s: "scheduler_add_task (Some c) s2 = Some s" "sched_inv s (xs @ [c])" "same_tasks s2 s"
    using sched_inv_add [OF inv2 c(1)] c(2) tab(1) by auto
  note st = same_tasks_tables [OF s(3)]
  have "balanced (\<lambda>_. 0) (k\<lparr>ksched := s\<rparr>)"
    using s(2) by (intro balanced_tables [OF assms(1)]) (simp_all add: st tab, auto simp: sched_inv_def st tab)
  then have "balanced (\<lambda>_. 0) (k\<lparr>ksched := s, kmm := mm\<rparr>)" by (simp only: balanced_mm)
  then show ?thesis using s(1,2) st(2) tab(2) unfolding s2_def s1_def by auto
qed

lemma task_fork_refs:
  assumes refs: "refs_inv k" and inv: "sched_inv (ksched k) xs" and p: "current_task (ksched k) = Some p"
  shows "\<exists>r k' xs'. task_fork fork_return eip cs eflags fp k = Some (r, k') \<and> refs_inv k' \<and> sched_inv (ksched k') xs' \<and>
    (\<forall>c. r = Some c \<longrightarrow> xs' = xs @ [c] \<and> c \<notin> set xs \<and> fd_table (tasks (ksched k') c) = fd_table (tasks (ksched k) p))"
proof (cases "task_alloc (ksched k)")
  case (Pair r s)
  show ?thesis
  proof (cases r)
    case None
    then have "s = ksched k" using Pair by (auto simp: task_alloc_def Let_def split: if_splits)
    then have "task_fork fork_return eip cs eflags fp k = Some (None, k)"
      using Pair None p by (simp add: task_fork_def scheduler_get_current_def)
    then show ?thesis using refs inv by auto
  next
    case (Some c)
    then have alloc: "task_alloc (ksched k) = (Some c, s)" using Pair by simp
    define k2 where "k2 = fold (fork_fd p c) [0..<VFS_MAX_FD]
      (k\<lparr>ksched := upd_task c (\<lambda>t. t\<lparr>t_name := take (TASK_NAME_LEN - 1) (t_name (tasks s p))\<rparr>) s\<rparr>)"
    note sl = fork_slot_refs [OF refs inv p alloc k2_def]
    define parent where "parent = tasks (ksched k2) p"
    define k3 where "k3 = k2\<lparr>ksched := upd_task c (\<lambda>t. t\<lparr>parent_pid := pid parent\<rparr>) (ksched k2)\<rparr>"
    have b3: "balanced (\<lambda>_. 0) k3" unfolding k3_def by (rule balanced_task [OF sl(1)]) simp
    have s3: "sched_inv (ksched k3) xs"
      using sl(2) by (auto simp: k3_def task_wf_def intro!: sched_inv_upd)
    have wfp: "task_wf parent" using sl(2) by (simp add: parent_def sched_inv_def task_inv_def)
    have tab3: "fd_table (tasks (ksched k3) c) = fd_table (tasks (ksched k) p)" using sl(7) by (simp add: k3_def)
    define cloned where "cloned = (is_user parent \<and> t_pdir parent \<noteq> kernel_pdir (ksched k3))"
    obtain pd mm where pd: "(if cloned then mm_clone_pdir (t_pdir parent) (kmm k3) else (t_pdir parent, kmm k3)) = (pd, mm)"
      by fastforce
    define s4 where "s4 = upd_task c (fork_inherit parent pd) (ksched k3)"
    obtain sp ebp m where st: "fork_stack fork_return eip cs eflags fp parent (tasks s4 c) (kmem mm) = (sp, ebp, m)"
      by (cases "fork_stack fork_return eip cs eflags fp parent (tasks s4 c) (kmem mm)") auto
    have fork: "task_fork fork_return eip cs eflags fp k =
      (if cloned \<and> pd = 0 then Some (None, k3\<lparr>kmm := mm, ksched := upd_task c (\<lambda>t. t\<lparr>t_pdir := 0\<rparr>) (ksched k3)\<rparr>)
       else do { s5 \<leftarrow> scheduler_add_task (Some c) (upd_task c (task_init_fork_context sp ebp) s4);
         Some (Some c, k3\<lparr>kmm := mm, ksched := s5, kmm := mm\<lparr>kmem := m\<rparr>\<rparr>) })"
      unfolding task_fork_def scheduler_get_current_def p alloc Let_def option.case prod.case
        k2_def [symmetric] parent_def [symmetric] k3_def [symmetric] cloned_def [symmetric] pd
      by (simp add: s4_def [symmetric] st)
    show ?thesis
    proof (cases "cloned \<and> pd = 0")
      case True
      have "balanced (\<lambda>_. 0) (k3\<lparr>ksched := upd_task c (\<lambda>t. t\<lparr>t_pdir := 0\<rparr>) (ksched k3)\<rparr>)"
        by (rule balanced_task [OF b3]) simp
      then have "balanced (\<lambda>_. 0) (k3\<lparr>ksched := upd_task c (\<lambda>t. t\<lparr>t_pdir := 0\<rparr>) (ksched k3), kmm := mm\<rparr>)"
        by (simp only: balanced_mm)
      also have "k3\<lparr>ksched := upd_task c (\<lambda>t. t\<lparr>t_pdir := 0\<rparr>) (ksched k3), kmm := mm\<rparr> =
        k3\<lparr>kmm := mm, ksched := upd_task c (\<lambda>t. t\<lparr>t_pdir := 0\<rparr>) (ksched k3)\<rparr>" by simp
      finally have "refs_inv (k3\<lparr>kmm := mm, ksched := upd_task c (\<lambda>t. t\<lparr>t_pdir := 0\<rparr>) (ksched k3)\<rparr>)"
        by (simp only: refs_inv_balanced)
      moreover have "sched_inv (upd_task c (\<lambda>t. t\<lparr>t_pdir := 0\<rparr>) (ksched k3)) xs"
        using s3 by (auto simp: task_wf_def intro!: sched_inv_upd)
      ultimately show ?thesis using fork True by auto
    next
      case False
      have "c < next_pid (ksched k3)" using sl(4) by (simp add: k3_def)
      from fork_add_refs [OF b3 s3 sl(3) this wfp, of sp ebp pd "mm\<lparr>kmem := m\<rparr>"]
      obtain s5 where "scheduler_add_task (Some c) (upd_task c (task_init_fork_context sp ebp) s4) = Some s5"
          "balanced (\<lambda>_. 0) (k3\<lparr>ksched := s5, kmm := mm\<lparr>kmem := m\<rparr>\<rparr>)" "sched_inv s5 (xs @ [c])"
          "\<forall>i. fd_table (tasks s5 i) = fd_table (tasks (ksched k3) i)"
        unfolding s4_def by blast
      then show ?thesis using fork False tab3 sl(3) by (auto simp: refs_inv_balanced)
    qed
  qed
qed

section \<open>Properties\<close>

text \<open>
  C36. No descriptor dangles and no open file leaks. In a state where every open file has a reference
  count equal to the number of descriptors that point to it, at least one, and no descriptor points
  to a closed file, this stays so: when a file is opened into a descriptor, for \<open>close\<close>, \<open>dup\<close>,
  \<open>dup2\<close> (also onto a descriptor of the same file), \<open>fcntl64\<close> and \<open>pipe\<close>, on their error paths too;
  for \<open>fork\<close>, which returns on a well-formed run queue and gives the child the descriptors of its
  parent; and for \<open>exit\<close>, which returns to the scheduler with all descriptors of the task closed.
\<close>

theorem descriptor_counts_balanced:
  assumes "refs_inv k" and "sched_inv (ksched k) xs" and "current_task (ksched k) = Some p"
  shows "refs_inv (snd (install_fd n flags k)) \<and> refs_inv (snd (sys_close fd k)) \<and>
    refs_inv (snd (sys_dup fd k)) \<and> refs_inv (snd (sys_dup2 fd fd' k)) \<and> refs_inv (snd (sys_pipe k)) \<and>
    (\<forall>r k'. sys_fcntl64 fd cmd arg k = Some (r, k') \<longrightarrow> refs_inv k') \<and>
    (\<exists>r k' xs'. task_fork fork_return eip cs eflags fp k = Some (r, k') \<and> refs_inv k' \<and> sched_inv (ksched k') xs' \<and>
      (\<forall>c. r = Some c \<longrightarrow> xs' = xs @ [c] \<and> c \<notin> set xs \<and> fd_table (tasks (ksched k') c) = fd_table (tasks (ksched k) p))) \<and>
    (\<exists>k' xs'. sys_exit status k = Some k' \<and> refs_inv k' \<and> sched_inv (ksched k') xs' \<and>
      fd_table (tasks (ksched k') p) = replicate VFS_MAX_FD None)"
  using install_fd_refs [OF assms(1,3)] sys_close_refs [OF assms(1)] sys_dup_refs [OF assms(1)] sys_dup2_refs [OF assms(1)]
    sys_pipe_refs [OF assms(1)] sys_fcntl64_refs [OF assms(1)] task_fork_refs [OF assms] sys_exit_refs [OF assms]
  by (intro conjI) blast+

lemma demo_process_sched:
  "sched_inv (ksched (demo_process [] mm)) [0]" "current_task (ksched (demo_process [] mm)) = Some 0"
  by (auto simp: demo_process_def zero_kernel_def sched_inv_def task_inv_def task_wf_def rq_def one_running_def
      init_sched_def demo_task_def zero_task_def MAX_TASKS_def)

lemma demo_process_refs: "refs_inv (demo_process [] mm)"
proof -
  have "count_list (replicate n None) (Some f) = 0" for n and f :: nat by (induction n) auto
  then show ?thesis
    by (auto simp: refs_inv_def tables_ok_def fd_refs_def boot_refs_def demo_process_def zero_kernel_def
        init_sched_def demo_task_def zero_task_def)
qed

theorem descriptor_counts_balanced_witness:
  "refs_inv (snd (sys_pipe (demo_process [] demo_mm))) \<and>
   (\<exists>k' xs'. sys_exit 3 (demo_process [] demo_mm) = Some k' \<and> refs_inv k' \<and> sched_inv (ksched k') xs')"
  using descriptor_counts_balanced [OF demo_process_refs [of demo_mm] demo_process_sched [of demo_mm], where status = 3]
  by blast

end
