(* ===== verification/Elf_Load.thy ===== *)
theory Elf_Load
  imports Elf
begin

text \<open>
  What loading an executable does to memory: \<open>elf_load\<close> gives every page of every loadable segment a
  frame of its own, and \<open>elf_copy_segments\<close> fills these frames so that the program sees its file at
  the addresses the program headers ask for, and zeros behind it.
\<close>

section \<open>Pages and offsets\<close>

lemma take_bit_less_word: "unat (take_bit n (w :: u32)) < 2 ^ n"
  by (simp only: unsigned_take_bit_eq take_bit_nat_less_exp)

lemma page_split: "page_of a + (a AND 0xFFF) = a" "(a :: u32) AND 0xFFF < 0x1000"
proof -
  have "(a AND NOT 0xFFF) AND (a AND 0xFFF) = 0" by (simp add: bit_eq_iff bit_simps)
  then have "page_of a + (a AND 0xFFF) = page_of a OR (a AND 0xFFF)" by (rule disjunctive_add_eq_or)
  also have "\<dots> = a" by (simp add: bit_eq_iff bit_simps) auto
  finally show "page_of a + (a AND 0xFFF) = a" .
  have "a AND 0xFFF = take_bit 12 a" by (simp add: take_bit_eq_mask mask_eq_exp_minus_1)
  then show "a AND 0xFFF < 0x1000" using take_bit_less_word [of 12 a] by (simp add: word_less_nat_alt)
qed

lemma page_join:
  assumes "page_aligned p" and "d < 0x1000"
  shows "page_of (p + d) = p" and "(p + d) AND 0xFFF = d"
proof -
  show p: "page_of (p + d) = p"
    using page_off_inj [OF page_aligned_page_of assms(1) page_split(2) assms(2)] page_split(1) [of "p + d"] by metis
  have "page_of (p + d) + ((p + d) AND 0xFFF) = p + d" by (rule page_split)
  then show "(p + d) AND 0xFFF = d" unfolding p by simp
qed

lemma entry_byte_write:
  assumes "page_aligned f" and "page_aligned t" and "t \<noteq> f" and "i < 1024" and "d < 0x1000"
  shows "entry (m(f + d := b)) t i = entry m t i"
proof -
  have "t + 4 * of_nat i + j \<noteq> f + d" if "j < 4" for j
    using page_off_inj [OF assms(2,1) slot_offset [OF assms(4) that] assms(5)] assms(3) by (auto simp: add.assoc)
  from this [of 0] this [of 1] this [of 2] this [of 3] show ?thesis by (simp add: read32_def)
qed

definition poke :: "u32 \<Rightarrow> u8 \<Rightarrow> mm_state \<Rightarrow> mm_state" where
  "poke a b mm = mm\<lparr>kmem := (kmem mm)(a := b)\<rparr>"

lemma poke_data_frame:
  \<comment> \<open>a store into a frame of the program leaves all tables alone\<close>
  assumes wf: "pd_wf mm pdir" and f: "data_frame mm pdir f" and d: "d < 0x1000"
  shows "pd_wf (poke (f + d) b mm) pdir" and "mm_get_pte pdir va (poke (f + d) b mm) = mm_get_pte pdir va mm"
    and "data_frame (poke (f + d) b mm) pdir g = data_frame mm pdir g"
proof -
  note fD = data_frameD [OF f]
  have al: "page_aligned pdir" using wf by (simp add: pd_wf_def)
  have dir: "entry (kmem (poke (f + d) b mm)) pdir i = entry (kmem mm) pdir i" if "i < 1024" for i
    using entry_byte_write [OF fD(1) al _ that d] fD(5) by (simp add: poke_def)
  have used: "frame_used (poke (f + d) b mm) i = frame_used mm i" "frames_inv (poke (f + d) b mm) = frames_inv mm" for i
    by (simp_all add: frame_used_def frames_inv_def poke_def)
  show "pd_wf (poke (f + d) b mm) pdir" using wf by (simp add: pd_wf_def protected_page_def used dir)
  show "data_frame (poke (f + d) b mm) pdir g = data_frame mm pdir g" by (simp add: data_frame_def used dir)
  show "mm_get_pte pdir va (poke (f + d) b mm) = mm_get_pte pdir va mm"
  proof (cases "pde_present mm pdir (pd_idx va)")
    case True
    then have ne: "table_of mm pdir (pd_idx va) \<noteq> f" using fD(6) pd_idx_less by blast
    show ?thesis
      using entry_byte_write [OF fD(1) page_aligned_page_of ne pt_idx_less d, of "kmem mm" b va]
      by (simp only: mm_get_pte_alt dir [OF pd_idx_less]) (simp add: poke_def)
  next
    case False
    then show ?thesis by (simp only: mm_get_pte_alt dir [OF pd_idx_less]) simp
  qed
qed

section \<open>The image\<close>

definition img_ehdr :: "u8 list \<Rightarrow> elf32_ehdr" where
  "img_ehdr img = decode_ehdr (get_bytes 0 EHDR_SIZE img)"

definition img_phdr :: "u8 list \<Rightarrow> nat \<Rightarrow> elf32_phdr" where
  "img_phdr img i = decode_phdr (get_bytes (unat (e_phoff (img_ehdr img)) + PHDR_SIZE * i) PHDR_SIZE img)"

definition img_segments :: "nat \<Rightarrow> u8 list \<Rightarrow> elf32_phdr list" where
  \<comment> \<open>the loadable segments from header \<open>i\<close> on\<close>
  "img_segments i img = filter (\<lambda>ph. p_type ph = PT_LOAD) (map (img_phdr img) [i..<unat (e_phnum (img_ehdr img))])"

definition headers_inside :: "u8 list \<Rightarrow> bool" where
  "headers_inside img \<longleftrightarrow> EHDR_SIZE \<le> length img \<and> length img < 2 ^ 32 \<and>
     unat (e_phoff (img_ehdr img)) + PHDR_SIZE * unat (e_phnum (img_ehdr img)) \<le> length img"

lemma headers_in_memory:
  assumes img: "mem_bytes m ehdr (length img) = img" and ok: "headers_inside img"
  shows "ehdr_at m ehdr = img_ehdr img"
    and "phdrs_of m ehdr = ehdr + e_phoff (img_ehdr img)"
    and "i < unat (e_phnum (img_ehdr img)) \<Longrightarrow> phdr_at m (ehdr + e_phoff (img_ehdr img)) i = img_phdr img i"
proof -
  show e: "ehdr_at m ehdr = img_ehdr img"
    using mem_bytes_sub [of 0 EHDR_SIZE "length img" m ehdr] ok by (simp add: ehdr_at_def img_ehdr_def img headers_inside_def)
  then show "phdrs_of m ehdr = ehdr + e_phoff (img_ehdr img)" by (simp add: phdrs_of_def)
  assume i: "i < unat (e_phnum (img_ehdr img))"
  let ?off = "unat (e_phoff (img_ehdr img)) + PHDR_SIZE * i"
  have "PHDR_SIZE * (i + 1) \<le> PHDR_SIZE * unat (e_phnum (img_ehdr img))" using i by (intro mult_le_mono2) simp
  then have "?off + PHDR_SIZE \<le> length img" using ok by (simp add: headers_inside_def)
  from mem_bytes_sub [OF this, of m ehdr] show "phdr_at m (ehdr + e_phoff (img_ehdr img)) i = img_phdr img i"
    by (simp add: phdr_at_def img_phdr_def img add.assoc)
qed

definition img_frames :: "mm_state \<Rightarrow> u32 \<Rightarrow> u32 \<Rightarrow> nat \<Rightarrow> bool" where
  \<comment> \<open>the \<open>n\<close> bytes of the image lie in frames that are no tables\<close>
  "img_frames mm pdir ehdr n \<longleftrightarrow> (\<forall>d < n. data_frame mm pdir (page_of (ehdr + of_nat d)))"

lemma mem_bytes_kept:
  assumes "img_frames mm pdir ehdr n"
    and "\<And>p d. data_frame mm pdir p \<Longrightarrow> d < 0x1000 \<Longrightarrow> kmem mm' (p + d) = kmem mm (p + d)"
  shows "mem_bytes (kmem mm') ehdr n = mem_bytes (kmem mm) ehdr n"
  using assms page_split unfolding mem_bytes_def img_frames_def by (auto simp del: page_of_aligned_simp) (metis page_split)

section \<open>Mapping the segments\<close>

definition mapped_pages :: "u32 \<Rightarrow> u32 list \<Rightarrow> mm_state \<Rightarrow> mm_state \<Rightarrow> (u32 \<Rightarrow> u32) \<Rightarrow> bool" where
  \<comment> \<open>from \<open>mm\<close> to \<open>mm'\<close> the pages \<open>ps\<close>, none of them twice, got the frames \<open>fr\<close>, and nothing else changed\<close>
  "mapped_pages pdir ps mm mm' fr \<longleftrightarrow> pd_wf mm' pdir \<and> distinct ps \<and> inj_on fr (set ps) \<and>
     (\<forall>va \<in> set ps. va \<noteq> 0 \<and> page_aligned va \<and> fresh_page pdir va PAGE_FLAGS mm mm' (fr va)) \<and>
     (\<forall>va. page_of va \<notin> set ps \<longrightarrow> mm_get_pte pdir va mm' = mm_get_pte pdir va mm) \<and>
     (\<forall>p. data_frame mm pdir p \<longrightarrow> data_frame mm' pdir p \<and> (\<forall>d < 0x1000. kmem mm' (p + d) = kmem mm (p + d))) \<and>
     (\<forall>j. frame_used mm j \<longrightarrow> frame_used mm' j)"

lemma mapped_pages_Nil: "pd_wf mm pdir \<Longrightarrow> mapped_pages pdir [] mm mm fr"
  by (simp add: mapped_pages_def)

lemma fresh_page_present:
  assumes "fresh_page pdir va PAGE_FLAGS mm mm' f"
  shows "mm_get_pte pdir va mm' AND MM_PRESENT \<noteq> 0" and "page_of (mm_get_pte pdir va mm') = f"
  using assms page_of_flags [of f] data_frameD(1) [of mm' pdir f] by (simp_all add: fresh_page_def)

lemma mapped_pagesD:
  assumes "mapped_pages pdir ps mm mm' fr"
  shows "pd_wf mm' pdir" and "distinct ps" and "inj_on fr (set ps)"
    and "v \<in> set ps \<Longrightarrow> fresh_page pdir v PAGE_FLAGS mm mm' (fr v)" and "v \<in> set ps \<Longrightarrow> v \<noteq> 0"
    and "v \<in> set ps \<Longrightarrow> page_aligned v"
    and "page_of v \<notin> set ps \<Longrightarrow> mm_get_pte pdir v mm' = mm_get_pte pdir v mm"
    and "data_frame mm pdir p \<Longrightarrow> data_frame mm' pdir p"
    and "data_frame mm pdir p \<Longrightarrow> d < 0x1000 \<Longrightarrow> kmem mm' (p + d) = kmem mm (p + d)"
    and "frame_used mm j \<Longrightarrow> frame_used mm' j"
  using assms unfolding mapped_pages_def by blast+

lemma fresh_pageD:
  assumes "fresh_page pdir va flags mm mm' f"
  shows "mm_get_pte pdir va mm AND MM_PRESENT = 0" and "\<not> frame_used mm (unat (f div FRAME))"
    and "data_frame mm' pdir f" and "mm_get_pte pdir va mm' = f OR flags" and "d < 0x1000 \<Longrightarrow> kmem mm' (f + d) = 0"
  using assms unfolding fresh_page_def by blast+

lemma fresh_pageI:
  assumes "mm_get_pte pdir va mm AND MM_PRESENT = 0" and "\<not> frame_used mm (unat (f div FRAME))"
    and "data_frame mm' pdir f" and "mm_get_pte pdir va mm' = f OR flags" and "\<And>d. d < 0x1000 \<Longrightarrow> kmem mm' (f + d) = 0"
  shows "fresh_page pdir va flags mm mm' f"
  using assms unfolding fresh_page_def by blast

lemma mapped_pages_append:
  assumes P: "mapped_pages pdir ps mm mm1 fr1" and Q: "mapped_pages pdir qs mm1 mm2 fr2"
  shows "mapped_pages pdir (ps @ qs) mm mm2 (\<lambda>v. if v \<in> set ps then fr1 v else fr2 v)"
proof -
  let ?fr = "\<lambda>v. if v \<in> set ps then fr1 v else fr2 v"
  note PD = mapped_pagesD [OF P] and QD = mapped_pagesD [OF Q]
  have disj: "v \<notin> set qs" if "v \<in> set ps" for v
    using fresh_page_present(1) [OF PD(4) [OF that]] fresh_pageD(1) [OF QD(4), of v] by blast
  have fp: "fresh_page pdir v PAGE_FLAGS mm mm2 (fr1 v)" if v: "v \<in> set ps" for v
  proof -
    note f = fresh_pageD [OF PD(4) [OF v]]
    have "mm_get_pte pdir v mm2 = mm_get_pte pdir v mm1"
      using QD(7) [of v] disj [OF v] page_of_aligned [OF PD(6) [OF v]] by simp
    then show ?thesis using f QD(8,9) [OF f(3)] by (intro fresh_pageI) simp_all
  qed
  have fq: "fresh_page pdir v PAGE_FLAGS mm mm2 (fr2 v)" if v: "v \<in> set qs" for v
  proof -
    note f = fresh_pageD [OF QD(4) [OF v]]
    have "mm_get_pte pdir v mm1 = mm_get_pte pdir v mm"
      using PD(7) [of v] disj v page_of_aligned [OF QD(6) [OF v]] by auto
    then show ?thesis using f PD(10) by (intro fresh_pageI) auto
  qed
  have ne: "fr1 v \<noteq> fr2 w" if "v \<in> set ps" "w \<in> set qs" for v w
    using data_frameD(4) [OF fresh_pageD(3) [OF PD(4) [OF that(1)]]] fresh_pageD(2) [OF QD(4) [OF that(2)]] by metis
  have "inj_on ?fr (set (ps @ qs))"
  proof (rule inj_onI)
    fix v w assume vw: "v \<in> set (ps @ qs)" "w \<in> set (ps @ qs)" and eq: "?fr v = ?fr w"
    have iff: "v \<in> set ps \<longleftrightarrow> w \<in> set ps" using vw eq ne [of v w] ne [of w v] by (auto split: if_splits)
    show "v = w"
    proof (cases "v \<in> set ps")
      case True
      then show ?thesis using iff eq inj_onD [OF PD(3), of v w] by simp
    next
      case False
      then show ?thesis using iff eq vw inj_onD [OF QD(3), of v w] by simp
    qed
  qed
  moreover have "\<forall>v \<in> set (ps @ qs). v \<noteq> 0 \<and> page_aligned v \<and> fresh_page pdir v PAGE_FLAGS mm mm2 (?fr v)"
    using PD(5,6) QD(5,6) fp fq by auto
  moreover have "distinct (ps @ qs)" using PD(2) QD(2) disj by auto
  moreover have "mm_get_pte pdir v mm2 = mm_get_pte pdir v mm" if "page_of v \<notin> set (ps @ qs)" for v
    using PD(7) QD(7) that by simp
  moreover have "data_frame mm2 pdir p" "\<And>d. d < 0x1000 \<Longrightarrow> kmem mm2 (p + d) = kmem mm (p + d)" if "data_frame mm pdir p" for p
    using PD(8,9) [OF that] QD(8,9) [OF PD(8) [OF that]] by simp_all
  ultimately show ?thesis unfolding mapped_pages_def using QD(1) PD(10) QD(10) by blast
qed

lemma alloc_pages_mono:
  assumes "pd_wf mm pdir" and "alloc_pages pdir flags vas mm = ([], mm')" and "0 \<notin> set vas" and "frame_used mm j"
  shows "frame_used mm' j"
  using assms
proof (induction vas arbitrary: mm)
  case (Cons va vas)
  obtain r mm1 where al: "mm_alloc_at pdir va flags mm = (r, mm1)" by fastforce
  have r: "r \<noteq> 0" "alloc_pages pdir flags vas mm1 = ([], mm')" using Cons.prems(2) al by (auto split: if_splits)
  have "pd_wf mm1 pdir" using mm_alloc_at_spec [OF Cons.prems(1) al] by simp
  moreover have "frame_used mm1 j"
    using mm_alloc_at_used_mono [OF _ _ al Cons.prems(4) r(1)] Cons.prems(1) by (simp add: pd_wf_def)
  ultimately show ?case using Cons.IH r(2) Cons.prems(3) by simp
qed simp

lemma unat_pages: "k < 1048576 \<Longrightarrow> unat (of_nat k * FRAME) = k * 4096"
  by (simp add: FRAME_def unat_word_ariths unat_of_nat)

lemma page_range_ok:
  assumes "page_aligned va"
  shows "\<forall>a \<in> set (page_range va stop). page_aligned a" and "distinct (page_range va stop)"
proof -
  show "\<forall>a \<in> set (page_range va stop). page_aligned a"
    using assms by (auto simp: page_range_def page_aligned_add page_aligned_frame)
  have n: "(unat stop - unat va) div 4096 < 1048576" using unsigned_less [of stop, where 'a = nat] by simp
  have "inj_on (\<lambda>i. va + of_nat i * FRAME) {0..<(unat stop - unat va) div 4096}"
  proof (rule inj_onI)
    fix i j assume ij: "i \<in> {0..<(unat stop - unat va) div 4096}" "j \<in> {0..<(unat stop - unat va) div 4096}"
      and "va + of_nat i * FRAME = va + of_nat j * FRAME"
    then have eq: "unat (of_nat i * FRAME) = unat (of_nat j * FRAME)" by simp
    show "i = j" using eq ij n by (simp add: unat_pages)
  qed
  then show "distinct (page_range va stop)" by (simp add: page_range_def distinct_map)
qed

lemma alloc_pages_mapped:
  assumes wf: "pd_wf mm pdir" and al: "alloc_pages pdir PAGE_FLAGS (page_range va stop) mm = (left, mm')"
    and va: "page_aligned va" and zero: "mm_get_pte pdir 0 mm AND MM_PRESENT \<noteq> 0"
  shows "left = [] \<Longrightarrow> \<exists>fr. mapped_pages pdir (page_range va stop) mm mm' fr"
    and "pd_wf mm' pdir" and "\<And>p d. data_frame mm pdir p \<Longrightarrow> d < 0x1000 \<Longrightarrow> kmem mm' (p + d) = kmem mm (p + d)"
proof -
  note ok = page_range_ok [OF va, of stop]
  obtain got fr where sp: "pd_wf mm' pdir" "page_range va stop = got @ left" "inj_on fr (set got)"
      "\<forall>va \<in> set got. va \<noteq> 0 \<and> fresh_page pdir va PAGE_FLAGS mm mm' (fr va)"
      "\<forall>va. page_of va \<notin> set got \<longrightarrow> mm_get_pte pdir va mm' = mm_get_pte pdir va mm"
      "\<forall>p. data_frame mm pdir p \<longrightarrow> data_frame mm' pdir p \<and> (\<forall>d. d < 0x1000 \<longrightarrow> kmem mm' (p + d) = kmem mm (p + d))"
    using alloc_pages_spec [OF wf al ok zero] by blast
  show "pd_wf mm' pdir" by (rule sp)
  show "\<And>p d. data_frame mm pdir p \<Longrightarrow> d < 0x1000 \<Longrightarrow> kmem mm' (p + d) = kmem mm (p + d)" using sp(6) by blast
  assume left: "left = []"
  then have got: "got = page_range va stop" using sp(2) by simp
  have "frame_used mm' j" if "frame_used mm j" for j
    using alloc_pages_mono [OF wf al [unfolded left] _ that] sp(4) got by blast
  then show "\<exists>fr. mapped_pages pdir (page_range va stop) mm mm' fr"
    unfolding mapped_pages_def using sp(1,3-6) ok got by blast
qed

lemma img_segments_step:
  "i < unat (e_phnum (img_ehdr img)) \<Longrightarrow> img_segments i img =
     (if p_type (img_phdr img i) = PT_LOAD then img_phdr img i # img_segments (i + 1) img else img_segments (i + 1) img)"
  "\<not> i < unat (e_phnum (img_ehdr img)) \<Longrightarrow> img_segments i img = []"
  by (simp_all add: img_segments_def upt_conv_Cons)

abbreviation img_pages :: "nat \<Rightarrow> u8 list \<Rightarrow> u32 list" where
  "img_pages i img \<equiv> concat (map segment_pages (img_segments i img))"

definition img_in_place :: "mm_state \<Rightarrow> u32 \<Rightarrow> u32 \<Rightarrow> u8 list \<Rightarrow> bool" where
  \<comment> \<open>the image lies in memory, in frames of its own, and page 0 is mapped\<close>
  "img_in_place mm pdir ehdr img \<longleftrightarrow> headers_inside img \<and> img_frames mm pdir ehdr (length img) \<and>
     mem_bytes (kmem mm) ehdr (length img) = img \<and> mm_get_pte pdir 0 mm AND MM_PRESENT \<noteq> 0"

lemma img_in_place_mapped:
  assumes "img_in_place mm pdir ehdr img" and m: "mapped_pages pdir ps mm mm' fr"
  shows "img_in_place mm' pdir ehdr img"
proof -
  note mD = mapped_pagesD [OF m]
  have fr: "img_frames mm pdir ehdr (length img)" using assms(1) by (simp add: img_in_place_def)
  have "mem_bytes (kmem mm') ehdr (length img) = mem_bytes (kmem mm) ehdr (length img)"
    by (rule mem_bytes_kept [OF fr mD(9)])
  moreover have "img_frames mm' pdir ehdr (length img)" using fr mD(8) by (simp add: img_frames_def)
  moreover have "mm_get_pte pdir 0 mm' = mm_get_pte pdir 0 mm" using mD(7) [of 0] mD(5) [of 0] by fastforce
  ultimately show ?thesis using assms(1) by (simp add: img_in_place_def)
qed

lemma load_segments_spec:
  assumes "pd_wf mm pdir" and "img_in_place mm pdir ehdr img"
    and "load_segments ehdr (ehdr + e_phoff (img_ehdr img)) pdir i mm = (ok, mm')"
  shows "mem_bytes (kmem mm') ehdr (length img) = img \<and> pd_wf mm' pdir \<and>
    (ok \<longrightarrow> (\<exists>fr. mapped_pages pdir (img_pages i img) mm mm' fr))"
  using assms
proof (induction "unat (e_phnum (img_ehdr img)) - i" arbitrary: i mm)
  case 0
  have "mem_bytes (kmem mm) ehdr (length img) = img" "headers_inside img" using 0 by (simp_all add: img_in_place_def)
  note h = headers_in_memory(1) [OF this]
  then have "ok \<and> mm' = mm" using 0 by (subst (asm) load_segments.simps) simp
  then show ?case
    using 0 mapped_pages_Nil [of mm pdir] by (auto simp: img_in_place_def img_segments_step)
next
  case (Suc n)
  have img: "mem_bytes (kmem mm) ehdr (length img) = img" "headers_inside img"
    using Suc.prems(2) by (simp_all add: img_in_place_def)
  have i: "i < unat (e_phnum (img_ehdr img))" using Suc.hyps(2) by simp
  note h = headers_in_memory(1,3) [OF img]
  let ?ph = "img_phdr img i"
  show ?case
  proof (cases "p_type ?ph = PT_LOAD")
    case False
    then have "load_segments ehdr (ehdr + e_phoff (img_ehdr img)) pdir (i + 1) mm = (ok, mm')"
      using Suc.prems(3) i by (subst (asm) load_segments.simps) (simp add: h)
    from Suc.hyps(1) [OF _ Suc.prems(1,2) this] Suc.hyps(2) show ?thesis using i False by (simp add: img_segments_step)
  next
    case True
    obtain left mm1 where al: "alloc_pages pdir PAGE_FLAGS (segment_pages ?ph) mm = (left, mm1)" by fastforce
    have zero: "mm_get_pte pdir 0 mm AND MM_PRESENT \<noteq> 0" using Suc.prems(2) by (simp add: img_in_place_def)
    note ap = alloc_pages_mapped [OF Suc.prems(1) al [unfolded segment_pages_def] page_aligned_page_of zero]
    have rest: "(if left \<noteq> [] then (False, mm1)
        else load_segments ehdr (ehdr + e_phoff (img_ehdr img)) pdir (i + 1) mm1) = (ok, mm')"
      using Suc.prems(3) i True by (subst (asm) load_segments.simps) (simp add: h al Let_def)
    show ?thesis
    proof (cases "left = []")
      case False
      have "img_frames mm pdir ehdr (length img)" using Suc.prems(2) by (simp add: img_in_place_def)
      then have "mem_bytes (kmem mm1) ehdr (length img) = img" using mem_bytes_kept [OF _ ap(3)] img(1) by simp
      then show ?thesis using False rest ap(2) by auto
    next
      case True
      from ap(1) [OF this] obtain fr where m: "mapped_pages pdir (segment_pages ?ph) mm mm1 fr"
        unfolding segment_pages_def by blast
      have rest': "load_segments ehdr (ehdr + e_phoff (img_ehdr img)) pdir (i + 1) mm1 = (ok, mm')" using rest True by simp
      from Suc.hyps(1) [OF _ mapped_pagesD(1) [OF m] img_in_place_mapped [OF Suc.prems(2) m] rest'] Suc.hyps(2)
      have IH: "mem_bytes (kmem mm') ehdr (length img) = img \<and> pd_wf mm' pdir \<and>
        (ok \<longrightarrow> (\<exists>fr. mapped_pages pdir (img_pages (i + 1) img) mm1 mm' fr))" by simp
      have eq: "img_pages i img = segment_pages ?ph @ img_pages (i + 1) img"
        using i \<open>p_type ?ph = PT_LOAD\<close> by (simp add: img_segments_step(1))
      have "\<exists>fr. mapped_pages pdir (img_pages i img) mm mm' fr" if ok
      proof -
        from IH that obtain fr' where "mapped_pages pdir (img_pages (i + 1) img) mm1 mm' fr'" by blast
        from mapped_pages_append [OF m this] show ?thesis unfolding eq by - (rule exI)
      qed
      then show ?thesis using IH by blast
    qed
  qed
qed

section \<open>Copying the contents\<close>

definition segment_ok :: "nat \<Rightarrow> elf32_phdr \<Rightarrow> bool" where
  \<comment> \<open>the contents lie in a file of \<open>n\<close> bytes, and the segment below the end of the address space\<close>
  "segment_ok n ph \<longleftrightarrow> unat (p_offset ph) + unat (p_filesz ph) \<le> n \<and> p_filesz ph \<le> p_memsz ph \<and>
     unat (p_vaddr ph) + unat (p_memsz ph) + 0xFFF < 2 ^ 32"

lemma unat_page_of: "unat (page_of w) = unat w div 4096 * 4096"
proof -
  have "w AND 0xFFF = take_bit 12 w" by (simp add: take_bit_eq_mask mask_eq_exp_minus_1)
  then have m: "unat (w AND 0xFFF) = unat w mod 4096"
    by (simp only: unsigned_take_bit_eq) (simp add: take_bit_eq_mod)
  have le: "page_of w \<le> w" by (rule word_and_le2)
  have "w - page_of w = w AND 0xFFF" using page_split(1) [of w] by (simp add: algebra_simps)
  then have "unat w - unat (page_of w) = unat w mod 4096" using unat_sub [OF le] m by simp
  moreover have "unat (page_of w) \<le> unat w" using le by (simp add: word_le_nat_alt)
  ultimately have "unat (page_of w) = unat w - unat w mod 4096" by simp
  then show ?thesis by (simp add: minus_mod_eq_div_mult)
qed

lemma page_between:
  fixes V M j :: nat
  assumes "j < M"
  shows "(V + j) div 4096 - V div 4096 < ((V + M + 4095) div 4096 * 4096 - V div 4096 * 4096) div 4096"
proof -
  have "(V + j) div 4096 < (V + M + 4095) div 4096" using assms div_le_mono [of "V + j + 4096" "V + M + 4095" 4096] by simp
  moreover have "V div 4096 \<le> (V + j) div 4096" by (simp add: div_le_mono)
  moreover have "((V + M + 4095) div 4096 * 4096 - V div 4096 * 4096) div 4096 = (V + M + 4095) div 4096 - V div 4096"
    by (simp add: diff_mult_distrib [symmetric])
  ultimately show ?thesis by (simp only: diff_less_mono)
qed

lemma segment_page:
  assumes "segment_ok n ph" and "j < unat (p_memsz ph)"
  shows "page_of (p_vaddr ph + of_nat j) \<in> set (segment_pages ph)"
proof -
  let ?V = "unat (p_vaddr ph)" and ?M = "unat (p_memsz ph)"
  let ?i = "(?V + j) div 4096 - ?V div 4096"
  have lt: "?V + ?M + 4095 < 2 ^ 32" using assms(1) by (simp add: segment_ok_def)
  have ua: "unat (p_vaddr ph + of_nat j) = ?V + j" using lt assms(2) by (simp add: unat_word_ariths unat_of_nat)
  have us: "unat (p_vaddr ph + p_memsz ph + 0xFFF) = ?V + ?M + 4095" using lt by (simp add: unat_word_ariths)
  have stop: "unat (round_up (p_vaddr ph + p_memsz ph)) = (?V + ?M + 4095) div 4096 * 4096"
    unfolding round_up_def unat_page_of us ..
  have i: "?i < (unat (round_up (p_vaddr ph + p_memsz ph)) - unat (page_of (p_vaddr ph))) div 4096"
    unfolding stop unat_page_of by (rule page_between [OF assms(2)])
  have "?V div 4096 \<le> (?V + j) div 4096" by (simp add: div_le_mono)
  then have sum: "?V div 4096 * 4096 + ?i * 4096 = (?V + j) div 4096 * 4096" by (simp add: add_mult_distrib [symmetric])
  have top: "(?V + j) div 4096 * 4096 < 2 ^ 32"
    using lt assms(2) div_times_less_eq_dividend [of "?V + j" 4096] by linarith
  define i where "i = ?i"
  have "(?V + j) div 4096 < 1048576" using top by simp
  then have "i < 1048576" unfolding i_def by (rule less_imp_diff_less)
  then have "unat (of_nat i * FRAME) = i * 4096" by (rule unat_pages)
  then have "unat (page_of (p_vaddr ph)) + unat (of_nat i * FRAME) = (?V + j) div 4096 * 4096"
    unfolding unat_page_of using sum by (simp only: i_def)
  then have "unat (page_of (p_vaddr ph) + of_nat i * FRAME) = (?V + j) div 4096 * 4096"
    using top by (simp only: unat_word_ariths(1)) simp
  then have "page_of (p_vaddr ph + of_nat j) = page_of (p_vaddr ph) + of_nat i * FRAME"
    unfolding word_unat_eq_iff unat_page_of ua by simp
  moreover have "i < (unat (round_up (p_vaddr ph + p_memsz ph)) - unat (page_of (p_vaddr ph))) div 4096"
    unfolding i_def by (rule i)
  ultimately show ?thesis unfolding segment_pages_def page_range_def by (auto simp del: page_of_aligned_simp)
qed

definition user_byte :: "u32 \<Rightarrow> u32 \<Rightarrow> mm_state \<Rightarrow> u8 option" where
  \<comment> \<open>what the program reads at \<open>va\<close>\<close>
  "user_byte pdir va mm = map_option (kmem mm) (phys pdir va mm)"

definition layout :: "u32 \<Rightarrow> u32 set \<Rightarrow> (u32 \<Rightarrow> u32) \<Rightarrow> u32 \<Rightarrow> u8 list \<Rightarrow> mm_state \<Rightarrow> bool" where
  \<comment> \<open>the pages \<open>P\<close> have frames of their own, and the image is visible at its physical address, outside these frames\<close>
  "layout pdir P fr ehdr img mm \<longleftrightarrow> pd_wf mm pdir \<and> inj_on fr P \<and>
     (\<forall>va \<in> P. page_aligned va \<and> data_frame mm pdir (fr va) \<and> mm_get_pte pdir va mm = fr va OR PAGE_FLAGS) \<and>
     (\<forall>d < length img. phys pdir (ehdr + of_nat d) mm = Some (ehdr + of_nat d) \<and>
        kmem mm (ehdr + of_nat d) = img ! d \<and> page_of (ehdr + of_nat d) \<notin> fr ` P)"

lemma mm_get_pte_page: "mm_get_pte pdir (page_of va) mm = mm_get_pte pdir va mm"
proof -
  have "page_of (page_of va) = page_of va" by (rule page_of_aligned [OF page_aligned_page_of])
  then have "pd_idx (page_of va) = pd_idx va \<and> pt_idx (page_of va) = pt_idx va" unfolding same_page_iff .
  then show ?thesis unfolding mm_get_pte_alt by simp
qed

lemma layoutD:
  assumes "layout pdir P fr ehdr img mm"
  shows "pd_wf mm pdir" and "inj_on fr P" and "v \<in> P \<Longrightarrow> page_aligned v" and "v \<in> P \<Longrightarrow> data_frame mm pdir (fr v)"
    and "v \<in> P \<Longrightarrow> mm_get_pte pdir v mm = fr v OR PAGE_FLAGS"
    and "d < length img \<Longrightarrow> phys pdir (ehdr + of_nat d) mm = Some (ehdr + of_nat d)"
    and "d < length img \<Longrightarrow> kmem mm (ehdr + of_nat d) = img ! d"
    and "d < length img \<Longrightarrow> page_of (ehdr + of_nat d) \<notin> fr ` P"
  using assms unfolding layout_def by blast+

lemma phys_user:
  assumes l: "layout pdir P fr ehdr img mm" and va: "page_of va \<in> P"
  shows "phys pdir va mm = Some (fr (page_of va) + (va AND 0xFFF))"
proof -
  have al: "page_aligned (fr (page_of va))" using data_frameD(1) layoutD(4) [OF l va] by blast
  have "mm_get_pte pdir va mm = fr (page_of va) OR PAGE_FLAGS"
    using layoutD(5) [OF l va] unfolding mm_get_pte_page .
  then show ?thesis using page_of_flags [OF al] by (simp only: phys_def Let_def if_False)
qed

lemma layout_poke:
  assumes l: "layout pdir P fr ehdr img mm" and va: "page_of va \<in> P"
    and mm'_def: "mm' = poke (fr (page_of va) + (va AND 0xFFF)) b mm"
  shows "layout pdir P fr ehdr img mm'"
    and "page_of w \<in> P \<Longrightarrow> user_byte pdir w mm' = (if w = va then Some b else user_byte pdir w mm)"
proof -
  let ?f = "fr (page_of va)" and ?d = "va AND 0xFFF"
  note pk = poke_data_frame [OF layoutD(1) [OF l] layoutD(4) [OF l va] page_split(2) [of va], where b = b, folded mm'_def]
  have phys: "phys pdir w mm' = phys pdir w mm" for w by (simp add: phys_def pk(2))
  have kept: "kmem mm' a = kmem mm a" if "page_of a \<noteq> ?f" for a
  proof -
    have "a \<noteq> ?f + ?d" using that page_join(1) [OF data_frameD(1) [OF layoutD(4) [OF l va]] page_split(2)] by blast
    then show ?thesis by (simp add: mm'_def poke_def)
  qed
  have "kmem mm' (ehdr + of_nat d) = img ! d" if "d < length img" for d
    using layoutD(7,8) [OF l that] va kept by (metis imageI)
  then show l': "layout pdir P fr ehdr img mm'"
    unfolding layout_def using layoutD [OF l] pk phys by simp
  show "user_byte pdir w mm' = (if w = va then Some b else user_byte pdir w mm)" if w: "page_of w \<in> P"
  proof -
    have "fr (page_of w) + (w AND 0xFFF) = ?f + ?d \<longleftrightarrow> w = va"
    proof
      assume eq: "fr (page_of w) + (w AND 0xFFF) = ?f + ?d"
      have al: "page_aligned (fr (page_of w))" "page_aligned ?f" using data_frameD(1) layoutD(4) [OF l] w va by blast+
      have "fr (page_of w) = ?f" by (rule page_off_inj [OF al page_split(2) page_split(2) eq])
      then have "page_of w = page_of va" using inj_onD [OF layoutD(2) [OF l]] w va by blast
      moreover have "w AND 0xFFF = va AND 0xFFF" using eq \<open>fr (page_of w) = ?f\<close> by simp
      ultimately show "w = va" using page_split(1) [of w] page_split(1) [of va] by metis
    qed simp
    then show ?thesis
      using phys_user [OF l w] phys by (simp add: user_byte_def mm'_def poke_def)
  qed
qed

lemma vcopy_spec:
  assumes "layout pdir P fr ehdr img mm" and "\<And>j. j < n \<Longrightarrow> page_of (dst + of_nat j) \<in> P"
    and "off + n \<le> length img" and "n < 2 ^ 32"
  shows "\<exists>mm'. vcopy pdir dst (ehdr + of_nat off) n mm = Some mm' \<and> layout pdir P fr ehdr img mm' \<and>
    (\<forall>va. page_of va \<in> P \<longrightarrow> user_byte pdir va mm' =
      (if unat (va - dst) < n then Some (img ! (off + unat (va - dst))) else user_byte pdir va mm))"
  using assms
proof (induction n arbitrary: dst off mm)
  case 0
  then show ?case by simp
next
  case (Suc n)
  have d: "page_of dst \<in> P" using Suc.prems(2) [of 0] by simp
  have off: "off < length img" using Suc.prems(3) by simp
  let ?b = "img ! off"
  let ?m1 = "poke (fr (page_of dst) + (dst AND 0xFFF)) ?b mm"
  note lp = layout_poke [OF Suc.prems(1) d refl, where b = ?b]
  have step: "vcopy pdir dst (ehdr + of_nat off) (Suc n) mm = vcopy pdir (dst + 1) (ehdr + of_nat (off + 1)) n ?m1"
    using layoutD(6,7) [OF Suc.prems(1) off] phys_user [OF Suc.prems(1) d] by (simp add: poke_def add.commute add.left_commute)
  have "page_of (dst + 1 + of_nat j) \<in> P" if "j < n" for j
    using Suc.prems(2) [of "Suc j"] that by (simp add: add.assoc)
  moreover have "off + 1 + n \<le> length img" "n < 2 ^ 32" using Suc.prems(3,4) by simp_all
  ultimately obtain mm' where mm': "vcopy pdir (dst + 1) (ehdr + of_nat (off + 1)) n ?m1 = Some mm'" "layout pdir P fr ehdr img mm'"
      "\<And>va. page_of va \<in> P \<Longrightarrow> user_byte pdir va mm' =
        (if unat (va - (dst + 1)) < n then Some (img ! (off + 1 + unat (va - (dst + 1)))) else user_byte pdir va ?m1)"
    using Suc.IH [OF lp(1), of "dst + 1" "off + 1"] by blast
  have "user_byte pdir va mm' =
      (if unat (va - dst) < Suc n then Some (img ! (off + unat (va - dst))) else user_byte pdir va mm)"
    if va: "page_of va \<in> P" for va
  proof (cases "va = dst")
    case True
    have "unat (dst - (dst + 1)) = 2 ^ 32 - 1" by (simp add: unsigned_minus_1_eq_mask mask_eq_exp_minus_1)
    then show ?thesis using mm'(3) [OF va] lp(2) [OF va] True Suc.prems(4) by simp
  next
    case False
    have "unat (va - dst) \<noteq> 0" using False by (metis eq_iff_diff_eq_0 unat_eq_0)
    then show ?thesis using mm'(3) [OF va] lp(2) [OF va] False unat_sub_one [OF False] by auto
  qed
  then show ?case using mm'(1,2) unfolding step by blast
qed

definition covers :: "elf32_phdr \<Rightarrow> u32 \<Rightarrow> bool" where
  \<comment> \<open>the address gets a byte of the file\<close>
  "covers ph va \<longleftrightarrow> unat (va - p_vaddr ph) < unat (p_filesz ph)"

lemma covers_page:
  assumes "segment_ok n ph" and "covers ph va"
  shows "page_of va \<in> set (segment_pages ph)"
proof -
  have "unat (va - p_vaddr ph) < unat (p_memsz ph)"
    using assms by (simp add: segment_ok_def covers_def word_le_nat_alt)
  from segment_page [OF assms(1) this] show ?thesis by simp
qed

lemma layout_img: "layout pdir P fr ehdr img mm \<Longrightarrow> mem_bytes (kmem mm) ehdr (length img) = img"
  by (intro nth_equalityI) (simp_all add: mem_bytes_def layoutD(7))

definition file_byte :: "u8 list \<Rightarrow> elf32_phdr list \<Rightarrow> u32 \<Rightarrow> u8 option \<Rightarrow> u8 option" where
  \<comment> \<open>the byte of the first of the segments that covers the address, if there is one\<close>
  "file_byte img segs va b = (case find (\<lambda>ph. covers ph va) segs of
       None \<Rightarrow> b
     | Some ph \<Rightarrow> Some (img ! (unat (p_offset ph) + unat (va - p_vaddr ph))))"

lemma copy_segments_spec:
  assumes "layout pdir P fr ehdr img mm" and "headers_inside img"
    and "\<forall>ph \<in> set (img_segments i img). segment_ok (length img) ph"
    and "set (img_pages i img) \<subseteq> P" and "distinct (img_pages i img)"
  shows "\<exists>mm'. copy_segments pdir ehdr (ehdr + e_phoff (img_ehdr img)) i mm = Some mm' \<and> layout pdir P fr ehdr img mm' \<and>
    (\<forall>va. page_of va \<in> P \<longrightarrow> user_byte pdir va mm' = file_byte img (img_segments i img) va (user_byte pdir va mm))"
  using assms
proof (induction "unat (e_phnum (img_ehdr img)) - i" arbitrary: i mm)
  case 0
  note h = headers_in_memory(1) [OF layout_img [OF 0(2)] 0(3)]
  show ?case using 0 by (subst copy_segments.simps) (simp add: h img_segments_step file_byte_def)
next
  case (Suc n)
  have i: "i < unat (e_phnum (img_ehdr img))" using Suc.hyps(2) by simp
  note h = headers_in_memory(1,3) [OF layout_img [OF Suc.prems(1)] Suc.prems(2)]
  let ?ph = "img_phdr img i" and ?phdr = "ehdr + e_phoff (img_ehdr img)" and ?rest = "img_segments (i + 1) img"
  have n: "n = unat (e_phnum (img_ehdr img)) - (i + 1)" using Suc.hyps(2) by simp
  show ?case
  proof (cases "p_type ?ph = PT_LOAD")
    case False
    have eq: "img_segments i img = ?rest" using i False by (simp add: img_segments_step)
    have "copy_segments pdir ehdr ?phdr i mm = copy_segments pdir ehdr ?phdr (i + 1) mm"
      using i False by (subst copy_segments.simps) (simp add: h)
    then show ?thesis using Suc.hyps(1) [OF n Suc.prems(1,2)] Suc.prems(3-5) unfolding eq by simp
  next
    case True
    have eq: "img_segments i img = ?ph # ?rest" using i True by (simp add: img_segments_step)
    have ok: "segment_ok (length img) ?ph" using Suc.prems(3) eq by simp
    let ?n = "unat (p_filesz ?ph)"
    have le: "?n \<le> unat (p_memsz ?ph)" "unat (p_offset ?ph) + ?n \<le> length img" "?n < 2 ^ 32"
      using ok unsigned_less [of "p_filesz ?ph", where 'a = nat] by (simp_all add: segment_ok_def word_le_nat_alt)
    have "page_of (p_vaddr ?ph + of_nat j) \<in> P" if "j < ?n" for j
      using segment_page [OF ok, of j] that le(1) Suc.prems(4) eq by auto
    from vcopy_spec [OF Suc.prems(1) this le(2,3)] obtain mm1 where
      vc: "vcopy pdir (p_vaddr ?ph) (ehdr + p_offset ?ph) ?n mm = Some mm1" "layout pdir P fr ehdr img mm1"
        "\<And>va. page_of va \<in> P \<Longrightarrow> user_byte pdir va mm1 = (if unat (va - p_vaddr ?ph) < ?n
          then Some (img ! (unat (p_offset ?ph) + unat (va - p_vaddr ?ph))) else user_byte pdir va mm)"
      by auto
    have step: "copy_segments pdir ehdr ?phdr i mm = copy_segments pdir ehdr ?phdr (i + 1) mm1"
      using i True vc(1) by (subst copy_segments.simps) (simp add: h)
    have "set (img_pages (i + 1) img) \<subseteq> P" "distinct (img_pages (i + 1) img)"
        "\<forall>ph \<in> set ?rest. segment_ok (length img) ph" using Suc.prems(3-5) eq by auto
    from Suc.hyps(1) [OF n vc(2) Suc.prems(2) this(3,1,2)] obtain mm' where
      mm': "copy_segments pdir ehdr ?phdr (i + 1) mm1 = Some mm'" "layout pdir P fr ehdr img mm'"
        "\<And>va. page_of va \<in> P \<Longrightarrow> user_byte pdir va mm' = file_byte img ?rest va (user_byte pdir va mm1)"
      by blast
    have "\<not> covers q va" if "covers ?ph va" "q \<in> set ?rest" for q va
    proof
      assume "covers q va"
      then have "page_of va \<in> set (img_pages (i + 1) img)" using covers_page Suc.prems(3) that(2) eq by fastforce
      moreover have "page_of va \<in> set (segment_pages ?ph)" by (rule covers_page [OF ok that(1)])
      ultimately show False using Suc.prems(5) unfolding eq by auto
    qed
    then have "find (\<lambda>q. covers q va) ?rest = None" if "covers ?ph va" for va using that by (auto simp: find_None_iff)
    then have "user_byte pdir va mm' = file_byte img (img_segments i img) va (user_byte pdir va mm)" if "page_of va \<in> P" for va
      using mm'(3) [OF that] vc(3) [OF that] unfolding eq
      by (cases "covers ?ph va") (simp_all add: file_byte_def covers_def)
    then show ?thesis using mm'(1,2) unfolding step by blast
  qed
qed

lemma loaded_layout:
  assumes "img_in_place mm pdir ehdr img" and m: "mapped_pages pdir ps mm mm' fr"
    and ident: "\<forall>d < length img. phys pdir (ehdr + of_nat d) mm = Some (ehdr + of_nat d)"
  shows "layout pdir (set ps) fr ehdr img mm'"
    and "page_of va \<in> set ps \<Longrightarrow> user_byte pdir va mm' = Some 0"
proof -
  note mD = mapped_pagesD [OF m]
  have ip: "img_in_place mm' pdir ehdr img" by (rule img_in_place_mapped [OF assms(1) m])
  have img: "phys pdir (ehdr + of_nat d) mm' = Some (ehdr + of_nat d) \<and> kmem mm' (ehdr + of_nat d) = img ! d \<and>
      page_of (ehdr + of_nat d) \<notin> fr ` set ps" if d: "d < length img" for d
  proof -
    let ?a = "ehdr + of_nat d"
    have pr: "mm_get_pte pdir ?a mm AND MM_PRESENT \<noteq> 0" using ident d by (auto simp: phys_def Let_def split: if_splits)
    have "page_of ?a \<notin> set ps"
    proof
      assume "page_of ?a \<in> set ps"
      from fresh_pageD(1) [OF mD(4) [OF this]] show False using pr unfolding mm_get_pte_page by simp
    qed
    then have "phys pdir ?a mm' = phys pdir ?a mm" using mD(7) by (simp add: phys_def)
    moreover have "mem_bytes (kmem mm') ehdr (length img) ! d = kmem mm' ?a" using d by (simp add: mem_bytes_def)
    then have "kmem mm' ?a = img ! d" using ip by (simp add: img_in_place_def)
    moreover have "data_frame mm pdir (page_of ?a)" using assms(1) d by (simp add: img_in_place_def img_frames_def)
    then have "frame_used mm (unat (page_of ?a div FRAME))" by (rule data_frameD(4))
    then have "page_of ?a \<notin> fr ` set ps" using fresh_pageD(2) [OF mD(4)] by fastforce
    ultimately show ?thesis using ident d by simp
  qed
  show l: "layout pdir (set ps) fr ehdr img mm'"
    unfolding layout_def using mD(1,3,6) fresh_pageD(3,4) [OF mD(4)] img by simp
  assume va: "page_of va \<in> set ps"
  show "user_byte pdir va mm' = Some 0"
    using fresh_pageD(5) [OF mD(4) [OF va] page_split(2)] phys_user [OF l va] by (simp only: user_byte_def) simp
qed

section \<open>Properties\<close>

lemma distinct_concatD:
  assumes "distinct (concat (map f xs))" and "x \<in> set xs" "y \<in> set xs" and "z \<in> set (f x)" "z \<in> set (f y)"
  shows "x = y"
  using assms
proof (induction xs)
  case (Cons a xs)
  have d: "distinct (concat (map f xs))" "set (f a) \<inter> (\<Union>b \<in> set xs. set (f b)) = {}" using Cons.prems(1) by auto
  then show ?case using Cons.IH [OF d(1)] Cons.prems(2-5) by auto
qed simp

text \<open>
  C37. A program finds itself in memory. Let an ELF file lie in page frames of its own, identity-mapped
  in the new directory, with its headers inside the file and every loadable segment inside the file
  and below the end of the address space. If \<open>elf_load\<close> accepts it, the entry point is the one of the
  header, no two loadable segments share a page, and \<open>elf_copy_segments\<close> returns: it never touches
  an address that is not mapped. Then every segment reads back, through the new directory, as the
  bytes of the file at its offset, followed by zeros up to its size in memory.
\<close>

theorem program_image_loaded:
  assumes wf: "pd_wf mm pdir" and img: "img_in_place mm pdir ehdr img"
    and ident: "\<forall>d < length img. phys pdir (ehdr + of_nat d) mm = Some (ehdr + of_nat d)"
    and segs: "\<forall>ph \<in> set (img_segments 0 img). segment_ok (length img) ph"
    and load: "elf_load ehdr pdir mm = (Some e, mm1)"
  shows "e = e_entry (img_ehdr img) \<and> distinct (img_pages 0 img) \<and>
    (\<exists>mm2. elf_copy_segments pdir ehdr mm1 = Some mm2 \<and> pd_wf mm2 pdir \<and>
      (\<forall>ph \<in> set (img_segments 0 img). \<forall>j < unat (p_memsz ph). user_byte pdir (p_vaddr ph + of_nat j) mm2 =
         Some (if j < unat (p_filesz ph) then img ! (unat (p_offset ph) + j) else 0)))"
proof -
  have hd: "mem_bytes (kmem mm) ehdr (length img) = img" "headers_inside img" using img by (simp_all add: img_in_place_def)
  have ls: "load_segments ehdr (ehdr + e_phoff (img_ehdr img)) pdir 0 mm = (True, mm1)"
    and e: "e = e_entry (ehdr_at (kmem mm1) ehdr)"
    using load headers_in_memory(2) [OF hd] by (auto simp: elf_load_def split: if_splits prod.splits)
  obtain fr where m: "mapped_pages pdir (img_pages 0 img) mm mm1 fr" and hd1: "mem_bytes (kmem mm1) ehdr (length img) = img"
    using load_segments_spec [OF wf img ls] by blast
  note lay = loaded_layout [OF img m ident]
  have dis: "distinct (img_pages 0 img)" by (rule mapped_pagesD(2) [OF m])
  obtain mm2 where mm2: "copy_segments pdir ehdr (ehdr + e_phoff (img_ehdr img)) 0 mm1 = Some mm2"
      "layout pdir (set (img_pages 0 img)) fr ehdr img mm2"
      "\<And>va. page_of va \<in> set (img_pages 0 img) \<Longrightarrow>
         user_byte pdir va mm2 = file_byte img (img_segments 0 img) va (user_byte pdir va mm1)"
    using copy_segments_spec [OF lay(1) hd(2) segs subset_refl dis] by blast
  have "user_byte pdir (p_vaddr ph + of_nat j) mm2 = Some (if j < unat (p_filesz ph) then img ! (unat (p_offset ph) + j) else 0)"
    if ph: "ph \<in> set (img_segments 0 img)" and j: "j < unat (p_memsz ph)" for ph j
  proof -
    let ?va = "p_vaddr ph + of_nat j"
    have pg: "page_of ?va \<in> set (segment_pages ph)" using segment_page j segs ph by blast
    then have P: "page_of ?va \<in> set (img_pages 0 img)" using ph by auto
    have off: "unat (?va - p_vaddr ph) = j"
      using j unsigned_less [of "p_memsz ph", where 'a = nat] by (simp add: unat_of_nat)
    have only: "q = ph" if "q \<in> set (img_segments 0 img)" "covers q ?va" for q
      using distinct_concatD [OF dis that(1) ph covers_page pg] segs that by blast
    have "find (\<lambda>q. covers q ?va) (img_segments 0 img) = (if j < unat (p_filesz ph) then Some ph else None)"
    proof (cases "find (\<lambda>q. covers q ?va) (img_segments 0 img)")
      case None
      then show ?thesis using ph off by (auto simp: find_None_iff covers_def)
    next
      case (Some q)
      then have "q = ph" "covers q ?va" using only find_SomeD by metis+
      then show ?thesis using Some off by (simp add: covers_def)
    qed
    then show ?thesis using mm2(3) [OF P] lay(2) [OF P] off by (simp add: file_byte_def)
  qed
  moreover have "elf_copy_segments pdir ehdr mm1 = Some mm2"
    using mm2(1) headers_in_memory(2) [OF hd1 hd(2)] by (simp add: elf_copy_segments_def)
  moreover have "e = e_entry (img_ehdr img)" using e headers_in_memory(1) [OF hd1 hd(2)] by simp
  ultimately show ?thesis
    using dis layoutD(1) [OF mm2(2)] by (intro conjI exI [of _ mm2] ballI allI impI) simp_all
qed

subsection \<open>An example\<close>

lemma mm_alloc_at_succeeds:
  assumes wf: "pd_wf mm pdir" and va: "va \<noteq> 0" "mm_get_pte pdir va mm AND MM_PRESENT = 0"
    and free: "i < IDENT_PAGES" "j < IDENT_PAGES" "i \<noteq> j" "\<not> frame_used mm i" "\<not> frame_used mm j"
  shows "fst (mm_alloc_at pdir va flags mm) = va"
proof -
  have fi: "frames_inv mm" "frame_used mm 0" using wf by (simp_all add: pd_wf_def)
  from fi show ?thesis
  proof (cases rule: frame_alloc_cases)
    case full
    then show ?thesis using free by blast
  next
    case (fresh f k mm')
    define mm2 where "mm2 = mm'\<lparr>kmem := zero_frame f (kmem mm')\<rparr>"
    have used: "frame_used mm2 l \<longleftrightarrow> frame_used mm l \<or> l = k" "frames_inv mm2" for l
      using fresh(8,9) by (simp_all add: mm2_def frame_used_def frames_inv_def)
    have "entry (kmem mm2) t l = entry (kmem mm) t l" if "l < 1024" "page_aligned t" "protected_page mm t" for t l
    proof -
      have "t \<noteq> f" using that(3) fresh(4-6) by (auto simp: protected_page_def)
      then show ?thesis using entry_zero_frame [OF fresh(3) that(2,1)] fresh(7) by (simp add: mm2_def)
    qed
    from pd_wf_mono(1,2) [OF wf used(2) _ this] used(1)
    have wf2: "pd_wf mm2 pdir" "mm_get_pte pdir va mm2 = mm_get_pte pdir va mm" by blast+
    obtain r mm3 where map: "mm_map_at pdir va f flags mm2 = (r, mm3)" by fastforce
    have "\<exists>l < IDENT_PAGES. \<not> frame_used mm2 l" using free used(1) by metis
    then have "r = 0" using mm_map_at_spec(2) [OF wf2(1) map] wf2(2) va(2) by simp
    then show ?thesis using fresh(1,2) map by (simp add: mm_alloc_at_def mm2_def Let_def)
  qed
qed

definition demo_ehdr :: elf32_ehdr where
  "demo_ehdr = \<lparr>e_ident = [0x7F, 0x45, 0x4C, 0x46, 1, 1, 1, 0, 0, 0, 0, 0, 0, 0, 0, 0], e_type = 2, e_machine = 3,
     e_version = 1, e_entry = 0x8048054, e_phoff = 52, e_shoff = 0, e_flags = 0, e_ehsize = 52, e_phentsize = 32,
     e_phnum = 1, e_shentsize = 0, e_shnum = 0, e_shstrndx = 0\<rparr>"

definition demo_phdr :: elf32_phdr where
  "demo_phdr = \<lparr>p_type = 1, p_offset = 0, p_vaddr = 0x8048000, p_paddr = 0, p_filesz = 84, p_memsz = 0x1000,
     p_flags = 7, p_align = 0x1000\<rparr>"

definition demo_img :: "u8 list" where
  "demo_img = encode_ehdr demo_ehdr @ encode_phdr demo_phdr"

lemma demo_img_parts: "length demo_img = 84" "img_ehdr demo_img = demo_ehdr" "img_phdr demo_img 0 = demo_phdr"
proof -
  have l: "length (encode_ehdr demo_ehdr) = 52" "length (encode_phdr demo_phdr) = 32"
    by (simp_all add: encode_ehdr_def encode_phdr_def demo_ehdr_def codec_simps)
  show "length demo_img = 84" by (simp add: demo_img_def l)
  show e: "img_ehdr demo_img = demo_ehdr"
  proof -
    have "length (e_ident demo_ehdr) = 16" by (simp add: demo_ehdr_def)
    then show ?thesis
      using ehdrs.decode_encode [of demo_ehdr] by (simp add: img_ehdr_def demo_img_def get_bytes_def EHDR_SIZE_def l)
  qed
  have "unat (e_phoff demo_ehdr) = 52" by (simp add: demo_ehdr_def)
  then show "img_phdr demo_img 0 = demo_phdr"
    using phdrs.decode_encode [of demo_phdr]
    by (simp add: img_phdr_def e [unfolded demo_img_def] demo_img_def get_bytes_def PHDR_SIZE_def l)
qed

lemma demo_img_segments: "img_segments 0 demo_img = [demo_phdr]" "headers_inside demo_img"
  "segment_ok (length demo_img) demo_phdr" "segment_pages demo_phdr = [0x8048000]"
  by (simp_all add: img_segments_def headers_inside_def segment_ok_def demo_img_parts EHDR_SIZE_def PHDR_SIZE_def)
    (simp_all add: demo_ehdr_def demo_phdr_def demo_img_parts PT_LOAD_def segment_pages_def round_up_def
      page_range_def FRAME_def)

definition demo_exec :: mm_state where
  \<comment> \<open>a directory with pages 0 and 6 mapped onto themselves; the file lies in page 6\<close>
  "demo_exec = \<lparr>kmem = write_bytes 0x6000 demo_img (set_entry 0x3000 6 0x6007 (set_entry 0x3000 0 7
      (set_entry 0x2000000 0 0x3007 (\<lambda>_. 0)))), frame_bitmap = 0x49 # replicate 127 0\<rparr>"

lemma demo_exec_entry:
  assumes "page_aligned t" and "t \<noteq> 0x6000" and "i < 1024"
  shows "entry (kmem demo_exec) t i = (if t = 0x2000000 \<and> i = 0 then 0x3007 else if t = 0x3000 \<and> i = 0 then 7
    else if t = 0x3000 \<and> i = 6 then 0x6007 else 0)"
proof -
  have al: "page_aligned 0x2000000" "page_aligned 0x3000" "page_aligned 0x6000" by (simp_all add: page_aligned_def)
  have out: "write_bytes 0x6000 demo_img m (t + 4 * of_nat i + j) = m (t + 4 * of_nat i + j)" if "j < 4" for m j
  proof -
    define x where "x = t + 4 * of_nat i + j"
    have "\<not> unat (x - 0x6000) < 84"
    proof
      assume "unat (x - 0x6000) < 84"
      then have "x - 0x6000 < 0x1000" by (simp add: word_less_nat_alt)
      from page_join(1) [OF al(3) this] have "page_of x = 0x6000" by simp
      moreover have "page_of x = t"
        using page_join(1) [OF assms(1) slot_offset [OF assms(3) that]] by (simp add: x_def add.assoc)
      ultimately show False using assms(2) by simp
    qed
    then show ?thesis by (simp add: write_bytes_apply demo_img_parts x_def)
  qed
  from out [of 0] out [of 1] out [of 2] out [of 3]
  have "entry (write_bytes 0x6000 demo_img m) t i = entry m t i" for m
    by (simp add: read32_def)
  moreover have "entry (\<lambda>_. 0) t i = 0" by (simp add: read32_def of_le32_def)
  ultimately show ?thesis
    using entry_set_entry [OF al(2) assms(1) _ assms(3), of 6 "0x6007"] entry_set_entry [OF al(2) assms(1) _ assms(3), of 0 7]
      entry_set_entry [OF al(1) assms(1) _ assms(3), of 0 "0x3007"]
    by (auto simp: demo_exec_def)
qed

lemma demo_exec_wf:
  shows "pd_wf demo_exec 0x2000000" and "data_frame demo_exec 0x2000000 0x6000"
    and "\<not> frame_used demo_exec 1" "\<not> frame_used demo_exec 2"
proof -
  have al: "page_aligned 0x2000000" "page_aligned 0x3000" "page_aligned 0x6000" by (simp_all add: page_aligned_def)
  show "\<not> frame_used demo_exec 1" "\<not> frame_used demo_exec 2"
    by (simp_all add: frame_used_def bitmap_test_def demo_exec_def)
  have used: "frame_used demo_exec 0" "frame_used demo_exec 3" "frame_used demo_exec 6"
    by (simp_all add: frame_used_def bitmap_test_def demo_exec_def IDENT_PAGES_def NUM_PT_def DIR_SIZE_def)
  have ent: "entry (kmem demo_exec) 0x2000000 i = (if i = 0 then 0x3007 else 0)" if "i < 1024" for i
    using demo_exec_entry [OF al(1) _ that] by simp
  have present: "pde_present demo_exec 0x2000000 i \<longleftrightarrow> i = 0" if "i < 1024" for i
    using ent [OF that] by (simp add: MM_PRESENT_def)
  have tab: "table_of demo_exec 0x2000000 0 = 0x3000" using ent [of 0] by simp
  have "frames_inv demo_exec" by (simp add: frames_inv_def demo_exec_def IDENT_PAGES_def NUM_PT_def DIR_SIZE_def)
  moreover have "protected_page demo_exec 0x3000" "protected_page demo_exec 0x2000000"
    by (simp_all add: used protected_page_def FRAME_def unat_div IDENT_PAGES_def NUM_PT_def DIR_SIZE_def)
  ultimately show "pd_wf demo_exec 0x2000000" unfolding pd_wf_def using present tab used al by auto
  show "data_frame demo_exec 0x2000000 0x6000"
    unfolding data_frame_def using present tab used al
    by (auto simp: FRAME_def unat_div IDENT_PAGES_def NUM_PT_def DIR_SIZE_def)
qed

lemma demo_exec_pte: "mm_get_pte 0x2000000 va demo_exec = (if page_of va = 0 then 7 else if page_of va = 0x6000 then 0x6007 else 0)"
  if "pd_idx va = 0"
proof -
  have al: "page_aligned 0x2000000" "page_aligned 0x3000" by (simp_all add: page_aligned_def)
  have idx: "pd_idx 0 = 0" "pt_idx 0 = 0" "pd_idx 0x6000 = 0" "pt_idx 0x6000 = 6" by (simp_all add: pd_idx_def pt_idx_def)
  have "page_of va = 0 \<longleftrightarrow> pt_idx va = 0" "page_of va = 0x6000 \<longleftrightarrow> pt_idx va = 6"
    using same_page_iff [of va 0] same_page_iff [of va "0x6000"] that by (simp_all add: idx)
  then show ?thesis
    using demo_exec_entry [OF al(1), where i = 0] demo_exec_entry [OF al(2) _ pt_idx_less [of va]]
    by (simp add: mm_get_pte_alt that MM_PRESENT_def)
qed

lemma demo_exec_img:
  shows "img_in_place demo_exec 0x2000000 0x6000 demo_img"
    and "\<forall>d < length demo_img. phys 0x2000000 (0x6000 + of_nat d) demo_exec = Some (0x6000 + of_nat d)"
proof -
  have pg: "page_of (0x6000 + of_nat d) = 0x6000" "(0x6000 + of_nat d) AND 0xFFF = (of_nat d :: u32)" if "d < 84" for d
  proof -
    have "page_aligned 0x6000" "of_nat d < (0x1000 :: u32)" using that by (simp_all add: page_aligned_def word_less_nat_alt unat_of_nat)
    from page_join [OF this] show "page_of (0x6000 + of_nat d) = 0x6000" "(0x6000 + of_nat d) AND 0xFFF = (of_nat d :: u32)" .
  qed
  have "mem_bytes (kmem demo_exec) 0x6000 84 = demo_img"
    by (intro nth_equalityI)
      (simp_all add: mem_bytes_def demo_exec_def write_bytes_apply demo_img_parts unat_of_nat)
  moreover have "pd_idx 0 = 0" by (simp add: pd_idx_def)
  ultimately show "img_in_place demo_exec 0x2000000 0x6000 demo_img"
    using demo_exec_pte [of 0] demo_exec_wf(2) pg
    by (simp add: img_in_place_def demo_img_segments demo_img_parts img_frames_def MM_PRESENT_def)
  show "\<forall>d < length demo_img. phys 0x2000000 (0x6000 + of_nat d) demo_exec = Some (0x6000 + of_nat d)"
  proof (intro allI impI)
    fix d
    assume "d < length demo_img"
    then have d: "d < 84" by (simp add: demo_img_parts)
    have "page_of (page_of (0x6000 + of_nat d)) = page_of (0x6000 + of_nat d)" by (rule page_of_aligned [OF page_aligned_page_of])
    have "pd_idx (0x6000 + of_nat d) = 0"
      using same_page_iff [of "0x6000 + of_nat d" "0x6000"] pg(1) [OF d] by (simp add: pd_idx_def)
    from demo_exec_pte [OF this] show "phys 0x2000000 (0x6000 + of_nat d) demo_exec = Some (0x6000 + of_nat d)"
      unfolding phys_def pg(1) [OF d] pg(2) [OF d] by (simp add: MM_PRESENT_def)
  qed
qed

lemma demo_exec_loads: "\<exists>mm1. elf_load 0x6000 0x2000000 demo_exec = (Some 0x8048054, mm1)"
proof -
  have wf: "pd_wf demo_exec 0x2000000" by (rule demo_exec_wf)
  have hd: "mem_bytes (kmem demo_exec) 0x6000 (length demo_img) = demo_img" "headers_inside demo_img"
    using demo_exec_img(1) by (simp_all add: img_in_place_def)
  note m = headers_in_memory [OF hd, unfolded demo_img_parts]
  have "pd_idx 0x8048000 = 32" by (simp add: pd_idx_def)
  then have "mm_get_pte 0x2000000 0x8048000 demo_exec AND MM_PRESENT = 0"
    using demo_exec_entry [of "0x2000000" 32] by (simp add: mm_get_pte_alt page_aligned_def)
  from mm_alloc_at_succeeds [OF wf _ this _ _ _ demo_exec_wf(3,4)]
  have "fst (mm_alloc_at 0x2000000 0x8048000 PAGE_FLAGS demo_exec) = 0x8048000"
    by (simp add: IDENT_PAGES_def NUM_PT_def DIR_SIZE_def)
  then obtain mm1 where al: "mm_alloc_at 0x2000000 0x8048000 PAGE_FLAGS demo_exec = (0x8048000, mm1)" by (metis prod.collapse)
  have ok: "elf_validate (kmem demo_exec) 0x6000 = 0"
    unfolding elf_validate_def m(1) demo_ehdr_def Let_def
    by (simp add: ELF_MAGIC_def ELFCLASS32_def ELFDATA2LSB_def ET_EXEC_def EM_386_def get_bytes_def of_le32_def)
  have al': "alloc_pages 0x2000000 PAGE_FLAGS (segment_pages demo_phdr) demo_exec = ([], mm1)"
    by (simp add: demo_img_segments al)
  have "mm_get_pte 0x2000000 0 demo_exec AND MM_PRESENT \<noteq> 0" using demo_exec_img(1) by (simp add: img_in_place_def)
  from alloc_pages_mapped(1) [OF wf al' [unfolded segment_pages_def] page_aligned_page_of this refl]
  obtain fr where "mapped_pages 0x2000000 (segment_pages demo_phdr) demo_exec mm1 fr" unfolding segment_pages_def by blast
  from img_in_place_mapped [OF demo_exec_img(1) this]
  have hd1: "mem_bytes (kmem mm1) 0x6000 (length demo_img) = demo_img" by (simp add: img_in_place_def)
  note m1 = headers_in_memory(1) [OF hd1 hd(2), unfolded demo_img_parts]
  have n: "e_phnum demo_ehdr = 1" "e_entry demo_ehdr = 0x8048054" "p_type demo_phdr = PT_LOAD"
    by (simp_all add: demo_ehdr_def demo_phdr_def PT_LOAD_def)
  have "load_segments 0x6000 (0x6000 + e_phoff demo_ehdr) 0x2000000 1 mm1 = (True, mm1)"
    by (subst load_segments.simps) (simp add: m1 n)
  then have "load_segments 0x6000 (0x6000 + e_phoff demo_ehdr) 0x2000000 0 demo_exec = (True, mm1)"
    by (subst load_segments.simps) (simp add: m(1) m(3) [of 0, unfolded demo_img_parts] n al')
  then show ?thesis by (simp add: elf_load_def ok m(2) m1 n)
qed

theorem program_image_loaded_witness:
  "\<exists>mm1 mm2. elf_load 0x6000 0x2000000 demo_exec = (Some 0x8048054, mm1) \<and>
     elf_copy_segments 0x2000000 0x6000 mm1 = Some mm2 \<and>
     user_byte 0x2000000 0x8048001 mm2 = Some 0x45 \<and> user_byte 0x2000000 0x8048FFF mm2 = Some 0"
proof -
  obtain mm1 where l: "elf_load 0x6000 0x2000000 demo_exec = (Some 0x8048054, mm1)" using demo_exec_loads by blast
  have "\<forall>ph \<in> set (img_segments 0 demo_img). segment_ok (length demo_img) ph" by (simp add: demo_img_segments)
  from program_image_loaded [OF demo_exec_wf(1) demo_exec_img this l] obtain mm2 where
    c: "elf_copy_segments 0x2000000 0x6000 mm1 = Some mm2" and
    r: "\<And>j. j < unat (p_memsz demo_phdr) \<Longrightarrow> user_byte 0x2000000 (p_vaddr demo_phdr + of_nat j) mm2 =
      Some (if j < unat (p_filesz demo_phdr) then demo_img ! (unat (p_offset demo_phdr) + j) else 0)"
    by (auto simp: demo_img_segments)
  have "demo_img ! 1 = 0x45" by (simp add: demo_img_def encode_ehdr_def demo_ehdr_def)
  then show ?thesis using l c r [of 1] r [of "0xFFF"] by (auto simp: demo_phdr_def)
qed

end
