(* ===== verification/Libc_String.thy ===== *)
theory Libc_String
  imports Memory
begin

text \<open>
  The string and memory functions of the C library (\<open>libc/string/\<close>), which the kernel and the programs
  share, on byte-addressed memory. The string instructions of the processor are loops over the
  registers \<open>ecx\<close>, \<open>esi\<close> and \<open>edi\<close>. The loops that stop only at a terminator are of type \<open>option\<close>: on
  memory without one they do not return.

  The other theories describe the effect of these functions on memory directly, by
  \<^const>\<open>memcpy_mem\<close>, \<^const>\<open>zero_frame\<close> and the comparison of strings. The lemmas here justify
  that: each function computes its specification, for all addresses, lengths and alignments, as long as
  a copy does not run into its own source from below.
\<close>

section \<open>Operations\<close>

subsection \<open>Copying and filling\<close>

primrec rep_movsb :: "nat \<Rightarrow> u32 \<Rightarrow> u32 \<Rightarrow> mem \<Rightarrow> u32 \<times> u32 \<times> mem" where
  \<comment> \<open>\<open>cld; rep; movsb\<close> with \<open>ecx\<close>, \<open>edi\<close> and \<open>esi\<close>\<close>
  "rep_movsb 0 edi esi m = (edi, esi, m)"
| "rep_movsb (Suc ecx) edi esi m = rep_movsb ecx (edi + 1) (esi + 1) (m(edi := m esi))"

primrec rep_movsd :: "nat \<Rightarrow> u32 \<Rightarrow> u32 \<Rightarrow> mem \<Rightarrow> u32 \<times> u32 \<times> mem" where
  "rep_movsd 0 edi esi m = (edi, esi, m)"
| "rep_movsd (Suc ecx) edi esi m = rep_movsd ecx (edi + 4) (esi + 4) (write32 edi (read32 m esi) m)"

definition memmove :: "u32 \<Rightarrow> u32 \<Rightarrow> u32 \<Rightarrow> mem \<Rightarrow> u32 \<times> mem" where
  \<comment> \<open>the result is \<open>edi\<close>, which the instructions have moved past the copy\<close>
  "memmove dst_ptr src_ptr len m =
     (if src_ptr mod 4 = 0 \<and> dst_ptr mod 4 = 0
      then (let (edi, esi, m1) = rep_movsd (unat (drop_bit 2 len)) dst_ptr src_ptr m;
                (edi2, esi2, m2) = rep_movsb (unat (len AND 3)) edi esi m1 in (edi2, m2))
      else (let (edi, esi, m1) = rep_movsb (unat len) dst_ptr src_ptr m in (edi, m1)))"

definition memcpy :: "u32 \<Rightarrow> u32 \<Rightarrow> u32 \<Rightarrow> mem \<Rightarrow> u32 \<times> mem" where
  "memcpy dst_ptr src_ptr len m = memmove dst_ptr src_ptr len m"

definition memset_pattern :: "int \<Rightarrow> u32" where
  \<comment> \<open>the byte, four times\<close>
  "memset_pattern val =
     (let c = (ucast (word_of_int val :: u8) :: u32); c1 = push_bit 8 c OR c in push_bit 16 c1 OR c1)"

definition memset :: "u32 \<Rightarrow> int \<Rightarrow> u32 \<Rightarrow> mem \<Rightarrow> u32 \<times> mem" where
  "memset buf_ptr val len m =
     (let chunks = drop_bit 2 len;
          remanent = len mod 4;
          m1 = fold (\<lambda>i. write32 (buf_ptr + 4 * of_nat i) (memset_pattern val)) [0..<unat chunks] m in
      (buf_ptr,
       if remanent = 0 then m1
       else (let (dst_ptr, rest) = (if chunks \<noteq> 0 then (buf_ptr + push_bit 2 chunks, remanent) else (buf_ptr, len)) in
         fold (\<lambda>j m. m(dst_ptr + of_nat j := word_of_int val)) (rev [0..<unat rest]) m1)))"

subsection \<open>Comparing\<close>

definition memcmp :: "u32 \<Rightarrow> u32 \<Rightarrow> u32 \<Rightarrow> mem \<Rightarrow> int" where
  "memcmp a b len m =
     (case find (\<lambda>i. m (a + of_nat i) \<noteq> m (b + of_nat i)) [0..<unat len] of
        None \<Rightarrow> 0
      | Some i \<Rightarrow> if m (a + of_nat i) < m (b + of_nat i) then -1 else 1)"

definition char_diff :: "u8 \<Rightarrow> u8 \<Rightarrow> int" where
  "char_diff c d = int (unat c) - int (unat d)"

partial_function (option) strcmp :: "u32 \<Rightarrow> u32 \<Rightarrow> mem \<Rightarrow> int option" where
  "strcmp s1 s2 m =
     (if m s1 \<noteq> 0 \<and> m s2 \<noteq> 0 \<and> m s1 = m s2 then strcmp (s1 + 1) (s2 + 1) m
      else Some (char_diff (m s1) (m s2)))"

primrec strncmp_loop :: "nat \<Rightarrow> u32 \<Rightarrow> u32 \<Rightarrow> mem \<Rightarrow> int" where
  "strncmp_loop 0 s1 s2 m = 0"
| "strncmp_loop (Suc n) s1 s2 m =
     (if m s1 \<noteq> m s2 then char_diff (m s1) (m s2)
      else if m s1 = 0 then 0
      else strncmp_loop n (s1 + 1) (s2 + 1) m)"

definition strncmp :: "u32 \<Rightarrow> u32 \<Rightarrow> u32 \<Rightarrow> mem \<Rightarrow> int" where
  "strncmp s1 s2 n m = strncmp_loop (unat n) s1 s2 m"

subsection \<open>Terminated strings\<close>

function repne_scasb :: "u8 \<Rightarrow> u32 \<Rightarrow> u32 \<Rightarrow> mem \<Rightarrow> u32" where
  \<comment> \<open>\<open>repne scasb\<close>: \<open>ecx\<close> when the byte is found or the count has run out\<close>
  "repne_scasb al ecx edi m =
     (if ecx = 0 then 0 else if m edi = al then ecx - 1 else repne_scasb al (ecx - 1) (edi + 1) m)"
  by pat_completeness auto
termination
  by (relation "measure (\<lambda>(al, ecx, edi, m). unat ecx)") (auto simp: measure_unat)

declare repne_scasb.simps [simp del]

definition strlen :: "u32 \<Rightarrow> mem \<Rightarrow> u32" where
  "strlen s_ptr m = - repne_scasb 0 (- 1) s_ptr m - 2"

partial_function (option) strcpy_loop :: "u32 \<Rightarrow> u32 \<Rightarrow> mem \<Rightarrow> mem option" where
  "strcpy_loop dst src m =
     (let m1 = m(dst := m src) in
      if m src = 0 then Some m1 else strcpy_loop (dst + 1) (src + 1) m1)"

definition strcpy :: "u32 \<Rightarrow> u32 \<Rightarrow> mem \<Rightarrow> (u32 \<times> mem) option" where
  "strcpy dst src m = map_option (Pair dst) (strcpy_loop dst src m)"

primrec strncpy_loop :: "nat \<Rightarrow> u32 \<Rightarrow> u32 \<Rightarrow> mem \<Rightarrow> nat \<times> u32 \<times> mem" where
  \<comment> \<open>the first loop of \<open>strncpy\<close>: what is left of \<open>n\<close>, and \<open>d\<close>\<close>
  "strncpy_loop 0 d src m = (0, d, m)"
| "strncpy_loop (Suc n) d src m =
     (if m src = 0 then (Suc n, d, m) else strncpy_loop n (d + 1) (src + 1) (m(d := m src)))"

primrec strncpy_pad :: "nat \<Rightarrow> u32 \<Rightarrow> mem \<Rightarrow> mem" where
  "strncpy_pad 0 d m = m"
| "strncpy_pad (Suc n) d m = strncpy_pad n (d + 1) (m(d := 0))"

definition strncpy :: "u32 \<Rightarrow> u32 \<Rightarrow> u32 \<Rightarrow> mem \<Rightarrow> u32 \<times> mem" where
  "strncpy dest src n m =
     (let (left, d, m1) = strncpy_loop (unat n) dest src m in (dest, strncpy_pad left d m1))"

section \<open>Copying\<close>

lemma sub_less_iff:
  fixes x k n :: u32
  assumes "unat k + unat n < 2 ^ 32"
  shows "x - k < n \<longleftrightarrow> k \<le> x \<and> x < k + n"
proof -
  have "unat (k + n) = unat k + unat n" using assms by (simp add: unat_word_ariths)
  then show ?thesis using assms unsigned_less [of x, where 'a = nat] by (auto simp: word_less_nat_alt word_le_nat_alt unat_sub_if_size word_size)
qed

definition forward_ok :: "u32 \<Rightarrow> u32 \<Rightarrow> nat \<Rightarrow> bool" where
  \<comment> \<open>the destination of a copy of \<open>n\<close> bytes does not start inside its source\<close>
  "forward_ok dst src n \<longleftrightarrow> dst = src \<or> n \<le> unat (dst - src)"

lemma memcpy_mem_0 [simp]: "memcpy_mem dst src 0 m = m"
  by (simp add: memcpy_mem_def)

lemma memcpy_mem_append:
  assumes ok: "forward_ok dst src (k + n)" and n: "k + n < 2 ^ 32"
  shows "memcpy_mem (dst + of_nat k) (src + of_nat k) (of_nat n) (memcpy_mem dst src (of_nat k) m) =
    memcpy_mem dst src (of_nat (k + n)) m"
proof
  fix a
  define x where "x = a - dst"
  have u: "unat (of_nat k :: u32) = k" "unat (of_nat n :: u32) = n" using n by (simp_all add: unat_of_nat)
  have lt: "x - of_nat k < of_nat n \<longleftrightarrow> of_nat k \<le> x \<and> x < of_nat k + of_nat n" by (rule sub_less_iff) (use n u in simp)
  have e: "a - (dst + of_nat k) = x - of_nat k" "src + of_nat k + (x - of_nat k) = src + x" by (simp_all add: x_def)
  have L: "memcpy_mem (dst + of_nat k) (src + of_nat k) (of_nat n) m' a = (if x - of_nat k < of_nat n then m' (src + x) else m' a)"
    for m' by (simp only: memcpy_mem_def e)
  have R: "memcpy_mem dst src l m a = (if x < l then m (src + x) else m a)" for l by (simp add: memcpy_mem_def x_def)
  have le: "(of_nat k :: u32) \<le> of_nat k + of_nat n"
    using n u by (simp add: word_le_nat_alt unat_word_ariths)
  show "memcpy_mem (dst + of_nat k) (src + of_nat k) (of_nat n) (memcpy_mem dst src (of_nat k) m) a =
    memcpy_mem dst src (of_nat (k + n)) m a"
  proof (cases "x - of_nat k < of_nat n")
    case True
    have "memcpy_mem dst src (of_nat k) m (src + x) = m (src + x)"
    proof (cases "dst = src")
      case False
      define d where "d = dst - src"
      have d: "k + n \<le> unat d" using ok False by (simp add: forward_ok_def d_def)
      have "\<not> src + x - dst < of_nat k"
      proof
        assume "src + x - dst < of_nat k"
        then have "x - d < of_nat k" by (simp add: d_def algebra_simps)
        moreover have "k \<le> unat x" using True lt u by (simp add: word_le_nat_alt)
        moreover have "unat x < k + n" using True lt u n by (simp add: word_less_nat_alt unat_word_ariths)
        ultimately show False
          using d u n unsigned_less [of d, where 'a = nat]
          by (simp add: word_less_nat_alt unat_sub_if_size word_size split: if_splits)
      qed
      then show ?thesis by (simp add: memcpy_mem_def)
    qed (simp add: memcpy_mem_def)
    moreover have "x < of_nat k + of_nat n" using True lt by simp
    ultimately show ?thesis using True by (simp add: L R)
  next
    case False
    then have "x < of_nat k + of_nat n \<longleftrightarrow> x < of_nat k" using lt le by auto
    then show ?thesis using False by (simp add: L R)
  qed
qed

lemma store_is_copy: "m(dst := m src) = memcpy_mem dst src (of_nat 1) m"
  by (auto simp: memcpy_mem_def fun_eq_iff word_less_nat_alt unat_eq_0)

lemma rep_movsb_spec:
  assumes "forward_ok edi esi n" and "n < 2 ^ 32"
  shows "rep_movsb n edi esi m = (edi + of_nat n, esi + of_nat n, memcpy_mem edi esi (of_nat n) m)"
  using assms
proof (induction n arbitrary: edi esi m)
  case (Suc n)
  have "forward_ok (edi + 1) (esi + 1) n" using Suc.prems(1) by (auto simp: forward_ok_def)
  from Suc.IH [OF this] Suc.prems memcpy_mem_append [of edi esi 1 n m]
  show ?case by (simp add: store_is_copy algebra_simps)
qed simp

lemma le32_of_le32: "le32 (of_le32 [a, b, c, d]) = [a, b, c, d]"
  by (simp add: le32_def of_le32_def bit_eq_iff) (auto simp: bit_simps dest: bit_imp_le_length)

lemma word_less_4: "(x :: u32) < 4 \<longleftrightarrow> x = 0 \<or> x = 1 \<or> x = 2 \<or> x = 3"
proof -
  have "x < 4 \<longleftrightarrow> unat x < 4" by (simp add: word_less_nat_alt)
  also have "\<dots> \<longleftrightarrow> unat x = 0 \<or> unat x = 1 \<or> unat x = 2 \<or> unat x = 3" by linarith
  also have "\<dots> \<longleftrightarrow> x = 0 \<or> x = 1 \<or> x = 2 \<or> x = 3" by (simp add: word_unat_eq_iff)
  finally show ?thesis .
qed

lemma movsd_spec: "write32 edi (read32 m esi) m = memcpy_mem edi esi (of_nat 4) m"
proof
  fix a
  have le: "le32 (read32 m esi) = [m esi, m (esi + 1), m (esi + 2), m (esi + 3)]"
    by (simp add: read32_def le32_of_le32)
  have "a - edi < 4 \<longleftrightarrow> a = edi \<or> a = edi + 1 \<or> a = edi + 2 \<or> a = edi + 3"
    using word_less_4 [of "a - edi"] by (auto simp: diff_eq_eq add.commute)
  then show "write32 edi (read32 m esi) m a = memcpy_mem edi esi (of_nat 4) m a"
    by (auto simp: write32_def le memcpy_mem_def)
qed

lemma rep_movsd_spec:
  assumes "forward_ok edi esi (4 * n)" and "4 * n < 2 ^ 32"
  shows "rep_movsd n edi esi m = (edi + of_nat (4 * n), esi + of_nat (4 * n), memcpy_mem edi esi (of_nat (4 * n)) m)"
  using assms
proof (induction n arbitrary: edi esi m)
  case (Suc n)
  have "forward_ok (edi + 4) (esi + 4) (4 * n)" using Suc.prems(1) by (auto simp: forward_ok_def)
  from Suc.IH [OF this] Suc.prems memcpy_mem_append [of edi esi 4 "4 * n" m]
  show ?case by (simp add: movsd_spec algebra_simps)
qed simp

lemma memmove_copies:
  assumes "forward_ok dst src (unat len)"
  shows "memmove dst src len m = (dst + len, memcpy_mem dst src len m)"
proof (cases "src mod 4 = 0 \<and> dst mod 4 = 0")
  case False
  then show ?thesis
    using rep_movsb_spec [OF assms] unsigned_less [of len, where 'a = nat] by (auto simp: memmove_def)
next
  case True
  define k n where "k = unat (drop_bit 2 len)" and "n = unat (len AND 3)"
  have "len AND 3 = take_bit 2 len" by (simp add: take_bit_eq_mask mask_eq_exp_minus_1)
  then have kn: "4 * k + n = unat len" "n < 4"
    by (simp_all add: k_def n_def unat_mod take_bit_eq_mod drop_bit_eq_div unat_div)
  have "of_nat (4 * k + n) = len" unfolding kn(1) by simp
  then have len: "of_nat (4 * k) + of_nat n = len" by simp
  have b: "4 * k + n < 2 ^ 32" using kn unsigned_less [of len, where 'a = nat] by simp
  have ok: "forward_ok dst src (4 * k + n)" "forward_ok dst src (4 * k)" "forward_ok (dst + of_nat (4 * k)) (src + of_nat (4 * k)) n"
    using assms kn by (auto simp: forward_ok_def)
  have "rep_movsd k dst src m = (dst + of_nat (4 * k), src + of_nat (4 * k), memcpy_mem dst src (of_nat (4 * k)) m)"
    by (rule rep_movsd_spec [OF ok(2)]) (use b in simp)
  moreover have "rep_movsb n (dst + of_nat (4 * k)) (src + of_nat (4 * k)) (memcpy_mem dst src (of_nat (4 * k)) m) =
      (dst + len, src + len, memcpy_mem dst src len m)"
    using rep_movsb_spec [OF ok(3)] memcpy_mem_append [OF ok(1) b, of m] b kn
    by (simp add: add.assoc len del: of_nat_mult)
  ultimately show ?thesis using True by (simp add: memmove_def k_def [symmetric] n_def [symmetric])
qed

section \<open>Filling\<close>

definition fill_mem :: "u32 \<Rightarrow> u32 \<Rightarrow> u8 \<Rightarrow> mem \<Rightarrow> mem" where
  "fill_mem a n v m = (\<lambda>x. if x - a < n then v else m x)"

lemma fill_mem_0 [simp]: "fill_mem a 0 v m = m"
  by (simp add: fill_mem_def)

lemma fill_mem_append:
  assumes "k + n < 2 ^ 32"
  shows "fill_mem (a + of_nat k) (of_nat n) v (fill_mem a (of_nat k) v m) = fill_mem a (of_nat (k + n)) v m"
proof
  fix x
  have u: "unat (of_nat k :: u32) = k" "unat (of_nat n :: u32) = n" using assms by (simp_all add: unat_of_nat)
  have lt: "x - (a + of_nat k) < of_nat n \<longleftrightarrow> of_nat k \<le> x - a \<and> x - a < of_nat k + of_nat n"
    unfolding diff_diff_eq [symmetric] by (rule sub_less_iff) (use assms u in simp)
  have "(of_nat k :: u32) \<le> of_nat k + of_nat n" using assms u by (simp add: word_le_nat_alt unat_word_ariths)
  then show "fill_mem (a + of_nat k) (of_nat n) v (fill_mem a (of_nat k) v m) x = fill_mem a (of_nat (k + n)) v m x"
    using lt by (auto simp: fill_mem_def)
qed

lemma le32_memset_pattern: "le32 (memset_pattern val) = replicate 4 (word_of_int val)"
proof -
  define v :: u8 where "v = word_of_int val"
  have p: "memset_pattern val = push_bit 16 (push_bit 8 (ucast v) OR ucast v) OR (push_bit 8 (ucast v) OR ucast v)"
    by (simp add: memset_pattern_def v_def Let_def)
  have z: "\<not> bit v j" if "8 \<le> j" for j using that bit_imp_le_length [of v j] by auto
  have "ucast (memset_pattern val) = v" "ucast (drop_bit 8 (memset_pattern val)) = v"
    "ucast (drop_bit 16 (memset_pattern val)) = v" "ucast (drop_bit 24 (memset_pattern val)) = v"
    unfolding p by (rule bit_eqI; simp add: bit_simps z)+
  then show ?thesis by (simp add: le32_def v_def numeral_eq_Suc)
qed

lemma write32_pattern: "write32 a (memset_pattern val) m = fill_mem a (of_nat 4) (word_of_int val) m"
proof
  fix x
  have "x - a < 4 \<longleftrightarrow> x = a \<or> x = a + 1 \<or> x = a + 2 \<or> x = a + 3"
    using word_less_4 [of "x - a"] by (auto simp: diff_eq_eq add.commute)
  then show "write32 a (memset_pattern val) m x = fill_mem a (of_nat 4) (word_of_int val) m x"
    by (auto simp: write32_def le32_memset_pattern fill_mem_def)
qed

lemma fill_words:
  assumes "4 * n < 2 ^ 32"
  shows "fold (\<lambda>i. write32 (a + 4 * of_nat i) (memset_pattern val)) [0..<n] m = fill_mem a (of_nat (4 * n)) (word_of_int val) m"
  using assms
proof (induction n)
  case (Suc n)
  then show ?case
    using fill_mem_append [of "4 * n" 4 a "word_of_int val" m] by (simp add: write32_pattern algebra_simps)
qed simp

lemma fill_bytes_down:
  assumes "n < 2 ^ 32"
  shows "fold (\<lambda>j m. m(a + of_nat j := v)) (rev [0..<n]) m = fill_mem a (of_nat n) v m"
proof
  fix x
  have "fold (\<lambda>j m. m(a + of_nat j := v)) js m x = (if \<exists>j \<in> set js. x = a + of_nat j then v else m x)" for js m
    by (induction js arbitrary: m) auto
  moreover have "(\<exists>j < n. x = a + of_nat j) \<longleftrightarrow> x - a < of_nat n"
  proof
    assume "x - a < of_nat n"
    then have "unat (x - a) < n" using assms by (simp add: word_less_nat_alt unat_of_nat)
    moreover have "x = a + of_nat (unat (x - a))" by simp
    ultimately show "\<exists>j < n. x = a + of_nat j" by blast
  qed (use assms in \<open>auto simp: word_less_nat_alt unat_of_nat\<close>)
  ultimately show "fold (\<lambda>j m. m(a + of_nat j := v)) (rev [0..<n]) m x = fill_mem a (of_nat n) v m x"
    by (auto simp: fill_mem_def)
qed

lemma memset_fills: "memset buf val len m = (buf, fill_mem buf len (word_of_int val) m)"
proof -
  define k n where "k = unat (drop_bit 2 len)" and "n = unat (len mod 4)"
  have kn: "4 * k + n = unat len" by (simp add: k_def n_def unat_mod drop_bit_eq_div unat_div)
  have b: "4 * k + n < 2 ^ 32" using kn unsigned_less [of len, where 'a = nat] by simp
  have len: "of_nat (4 * k + n) = len" using kn by simp
  have m1: "fold (\<lambda>i. write32 (buf + 4 * of_nat i) (memset_pattern val)) [0..<k] m =
      fill_mem buf (of_nat (4 * k)) (word_of_int val) m" by (rule fill_words) (use b in simp)
  show ?thesis
  proof (cases "len mod 4 = 0")
    case True
    then have "of_nat (4 * k) = len" using len by (simp add: n_def)
    then show ?thesis using True m1 by (simp add: memset_def k_def [symmetric] Let_def)
  next
    case rest: False
    show ?thesis
    proof (cases "drop_bit 2 len = 0")
      case True
      then have "k = 0" by (simp add: k_def)
      then show ?thesis
        using rest True m1 fill_bytes_down [of "unat len" buf "word_of_int val" m] b kn by (simp add: memset_def Let_def)
    next
      case False
      have e: "push_bit 2 (drop_bit 2 len) = of_nat (4 * k)" by (simp add: k_def push_bit_eq_mult)
      show ?thesis
        using rest False m1 fill_bytes_down [of n "buf + of_nat (4 * k)" "word_of_int val"]
          fill_mem_append [OF b, of buf "word_of_int val" m] b len
        by (simp add: memset_def Let_def k_def [symmetric] n_def [symmetric] e del: of_nat_mult of_nat_add)
    qed
  qed
qed

section \<open>Copies that overlap\<close>

lemma rep_movsb_smears:
  assumes "n < 2 ^ 32"
  shows "rep_movsb n (esi + 1) esi m = (esi + 1 + of_nat n, esi + of_nat n, fill_mem (esi + 1) (of_nat n) (m esi) m)"
  using assms
proof (induction n arbitrary: esi m)
  case (Suc n)
  have one: "m(esi + 1 := m esi) = fill_mem (esi + 1) (of_nat 1) (m esi) m"
    by (auto simp: fill_mem_def fun_eq_iff word_less_nat_alt unat_eq_0)
  define m1 where "m1 = m(esi + 1 := m esi)"
  have "rep_movsb n (esi + 1 + 1) (esi + 1) m1 = (esi + 1 + 1 + of_nat n, esi + 1 + of_nat n,
      fill_mem (esi + 1 + 1) (of_nat n) (m1 (esi + 1)) m1)" by (rule Suc.IH) (use Suc.prems in simp)
  moreover have "m1 (esi + 1) = m esi" "fill_mem (esi + 1 + 1) (of_nat n) (m esi) m1 = fill_mem (esi + 1) (of_nat (Suc n)) (m esi) m"
    using fill_mem_append [of 1 n "esi + 1" "m esi" m, folded one m1_def] Suc.prems by (simp_all add: m1_def)
  moreover have "rep_movsb (Suc n) (esi + 1) esi m = rep_movsb n (esi + 1 + 1) (esi + 1) m1"
    by (simp only: rep_movsb.simps m1_def)
  ultimately show ?case by (simp add: algebra_simps)
qed simp

lemma memmove_smears: "memmove (src + 1) src len m = (src + 1 + len, fill_mem (src + 1) len (m src) m)"
proof -
  have "\<not> (src mod 4 = 0 \<and> (src + 1) mod 4 = 0)"
  proof
    assume a: "src mod 4 = 0 \<and> (src + 1) mod 4 = 0"
    have "unat (src + 1) mod 4 = (unat src + 1) mod 4"
    proof -
      have "(unat src + 1) mod 2 ^ 32 mod 4 = (unat src + 1) mod 4" by (rule mod_mod_cancel) simp
      then show ?thesis by (simp add: unat_word_ariths)
    qed
    moreover have "unat src mod 4 = 0" "unat (src + 1) mod 4 = 0"
      using a unat_mod [of src 4] unat_mod [of "src + 1" 4] by simp_all
    ultimately show False by presburger
  qed
  then show ?thesis
    using rep_movsb_smears [of "unat len" src m] unsigned_less [of len, where 'a = nat] by (auto simp: memmove_def)
qed

section \<open>Comparing\<close>

lemma memcmp_compares:
  defines "bytes \<equiv> \<lambda>m a len. mem_bytes m a (unat (len :: u32))"
  shows "memcmp a b len m = 0 \<longleftrightarrow> bytes m a len = bytes m b len"
    and "memcmp a b len m < 0 \<longleftrightarrow> ord_class.lexordp (bytes m a len) (bytes m b len)"
proof -
  let ?xs = "bytes m a len" and ?ys = "bytes m b len"
  have l: "length ?xs = unat len" "length ?ys = unat len" by (simp_all add: bytes_def)
  have n: "?xs ! i = m (a + of_nat i)" "?ys ! i = m (b + of_nat i)" if "i < unat len" for i
    using that by (simp_all add: bytes_def mem_bytes_def)
  have "(memcmp a b len m = 0 \<longleftrightarrow> ?xs = ?ys) \<and> (memcmp a b len m < 0 \<longleftrightarrow> ord_class.lexordp ?xs ?ys)"
  proof (cases "find (\<lambda>i. m (a + of_nat i) \<noteq> m (b + of_nat i)) [0..<unat len]")
    case None
    then have "?xs = ?ys" using l n by (intro nth_equalityI) (auto simp: find_upt_None_iff)
    then show ?thesis using None lexordp_irreflexive' [of ?ys] by (simp add: memcmp_def)
  next
    case (Some i)
    then have i: "i < unat len" "?xs ! i \<noteq> ?ys ! i" "\<forall>j < i. ?xs ! j = ?ys ! j"
      using n by (auto simp: find_upt_Some_iff)
    have t: "take i ?xs = take i ?ys" using i l by (intro nth_equalityI) auto
    have x: "?xs = take i ?xs @ ?xs ! i # drop (Suc i) ?xs" "?ys = take i ?xs @ ?ys ! i # drop (Suc i) ?ys"
      using i(1) l id_take_nth_drop [of i ?xs] id_take_nth_drop [of i ?ys] t by simp_all
    have "ord_class.lexordp ?xs ?ys \<longleftrightarrow> ?xs ! i < ?ys ! i"
    proof
      assume l: "ord_class.lexordp ?xs ?ys"
      show "?xs ! i < ?ys ! i"
      proof (rule ccontr)
        assume "\<not> ?xs ! i < ?ys ! i"
        then have "?ys ! i < ?xs ! i" using i(2) by simp
        then have "ord_class.lexordp ?ys ?xs"
          using lexordp_append_left_rightI [of "?ys ! i" "?xs ! i" "take i ?xs" "drop (Suc i) ?ys" "drop (Suc i) ?xs"]
          by (simp only: x [symmetric])
        then show False using lexordp_antisym [OF l] by blast
      qed
    next
      assume "?xs ! i < ?ys ! i"
      then show "ord_class.lexordp ?xs ?ys"
        using lexordp_append_left_rightI [of "?xs ! i" "?ys ! i" "take i ?xs" "drop (Suc i) ?xs" "drop (Suc i) ?ys"]
        by (simp only: x [symmetric])
    qed
    then show ?thesis using Some i n [OF i(1)] by (auto simp: memcmp_def)
  qed
  then show "memcmp a b len m = 0 \<longleftrightarrow> ?xs = ?ys" "memcmp a b len m < 0 \<longleftrightarrow> ord_class.lexordp ?xs ?ys" by blast+
qed

section \<open>Terminated strings\<close>

primrec cstr_at :: "mem \<Rightarrow> u32 \<Rightarrow> u8 list \<Rightarrow> bool" where
  \<comment> \<open>a string without its terminator lies at \<open>a\<close>\<close>
  "cstr_at m a [] \<longleftrightarrow> m a = 0"
| "cstr_at m a (b # bs) \<longleftrightarrow> b \<noteq> 0 \<and> m a = b \<and> cstr_at m (a + 1) bs"

fun str_diff :: "u8 list \<Rightarrow> u8 list \<Rightarrow> int" where
  \<comment> \<open>the difference at the first place where the strings differ\<close>
  "str_diff [] [] = 0"
| "str_diff (x # xs) [] = int (unat x)"
| "str_diff [] (y # ys) = - int (unat y)"
| "str_diff (x # xs) (y # ys) = (if x = y then str_diff xs ys else int (unat x) - int (unat y))"

lemma str_diff_order:
  assumes "0 \<notin> set xs" and "0 \<notin> set ys"
  shows "str_diff xs ys = 0 \<longleftrightarrow> xs = ys" and "str_diff xs ys < 0 \<longleftrightarrow> ord_class.lexordp xs ys"
proof -
  have pos: "0 < int (unat x)" if "x \<noteq> 0" for x :: u8
    using that unat_gt_0 [of x] by linarith
  have diff: "int (unat x) - int (unat y) = 0 \<longleftrightarrow> x = y" "int (unat x) - int (unat y) < 0 \<longleftrightarrow> x < y" for x y :: u8
    using word_unat_eq_iff [of x y] word_less_nat_alt [of x y] by linarith+
  have "(str_diff xs ys = 0 \<longleftrightarrow> xs = ys) \<and> (str_diff xs ys < 0 \<longleftrightarrow> ord_class.lexordp xs ys)"
    using assms
  proof (induction xs ys rule: str_diff.induct)
    case (4 x xs y ys)
    then show ?case using diff [of x y] by (cases "x = y") auto
  qed (use pos in force)+
  then show "str_diff xs ys = 0 \<longleftrightarrow> xs = ys" "str_diff xs ys < 0 \<longleftrightarrow> ord_class.lexordp xs ys" by blast+
qed

lemma cstr_at_no_zero: "cstr_at m a bs \<Longrightarrow> 0 \<notin> set bs"
  by (induction bs arbitrary: a) auto

lemma strlen_spec:
  assumes "cstr_at m a bs" and "length bs < 2 ^ 32 - 1"
  shows "strlen a m = of_nat (length bs)"
proof -
  have "repne_scasb 0 ecx a m = ecx - of_nat (length bs + 1)" if "cstr_at m a bs" "length bs < unat ecx" for ecx a bs
    using that
  proof (induction bs arbitrary: a ecx)
    case Nil
    then have "ecx \<noteq> 0" by auto
    then show ?case using Nil by (subst repne_scasb.simps) simp
  next
    case (Cons b bs)
    then have nz: "ecx \<noteq> 0" by auto
    then have "unat (ecx - 1) = unat ecx - 1" by (simp add: unat_minus_one)
    then have "repne_scasb 0 (ecx - 1) (a + 1) m = ecx - 1 - of_nat (length bs + 1)"
      using Cons by (intro Cons.IH) auto
    then show ?case using Cons.prems nz by (subst repne_scasb.simps) simp
  qed
  moreover have "unat (- 1 :: u32) = 2 ^ 32 - 1" by (simp add: unsigned_minus_1_eq_mask mask_eq_exp_minus_1)
  ultimately show ?thesis using assms by (simp add: strlen_def)
qed

lemma strcmp_spec: "cstr_at m a xs \<Longrightarrow> cstr_at m b ys \<Longrightarrow> strcmp a b m = Some (str_diff xs ys)"
  by (induction xs ys arbitrary: a b rule: str_diff.induct; subst strcmp.simps) (auto simp: char_diff_def)

lemma strncmp_spec:
  assumes "cstr_at m a xs" and "cstr_at m b ys"
  shows "strncmp a b n m = str_diff (take (unat n) xs) (take (unat n) ys)"
proof -
  have "strncmp_loop k a b m = str_diff (take k xs) (take k ys)" if "cstr_at m a xs" "cstr_at m b ys" for k a b xs ys
    using that
  proof (induction k arbitrary: a b xs ys)
    case (Suc k)
    then show ?case by (cases xs; cases ys) (auto simp: char_diff_def)
  qed simp
  then show ?thesis using assms by (simp add: strncmp_def)
qed

subsection \<open>Copying strings\<close>

lemma cstr_at_cong:
  assumes "\<And>i. i \<le> length bs \<Longrightarrow> m' (a + of_nat i) = m (a + of_nat i)"
  shows "cstr_at m' a bs = cstr_at m a bs"
  using assms
proof (induction bs arbitrary: a)
  case Nil
  then show ?case using Nil [of 0] by simp
next
  case (Cons b bs)
  have "m' (a + 1 + of_nat i) = m (a + 1 + of_nat i)" if "i \<le> length bs" for i
    using Cons.prems [of "Suc i"] that by (simp add: add.assoc)
  then show ?case using Cons.IH [of "a + 1"] Cons.prems [of 0] by simp
qed

lemma cstr_at_step:
  \<comment> \<open>storing the byte the copy is at does not disturb what is still to be read\<close>
  assumes "cstr_at m (src + 1) bs" and "forward_ok dst src n" and "n < 2 ^ 32" and "length bs + 1 < n"
  shows "cstr_at (m(dst := m src)) (src + 1) bs"
proof (cases "dst = src")
  case False
  have "src + 1 + of_nat i \<noteq> dst" if "i \<le> length bs" for i
  proof
    assume "src + 1 + of_nat i = dst"
    then have "dst - src = of_nat (i + 1)" by auto
    then have "unat (dst - src) = i + 1" using that assms(3,4) by (simp only: unat_of_nat) simp
    then show False using that assms(2,4) False by (simp add: forward_ok_def)
  qed
  then show ?thesis using assms(1) cstr_at_cong [of bs "m(dst := m src)" "src + 1" m] by simp
qed (use assms(1) in simp)

lemma strcpy_spec:
  assumes "cstr_at m src bs" and "forward_ok dst src (length bs + 1)" and "length bs + 1 < 2 ^ 32"
  shows "strcpy dst src m = Some (dst, memcpy_mem dst src (of_nat (length bs + 1)) m)"
proof -
  have "strcpy_loop dst src m = Some (memcpy_mem dst src (of_nat (length bs + 1)) m)"
    if "cstr_at m src bs" "forward_ok dst src (length bs + 1)" "length bs + 1 < 2 ^ 32" for dst src m bs
    using that
  proof (induction bs arbitrary: dst src m)
    case Nil
    then show ?case using store_is_copy [of m dst src] by (subst strcpy_loop.simps) simp
  next
    case (Cons b bs)
    have c: "cstr_at (m(dst := m src)) (src + 1) bs"
      using cstr_at_step [of m src bs dst "length (b # bs) + 1"] Cons.prems by simp
    have f: "forward_ok (dst + 1) (src + 1) (length bs + 1)" using Cons.prems(2) by (auto simp: forward_ok_def)
    have "strcpy_loop (dst + 1) (src + 1) (m(dst := m src)) =
        Some (memcpy_mem (dst + 1) (src + 1) (of_nat (length bs + 1)) (m(dst := m src)))"
      by (rule Cons.IH [OF c f]) (use Cons.prems(3) in simp)
    also have "\<dots> = Some (memcpy_mem (dst + of_nat 1) (src + of_nat 1) (of_nat (length bs + 1)) (memcpy_mem dst src (of_nat 1) m))"
      by (simp only: store_is_copy of_nat_1)
    also have "\<dots> = Some (memcpy_mem dst src (of_nat (1 + (length bs + 1))) m)"
      by (subst memcpy_mem_append) (use Cons.prems in simp_all)
    finally show ?case using Cons.prems(1) by (subst strcpy_loop.simps) (simp add: Let_def)
  qed
  then show ?thesis using assms by (simp add: strcpy_def)
qed

lemma cstr_at_nth: "cstr_at m a bs \<Longrightarrow> i \<le> length bs \<Longrightarrow> m (a + of_nat i) = (bs @ [0]) ! i"
proof (induction bs arbitrary: a i)
  case (Cons b bs)
  then show ?case using Cons.IH [of "a + 1" "i - 1"] by (cases i) (simp_all add: add.assoc)
qed simp

lemma copy_cstr:
  assumes "cstr_at m s bs" and "length bs + 1 < 2 ^ 32"
  shows "memcpy_mem d s (of_nat (length bs + 1)) m = write_bytes d (bs @ [0]) m"
proof
  fix x
  have "x - d < of_nat (length bs + 1) \<longleftrightarrow> unat (x - d) < length bs + 1"
    using assms(2) by (simp only: word_less_nat_alt unat_of_nat) simp
  moreover have "m (s + (x - d)) = (bs @ [0]) ! unat (x - d)" if "unat (x - d) < length bs + 1"
    using cstr_at_nth [OF assms(1), of "unat (x - d)"] that by simp
  ultimately show "memcpy_mem d s (of_nat (length bs + 1)) m x = write_bytes d (bs @ [0]) m x"
    using assms(2) write_bytes_apply [of "bs @ [0]" d m x] by (simp only: memcpy_mem_def) auto
qed

lemma write_bytes_append: "write_bytes (a + of_nat (length xs)) ys (write_bytes a xs m) = write_bytes a (xs @ ys) m"
proof (induction xs arbitrary: a m)
  case (Cons b xs)
  show ?case by (simp only: append_Cons write_bytes.simps length_Cons of_nat_Suc Cons.IH [symmetric] add.assoc)
qed simp

lemma strncpy_pad_spec: "strncpy_pad n d m = write_bytes d (replicate n 0) m"
  by (induction n arbitrary: d m) simp_all

lemma strncpy_loop_spec:
  assumes "cstr_at m src bs" and "forward_ok d src (length bs + 1)" and "length bs + 1 < 2 ^ 32"
  shows "strncpy_loop n d src m =
    (n - length (take n bs), d + of_nat (length (take n bs)), write_bytes d (take n bs) m)"
  using assms
proof (induction n arbitrary: bs d src m)
  case (Suc n)
  show ?case
  proof (cases bs)
    case (Cons b cs)
    have f: "forward_ok (d + 1) (src + 1) (length cs + 1)" using Suc.prems(2) Cons by (auto simp: forward_ok_def)
    have c: "cstr_at (m(d := m src)) (src + 1) cs"
      using cstr_at_step [of m src cs d "length bs + 1"] Suc.prems Cons by simp
    have "strncpy_loop n (d + 1) (src + 1) (m(d := m src)) = (n - length (take n cs),
        d + 1 + of_nat (length (take n cs)), write_bytes (d + 1) (take n cs) (m(d := m src)))"
      by (rule Suc.IH [OF c f]) (use Suc.prems(3) Cons in simp)
    then show ?thesis using Suc.prems(1) Cons by (simp add: algebra_simps)
  qed (use Suc.prems in simp)
qed simp

lemma strncpy_spec:
  assumes "cstr_at m src bs" and "forward_ok dest src (length bs + 1)" and "length bs + 1 < 2 ^ 32"
  shows "strncpy dest src n m =
    (dest, write_bytes dest (take (unat n) bs @ replicate (unat n - length bs) 0) m)"
proof -
  have "unat n - min (length bs) (unat n) = unat n - length bs" by simp
  then show ?thesis
    using strncpy_loop_spec [OF assms, of "unat n"] write_bytes_append [of dest "take (unat n) bs" _ m]
    by (simp add: strncpy_def strncpy_pad_spec)
qed

section \<open>Properties\<close>

text \<open>
  C39. The memory functions. Whatever the length and the alignment, \<open>memmove\<close> and \<open>memcpy\<close>, which move words when both
  addresses are aligned and bytes otherwise, copy a block whose destination does not start inside
  its source, and return the address after the copy; \<open>memset\<close> fills exactly its block; \<open>memcmp\<close> is the
  lexicographic comparison of two blocks as unsigned bytes. The copy always runs upwards: with the
  destination one byte above the source, \<open>memmove\<close> fills the block with its first byte.
\<close>
theorem memory_functions_correct:
  shows "(dst = src \<or> unat len \<le> unat (dst - src) \<longrightarrow>
      memmove dst src len m = (dst + len, memcpy_mem dst src len m) \<and>
      memcpy dst src len m = (dst + len, memcpy_mem dst src len m)) \<and>
    memset dst val len m = (dst, \<lambda>x. if x - dst < len then word_of_int val else m x) \<and>
    (memcmp dst src len m = 0 \<longleftrightarrow> mem_bytes m dst (unat len) = mem_bytes m src (unat len)) \<and>
    (memcmp dst src len m < 0 \<longleftrightarrow> ord_class.lexordp (mem_bytes m dst (unat len)) (mem_bytes m src (unat len))) \<and>
    memmove (src + 1) src len m = (src + 1 + len, \<lambda>x. if x - (src + 1) < len then m src else m x)"
  using memmove_copies [of dst src len m] memset_fills [of dst val len m] memmove_smears [of src len m]
  by (simp add: memcpy_def forward_ok_def memcmp_compares fill_mem_def)

theorem memory_functions_correct_witness:
  "memmove 0x2000 0x1000 7 (\<lambda>x. ucast x) = (0x2007, memcpy_mem 0x2000 0x1000 7 (\<lambda>x. ucast x)) \<and>
   memcpy 0x2001 0x1000 7 (\<lambda>x. ucast x) = (0x2008, memcpy_mem 0x2001 0x1000 7 (\<lambda>x. ucast x))"
  using memory_functions_correct [of "0x2000" "0x1000" 7 "\<lambda>x. ucast x"]
    memory_functions_correct [of "0x2001" "0x1000" 7 "\<lambda>x. ucast x"] by simp

text \<open>
  C40. The string functions, on strings that lie in memory with their terminator. \<open>strlen\<close> is their
  length; \<open>strcmp\<close> and \<open>strncmp\<close> return, and order the strings, or the first \<open>n\<close> bytes of them,
  lexicographically with 0 for equal ones; \<open>strcpy\<close> and \<open>strncpy\<close>, to a destination that
  does not start inside the string, return it and store the string, \<open>strcpy\<close> with its terminator and
  \<open>strncpy\<close> cut or padded with zeros to exactly \<open>n\<close> bytes.
\<close>
theorem string_functions_correct:
  assumes a: "cstr_at m s xs" and b: "cstr_at m t ys" and len: "length xs < 2 ^ 32 - 1"
    and dst: "d = s \<or> length xs < unat (d - s)"
  shows "strlen s m = of_nat (length xs) \<and>
    (\<exists>r. strcmp s t m = Some r \<and> (r = 0 \<longleftrightarrow> xs = ys) \<and> (r < 0 \<longleftrightarrow> ord_class.lexordp xs ys)) \<and>
    (strncmp s t n m = 0 \<longleftrightarrow> take (unat n) xs = take (unat n) ys) \<and>
    (strncmp s t n m < 0 \<longleftrightarrow> ord_class.lexordp (take (unat n) xs) (take (unat n) ys)) \<and>
    strcpy d s m = Some (d, write_bytes d (xs @ [0]) m) \<and>
    strncpy d s n m = (d, write_bytes d (take (unat n) xs @ replicate (unat n - length xs) 0) m)"
proof -
  have nz: "0 \<notin> set xs" "0 \<notin> set ys" using a b by (simp_all add: cstr_at_no_zero)
  then have nzt: "0 \<notin> set (take k xs)" "0 \<notin> set (take k ys)" for k by (auto dest: in_set_takeD)
  have f: "forward_ok d s (length xs + 1)" "length xs + 1 < 2 ^ 32" using dst len by (auto simp: forward_ok_def)
  show ?thesis
    using strlen_spec [OF a len] strcmp_spec [OF a b] strncmp_spec [OF a b, of n] str_diff_order [OF nz]
      str_diff_order [OF nzt] strcpy_spec [OF a f] strncpy_spec [OF a f, of n] copy_cstr [OF a f(2), of d]
    by simp
qed

theorem string_functions_correct_witness:
  "\<exists>m. strlen 0x1000 m = 2 \<and> strcmp 0x1000 0x1008 m \<noteq> Some 0 \<and> strncmp 0x1000 0x1008 1 m = 0 \<and>
    strcpy 0x2000 0x1000 m = Some (0x2000, write_bytes 0x2000 [104, 105, 0] m) \<and>
    strncpy 0x2000 0x1000 4 m = (0x2000, write_bytes 0x2000 [104, 105, 0, 0] m)"
proof -
  define m where "m = write_bytes 0x1000 [104, 105, 0] (write_bytes 0x1008 [104, 111, 0] (\<lambda>_. 0))"
  have c: "cstr_at m 0x1000 [104, 105]" "cstr_at m 0x1008 [104, 111]" by (simp_all add: m_def)
  have l: "length [104, 105 :: u8] < 2 ^ 32 - 1" "0x2000 = (0x1000 :: u32) \<or> length [104, 105 :: u8] < unat (0x2000 - 0x1000 :: u32)"
    by simp_all
  have r2: "replicate 2 x = [x, x]" for x :: u8 by (simp add: numeral_2_eq_2)
  show ?thesis
    using string_functions_correct [OF c l, of 1] string_functions_correct [OF c l, of 4] by (intro exI [of _ m]) (auto simp: r2)
qed

end
