(* ===== verification/Spec2Isabelle.thy ===== *)
theory Spec2Isabelle
  imports Ext2_Remove Sys_Proc Elf_Load Libc_String
begin

text \<open>
  A verification of homunculos, a 32-bit i386 kernel in C with its C library: tasks and a round-robin
  scheduler, signals, pipes, two-level paging, block devices and partitions, an ext2 driver and a
  device file system under a VFS, a keyboard and a console driver, an ELF loader and the system calls
  that join them. Paths are relative to \<open>src/\<close>.

  \<^bold>\<open>How the code is represented.\<close> A C function that changes state becomes a function from the state to the
  result and the new state. Unsigned C integers are words of their width; \<open>int\<close> is \<^typ>\<open>int\<close> where the code
  cannot overflow it. A pointer into a static pool is the index of the element, a null pointer is
  \<^const>\<open>None\<close>, a table of operations is a tagged value and a call through it a case distinction. An
  error the code reports (-1, or a null pointer) is an ordinary value. Where the code would not return,
  or leave its arrays, or call through a null pointer, the function returns in an \<open>option\<close> and that
  outcome is \<^const>\<open>None\<close>; a theorem that an operation works says that it is not. A call that puts the
  caller to sleep returns a blocked outcome together with the state in which another task runs.

  \<^bold>\<open>The theories.\<close>

  \<^item> \<open>Prelude\<close>, \<open>Memory\<close>: machine types, little-endian layout, byte buffers, byte-addressed memory with aligned word
    accesses; the lemma collections \<open>codec_simps\<close> and \<open>mem_simps\<close>.
  \<^item> \<open>Interfaces\<close>: the contracts several components share, as locales. \<open>fifo\<close> is interpreted on the ring of a pipe
    and of the keyboard, \<open>slot_pool\<close> on the pipe pool and the frame bitmap, \<open>sector_store\<close> on every
    block device, \<open>packed_struct\<close> on the on-disk structures of ext2, the ELF headers and \<open>struct termios\<close>.
  \<^item> \<open>Task\<close>, \<open>Scheduler\<close>, \<open>Process\<close>: \<open>kernel/task.c\<close>, \<open>arch/i386/task.c\<close>, \<open>kernel/scheduler.c\<close>. The record
    \<open>sched_state\<close> holds the task table and the run queue linked through the tasks. \<open>schedule\<close> refines an
    abstract round robin (C1) and starves nobody (C2); exit and wait (C3, C4).
  \<^item> \<open>Signal\<close>: \<open>kernel/signal.c\<close>. Delivery order (C5), a handler call and its return (C6), SIGKILL and
    SIGSTOP (C7), and what a program gains by rewriting its signal frame (C8).
  \<^item> \<open>Pipe\<close>: \<open>kernel/pipe.c\<close>. A pipe is a first-in first-out stream under every sequence of operations (C9), the
    effect of single operations (C10), a deadlock (C11).
  \<^item> \<open>Paging\<close>: \<open>arch/i386/mm.c\<close>. Directories and tables are words of memory; mapping, allocating and unmapping
    change one translation and keep directories well formed (C12 to C14).
  \<^item> \<open>Block\<close>: \<open>kernel/block.c\<close>, \<open>kernel/part.c\<close>, the transfers of \<open>drivers/ata/ata.c\<close>. Read after write (C15), device
    files confined to their partition (C16) and \<open>block_write\<close> not confined (C38), device files
    (C17, C18), partition tables (C19).
  \<^item> \<open>Vfs_Types\<close>, \<open>Vfs\<close>, \<open>Devtmpfs\<close>: \<open>kernel/vfs.c\<close>, \<open>kernel/devtmpfs.c\<close>: inode pool, mounts, path resolution, the
    path operations, directories and device nodes in memory.
  \<^item> \<open>Ext2_Layout\<close>, \<open>Ext2_Alloc\<close>, \<open>Ext2_File\<close>, \<open>Ext2_Dir\<close>, \<open>Ext2_Ops\<close>: the whole of \<open>kernel/ext2.c\<close> with its shared
    block buffer. \<open>Ext2_Store\<close> to \<open>Ext2_Remove\<close> hold its lemmas: on a healthy volume (\<open>vol_ok\<close>) the driver sees an
    array of blocks; inode table (C20), block allocator (C21 to C23), file data (C24), directories as
    association lists (C25, C26), and where the driver goes wrong (C27 to C29). \<open>Ext2_Example\<close> is a
    concrete volume for the instances.
  \<^item> \<open>Paths\<close>: \<open>normalize_path\<close> and \<open>build_abs_path\<close> of \<open>kernel/syscall.c\<close>; the in-place rewriting equals the
    resolution of the components (C30).
  \<^item> \<open>Keyboard\<close>, \<open>Vga\<close>: \<open>drivers/ps2/kbd.c\<close>, \<open>drivers/vga/text.c\<close>, each a refinement of an abstract device (C31, C32).
  \<^item> \<open>Files\<close>: the record \<open>kernel_state\<close> that holds all components, the operations of open files and the
    small drivers; \<open>Sys_File\<close>, \<open>Sys_Mem\<close>, \<open>Sys_Proc\<close>: the system calls of \<open>kernel/syscall.c\<close>, with \<open>task_fork\<close>. Memory areas and
    mappings (C33 to C35), reference counts of open files under all calls that touch descriptors (C36).
  \<^item> \<open>Elf\<close>, \<open>Elf_Load\<close>: \<open>kernel/elf.c\<close>. A loaded program finds its file in its address space (C37).
  \<^item> \<open>Libc_String\<close>: \<open>libc/string/\<close>. The word and byte loops compute the copies, fills and comparisons that the
    other theories use directly (C39, C40).

  The components are stacked as in the code. A system call finds the current task in \<open>ksched\<close>, its descriptors
  in the task, the open file in the VFS state, and through its tag the file system, pipe or driver;
  the file systems use the block layer, and that the disks. Exit, wait, pipes and signals meet in the scheduler.

  \<^bold>\<open>Loops.\<close> Bounded loops are structural recursion or a \<open>function\<close> with a measure, so no fuel is used. Loops that
  may run forever, because of a cyclic run queue, a zero record length, or a string without a
  terminator, are \<open>partial_function\<close>s, and that they return on well-formed data is proved (C1, C25, C26, C40)
  or that they do not (C28).

  \<^bold>\<open>Assumptions.\<close> The disks are a map from drive and sector to 512 bytes or no answer. Addresses chosen by the linker are
  parameters. User memory is an argument of the operations that read or write it, under the page directory of
  the task where the directory matters (\<open>Elf\<close>). Operations of the kernel run one after the other: the code
  runs its system calls on one processor, and what an interrupt does, the timer tick and the
  keyboard handler, is an operation of its own between them.

  \<^bold>\<open>Not modelled.\<close> The start-up sequence \<open>kernel/kernel.c\<close> and the registration functions of the drivers, which run
  once before the first task; the theorems start from any state that satisfies the invariants. The entry code and
  tables for the processor (\<open>isrs.S\<close>, \<open>context_switch.S\<close>, \<open>interrupts.c\<close>, \<open>gdt.c\<close>): the switch of stacks is the new current
  task, and the stack contents it restores are those of \<open>Task\<close>. Port input and output (\<open>pic.c\<close>, \<open>pit.c\<close>, \<open>pio.c\<close>,
  the handshakes of the ATA and PS/2 drivers, power off). Formatting, the environment and the trap
  stubs of the C library, and the user programs. Timing, and the invalidation of cached translations.
\<close>

end
